(* ===== verification/Prelude.thy ===== *)
theory Prelude
  imports Main "HOL-Library.Word" "HOL-Library.List_Lexorder"
begin

text \<open>
  Shared vocabulary of the sneakernet development: the types that stand for Go's
  \<^verbatim>\<open>byte\<close>, \<^verbatim>\<open>[]byte\<close>, \<^verbatim>\<open>string\<close>, \<^verbatim>\<open>int64\<close>
  and \<^verbatim>\<open>time.Time\<close>, the named collections that the component theories fill, and
  the generic facts on lists, sorted lists, sums and machine integers they share.

  Go's \<^verbatim>\<open>int\<close> and \<^verbatim>\<open>int64\<close> are values of type \<open>int\<close>; every place where a
  64-bit result can leave its range goes through \<open>wrap64\<close>.  Fixed arrays
  \<^verbatim>\<open>[n]byte\<close> are byte lists whose length is stated by the well-formedness
  predicates of the components.  A \<^verbatim>\<open>time.Time\<close> is a number of nanoseconds since
  the Unix epoch.
\<close>

unbundle bit_operations_syntax

section \<open>Collections\<close>

named_theorems codec_simps \<open>round trips and lengths of the byte encodings\<close>
named_theorems size_simps \<open>constant sizes of the on-disk and wire layouts\<close>

section \<open>Types\<close>

type_synonym byte = "8 word"
type_synonym bytes = "byte list"
type_synonym u32 = "32 word"
type_synonym u64 = "64 word"
type_synonym time = int

section \<open>Machine integers\<close>

definition wrap64 :: "int \<Rightarrow> int" where
  "wrap64 i = sint (word_of_int i :: u64)"

definition in_int64 :: "int \<Rightarrow> bool" where
  "in_int64 i \<longleftrightarrow> - (2 ^ 63) \<le> i \<and> i < 2 ^ 63"

lemma wrap64_id [simp]: "in_int64 i \<Longrightarrow> wrap64 i = i"
  by (simp add: wrap64_def in_int64_def signed_of_int signed_take_bit_int_eq_self)

lemma wrap64_range [simp]: "in_int64 (wrap64 i)"
  unfolding wrap64_def in_int64_def
  using sint_greater_eq [of "word_of_int i :: u64"] sint_less [of "word_of_int i :: u64"]
  by simp

lemma in_int64_small: "- 9223372036854775808 \<le> i \<Longrightarrow> i < 9223372036854775808 \<Longrightarrow> in_int64 i"
  by (simp add: in_int64_def)

text \<open>Go's integer division truncates towards zero.\<close>

definition go_div :: "int \<Rightarrow> int \<Rightarrow> int" where
  "go_div a b = sgn a * sgn b * (\<bar>a\<bar> div \<bar>b\<bar>)"

lemma go_div_nonneg: "0 \<le> a \<Longrightarrow> 0 < b \<Longrightarrow> go_div a b = a div b"
  by (auto simp: go_div_def sgn_if)

section \<open>Time\<close>

text \<open>\<open>Unix t\<close> is the method \<^verbatim>\<open>time.Time.Unix\<close>: whole seconds, rounded down.
  \<open>zeroTime\<close> is the zero value \<^verbatim>\<open>time.Time{}\<close>, the first instant of year 1.\<close>

definition nsPerSec :: int where
  "nsPerSec = 1000000000"

definition Unix :: "time \<Rightarrow> int" where
  "Unix t = t div nsPerSec"

definition timeUnix :: "int \<Rightarrow> time" where
  "timeUnix s = s * nsPerSec"

definition zeroTime :: time where
  "zeroTime = - 62135596800 * nsPerSec"

lemma Unix_timeUnix [simp]: "Unix (timeUnix s) = s"
  by (simp add: Unix_def timeUnix_def nsPerSec_def)

lemma Unix_mono: "a \<le> b \<Longrightarrow> Unix a \<le> Unix b"
  by (simp add: Unix_def nsPerSec_def zdiv_mono1)

lemma Unix_zeroTime [simp]: "Unix zeroTime = - 62135596800"
  by (simp add: Unix_def zeroTime_def nsPerSec_def)

section \<open>Sums and options\<close>

fun sum_bind :: "'e + 'a \<Rightarrow> ('a \<Rightarrow> 'e + 'b) \<Rightarrow> 'e + 'b" where
  "sum_bind (Inl e) f = Inl e"
| "sum_bind (Inr a) f = f a"

lemma sum_bind_Inr_iff: "sum_bind r f = Inr b \<longleftrightarrow> (\<exists>a. r = Inr a \<and> f a = Inr b)"
  by (cases r) auto

text \<open>A loop over a list whose body may return early (\<open>Inl\<close>).\<close>

fun efold :: "('a \<Rightarrow> 'b \<Rightarrow> 'e + 'b) \<Rightarrow> 'a list \<Rightarrow> 'b \<Rightarrow> 'e + 'b" where
  "efold f [] acc = Inr acc"
| "efold f (x # xs) acc = sum_bind (f x acc) (efold f xs)"

lemma efold_append: "efold f (xs @ ys) acc = sum_bind (efold f xs acc) (efold f ys)"
proof (induction xs arbitrary: acc)
  case (Cons x xs)
  then show ?case by (cases "f x acc") simp_all
qed simp

lemma efold_map: "efold f (map g xs) acc = efold (\<lambda>x. f (g x)) xs acc"
proof (induction xs arbitrary: acc)
  case (Cons x xs)
  then show ?case by (cases "f (g x) acc") simp_all
qed simp

lemma efold_Inr [simp]: "efold (\<lambda>x acc. Inr (f x acc)) xs acc = Inr (fold f xs acc)"
  by (induction xs arbitrary: acc) simp_all

lemma efold_keeps:
  assumes "\<And>x acc. P acc \<Longrightarrow> (case f x acc of Inl r \<Rightarrow> Q r | Inr acc' \<Rightarrow> P acc')" "P acc"
  shows "case efold f xs acc of Inl r \<Rightarrow> Q r | Inr acc' \<Rightarrow> P acc'"
  using assms(2)
proof (induction xs arbitrary: acc)
  case (Cons x xs)
  then show ?case using assms(1) [OF Cons.prems, of x] by (cases "f x acc") auto
qed simp

section \<open>Lists\<close>

text \<open>Go slices: \<open>slice i j xs\<close> is \<^verbatim>\<open>xs[i:j]\<close> for bounds inside the list.\<close>

definition slice :: "nat \<Rightarrow> nat \<Rightarrow> 'a list \<Rightarrow> 'a list" where
  "slice i j xs = take (j - i) (drop i xs)"

lemma length_slice [simp]: "length (slice i j xs) = min (j - i) (length xs - i)"
  by (simp add: slice_def min.commute)

lemma slice_append_left: "j \<le> length xs \<Longrightarrow> slice i j (xs @ ys) = slice i j xs"
  by (cases "i \<le> length xs") (simp_all add: slice_def)

lemma slice_append_right:
  "length xs \<le> i \<Longrightarrow> slice i j (xs @ ys) = slice (i - length xs) (j - length xs) ys"
  by (auto simp: slice_def)

lemma slice_all: "length xs \<le> j \<Longrightarrow> slice 0 j xs = xs"
  by (simp add: slice_def)

lemma slice_Cons: "0 < i \<Longrightarrow> slice i j (x # xs) = slice (i - 1) (j - 1) xs"
  by (cases i; cases j) (auto simp: slice_def)

text \<open>Writing a field of a fixed buffer, the effect of \<^verbatim>\<open>copy(buf[i:], v)\<close> when
  \<open>v\<close> fits.\<close>

definition poke :: "nat \<Rightarrow> 'a list \<Rightarrow> 'a list \<Rightarrow> 'a list" where
  "poke i v xs = take i xs @ v @ drop (i + length v) xs"

lemma length_poke [simp]: "i + length v \<le> length xs \<Longrightarrow> length (poke i v xs) = length xs"
  by (simp add: poke_def)

lemma takeWhile_sorted_filter:
  assumes "sorted_wrt R xs" "\<And>x y. R x y \<Longrightarrow> P y \<Longrightarrow> P x"
  shows "takeWhile P xs = filter P xs"
  using assms(1)
proof (induction xs)
  case (Cons x xs)
  show ?case
  proof (cases "P x")
    case False
    have "\<not> P y" if "y \<in> set xs" for y
      using Cons.prems that False assms(2) by auto
    then show ?thesis using False by (simp add: filter_empty_conv)
  qed (use Cons in auto)
qed simp

lemma dropWhile_sorted_filter:
  assumes "sorted_wrt R xs" "\<And>x y. R x y \<Longrightarrow> P y \<Longrightarrow> P x"
  shows "dropWhile P xs = filter (\<lambda>x. \<not> P x) xs"
  using assms(1)
proof (induction xs)
  case (Cons x xs)
  show ?case
  proof (cases "P x")
    case False
    have "\<not> P y" if "y \<in> set xs" for y
      using Cons.prems that False assms(2) by auto
    then show ?thesis using False by (simp add: filter_id_conv)
  qed (use Cons in auto)
qed simp

lemma sorted_wrt_mset_unique:
  assumes "sorted_wrt R xs" "sorted_wrt R ys" "set xs = set ys"
    and "\<And>x y. R x y \<Longrightarrow> \<not> R y x" 
  shows "xs = ys"
  using assms(1-3)
proof (induction xs arbitrary: ys)
  case (Cons x xs)
  then obtain y ys' where ys: "ys = y # ys'" by (cases ys) auto
  have "x = y"
  proof (rule ccontr)
    assume ne: "x \<noteq> y"
    with Cons.prems(3) ys have "y \<in> set xs" "x \<in> set ys'" by auto
    with Cons.prems(1,2) ys have "R x y" "R y x" by auto
    with assms(4) show False by blast
  qed
  moreover have "set xs = set ys'"
  proof -
    have "x \<notin> set xs" "y \<notin> set ys'"
      using Cons.prems(1,2) ys assms(4) by auto
    then show ?thesis using Cons.prems(3) ys \<open>x = y\<close> by auto
  qed
  ultimately show ?case using Cons.IH [of ys'] Cons.prems(1,2) ys by simp
qed simp

lemma last_filter_greater:
  assumes "sorted_wrt (<) (map f xs)" "x \<in> set xs"
  shows "length (filter (\<lambda>e. f x < (f e :: 'b :: linorder)) xs) < length xs"
  using assms(2) by (auto intro: length_filter_less)

end
