(* ===== verification/GoLib.thy ===== *)
theory GoLib
  imports Prelude
begin

text \<open>
  The parts of Go's standard library that the sources use, as executable definitions:
  \<^verbatim>\<open>encoding/binary\<close> (big and little endian), \<^verbatim>\<open>bytes.Compare\<close>,
  \<^verbatim>\<open>math/bits.LeadingZeros8\<close>, \<^verbatim>\<open>encoding/hex\<close>, \<^verbatim>\<open>encoding/base64\<close>
  (RawURLEncoding and StdEncoding), the few functions of \<^verbatim>\<open>strings\<close> and
  \<^verbatim>\<open>bytes\<close>, and \<^verbatim>\<open>sort.Slice\<close>.  Go strings are byte sequences, so a
  \<open>string\<close> (a list of 8-bit characters) models them exactly.
\<close>

section \<open>Fixed-width integers as bytes\<close>

fun be_enc :: "nat \<Rightarrow> nat \<Rightarrow> bytes" where
  "be_enc 0 x = []"
| "be_enc (Suc n) x = of_nat (x div 256 ^ n) # be_enc n x"

fun be_dec_acc :: "nat \<Rightarrow> bytes \<Rightarrow> nat" where
  "be_dec_acc a [] = a"
| "be_dec_acc a (b # bs) = be_dec_acc (a * 256 + unat b) bs"

definition be_dec :: "bytes \<Rightarrow> nat" where
  "be_dec bs = be_dec_acc 0 bs"

lemma unat_byte_lt [simp]: "unat (b :: byte) < 256"
  using unsigned_less [of b] by simp

lemma be_dec_acc_eq: "be_dec_acc a bs = a * 256 ^ length bs + be_dec bs"
proof (induction bs arbitrary: a)
  case (Cons b bs)
  have "be_dec_acc a (b # bs) = (a * 256 + unat b) * 256 ^ length bs + be_dec bs"
    using Cons.IH by simp
  moreover have "be_dec (b # bs) = unat b * 256 ^ length bs + be_dec bs"
    using Cons.IH [of "unat b"] by (simp add: be_dec_def)
  ultimately show ?case by (simp add: algebra_simps)
qed (simp add: be_dec_def)

lemma be_dec_Nil [simp]: "be_dec [] = 0"
  by (simp add: be_dec_def)

lemma be_dec_Cons [simp]: "be_dec (b # bs) = unat b * 256 ^ length bs + be_dec bs"
  by (simp add: be_dec_def be_dec_acc_eq [of "unat b"])

lemma be_dec_lt: "be_dec bs < 256 ^ length bs"
proof (induction bs)
  case (Cons b bs)
  have "unat b * 256 ^ length bs \<le> 255 * 256 ^ length bs"
    using unat_byte_lt [of b] by (intro mult_le_mono1) linarith
  then show ?case using Cons unfolding be_dec_Cons length_Cons power_Suc by linarith
qed simp

lemma length_be_enc [simp, codec_simps]: "length (be_enc n x) = n"
  by (induction n) auto

lemma be_dec_enc_mod: "be_dec (be_enc n x) = x mod 256 ^ n"
proof (induction n)
  case (Suc n)
  have "unat (of_nat (x div 256 ^ n) :: byte) = x div 256 ^ n mod 256"
    by (simp add: unat_of_nat)
  then show ?case using Suc
    by (simp add: mod_mult2_eq mult.commute [of 256])
qed simp

lemma be_dec_enc [codec_simps]: "x < 256 ^ n \<Longrightarrow> be_dec (be_enc n x) = x"
  by (simp add: be_dec_enc_mod)

lemma of_nat_byte_256 [simp]: "of_nat (256 * k) = (0 :: byte)"
proof -
  have "(of_nat (256 * k) :: byte) = of_nat 256 * of_nat k" by (simp only: of_nat_mult)
  also have "(of_nat 256 :: byte) = 0" by simp
  finally show ?thesis by simp
qed

lemma be_enc_add: "n \<le> m \<Longrightarrow> be_enc n (x + a * 256 ^ m) = be_enc n x"
proof (induction n)
  case (Suc n)
  define k where "k = m - Suc n"
  have m: "(256::nat) ^ m = 256 ^ n * (256 * 256 ^ k)"
    using Suc.prems by (simp add: k_def flip: power_add power_Suc)
  have e: "x + a * 256 ^ m = x + 256 * (a * 256 ^ k) * 256 ^ n"
    unfolding m by (simp add: ac_simps)
  have "(x + a * 256 ^ m) div 256 ^ n = x div 256 ^ n + 256 * (a * 256 ^ k)"
    unfolding e by (subst div_mult_self1) simp_all
  then have "(of_nat ((x + a * 256 ^ m) div 256 ^ n) :: byte) = of_nat (x div 256 ^ n)"
    by (simp only: of_nat_add of_nat_byte_256 add_0_right)
  with Suc show ?case by simp
qed simp

lemma be_enc_dec [codec_simps]: "length bs = n \<Longrightarrow> be_enc n (be_dec bs) = bs"
proof (induction bs arbitrary: n)
  case (Cons b bs)
  then have n: "n = Suc (length bs)" by simp
  have "(unat b * 256 ^ length bs + be_dec bs) div 256 ^ length bs = unat b"
    using be_dec_lt [of bs] by simp
  moreover have "be_enc (length bs) (be_dec bs + unat b * 256 ^ length bs) = bs"
    using Cons.IH by (simp add: be_enc_add)
  ultimately show ?case by (simp add: n add.commute)
qed simp

lemma be_dec_inj: "length as = length bs \<Longrightarrow> be_dec as = be_dec bs \<Longrightarrow> as = bs"
  by (metis be_enc_dec)

text \<open>On lists of one length, lexicographic order is the order of the encoded numbers.\<close>

lemma be_dec_less_iff:
  "length as = length bs \<Longrightarrow> as < bs \<longleftrightarrow> be_dec as < be_dec bs"
proof (induction as bs rule: list_induct2)
  case (Cons a as b bs)
  let ?P = "256 ^ length bs :: nat"
  have lt: "be_dec as < ?P" "be_dec bs < ?P"
    using be_dec_lt [of as] be_dec_lt [of bs] Cons.hyps by simp_all
  have step: "u * ?P + be_dec as < v * ?P + be_dec bs" if "u < v" for u v
  proof -
    have "u * ?P + ?P \<le> v * ?P" using that mult_le_mono1 [of "Suc u" v ?P] by simp
    with lt show ?thesis by linarith
  qed
  have step': "v * ?P + be_dec bs < u * ?P + be_dec as" if "v < u" for u v
  proof -
    have "v * ?P + ?P \<le> u * ?P" using that mult_le_mono1 [of "Suc v" u ?P] by simp
    with lt show ?thesis by linarith
  qed
  consider "unat a < unat b" | "unat a = unat b" | "unat b < unat a" by linarith
  then show ?case
  proof cases
    case 1
    then show ?thesis using step [of "unat a" "unat b"] Cons.hyps
      by (simp add: word_less_nat_alt)
  next
    case 2
    then have "a = b" by (simp add: word_unat_eq_iff)
    then show ?thesis using Cons by simp
  next
    case 3
    then show ?thesis using step' [of "unat b" "unat a"] Cons.hyps
      by (auto simp: word_less_nat_alt)
  qed
qed simp

definition PutUint32 :: "u32 \<Rightarrow> bytes" where
  "PutUint32 v = be_enc 4 (unat v)"

definition PutUint64 :: "u64 \<Rightarrow> bytes" where
  "PutUint64 v = be_enc 8 (unat v)"

definition Uint32 :: "bytes \<Rightarrow> u32" where
  "Uint32 bs = of_nat (be_dec (take 4 bs))"

definition Uint64 :: "bytes \<Rightarrow> u64" where
  "Uint64 bs = of_nat (be_dec (take 8 bs))"

definition LePutUint16 :: "16 word \<Rightarrow> bytes" where
  "LePutUint16 v = rev (be_enc 2 (unat v))"

definition LePutUint64 :: "u64 \<Rightarrow> bytes" where
  "LePutUint64 v = rev (be_enc 8 (unat v))"

definition LeUint16 :: "bytes \<Rightarrow> 16 word" where
  "LeUint16 bs = of_nat (be_dec (rev (take 2 bs)))"

definition LeUint64 :: "bytes \<Rightarrow> u64" where
  "LeUint64 bs = of_nat (be_dec (rev (take 8 bs)))"

lemma length_Put [simp, codec_simps]:
  "length (PutUint32 v) = 4" "length (PutUint64 w) = 8"
  "length (LePutUint16 x) = 2" "length (LePutUint64 w) = 8"
  by (simp_all add: PutUint32_def PutUint64_def LePutUint16_def LePutUint64_def)

lemma unat_u32_lt: "unat (v :: u32) < 256 ^ 4"
  using unsigned_less [of v] by simp

lemma unat_u64_lt: "unat (v :: u64) < 256 ^ 8"
  using unsigned_less [of v] by simp

lemma unat_u16_lt: "unat (v :: 16 word) < 256 ^ 2"
  using unsigned_less [of v] by simp

lemma Uint32_Put [simp, codec_simps]: "Uint32 (PutUint32 v) = v"
  by (simp add: Uint32_def PutUint32_def be_dec_enc [OF unat_u32_lt])

lemma Uint64_Put [simp, codec_simps]: "Uint64 (PutUint64 v) = v"
  by (simp add: Uint64_def PutUint64_def be_dec_enc [OF unat_u64_lt])

lemma LeUint16_Put [simp, codec_simps]: "LeUint16 (LePutUint16 v) = v"
  by (simp add: LeUint16_def LePutUint16_def be_dec_enc [OF unat_u16_lt])

lemma LeUint64_Put [simp, codec_simps]: "LeUint64 (LePutUint64 v) = v"
  by (simp add: LeUint64_def LePutUint64_def be_dec_enc [OF unat_u64_lt])

lemma PutUint64_Uint64 [codec_simps]: "length bs = 8 \<Longrightarrow> PutUint64 (Uint64 bs) = bs"
proof -
  assume l: "length bs = 8"
  then have "be_dec bs < 2 ^ 64" using be_dec_lt [of bs] by simp
  then have "unat (of_nat (be_dec bs) :: u64) = be_dec bs"
    by (simp add: unat_of_nat)
  then show ?thesis using l by (simp add: PutUint64_def Uint64_def be_enc_dec)
qed

lemma PutUint32_Uint32 [codec_simps]: "length bs = 4 \<Longrightarrow> PutUint32 (Uint32 bs) = bs"
proof -
  assume l: "length bs = 4"
  then have "be_dec bs < 2 ^ 32" using be_dec_lt [of bs] by simp
  then have "unat (of_nat (be_dec bs) :: u32) = be_dec bs"
    by (simp add: unat_of_nat)
  then show ?thesis using l by (simp add: PutUint32_def Uint32_def be_enc_dec)
qed

lemma PutUint64_inj: "PutUint64 v = PutUint64 w \<Longrightarrow> v = w"
  by (metis Uint64_Put)

text \<open>\<^verbatim>\<open>int64(uint64(i))\<close> and \<^verbatim>\<open>int(uint32(i))\<close>.\<close>

lemma sint_word_of_int64 [simp]: "in_int64 i \<Longrightarrow> sint (word_of_int i :: u64) = i"
  using wrap64_id by (simp add: wrap64_def)

lemma uint_word_of_int32 [simp]: "0 \<le> i \<Longrightarrow> i < 2 ^ 32 \<Longrightarrow> uint (word_of_int i :: u32) = i"
  by (simp add: uint_word_of_int)

lemma in_int64_sint [simp]: "in_int64 (sint (w :: u64))"
  using sint_greater_eq [of w] sint_less [of w] by (simp add: in_int64_def)

lemma word_nonneg_unat:
  "0 \<le> c \<Longrightarrow> in_int64 c \<Longrightarrow> unat (word_of_int c :: u64) = nat c"
  by (simp add: in_int64_def unsigned_of_int take_bit_int_eq_self)

lemma be_dec_PutUint64 [simp]: "be_dec (PutUint64 v) = unat v"
  by (simp add: PutUint64_def be_dec_enc [OF unat_u64_lt])

lemma append_less_iff:
  "length as = length bs \<Longrightarrow> as @ (x :: 'a :: linorder list) < bs @ y \<longleftrightarrow> as < bs \<or> as = bs \<and> x < y"
  by (induction as bs rule: list_induct2) auto


section \<open>bytes.Compare and LeadingZeros8\<close>

fun bytes_Compare :: "bytes \<Rightarrow> bytes \<Rightarrow> int" where
  "bytes_Compare [] [] = 0"
| "bytes_Compare [] (b # bs) = -1"
| "bytes_Compare (a # as) [] = 1"
| "bytes_Compare (a # as) (b # bs) =
     (if a < b then -1 else if b < a then 1 else bytes_Compare as bs)"

lemma bytes_Compare_less: "bytes_Compare as bs < 0 \<longleftrightarrow> as < bs"
  by (induction as bs rule: bytes_Compare.induct) auto

lemma bytes_Compare_eq: "bytes_Compare as bs = 0 \<longleftrightarrow> as = bs"
  by (induction as bs rule: bytes_Compare.induct) auto

lemma bytes_Compare_le: "bytes_Compare as bs \<le> 0 \<longleftrightarrow> as \<le> bs"
  using bytes_Compare_less [of as bs] bytes_Compare_eq [of as bs] by auto

text \<open>\<open>LeadingZeros8 b\<close> is 8 less the bit length of \<open>b\<close>.\<close>

fun bitLen :: "nat \<Rightarrow> nat" where
  "bitLen n = (if n = 0 then 0 else Suc (bitLen (n div 2)))"

declare bitLen.simps [simp del]

definition LeadingZeros8 :: "byte \<Rightarrow> nat" where
  "LeadingZeros8 b = 8 - bitLen (unat b)"

lemma bitLen_le: "n < 2 ^ k \<Longrightarrow> bitLen n \<le> k"
proof (induction n arbitrary: k rule: bitLen.induct)
  case (1 n)
  show ?case
  proof (cases "n = 0")
    case False
    with "1.prems" obtain j where k: "k = Suc j" by (cases k) auto
    have "bitLen (n div 2) \<le> j" using "1.IH" [OF False, of j] "1.prems" k by simp
    then show ?thesis using k False by (simp add: bitLen.simps [of n])
  qed (simp add: bitLen.simps)
qed

lemma bitLen_ge: "2 ^ k \<le> n \<Longrightarrow> k < bitLen n"
proof (induction n arbitrary: k rule: bitLen.induct)
  case (1 n)
  have n: "n \<noteq> 0" using "1.prems" by (metis le_zero_eq power_not_zero zero_neq_numeral)
  show ?case
  proof (cases k)
    case 0
    then show ?thesis using n by (simp add: bitLen.simps [of n])
  next
    case (Suc j)
    then have "j < bitLen (n div 2)" using "1.IH" [OF n, of j] "1.prems" by simp
    then show ?thesis using Suc n by (simp add: bitLen.simps [of n])
  qed
qed

lemma bitLen_le_iff: "bitLen n \<le> k \<longleftrightarrow> n < 2 ^ k"
  using bitLen_le [of n k] bitLen_ge [of k n] by linarith

lemma LeadingZeros8_ge_iff: "k \<le> 8 \<Longrightarrow> k \<le> LeadingZeros8 b \<longleftrightarrow> unat b < 2 ^ (8 - k)"
  using bitLen_le [of "unat b" 8] bitLen_le_iff [of "unat b" "8 - k"]
  by (auto simp: LeadingZeros8_def)

lemma LeadingZeros8_le: "LeadingZeros8 b \<le> 8"
  by (simp add: LeadingZeros8_def)

lemma LeadingZeros8_eq_8: "LeadingZeros8 b = 8 \<longleftrightarrow> b = 0"
  using LeadingZeros8_ge_iff [of 8 b] LeadingZeros8_le [of b]
  by (simp add: unat_eq_0 antisym_conv) 

end
