(* ===== verification/Codecs.thy ===== *)
theory Codecs
  imports GoLib
begin

text \<open>
  Go's text encodings of byte strings: \<^verbatim>\<open>encoding/hex\<close> and
  \<^verbatim>\<open>encoding/base64\<close> with the two encodings the sources use, RawURLEncoding
  (URL alphabet, no padding) and StdEncoding (padded), both in their non-strict form:
  the decoder skips carriage returns and line feeds and ignores surplus low bits.  The
  main facts are the round trips \<open>hex_Decode_Encode\<close>, \<open>b64_Decode_Encode\<close>
  and \<open>b64s_Decode_Encode\<close>.
\<close>

section \<open>Strings and bytes\<close>

definition string_of_bytes :: "bytes \<Rightarrow> string" where
  "string_of_bytes bs = map (\<lambda>b. char_of (unat b)) bs"

definition bytes_of_string :: "string \<Rightarrow> bytes" where
  "bytes_of_string s = map (\<lambda>c. of_nat (of_char c)) s"

lemma bytes_of_string_of_bytes [simp, codec_simps]: "bytes_of_string (string_of_bytes bs) = bs"
  by (induction bs) (simp_all add: bytes_of_string_def string_of_bytes_def of_char_of take_bit_eq_mod)

lemma string_of_bytes_of_string [simp, codec_simps]: "string_of_bytes (bytes_of_string s) = s"
proof -
  have "char_of (unat (of_nat (of_char c) :: byte)) = c" for c
  proof -
    have "unat (of_nat (of_char c) :: byte) = of_char c" by (simp add: unat_of_nat)
    then show ?thesis by simp
  qed
  then show ?thesis by (induction s) (simp_all add: bytes_of_string_def string_of_bytes_def)
qed

lemma length_bytes_of_string [simp]: "length (bytes_of_string s) = length s"
  by (simp add: bytes_of_string_def)

lemma length_string_of_bytes [simp]: "length (string_of_bytes s) = length s"
  by (simp add: string_of_bytes_def)

section \<open>Hexadecimal\<close>

definition hexChar :: "nat \<Rightarrow> char" where
  "hexChar n = char_of (if n < 10 then 48 + n else 87 + n)"

definition fromHexChar :: "char \<Rightarrow> nat option" where
  "fromHexChar c =
     (let n = of_char c :: nat in
      if 48 \<le> n \<and> n \<le> 57 then Some (n - 48)
      else if 97 \<le> n \<and> n \<le> 102 then Some (n - 97 + 10)
      else if 65 \<le> n \<and> n \<le> 70 then Some (n - 65 + 10)
      else None)"

fun hex_Encode :: "bytes \<Rightarrow> string" where
  "hex_Encode [] = []"
| "hex_Encode (b # bs) = hexChar (unat b div 16) # hexChar (unat b mod 16) # hex_Encode bs"

fun hex_Decode :: "string \<Rightarrow> bytes option" where
  "hex_Decode [] = Some []"
| "hex_Decode [c] = None"
| "hex_Decode (c # d # cs) =
     (case (fromHexChar c, fromHexChar d) of
        (Some x, Some y) \<Rightarrow> map_option (\<lambda>bs. of_nat (16 * x + y) # bs) (hex_Decode cs)
      | _ \<Rightarrow> None)"

lemma fromHexChar_hexChar [simp]: "n < 16 \<Longrightarrow> fromHexChar (hexChar n) = Some n"
  by (auto simp: fromHexChar_def hexChar_def of_char_of take_bit_eq_mod Let_def)

lemma length_hex_Encode [simp, codec_simps]: "length (hex_Encode bs) = 2 * length bs"
  by (induction bs) auto

lemma hex_Decode_Encode [simp, codec_simps]: "hex_Decode (hex_Encode bs) = Some bs"
proof (induction bs)
  case (Cons b bs)
  have "unat b div 16 < 16" by (rule less_mult_imp_div_less) (use unat_byte_lt [of b] in simp)
  moreover have "(of_nat (16 * (unat b div 16) + unat b mod 16) :: byte) = b"
    by (simp only: mult_div_mod_eq) simp
  ultimately show ?case using Cons by simp
qed simp

lemma hex_Encode_inj: "hex_Encode as = hex_Encode bs \<longleftrightarrow> as = bs"
  by (metis hex_Decode_Encode option.inject)

lemma hex_Decode_length: "hex_Decode s = Some bs \<Longrightarrow> length s = 2 * length bs"
  by (induction s arbitrary: bs rule: hex_Decode.induct) (auto split: option.splits)

lemma fromHexChar_lt: "fromHexChar c = Some n \<Longrightarrow> n < 16"
  by (auto simp: fromHexChar_def Let_def split: if_splits)

section \<open>Base64\<close>

text \<open>\<open>url\<close> chooses the URL alphabet, in which \<^verbatim>\<open>-\<close> and \<^verbatim>\<open>_\<close> replace
  \<^verbatim>\<open>+\<close> and \<^verbatim>\<open>/\<close>.\<close>

definition b64Char :: "bool \<Rightarrow> nat \<Rightarrow> char" where
  "b64Char url n = char_of
     (if n < 26 then 65 + n else if n < 52 then 71 + n else if n < 62 then n - 4
      else if n = 62 then (if url then 45 else 43) else (if url then 95 else 47))"

definition fromB64Char :: "bool \<Rightarrow> char \<Rightarrow> nat option" where
  "fromB64Char url c =
     (let n = of_char c :: nat in
      if 65 \<le> n \<and> n \<le> 90 then Some (n - 65)
      else if 97 \<le> n \<and> n \<le> 122 then Some (n - 71)
      else if 48 \<le> n \<and> n \<le> 57 then Some (n + 4)
      else if n = (if url then 45 else 43) then Some 62
      else if n = (if url then 95 else 47) then Some 63
      else None)"

lemma fromB64Char_b64Char [simp]: "n < 64 \<Longrightarrow> fromB64Char url (b64Char url n) = Some n"
  by (auto simp: fromB64Char_def b64Char_def of_char_of take_bit_eq_mod Let_def)

lemma fromB64Char_lt: "fromB64Char url c = Some n \<Longrightarrow> n < 64"
  by (auto simp: fromB64Char_def Let_def split: if_splits)

definition quad :: "byte \<Rightarrow> byte \<Rightarrow> byte \<Rightarrow> nat list" where
  "quad a b c =
     (let v = unat a * 65536 + unat b * 256 + unat c
      in [v div 262144, v div 4096 mod 64, v div 64 mod 64, v mod 64])"

definition unquad :: "nat \<Rightarrow> nat \<Rightarrow> nat \<Rightarrow> nat \<Rightarrow> bytes" where
  "unquad w x y z =
     (let v = w * 262144 + x * 4096 + y * 64 + z
      in [of_nat (v div 65536), of_nat (v div 256), of_nat v])"

fun b64_enc :: "bool \<Rightarrow> string \<Rightarrow> bytes \<Rightarrow> string" where
  "b64_enc url pad [] = []"
| "b64_enc url pad [a] = map (b64Char url) (take 2 (quad a 0 0)) @ pad @ pad"
| "b64_enc url pad [a, b] = map (b64Char url) (take 3 (quad a b 0)) @ pad"
| "b64_enc url pad (a # b # c # bs) = map (b64Char url) (quad a b c) @ b64_enc url pad bs"

text \<open>\<^verbatim>\<open>RawURLEncoding\<close> and \<^verbatim>\<open>StdEncoding\<close>.\<close>

definition b64_EncodeToString :: "bytes \<Rightarrow> string" where
  "b64_EncodeToString = b64_enc True []"

definition b64s_EncodeToString :: "bytes \<Rightarrow> string" where
  "b64s_EncodeToString = b64_enc False ''=''"

definition notNewline :: "char \<Rightarrow> bool" where
  "notNewline c \<longleftrightarrow> of_char c \<noteq> (10::nat) \<and> of_char c \<noteq> (13::nat)"

fun b64raw_dec :: "nat option list \<Rightarrow> bytes option" where
  "b64raw_dec [] = Some []"
| "b64raw_dec [Some w, Some x] = Some (take 1 (unquad w x 0 0))"
| "b64raw_dec [Some w, Some x, Some y] = Some (take 2 (unquad w x y 0))"
| "b64raw_dec (Some w # Some x # Some y # Some z # cs) =
     map_option (\<lambda>bs. unquad w x y z @ bs) (b64raw_dec cs)"
| "b64raw_dec _ = None"

definition b64_DecodeString :: "string \<Rightarrow> bytes option" where
  "b64_DecodeString s = b64raw_dec (map (fromB64Char True) (filter notNewline s))"

fun b64std_dec :: "string \<Rightarrow> bytes option" where
  "b64std_dec [] = Some []"
| "b64std_dec (c1 # c2 # c3 # c4 # cs) =
     (case (fromB64Char False c1, fromB64Char False c2) of
        (Some w, Some x) \<Rightarrow>
          (if c3 = CHR ''='' then
             (if c4 = CHR ''='' \<and> cs = [] then Some (take 1 (unquad w x 0 0)) else None)
           else case fromB64Char False c3 of
             None \<Rightarrow> None
           | Some y \<Rightarrow>
               (if c4 = CHR ''='' then
                  (if cs = [] then Some (take 2 (unquad w x y 0)) else None)
                else case fromB64Char False c4 of
                  None \<Rightarrow> None
                | Some z \<Rightarrow> map_option (\<lambda>bs. unquad w x y z @ bs) (b64std_dec cs)))
      | _ \<Rightarrow> None)"
| "b64std_dec _ = None"

definition b64s_DecodeString :: "string \<Rightarrow> bytes option" where
  "b64s_DecodeString s = b64std_dec (filter notNewline s)"

lemma quad_value:
  fixes a b c :: byte
  shows "unat a * 65536 + unat b * 256 + unat c < 16777216"
  using unat_byte_lt [of a] unat_byte_lt [of b] unat_byte_lt [of c] by linarith

lemma quad_lt [simp]: "list_all (\<lambda>n. n < 64) (quad a b c)"
  using quad_value [of a b c] by (simp add: quad_def Let_def less_mult_imp_div_less)

lemma recombine_aux:
  "v = 64 * p + r0 \<Longrightarrow> p = 64 * q + r1 \<Longrightarrow> q = 64 * t + r2 \<Longrightarrow>
   t * 262144 + r2 * 4096 + r1 * 64 + r0 = (v::nat)"
  by simp

lemma div_add_small: "r < d \<Longrightarrow> (a * d + r) div d = (a::nat)"
  by simp

lemma recombine:
  "(v div 262144) * 262144 + (v div 4096 mod 64) * 4096 + (v div 64 mod 64) * 64 + v mod 64
   = (v::nat)"
proof -
  have "v = 64 * (v div 64) + v mod 64" "v div 64 = 64 * (v div 64 div 64) + v div 64 mod 64"
    "v div 64 div 64 = 64 * (v div 64 div 64 div 64) + v div 64 div 64 mod 64" by simp_all
  moreover have "v div 4096 = v div 64 div 64" "v div 262144 = v div 64 div 64 div 64"
    by (simp_all flip: div_mult2_eq)
  ultimately show ?thesis using recombine_aux by metis
qed

lemma of_nat_byte_cong: "m mod 256 = n mod 256 \<Longrightarrow> (of_nat m :: byte) = of_nat n"
  by (simp add: word_of_nat_eq_iff take_bit_eq_mod)

lemma of_nat_byte_unat: "m mod 256 = unat b \<Longrightarrow> (of_nat m :: byte) = b"
  using of_nat_byte_cong [of m "unat b"] by simp

lemma unquad_quad:
  "quad a b c = [w, x, y, z] \<Longrightarrow> unquad w x y z = [a, b, c]"
proof -
  assume q: "quad a b c = [w, x, y, z]"
  define v where "v = unat a * 65536 + unat b * 256 + unat c"
  have "w * 262144 + x * 4096 + y * 64 + z = v"
    using q recombine [of v] by (auto simp: quad_def Let_def v_def)
  moreover have "v div 65536 = unat a"
  proof -
    have "unat b * 256 + unat c < 65536"
      using unat_byte_lt [of b] unat_byte_lt [of c] by linarith
    from div_add_small [OF this, of "unat a"] show ?thesis by (simp only: v_def add.assoc)
  qed
  moreover have "v div 256 = unat a * 256 + unat b"
    using div_add_small [of "unat c" 256 "unat a * 256 + unat b"] by (simp add: v_def)
  moreover have "v mod 256 = unat c"
  proof -
    have "v = unat c + (unat a * 256 + unat b) * 256" by (simp add: v_def)
    then show ?thesis by (simp only: mod_mult_self1) simp
  qed
  moreover have "(of_nat (unat a) :: byte) = a" "(of_nat (unat a * 256 + unat b) :: byte) = b"
    by (rule of_nat_byte_unat; simp)+
  moreover have "v mod 256 = unat c \<Longrightarrow> (of_nat v :: byte) = c" by (rule of_nat_byte_unat)
  ultimately show ?thesis by (simp only: unquad_def Let_def)
qed

lemma quad_cases:
  obtains w x y z where "quad a b c = [w, x, y, z]" "w < 64" "x < 64" "y < 64" "z < 64"
  using quad_lt [of a b c] by (auto simp: quad_def Let_def)

lemma quad_short1: "quad a 0 0 = [w, x, y, z] \<Longrightarrow> y = 0 \<and> z = 0"
  by (auto simp: quad_def Let_def)

lemma quad_short2: "quad a b 0 = [w, x, y, z] \<Longrightarrow> z = 0"
proof -
  have "(unat a * 65536 + unat b * 256) mod 64 = 0" by presburger
  then show "quad a b 0 = [w, x, y, z] \<Longrightarrow> z = 0" by (auto simp: quad_def Let_def)
qed

lemma b64Char_not_newline [simp]: "n < 64 \<Longrightarrow> notNewline (b64Char url n)"
  by (auto simp: notNewline_def b64Char_def of_char_of take_bit_eq_mod)

lemma b64Char_not_pad [simp]: "n < 64 \<Longrightarrow> b64Char url n \<noteq> CHR ''=''"
proof
  assume "n < 64" "b64Char url n = CHR ''=''"
  then have "fromB64Char url CHR ''='' = Some n" by (metis fromB64Char_b64Char)
  then show False by (simp add: fromB64Char_def split: if_splits)
qed

lemma b64_raw_roundtrip:
  "b64raw_dec (map (fromB64Char True) (b64_enc True [] bs)) = Some bs"
proof (induction True "[] :: string" bs rule: b64_enc.induct)
  case (2 a)
  obtain w x y z where q: "quad a 0 0 = [w, x, y, z]" "w < 64" "x < 64" by (rule quad_cases)
  then show ?case using unquad_quad [OF q(1)] quad_short1 [OF q(1)] by simp
next
  case (3 a b)
  obtain w x y z where q: "quad a b 0 = [w, x, y, z]" "w < 64" "x < 64" "y < 64"
    by (rule quad_cases)
  then show ?case using unquad_quad [OF q(1)] quad_short2 [OF q(1)] by simp
next
  case (4 a b c bs)
  obtain w x y z where q: "quad a b c = [w, x, y, z]" "w < 64" "x < 64" "y < 64" "z < 64"
    by (rule quad_cases)
  then show ?case using unquad_quad [OF q(1)] "4" by simp
qed simp

lemma b64_std_roundtrip: "b64std_dec (b64_enc False ''='' bs) = Some bs"
proof (induction False "''=''" bs rule: b64_enc.induct)
  case (2 a)
  obtain w x y z where q: "quad a 0 0 = [w, x, y, z]" "w < 64" "x < 64" by (rule quad_cases)
  then show ?case using unquad_quad [OF q(1)] quad_short1 [OF q(1)] by simp
next
  case (3 a b)
  obtain w x y z where q: "quad a b 0 = [w, x, y, z]" "w < 64" "x < 64" "y < 64"
    by (rule quad_cases)
  then show ?case using unquad_quad [OF q(1)] quad_short2 [OF q(1)] by simp
next
  case (4 a b c bs)
  obtain w x y z where q: "quad a b c = [w, x, y, z]" "w < 64" "x < 64" "y < 64" "z < 64"
    by (rule quad_cases)
  then show ?case using unquad_quad [OF q(1)] "4" by simp
qed simp

lemma list_all_quad: "list_all (\<lambda>n. n < 64) ns \<Longrightarrow> list_all notNewline (map (b64Char url) ns)"
  by (induction ns) auto

lemma list_all_take: "list_all P xs \<Longrightarrow> list_all P (take n xs)"
  by (metis append_take_drop_id list_all_append)

lemma b64_enc_no_newline:
  "list_all notNewline pad \<Longrightarrow> list_all notNewline (b64_enc url pad bs)"
  by (induction url pad bs rule: b64_enc.induct)
     (auto simp del: list.map intro!: list_all_quad list_all_take)

lemma filter_all: "list_all P xs \<Longrightarrow> filter P xs = xs"
  by (induction xs) auto

lemma b64_Decode_Encode [simp, codec_simps]: "b64_DecodeString (b64_EncodeToString bs) = Some bs"
  by (simp add: b64_DecodeString_def b64_EncodeToString_def b64_enc_no_newline filter_all
      b64_raw_roundtrip)

lemma b64s_Decode_Encode [simp, codec_simps]:
  "b64s_DecodeString (b64s_EncodeToString bs) = Some bs"
proof -
  have "list_all notNewline ''=''" by (simp add: notNewline_def)
  then show ?thesis
    by (simp add: b64s_DecodeString_def b64s_EncodeToString_def b64_enc_no_newline filter_all
        b64_std_roundtrip)
qed

lemma b64_EncodeToString_inj: "b64_EncodeToString as = b64_EncodeToString bs \<longleftrightarrow> as = bs"
  by (metis b64_Decode_Encode option.inject)

lemma b64_EncodeToString_empty [simp]: "b64_EncodeToString bs = [] \<longleftrightarrow> bs = []"
proof
  assume "b64_EncodeToString bs = []"
  then have "b64_EncodeToString bs = b64_EncodeToString []" by (simp add: b64_EncodeToString_def)
  then show "bs = []" by (simp only: b64_EncodeToString_inj)
qed (simp add: b64_EncodeToString_def)

end
