(* ===== verification/Runtime.thy ===== *)
theory Runtime
  imports Codecs "HOL-Library.Multiset"
begin

text \<open>
  What the sources call but do not define, as one record of parameters: the hash
  functions (\<^verbatim>\<open>crypto/sha256\<close>, \<^verbatim>\<open>golang.org/x/crypto/argon2\<close>), the order
  in which \<^verbatim>\<open>sort.Slice\<close> leaves equal elements, the order in which
  \<^verbatim>\<open>range\<close> visits the keys of a map, and the value the platform gives for a
  float-to-integer conversion that is out of range.  \<open>env_ok\<close> states the documented
  behaviour the code relies on and nothing more; \<open>env0\<close> is one environment that has it.
\<close>

section \<open>sort.Slice\<close>

type_synonym sorter = "(nat \<Rightarrow> nat \<Rightarrow> bool) \<Rightarrow> nat \<Rightarrow> nat list"

text \<open>\<^verbatim>\<open>sort.Slice(xs, lt)\<close> compares by index and need not be stable: a sorter
  turns the comparison of positions into the final order of positions.\<close>

definition sort_Slice :: "sorter \<Rightarrow> ('a \<Rightarrow> 'a \<Rightarrow> bool) \<Rightarrow> 'a list \<Rightarrow> 'a list" where
  "sort_Slice srt lt xs =
     map (\<lambda>i. xs ! i) (srt (\<lambda>i j. lt (xs ! i) (xs ! j)) (length xs))"

definition strict_weak :: "nat \<Rightarrow> (nat \<Rightarrow> nat \<Rightarrow> bool) \<Rightarrow> bool" where
  "strict_weak n lt \<longleftrightarrow>
     (\<forall>i < n. \<forall>j < n. lt i j \<longrightarrow> \<not> lt j i) \<and>
     (\<forall>i < n. \<forall>j < n. \<forall>k < n. lt i j \<longrightarrow> lt i k \<or> lt k j)"

definition sorter_ok :: "sorter \<Rightarrow> bool" where
  "sorter_ok srt \<longleftrightarrow>
     (\<forall>n lt. strict_weak n lt \<longrightarrow>
        mset (srt lt n) = mset [0..<n] \<and> sorted_wrt (\<lambda>i j. \<not> lt j i) (srt lt n))"

lemma strict_weak_key: "strict_weak n (\<lambda>i j. (k i :: 'b :: linorder) < k j)"
  by (auto simp: strict_weak_def)

lemma sort_Slice_key:
  fixes k :: "'a \<Rightarrow> 'b :: linorder"
  assumes "sorter_ok srt" "\<And>x y. lt x y \<longleftrightarrow> k x < k y"
  shows "mset (sort_Slice srt lt xs) = mset xs" "sorted (map k (sort_Slice srt lt xs))"
proof -
  define p where "p = srt (\<lambda>i j. lt (xs ! i) (xs ! j)) (length xs)"
  have p: "mset p = mset [0..<length xs]" "sorted_wrt (\<lambda>i j. \<not> k (xs ! j) < k (xs ! i)) p"
    using assms strict_weak_key [of "length xs" "\<lambda>i. k (xs ! i)"]
    by (simp_all add: sorter_ok_def p_def)
  have "mset (map (\<lambda>i. xs ! i) p) = image_mset (\<lambda>i. xs ! i) (mset [0..<length xs])"
    using p(1) by simp
  also have "\<dots> = mset (map (\<lambda>i. xs ! i) [0..<length xs])" by (simp only: mset_map)
  finally show "mset (sort_Slice srt lt xs) = mset xs"
    by (simp add: sort_Slice_def p_def map_nth)
  show "sorted (map k (sort_Slice srt lt xs))"
    using p(2) by (simp add: sort_Slice_def flip: p_def) (simp add: sorted_wrt_map not_less)
qed

lemma sort_Slice_set:
  assumes "sorter_ok srt" "\<And>x y. lt x y \<longleftrightarrow> (k x :: 'b :: linorder) < k y"
  shows "set (sort_Slice srt lt xs) = set xs" "length (sort_Slice srt lt xs) = length xs"
    "distinct (sort_Slice srt lt xs) = distinct xs"
proof -
  note m = sort_Slice_key(1) [OF assms, where xs = xs]
  show "set (sort_Slice srt lt xs) = set xs" using m by (rule mset_eq_setD)
  show "length (sort_Slice srt lt xs) = length xs" using m by (rule mset_eq_length)
  show "distinct (sort_Slice srt lt xs) = distinct xs"
    using m by (rule mset_eq_imp_distinct_iff)
qed

text \<open>Insertion by a comparison, the reference sorter.\<close>

fun insort_less :: "('a \<Rightarrow> 'a \<Rightarrow> bool) \<Rightarrow> 'a \<Rightarrow> 'a list \<Rightarrow> 'a list" where
  "insort_less lt x [] = [x]"
| "insort_less lt x (y # ys) = (if lt y x then y # insort_less lt x ys else x # y # ys)"

definition isort :: sorter where
  "isort lt n = foldr (insort_less lt) [0..<n] []"

lemma mset_insort_less [simp]: "mset (insort_less lt x ys) = add_mset x (mset ys)"
  by (induction ys) auto

lemma set_insort_less [simp]: "set (insort_less lt x ys) = insert x (set ys)"
  by (induction ys) auto

lemma sorted_insort_less:
  assumes "strict_weak n lt" "x < n" "\<forall>y \<in> set ys. y < n"
    and "sorted_wrt (\<lambda>i j. \<not> lt j i) ys"
  shows "sorted_wrt (\<lambda>i j. \<not> lt j i) (insort_less lt x ys)"
  using assms(3,4)
proof (induction ys)
  case (Cons y ys)
  have y: "y < n" using Cons.prems by simp
  show ?case
  proof (cases "lt y x")
    case True
    then have "\<not> lt x y" using assms(1,2) y by (auto simp: strict_weak_def)
    with True Cons show ?thesis by auto
  next
    case False
    have "\<not> lt z x" if "z \<in> set ys" for z
    proof
      assume "lt z x"
      moreover have "z < n" "\<not> lt z y" using that Cons.prems by auto
      ultimately show False using assms(1,2) y False unfolding strict_weak_def by blast
    qed
    with False Cons.prems show ?thesis by auto
  qed
qed simp

lemma sorter_ok_isort: "sorter_ok isort"
  unfolding sorter_ok_def
proof (intro allI impI)
  fix n lt assume sw: "strict_weak n lt"
  have "mset (foldr (insort_less lt) is []) = mset is \<and>
        sorted_wrt (\<lambda>i j. \<not> lt j i) (foldr (insort_less lt) is [])"
    if "\<forall>i \<in> set is. i < n" for "is"
    using that
  proof (induction "is")
    case (Cons i "is")
    then have "set (foldr (insort_less lt) is []) = set is"
      by (metis mset_eq_setD list.set_intros(2))
    with Cons sorted_insort_less [OF sw, of i] show ?case by simp
  qed simp
  then show "mset (isort lt n) = mset [0..<n] \<and> sorted_wrt (\<lambda>i j. \<not> lt j i) (isort lt n)"
    by (simp add: isort_def)
qed

section \<open>The environment\<close>

record env =
  sha256 :: "bytes \<Rightarrow> bytes"
  argon2_IDKey :: "bytes \<Rightarrow> bytes \<Rightarrow> u32 \<Rightarrow> u32 \<Rightarrow> byte \<Rightarrow> u32 \<Rightarrow> bytes"
  f2i_overflow :: int
  sorter :: sorter
  rangeOrder :: "nat \<Rightarrow> byte list \<Rightarrow> byte list"

definition env_ok :: "env \<Rightarrow> bool" where
  "env_ok E \<longleftrightarrow>
     (\<forall>bs. length (sha256 E bs) = 32) \<and>
     (\<forall>pw salt t m p n. length (argon2_IDKey E pw salt t m p n) = unat n) \<and>
     in_int64 (f2i_overflow E) \<and>
     sorter_ok (sorter E) \<and>
     (\<forall>i ks. mset (rangeOrder E i ks) = mset ks)"

lemma env_okD:
  assumes "env_ok E"
  shows "length (sha256 E bs) = 32" "length (argon2_IDKey E pw salt t m p n) = unat n"
    "in_int64 (f2i_overflow E)" "sorter_ok (sorter E)" "mset (rangeOrder E i ks) = mset ks"
  using assms by (simp_all add: env_ok_def)

definition pad_to :: "nat \<Rightarrow> byte \<Rightarrow> bytes \<Rightarrow> bytes" where
  "pad_to n b bs = take n (bs @ replicate n b)"

lemma length_pad_to [simp]: "length (pad_to n b bs) = n"
  by (simp add: pad_to_def)

definition env0 :: env where
  "env0 = \<lparr>sha256 = pad_to 32 0,
           argon2_IDKey = (\<lambda>pw salt t m p n. pad_to (unat n) 255 pw),
           f2i_overflow = - (2 ^ 63),
           sorter = isort,
           rangeOrder = (\<lambda>i ks. ks)\<rparr>"

lemma env_ok_env0: "env_ok env0"
  by (simp add: env_ok_def env0_def in_int64_def sorter_ok_isort)

end
