(* ===== verification/Pow.thy ===== *)
theory Pow
  imports Runtime
begin

text \<open>
  \<^verbatim>\<open>blockstore/pow.go\<close>: block identity and proof of work.  \<open>leadingZeroBits\<close>
  follows the loop of the source; \<open>leadingZeroBits_ge_iff\<close> relates it to the numeric
  value of the hash.  The mining loop draws stamps from a stream \<open>rnd\<close> (the successive
  results of \<^verbatim>\<open>rand.Read\<close>) and asks a stream \<open>ctxErr\<close> (the successive results of
  \<^verbatim>\<open>ctx.Err\<close>) before each draw; it is a \<open>partial_function\<close>, so that not returning
  is the value \<open>None\<close>.
\<close>

type_synonym ID = bytes
type_synonym Stamp = bytes
type_synonym Payload = bytes

definition PayloadSize :: nat where
  "PayloadSize = 4096"

definition StampSize :: nat where
  "StampSize = 4"

definition IDSize :: nat where
  "IDSize = 32"

lemmas block_sizes [simp, size_simps] = PayloadSize_def StampSize_def IDSize_def

definition wf_id :: "ID \<Rightarrow> bool" where
  "wf_id i \<longleftrightarrow> length i = IDSize"

definition wf_stamp :: "Stamp \<Rightarrow> bool" where
  "wf_stamp s \<longleftrightarrow> length s = StampSize"

definition wf_payload :: "Payload \<Rightarrow> bool" where
  "wf_payload p \<longleftrightarrow> length p = PayloadSize"

definition argonTime :: u32 where "argonTime = 1"
definition argonMemory :: u32 where "argonMemory = 64 * 1024"
definition argonThreads :: byte where "argonThreads = 1"
definition argonKeyLen :: u32 where "argonKeyLen = 32"

definition argonSalt :: bytes where
  "argonSalt = bytes_of_string ''sneakernet-pow-v1''"

definition ComputeID :: "env \<Rightarrow> Payload \<Rightarrow> ID" where
  "ComputeID E payload = sha256 E payload"

fun lzb_loop :: "nat \<Rightarrow> bytes \<Rightarrow> nat" where
  "lzb_loop cnt [] = cnt"
| "lzb_loop cnt (v # vs) =
     (let lz = LeadingZeros8 v; cnt' = cnt + lz
      in if lz < 8 then cnt' else lzb_loop cnt' vs)"

definition leadingZeroBits :: "bytes \<Rightarrow> nat" where
  "leadingZeroBits b = lzb_loop 0 b"

definition WorkFactor :: "env \<Rightarrow> Stamp \<Rightarrow> Payload \<Rightarrow> int" where
  "WorkFactor E stamp payload =
     int (leadingZeroBits
       (argon2_IDKey E (stamp @ payload) argonSalt argonTime argonMemory argonThreads argonKeyLen))"

datatype mine_err = CtxErr string | RandErr string

partial_function (option) mine_loop ::
  "env \<Rightarrow> (nat \<Rightarrow> string option) \<Rightarrow> (nat \<Rightarrow> string + Stamp) \<Rightarrow> Payload \<Rightarrow> int \<Rightarrow> nat \<Rightarrow> Stamp
     \<Rightarrow> (Stamp \<times> int \<times> mine_err option) option" where
  "mine_loop E ctxErr rnd payload target i stamp =
     (case ctxErr i of
        Some e \<Rightarrow> Some (stamp, 0, Some (CtxErr e))
      | None \<Rightarrow>
          (case rnd i of
             Inl e \<Rightarrow> Some (stamp, 0, Some (RandErr e))
           | Inr stamp' \<Rightarrow>
               (let wf = WorkFactor E stamp' payload
                in if wf \<ge> target then Some (stamp', wf, None)
                   else mine_loop E ctxErr rnd payload target (Suc i) stamp')))"

definition MineStamp ::
  "env \<Rightarrow> (nat \<Rightarrow> string option) \<Rightarrow> (nat \<Rightarrow> string + Stamp) \<Rightarrow> Payload \<Rightarrow> int
     \<Rightarrow> (Stamp \<times> int \<times> mine_err option) option" where
  "MineStamp E ctxErr rnd payload target =
     (let stamp = replicate StampSize 0
      in if target \<le> 0 then Some (stamp, WorkFactor E stamp payload, None)
         else mine_loop E ctxErr rnd payload target 0 stamp)"

section \<open>Leading zero bits\<close>

lemma lzb_loop_acc: "lzb_loop cnt bs = cnt + lzb_loop 0 bs"
proof (induction bs arbitrary: cnt)
  case (Cons v vs)
  show ?case
    using Cons.IH [of "cnt + LeadingZeros8 v"] Cons.IH [of "LeadingZeros8 v"]
    by (simp add: Let_def)
qed simp

lemma leadingZeroBits_Nil [simp]: "leadingZeroBits [] = 0"
  by (simp add: leadingZeroBits_def)

lemma leadingZeroBits_Cons:
  "leadingZeroBits (v # vs) =
     (if v = 0 then 8 + leadingZeroBits vs else LeadingZeros8 v)"
  using LeadingZeros8_eq_8 [of v] LeadingZeros8_le [of v] lzb_loop_acc [of 8 vs]
  by (auto simp: leadingZeroBits_def Let_def)

lemma leadingZeroBits_le: "leadingZeroBits bs \<le> 8 * length bs"
proof (induction bs)
  case (Cons v vs)
  then show ?case using LeadingZeros8_le [of v] by (simp add: leadingZeroBits_Cons) 
qed simp

lemma be_dec_Cons_less:
  "k \<le> 8 \<Longrightarrow> be_dec (v # vs) < 2 ^ (8 - k) * 256 ^ length vs \<longleftrightarrow> unat v < 2 ^ (8 - k)"
proof
  assume "be_dec (v # vs) < 2 ^ (8 - k) * 256 ^ length vs"
  then have "unat v * 256 ^ length vs < 2 ^ (8 - k) * 256 ^ length vs"
    unfolding be_dec_Cons by linarith
  then show "unat v < 2 ^ (8 - k)" by simp
next
  assume "unat v < 2 ^ (8 - k)"
  then have "Suc (unat v) * 256 ^ length vs \<le> 2 ^ (8 - k) * 256 ^ length vs"
    by (intro mult_le_mono1) simp
  then show "be_dec (v # vs) < 2 ^ (8 - k) * 256 ^ length vs"
    using be_dec_lt [of vs] by simp
qed

lemma leadingZeroBits_iff:
  "k \<le> 8 * length h \<Longrightarrow> k \<le> leadingZeroBits h \<longleftrightarrow> be_dec h < 2 ^ (8 * length h - k)"
proof (induction h arbitrary: k)
  case (Cons v vs)
  have p: "(256::nat) ^ n = 2 ^ (8 * n)" for n by (simp add: power_mult)
  show ?case
  proof (cases "k \<le> 8")
    case True
    then have e: "8 * length (v # vs) - k = (8 - k) + 8 * length vs" by simp
    have "k \<le> leadingZeroBits (v # vs) \<longleftrightarrow> k \<le> LeadingZeros8 v"
      using True LeadingZeros8_eq_8 [of v] by (auto simp: leadingZeroBits_Cons)
    also have "\<dots> \<longleftrightarrow> be_dec (v # vs) < 2 ^ (8 - k) * 256 ^ length vs"
      using True LeadingZeros8_ge_iff be_dec_Cons_less by blast
    finally show ?thesis by (simp only: e power_add p)
  next
    case False
    then obtain j where k: "k = 8 + j" by (metis le_add_diff_inverse nat_le_linear)
    show ?thesis
    proof (cases "v = 0")
      case True
      then show ?thesis using Cons.IH [of j] Cons.prems k by (simp add: leadingZeroBits_Cons)
    next
      case False
      then have "1 * 256 ^ length vs \<le> unat v * 256 ^ length vs"
        by (intro mult_le_mono1) (simp add: Suc_leI unat_gt_0)
      moreover have "(2::nat) ^ (8 * length (v # vs) - k) \<le> 2 ^ (8 * length vs)"
        using k by (intro power_increasing) auto
      ultimately have "\<not> be_dec (v # vs) < 2 ^ (8 * length (v # vs) - k)"
        unfolding be_dec_Cons p by linarith
      then show ?thesis using False LeadingZeros8_le [of v] \<open>\<not> k \<le> 8\<close>
        by (simp add: leadingZeroBits_Cons)
    qed
  qed
qed simp

lemma WorkFactor_nonneg [simp]: "0 \<le> WorkFactor E stamp payload"
  by (simp add: WorkFactor_def)

lemma WorkFactor_le: "env_ok E \<Longrightarrow> WorkFactor E stamp payload \<le> 256"
proof -
  assume E: "env_ok E"
  have "length (argon2_IDKey E (stamp @ payload) argonSalt argonTime argonMemory argonThreads argonKeyLen) = 32"
    using env_okD(2) [OF E] by (simp add: argonKeyLen_def)
  then show ?thesis
    using leadingZeroBits_le
      [of "argon2_IDKey E (stamp @ payload) argonSalt argonTime argonMemory argonThreads argonKeyLen"]
    by (simp add: WorkFactor_def)
qed

lemma ComputeID_wf [simp]: "env_ok E \<Longrightarrow> wf_id (ComputeID E p)"
  by (simp add: wf_id_def ComputeID_def env_okD)

section \<open>Mining\<close>

text \<open>The loop stops at iteration \<open>i\<close> when the context is done, the random source
  fails, or the stamp drawn there meets the target.\<close>

definition mine_stops ::
  "env \<Rightarrow> (nat \<Rightarrow> string option) \<Rightarrow> (nat \<Rightarrow> string + Stamp) \<Rightarrow> Payload \<Rightarrow> int \<Rightarrow> nat \<Rightarrow> bool" where
  "mine_stops E ctxErr rnd payload target i \<longleftrightarrow>
     ctxErr i \<noteq> None \<or> (\<exists>e. rnd i = Inl e) \<or>
     (\<exists>s. rnd i = Inr s \<and> WorkFactor E s payload \<ge> target)"

lemma mine_loop_stop:
  assumes "mine_stops E ctxErr rnd payload target i"
  shows "\<exists>s wf err. mine_loop E ctxErr rnd payload target i stamp = Some (s, wf, err) \<and>
           (err = None \<longrightarrow> wf = WorkFactor E s payload \<and> target \<le> wf \<and> rnd i = Inr s)"
  using assms
  by (subst mine_loop.simps) (auto simp: mine_stops_def Let_def split: option.split sum.split)

lemma mine_loop_step:
  assumes "\<not> mine_stops E ctxErr rnd payload target i"
  shows "\<exists>stamp'. mine_loop E ctxErr rnd payload target i stamp =
           mine_loop E ctxErr rnd payload target (Suc i) stamp'"
  using assms
  by (subst mine_loop.simps) (auto simp: mine_stops_def Let_def split: option.split sum.split)

lemma mine_loop_result:
  assumes "mine_stops E ctxErr rnd payload target (i + d)"
  shows "\<exists>j \<ge> i. \<exists>s wf err. mine_loop E ctxErr rnd payload target i stamp = Some (s, wf, err) \<and>
           (err = None \<longrightarrow> wf = WorkFactor E s payload \<and> target \<le> wf \<and> rnd j = Inr s)"
  using assms
proof (induction d arbitrary: i stamp)
  case 0
  then show ?case using mine_loop_stop [of E ctxErr rnd payload target i stamp] by auto
next
  case (Suc d)
  show ?case
  proof (cases "mine_stops E ctxErr rnd payload target i")
    case True
    then show ?thesis using mine_loop_stop by blast
  next
    case False
    then obtain stamp' where "mine_loop E ctxErr rnd payload target i stamp =
        mine_loop E ctxErr rnd payload target (Suc i) stamp'"
      using mine_loop_step by blast
    moreover have "mine_stops E ctxErr rnd payload target (Suc i + d)" using Suc.prems by simp
    ultimately show ?thesis using Suc.IH [of "Suc i" stamp'] by (metis Suc_leD)
  qed
qed

section \<open>Properties\<close>

definition powHash :: "env \<Rightarrow> Stamp \<Rightarrow> Payload \<Rightarrow> bytes" where
  "powHash E stamp payload =
     argon2_IDKey E (stamp @ payload) argonSalt argonTime argonMemory argonThreads argonKeyLen"

text \<open>The work factor counts leading zero bits of the 32-byte hash: a block has at
  least \<open>k\<close> of them exactly when the hash, read as a big-endian number, is below
  \<open>2 ^ (256 - k)\<close>; it is never above 256.\<close>

theorem WorkFactor_threshold:
  assumes "env_ok E" "k \<le> 256"
  shows "(int k \<le> WorkFactor E stamp payload \<longleftrightarrow> be_dec (powHash E stamp payload) < 2 ^ (256 - k)) \<and>
    WorkFactor E stamp payload \<le> 256"
proof -
  have "length (powHash E stamp payload) = 32"
    using env_okD(2) [OF assms(1)] by (simp add: powHash_def argonKeyLen_def)
  then show ?thesis
    using leadingZeroBits_iff [of k "powHash E stamp payload"] assms WorkFactor_le [OF assms(1)]
    by (simp add: WorkFactor_def powHash_def)
qed

theorem WorkFactor_threshold_witness:
  "(int 9 \<le> WorkFactor env0 [0, 1, 2, 3] [] \<longleftrightarrow> be_dec (powHash env0 [0, 1, 2, 3] []) < 2 ^ (256 - 9)) \<and>
    WorkFactor env0 [0, 1, 2, 3] [] \<le> 256"
  by (rule WorkFactor_threshold [OF env_ok_env0]) simp

text \<open>C31: \<^verbatim>\<open>MineStamp\<close> returns as soon as the context is done, the random source
  fails or a drawn stamp meets the target, and a result without error is a stamp whose
  work factor is the one reported and meets the target.\<close>

theorem MineStamp_returns:
  assumes "mine_stops E ctxErr rnd payload target n"
  shows "\<exists>stamp wf err. MineStamp E ctxErr rnd payload target = Some (stamp, wf, err) \<and>
    (err = None \<longrightarrow> wf = WorkFactor E stamp payload \<and> target \<le> wf)"
proof (cases "target \<le> 0")
  case True
  then show ?thesis using WorkFactor_nonneg [of E "replicate StampSize 0" payload]
    by (simp add: MineStamp_def Let_def del: WorkFactor_nonneg)
next
  case False
  then show ?thesis
    using mine_loop_result [of E ctxErr rnd payload target 0 n "replicate StampSize 0"] assms
    by (auto simp: MineStamp_def Let_def)
qed

theorem MineStamp_returns_witness:
  "\<exists>stamp wf err. MineStamp env0 (\<lambda>i. if i = 2 then Some ''done'' else None) (\<lambda>i. Inr [255, 0, 0, 0])
      (replicate 4096 0) 5 = Some (stamp, wf, err)"
  using MineStamp_returns [of env0 "\<lambda>i. if i = 2 then Some ''done'' else None" "\<lambda>i. Inr [255, 0, 0, 0]"
      "replicate 4096 0" 5 2]
  by (auto simp: mine_stops_def)

end
