(* ===== verification/Blockstore.thy ===== *)
theory Blockstore
  imports Pow "HOL-Library.Product_Lexorder"
begin

text \<open>
  \<^verbatim>\<open>blockstore/blockstore.go\<close>: tags, block references, page tokens, the lifetime of
  a block, and the interface \<^verbatim>\<open>Store\<close> that every backend satisfies.  The interface
  is a record of operations over a state type; the locale \<open>block_store\<close> states the
  contract its clients rely on and proves, once for all backends, that the paging loop
  \<open>page_loop\<close> terminates and visits every selected block exactly once.
\<close>

section \<open>Data\<close>

type_synonym Tag = byte

definition TagPhysical :: Tag where "TagPhysical = 0"
definition TagLan :: Tag where "TagLan = 1"
definition TagRegional :: Tag where "TagRegional = 2"
definition TagGlobal :: Tag where "TagGlobal = 3"
definition TagBluetooth :: Tag where "TagBluetooth = 4"

lemmas tag_defs = TagPhysical_def TagLan_def TagRegional_def TagGlobal_def TagBluetooth_def

datatype store_err = ErrNotFound | ErrPageToken | ErrCorrupt | ErrBackend string

record BlockRef =
  refWF :: int
  refID :: ID
  refCreatedAt :: int
  refTag :: Tag

section \<open>Page tokens\<close>

type_synonym cursor = "int \<times> ID"

definition encodeCursor :: "cursor \<Rightarrow> string" where
  "encodeCursor c = b64_EncodeToString (PutUint64 (word_of_int (fst c)) @ snd c)"

definition decodeCursor :: "string \<Rightarrow> store_err + cursor" where
  "decodeCursor token =
     (case b64_DecodeString token of
        None \<Rightarrow> Inl ErrPageToken
      | Some b \<Rightarrow>
          if length b \<noteq> 8 + IDSize then Inl ErrPageToken
          else Inr (sint (Uint64 (take 8 b)), drop 8 b))"

definition BlockRef_Token :: "BlockRef \<Rightarrow> string" where
  "BlockRef_Token r = encodeCursor (refCreatedAt r, refID r)"

definition wf_cursor :: "cursor \<Rightarrow> bool" where
  "wf_cursor c \<longleftrightarrow> in_int64 (fst c) \<and> wf_id (snd c)"

lemma decode_encodeCursor [simp]: "wf_cursor c \<Longrightarrow> decodeCursor (encodeCursor c) = Inr c"
  by (simp add: decodeCursor_def encodeCursor_def wf_cursor_def wf_id_def)

lemma encodeCursor_nonempty [simp]: "encodeCursor c \<noteq> []"
proof
  assume "encodeCursor c = []"
  then have "PutUint64 (word_of_int (fst c)) @ snd c = []" by (simp add: encodeCursor_def)
  then show False by (metis append_is_Nil_conv length_0_conv length_Put(2) zero_neq_numeral)
qed

lemma decodeCursor_wf: "decodeCursor token = Inr c \<Longrightarrow> wf_cursor c"
  by (auto simp: decodeCursor_def wf_cursor_def wf_id_def split: option.splits if_splits)

section \<open>Lifetimes\<close>

text \<open>
  The source computes \<^verbatim>\<open>24h * math.Pow(phi, wf/2)\<close> in floating point and truncates
  the product to a number of nanoseconds.  The model computes the same real number
  exactly: \<open>24h * phi^(wf/2)\<close> is the square root of \<open>24h^2 * phi^wf\<close>, so its integer
  part is an integer square root.  The rounding of the intermediate doubles (a relative
  error near \<open>2^-52\<close>) is not modelled.  A product beyond the \<^verbatim>\<open>int64\<close> range has the
  value the platform's conversion gives, \<open>f2i_overflow\<close>.
\<close>

fun isqrt :: "nat \<Rightarrow> nat" where
  "isqrt n =
     (if n = 0 then 0
      else let r = 2 * isqrt (n div 4) in if (r + 1)\<^sup>2 \<le> n then r + 1 else r)"

declare isqrt.simps [simp del]

lemma isqrt_spec: "(isqrt n)\<^sup>2 \<le> n \<and> n < (isqrt n + 1)\<^sup>2"
proof (induction n rule: isqrt.induct)
  case (1 n)
  show ?case
  proof (cases "n = 0")
    case False
    define q where "q = isqrt (n div 4)"
    have q: "q\<^sup>2 \<le> n div 4" "n div 4 < (q + 1)\<^sup>2" using "1.IH" [OF False] by (auto simp: q_def)
    have lo: "(2 * q)\<^sup>2 \<le> n" using q(1) by (simp add: power2_eq_square)
    have "n < 4 * (n div 4 + 1)" by presburger
    also have "\<dots> \<le> 4 * (q + 1)\<^sup>2" using q(2) by simp
    finally have hi: "n < (2 * q + 1 + 1)\<^sup>2" by (simp add: power2_eq_square algebra_simps)
    show ?thesis using lo hi False
      by (simp add: isqrt.simps [of n] Let_def flip: q_def)
  qed (simp add: isqrt.simps)
qed

lemma isqrt_unique: "r\<^sup>2 \<le> n \<Longrightarrow> n < (r + 1)\<^sup>2 \<Longrightarrow> isqrt n = r"
proof -
  assume r: "r\<^sup>2 \<le> n" "n < (r + 1)\<^sup>2"
  have "r\<^sup>2 < (isqrt n + 1)\<^sup>2" using r(1) isqrt_spec [of n] by linarith
  then have "r \<le> isqrt n" using power_less_imp_less_base by fastforce
  moreover have "(isqrt n)\<^sup>2 < (r + 1)\<^sup>2" using r(2) isqrt_spec [of n] by linarith
  then have "isqrt n \<le> r" using power_less_imp_less_base by fastforce
  ultimately show ?thesis by simp
qed

lemma isqrt_mono: "m \<le> n \<Longrightarrow> isqrt m \<le> isqrt n"
proof -
  assume "m \<le> n"
  then have "(isqrt m)\<^sup>2 < (isqrt n + 1)\<^sup>2" using isqrt_spec [of m] isqrt_spec [of n] by linarith
  then show ?thesis using power_less_imp_less_base by fastforce
qed

definition dayNs :: nat where
  "dayNs = 24 * 60 * 60 * 1000000000"

definition phiNum :: nat where
  "phiNum = 16180339887498948482"

definition phiDen :: nat where
  "phiDen = 10000000000000000000"

definition ttlExact :: "nat \<Rightarrow> nat" where
  "ttlExact w = isqrt (dayNs\<^sup>2 * phiNum ^ w div phiDen ^ w)"

definition TTLFromWorkFactor :: "env \<Rightarrow> int \<Rightarrow> int" where
  "TTLFromWorkFactor E w =
     (let w' = if w < 0 then 0 else w; v = int (ttlExact (nat w'))
      in if v < 2 ^ 63 then v else f2i_overflow E)"

lemma scale_mono:
  assumes "0 < d" "d \<le> (n::nat)"
  shows "a * n ^ k div d ^ k \<le> a * n ^ Suc k div d ^ Suc k"
proof -
  have "a * n ^ k div d ^ k = (a * n ^ k * d) div (d ^ k * d)" using assms(1) by simp
  also have "\<dots> \<le> (a * n ^ k * n) div (d ^ k * d)" using assms(2) by (intro div_le_mono) simp
  finally show ?thesis by (simp add: ac_simps)
qed

lemma ttlExact_mono: "i \<le> j \<Longrightarrow> ttlExact i \<le> ttlExact j"
proof (rule lift_Suc_mono_le [of ttlExact])
  fix k show "ttlExact k \<le> ttlExact (Suc k)"
    unfolding ttlExact_def
    by (intro isqrt_mono scale_mono) (simp_all add: phiDen_def phiNum_def)
qed

lemma ttlExact_0: "ttlExact 0 = dayNs"
  unfolding ttlExact_def by (intro isqrt_unique) (simp_all add: power2_eq_square)

text \<open>\<open>phi^16\<close> lies between 2200 and 2207, which places the overflow of the
  \<^verbatim>\<open>int64\<close> range between work factors 48 and 49.\<close>

lemma ratio_power: "a * q \<le> b * (p::nat) \<Longrightarrow> a ^ n * q ^ n \<le> b ^ n * p ^ n"
  by (simp add: power_mono flip: power_mult_distrib)

lemma phi16_upper: "phiNum ^ 16 \<le> 2207 * phiDen ^ 16"
proof -
  have "phiNum * 1000000 \<le> 1618034 * phiDen" by (simp add: phiNum_def phiDen_def)
  then have "phiNum ^ 16 * 1000000 ^ 16 \<le> 1618034 ^ 16 * phiDen ^ 16" by (rule ratio_power)
  also have "(1618034::nat) ^ 16 \<le> 2207 * 1000000 ^ 16" by simp
  then have "1618034 ^ 16 * phiDen ^ 16 \<le> (2207 * 1000000 ^ 16) * phiDen ^ 16"
    by (rule mult_le_mono1)
  also have "\<dots> = (2207 * phiDen ^ 16) * 1000000 ^ 16" by (simp only: ac_simps)
  finally show ?thesis by (rule mult_le_cancel2 [THEN iffD1, rule_format]) simp
qed

lemma phi16_lower: "2200 * phiDen ^ 16 \<le> phiNum ^ 16"
proof -
  have "phiDen * 1618 \<le> 1000 * phiNum" by (simp add: phiNum_def phiDen_def)
  then have le: "phiDen ^ 16 * 1618 ^ 16 \<le> 1000 ^ 16 * phiNum ^ 16" by (rule ratio_power)
  have "(2200 * 1000 ^ 16::nat) \<le> 1618 ^ 16" by simp
  then have "(2200 * 1000 ^ 16) * phiDen ^ 16 \<le> 1618 ^ 16 * phiDen ^ 16" by (rule mult_le_mono1)
  also have "\<dots> \<le> 1000 ^ 16 * phiNum ^ 16" using le by (simp only: ac_simps)
  finally have "(2200 * phiDen ^ 16) * 1000 ^ 16 \<le> phiNum ^ 16 * 1000 ^ 16"
    by (simp only: ac_simps)
  then show ?thesis by (rule mult_le_cancel2 [THEN iffD1, rule_format]) simp
qed

lemma scale_cancel: "a * (b * phiDen ^ k) div phiDen ^ k = a * b"
proof -
  have "phiDen ^ k \<noteq> 0" by (simp add: phiDen_def)
  then show ?thesis by (simp add: nonzero_mult_div_cancel_right flip: mult.assoc)
qed

lemma ttlExact_48: "ttlExact 48 < 2 ^ 63"
proof -
  have "(phiNum ^ 16) ^ 3 \<le> (2207 * phiDen ^ 16) ^ 3" using phi16_upper by (rule power_mono) simp
  then have "phiNum ^ 48 \<le> 2207 ^ 3 * phiDen ^ 48" by (simp add: power_mult_distrib flip: power_mult)
  then have "dayNs\<^sup>2 * phiNum ^ 48 div phiDen ^ 48 \<le> dayNs\<^sup>2 * (2207 ^ 3 * phiDen ^ 48) div phiDen ^ 48"
    by (intro div_le_mono mult_le_mono2)
  also have "\<dots> = dayNs\<^sup>2 * 2207 ^ 3" by (rule scale_cancel)
  also have "\<dots> < (2 ^ 63)\<^sup>2" by (simp add: dayNs_def power2_eq_square)
  finally have "(ttlExact 48)\<^sup>2 < (2 ^ 63)\<^sup>2"
    using isqrt_spec [of "dayNs\<^sup>2 * phiNum ^ 48 div phiDen ^ 48"] unfolding ttlExact_def by linarith
  then show ?thesis by (rule power_less_imp_less_base) simp
qed

lemma ttlExact_49: "2 ^ 63 \<le> ttlExact 49"
proof -
  have "(2200 * phiDen ^ 16) ^ 3 \<le> (phiNum ^ 16) ^ 3" using phi16_lower by (rule power_mono) simp
  then have "2200 ^ 3 * phiDen ^ 48 \<le> phiNum ^ 48" by (simp add: power_mult_distrib flip: power_mult)
  moreover have "3 * phiDen \<le> 2 * phiNum" by (simp add: phiNum_def phiDen_def)
  ultimately have "2200 ^ 3 * phiDen ^ 48 * (3 * phiDen) \<le> phiNum ^ 48 * (2 * phiNum)"
    by (rule mult_le_mono)
  then have "(2200 ^ 3 * 3 div 2) * phiDen ^ 49 \<le> phiNum ^ 49"
    by (simp add: power_add [of _ 48 1, simplified] mult.commute)
  then have "dayNs\<^sup>2 * ((2200 ^ 3 * 3 div 2) * phiDen ^ 49) div phiDen ^ 49
      \<le> dayNs\<^sup>2 * phiNum ^ 49 div phiDen ^ 49"
    by (intro div_le_mono mult_le_mono2)
  moreover have "dayNs\<^sup>2 * ((2200 ^ 3 * 3 div 2) * phiDen ^ 49) div phiDen ^ 49
      = dayNs\<^sup>2 * (2200 ^ 3 * 3 div 2)" by (rule scale_cancel)
  moreover have "(2 ^ 63)\<^sup>2 \<le> dayNs\<^sup>2 * (2200 ^ 3 * 3 div 2)"
    by (simp add: dayNs_def power2_eq_square)
  ultimately have "(2 ^ 63)\<^sup>2 < (ttlExact 49 + 1)\<^sup>2"
    using isqrt_spec [of "dayNs\<^sup>2 * phiNum ^ 49 div phiDen ^ 49"] unfolding ttlExact_def by linarith
  then have "2 ^ 63 < ttlExact 49 + 1" by (rule power_less_imp_less_base) simp
  then show ?thesis by simp
qed

lemma TTL_in_range:
  assumes "w \<le> 48" shows "TTLFromWorkFactor E w = int (ttlExact (nat w))"
proof -
  have "ttlExact (nat w) \<le> ttlExact 48" using assms by (intro ttlExact_mono) simp
  then have "int (ttlExact (nat w)) < 2 ^ 63" using ttlExact_48 by simp
  moreover have "nat (if w < 0 then 0 else w) = nat w" by simp
  ultimately show ?thesis unfolding TTLFromWorkFactor_def Let_def by metis
qed

lemma TTL_overflow:
  assumes "49 \<le> w" shows "TTLFromWorkFactor E w = f2i_overflow E"
proof -
  have "ttlExact 49 \<le> ttlExact (nat w)" using assms by (intro ttlExact_mono) simp
  then have "\<not> int (ttlExact (nat w)) < 2 ^ 63" using ttlExact_49 by simp
  then show ?thesis using assms by (simp add: TTLFromWorkFactor_def Let_def)
qed

lemma TTL_int64: "env_ok E \<Longrightarrow> in_int64 (TTLFromWorkFactor E w)"
  using env_okD(3) by (auto simp: TTLFromWorkFactor_def Let_def in_int64_def)

lemma TTL_mono: "v \<le> w \<Longrightarrow> w \<le> 48 \<Longrightarrow> TTLFromWorkFactor E v \<le> TTLFromWorkFactor E w"
  using ttlExact_mono [of "nat v" "nat w"] by (simp add: TTL_in_range)

lemma TTL_base: "w \<le> 48 \<Longrightarrow> int dayNs \<le> TTLFromWorkFactor E w"
  using ttlExact_mono [of 0 "nat w"] by (simp add: TTL_in_range ttlExact_0)

section \<open>The Store interface\<close>

record 's Store =
  st_Put :: "time \<Rightarrow> Stamp \<Rightarrow> Payload \<Rightarrow> Tag \<Rightarrow> 's \<Rightarrow> (store_err + ID) \<times> 's"
  st_Get :: "time \<Rightarrow> 's \<Rightarrow> ID \<Rightarrow> store_err + (Stamp \<times> Payload)"
  st_GetWorkFactor :: "time \<Rightarrow> 's \<Rightarrow> ID \<Rightarrow> store_err + int"
  st_Has :: "time \<Rightarrow> 's \<Rightarrow> ID \<Rightarrow> store_err + bool"
  st_ListIDs :: "time \<Rightarrow> 's \<Rightarrow> store_err + ID list"
  st_ListBlocks ::
    "time \<Rightarrow> 's \<Rightarrow> string \<Rightarrow> int \<Rightarrow> int \<Rightarrow> time \<Rightarrow> store_err + (string \<times> BlockRef list)"
  st_Prune :: "time \<Rightarrow> 's \<Rightarrow> (int \<times> store_err option) \<times> 's"
  st_Evict :: "time \<Rightarrow> int \<Rightarrow> 's \<Rightarrow> (int \<times> store_err option) \<times> 's"

text \<open>What a backend keeps of a block.\<close>

record stored =
  sb_stamp :: Stamp
  sb_payload :: Payload
  sb_wf :: int
  sb_createdAt :: int

definition wf_stored :: "env \<Rightarrow> ID \<Rightarrow> stored \<Rightarrow> bool" where
  "wf_stored E i b \<longleftrightarrow>
     wf_stamp (sb_stamp b) \<and> wf_payload (sb_payload b) \<and>
     i = ComputeID E (sb_payload b) \<and> sb_wf b = WorkFactor E (sb_stamp b) (sb_payload b) \<and>
     0 \<le> sb_createdAt b \<and> in_int64 (sb_createdAt b)"

text \<open>The loop that every client of \<^verbatim>\<open>ListBlocks\<close> writes: call the body with the
  current token until the next token is empty.  An early return is an \<open>Inl\<close>; a loop
  that never ends is \<open>None\<close>.\<close>

partial_function (option) page_loop ::
  "(string \<Rightarrow> 'a \<Rightarrow> 'r + (string \<times> 'a)) \<Rightarrow> string \<Rightarrow> 'a \<Rightarrow> ('r + 'a) option" where
  "page_loop body tok acc =
     (case body tok acc of
        Inl r \<Rightarrow> Some (Inl r)
      | Inr (nxt, acc') \<Rightarrow> if nxt = [] then Some (Inr acc') else page_loop body nxt acc')"

text \<open>What every iteration keeps, the loop keeps.\<close>

lemma page_loop_keeps:
  assumes "page_loop body tok acc = Some res" "P acc"
    and "\<And>tok acc. P acc \<Longrightarrow> (case body tok acc of Inl r \<Rightarrow> Q r | Inr (nxt, acc') \<Rightarrow> P acc')"
  shows "case res of Inl r \<Rightarrow> Q r | Inr acc' \<Rightarrow> P acc'"
proof -
  have "P acc \<longrightarrow> (\<forall>tok acc. P acc \<longrightarrow> (case body tok acc of Inl r \<Rightarrow> Q r | Inr (nxt, acc') \<Rightarrow> P acc')) \<longrightarrow>
      (case res of Inl r \<Rightarrow> Q r | Inr acc' \<Rightarrow> P acc')"
  proof (rule page_loop.raw_induct [OF _ assms(1)], intro impI)
    fix loop body tok acc res
    assume IH: "\<And>body tok acc res. loop body tok acc = Some res \<Longrightarrow>
        P acc \<longrightarrow> (\<forall>tok acc. P acc \<longrightarrow> (case body tok acc of Inl r \<Rightarrow> Q r | Inr (nxt, acc') \<Rightarrow> P acc')) \<longrightarrow>
        (case res of Inl r \<Rightarrow> Q r | Inr acc' \<Rightarrow> P acc')"
      and res: "(case body tok acc of Inl r \<Rightarrow> Some (Inl r)
        | Inr (nxt, acc') \<Rightarrow> if nxt = [] then Some (Inr acc') else loop body nxt acc') = Some res"
      and P: "P acc" and body: "\<forall>tok acc. P acc \<longrightarrow> (case body tok acc of Inl r \<Rightarrow> Q r | Inr (nxt, acc') \<Rightarrow> P acc')"
    show "case res of Inl r \<Rightarrow> Q r | Inr acc' \<Rightarrow> P acc'"
    proof (cases "body tok acc")
      case (Inl r)
      then show ?thesis using res body [rule_format, OF P, of tok] by auto
    next
      case (Inr x)
      obtain nxt acc' where x: "x = (nxt, acc')" by (cases x)
      have P': "P acc'" using body [rule_format, OF P, of tok] by (simp add: Inr x)
      show ?thesis
      proof (cases "nxt = []")
        case True
        then show ?thesis using res P' by (auto simp: Inr x)
      next
        case False
        then have "loop body nxt acc' = Some res" using res by (simp add: Inr x)
        from IH [OF this] P' body show ?thesis by blast
      qed
    qed
  qed
  then show ?thesis using assms(2,3) by blast
qed

text \<open>The specification of one page over the strictly sorted keys of the selected
  blocks: what comes after the cursor, at most \<open>lim\<close> of it, and a token exactly when
  the page is full.\<close>

definition after :: "cursor option \<Rightarrow> cursor list \<Rightarrow> cursor list" where
  "after cur ks = (case cur of None \<Rightarrow> ks | Some c \<Rightarrow> filter (\<lambda>k. c < k) ks)"

definition page_of :: "nat \<Rightarrow> cursor option \<Rightarrow> cursor list \<Rightarrow> cursor list" where
  "page_of lim cur ks = take lim (after cur ks)"

definition page_token :: "nat \<Rightarrow> cursor list \<Rightarrow> string" where
  "page_token lim page = (if length page = lim then encodeCursor (last page) else [])"

definition token_of :: "cursor option \<Rightarrow> string" where
  "token_of cur = (case cur of None \<Rightarrow> [] | Some c \<Rightarrow> encodeCursor c)"

lemma filter_last_take:
  fixes xs :: "'a :: linorder list"
  assumes "sorted_wrt (<) xs" "0 < n" "n \<le> length xs"
  shows "filter (\<lambda>x. last (take n xs) < x) xs = drop n xs"
proof -
  define p where "p = take n xs"
  define q where "q = drop n xs"
  have xs: "xs = p @ q" by (simp add: p_def q_def)
  have ne: "p \<noteq> []" using assms by (auto simp: p_def)
  then have last: "last p \<in> set p" by simp
  have s: "sorted_wrt (<) p" "\<forall>x \<in> set p. \<forall>y \<in> set q. x < y"
    using assms(1) by (simp_all add: xs sorted_wrt_append)
  have "y \<le> last p" if "y \<in> set p" for y
  proof -
    have "sorted_wrt (<) (butlast p @ [last p])" using s(1) ne by simp
    moreover have "y \<in> set (butlast p) \<or> y = last p"
      using that ne by (metis append_butlast_last_id rotate1.simps(2) set_ConsD set_rotate1)
    ultimately show ?thesis by (auto simp: sorted_wrt_append)
  qed
  then have "filter (\<lambda>x. last p < x) p = []" by (auto simp: filter_empty_conv not_less)
  moreover have "filter (\<lambda>x. last p < x) q = q" using s(2) last by (auto simp: filter_id_conv)
  ultimately have "filter (\<lambda>x. last p < x) xs = q" by (simp add: xs)
  then show ?thesis by (simp only: p_def q_def)
qed

section \<open>The contract of a backend\<close>

text \<open>\<open>sel_keys m pf since\<close> lists, in the order of \<^verbatim>\<open>(created_at, id)\<close>, the blocks
  that pass the filters of \<^verbatim>\<open>ListBlocks\<close>.\<close>

definition sel_set :: "(ID \<rightharpoonup> stored) \<Rightarrow> int \<Rightarrow> int \<Rightarrow> cursor set" where
  "sel_set m pf since =
     {(sb_createdAt b, i) | i b. m i = Some b \<and> pf \<le> sb_wf b \<and> since \<le> sb_createdAt b}"

definition sel_keys :: "(ID \<rightharpoonup> stored) \<Rightarrow> int \<Rightarrow> int \<Rightarrow> cursor list" where
  "sel_keys m pf since = sorted_list_of_set (sel_set m pf since)"

definition key_pair :: "(ID \<rightharpoonup> stored) \<Rightarrow> cursor \<Rightarrow> ID \<times> int" where
  "key_pair m k = (snd k, sb_wf (the (m (snd k))))"

lemma finite_sel_set: "finite (dom m) \<Longrightarrow> finite (sel_set m pf since)"
proof -
  assume f: "finite (dom m)"
  have "sel_set m pf since \<subseteq> (\<lambda>i. (sb_createdAt (the (m i)), i)) ` dom m"
    by (force simp: sel_set_def)
  then show ?thesis using f finite_subset by blast
qed

lemma sorted_sel_keys: "sorted_wrt (<) (sel_keys m pf since)"
  by (simp add: sel_keys_def)

lemma set_sel_keys: "finite (dom m) \<Longrightarrow> set (sel_keys m pf since) = sel_set m pf since"
  by (simp add: sel_keys_def finite_sel_set)

lemma sel_keys_unique:
  "finite (dom m) \<Longrightarrow> sorted_wrt (<) ks \<Longrightarrow> set ks = sel_set m pf since \<Longrightarrow> ks = sel_keys m pf since"
  by (rule sorted_wrt_mset_unique [where R = "(<)"]) (auto simp: sorted_sel_keys set_sel_keys)

definition clock_ok :: "time \<Rightarrow> bool" where
  "clock_ok t \<longleftrightarrow> 0 \<le> Unix t \<and> in_int64 (Unix t)"

definition new_stored :: "env \<Rightarrow> time \<Rightarrow> Stamp \<Rightarrow> Payload \<Rightarrow> stored" where
  "new_stored E t stamp payload =
     \<lparr>sb_stamp = stamp, sb_payload = payload, sb_wf = WorkFactor E stamp payload,
      sb_createdAt = Unix t\<rparr>"

lemma wf_new_stored:
  "clock_ok t \<Longrightarrow> wf_stamp st \<Longrightarrow> wf_payload p \<Longrightarrow> wf_stored E (ComputeID E p) (new_stored E t st p)"
  by (simp add: wf_stored_def new_stored_def clock_ok_def)

locale block_store =
  fixes S :: "'s Store" and E :: env
    and inv :: "time \<Rightarrow> 's \<Rightarrow> bool" and blk :: "time \<Rightarrow> 's \<Rightarrow> ID \<Rightarrow> stored option"
  assumes env: "inv t s \<Longrightarrow> env_ok E"
    and clock: "inv t s \<Longrightarrow> clock_ok t"
    and later: "inv t s \<Longrightarrow> t \<le> t' \<Longrightarrow> clock_ok t' \<Longrightarrow> inv t' s \<and> blk t' s = blk t s"
    and finite_blk: "inv t s \<Longrightarrow> finite (dom (blk t s))"
    and stored_wf: "inv t s \<Longrightarrow> blk t s i = Some b \<Longrightarrow> wf_stored E i b"
    and Get_law: "inv t s \<Longrightarrow> wf_id i \<Longrightarrow> st_Get S t s i =
      (case blk t s i of None \<Rightarrow> Inl ErrNotFound | Some b \<Rightarrow> Inr (sb_stamp b, sb_payload b))"
    and GetWorkFactor_law: "inv t s \<Longrightarrow> wf_id i \<Longrightarrow> st_GetWorkFactor S t s i =
      (case blk t s i of None \<Rightarrow> Inl ErrNotFound | Some b \<Rightarrow> Inr (sb_wf b))"
    and Has_law: "inv t s \<Longrightarrow> wf_id i \<Longrightarrow>
      \<exists>h. st_Has S t s i = Inr h \<and> (blk t s i \<noteq> None \<longrightarrow> h)"
    and ListIDs_law: "inv t s \<Longrightarrow>
      \<exists>ids. st_ListIDs S t s = Inr ids \<and> set ids = dom (blk t s) \<and> distinct ids"
    and ListBlocks_law:
      "inv t s \<Longrightarrow> 0 < lim \<Longrightarrow> in_int64 (Unix since) \<Longrightarrow> (\<And>c. cur = Some c \<Longrightarrow> wf_cursor c \<and> 0 \<le> fst c) \<Longrightarrow>
       page = page_of lim cur (sel_keys (blk t s) pf (Unix since)) \<Longrightarrow>
       \<exists>refs. st_ListBlocks S t s (token_of cur) (int lim) pf since =
                Inr (page_token lim page, refs) \<and>
              map (\<lambda>r. (refID r, refWF r)) refs = map (key_pair (blk t s)) page"
    and Put_law:
      "inv t s \<Longrightarrow> wf_stamp st \<Longrightarrow> wf_payload p \<Longrightarrow> st_Put S t st p tag s = (r, s') \<Longrightarrow>
       inv t s' \<and> r = Inr (ComputeID E p) \<and>
       (\<forall>i b. blk t s' i = Some b \<longrightarrow>
          blk t s i = Some b \<or> i = ComputeID E p \<and> b = new_stored E t st p)"
begin

lemma wf_dom: "inv t s \<Longrightarrow> blk t s i = Some b \<Longrightarrow> wf_id i"
  using stored_wf env by (fastforce simp: wf_stored_def)

lemma sel_cursor_wf:
  "inv t s \<Longrightarrow> k \<in> set (sel_keys (blk t s) pf since) \<Longrightarrow> wf_cursor k \<and> 0 \<le> fst k"
proof -
  assume i: "inv t s" and "k \<in> set (sel_keys (blk t s) pf since)"
  then have "k \<in> sel_set (blk t s) pf since" using set_sel_keys [OF finite_blk] by simp
  then obtain i b where "k = (sb_createdAt b, i)" "blk t s i = Some b" by (auto simp: sel_set_def)
  then show ?thesis using stored_wf [OF i] wf_dom [OF i]
    by (auto simp: wf_cursor_def wf_stored_def)
qed

text \<open>The paging loop over a store that the body does not change: it ends, with the
  body's effect applied to every selected block once, in order, up to an early return.\<close>

lemma page_loop_from:
  assumes i: "inv t s" and lim: "0 < lim" and since: "in_int64 (Unix since)"
    and cur: "\<And>c. cur = Some c \<Longrightarrow> wf_cursor c \<and> 0 \<le> fst c"
    and body: "\<And>tok acc. body tok acc =
      (case st_ListBlocks S t s tok (int lim) pf since of
         Inl e \<Rightarrow> Inl (err e acc)
       | Inr (nxt, refs) \<Rightarrow> sum_bind (efold (\<lambda>r. f (refID r) (refWF r)) refs acc) (\<lambda>a. Inr (nxt, a)))"
    and ks: "ks = sel_keys (blk t s) pf (Unix since)"
  shows "page_loop body (token_of cur) acc =
     Some (efold (\<lambda>(i, w). f i w) (map (key_pair (blk t s)) (after cur ks)) acc)"
  using cur
proof (induction "length (after cur ks)" arbitrary: cur acc rule: less_induct)
  case less
  let ?g = "\<lambda>ks. efold (\<lambda>(i, w). f i w) (map (key_pair (blk t s)) ks)"
  define page where "page = page_of lim cur ks"
  obtain refs where refs: "st_ListBlocks S t s (token_of cur) (int lim) pf since =
      Inr (page_token lim page, refs)"
    and m: "map (\<lambda>r. (refID r, refWF r)) refs = map (key_pair (blk t s)) page"
  proof -
    have "page = page_of lim cur (sel_keys (blk t s) pf (Unix since))" by (simp add: page_def ks)
    from ListBlocks_law [OF i lim since less.prems this] show thesis using that by blast
  qed
  have "efold (\<lambda>r. f (refID r) (refWF r)) refs acc = ?g page acc"
    unfolding m [symmetric] efold_map by simp
  then have step: "body (token_of cur) acc = sum_bind (?g page acc) (\<lambda>a. Inr (page_token lim page, a))"
    by (simp add: body refs)
  show ?case
  proof (cases "length page = lim")
    case False
    then have "page = after cur ks" by (auto simp: page_def page_of_def min_def split: if_splits)
    with False show ?thesis
      by (subst page_loop.simps, cases "?g page acc") (simp_all add: step page_token_def)
  next
    case True
    define c where "c = last page"
    have full: "lim \<le> length (after cur ks)" using True by (auto simp: page_def page_of_def)
    have sorted: "sorted_wrt (<) (after cur ks)"
      by (auto simp: after_def ks sorted_sel_keys sorted_wrt_filter split: option.split)
    have "c \<in> set page" using True lim by (metis c_def last_in_set length_greater_0_conv)
    then have "c \<in> set (after cur ks)" by (auto simp: page_def page_of_def dest: in_set_takeD)
    then have mem: "c \<in> set ks" "\<And>d. cur = Some d \<Longrightarrow> d < c"
      by (auto simp: after_def split: option.splits)
    have cw: "wf_cursor c \<and> 0 \<le> fst c" using sel_cursor_wf [OF i] mem(1) ks by blast
    have "after (Some c) ks = filter (\<lambda>k. c < k) (after cur ks)"
    proof (cases cur)
      case (Some d)
      then have "c < k \<longleftrightarrow> d < k \<and> c < k" for k using mem(2) order.strict_trans by metis
      then show ?thesis unfolding Some after_def by (simp only: option.case filter_filter)
    qed (simp add: after_def)
    also have "\<dots> = drop lim (after cur ks)"
      using filter_last_take [OF sorted lim full] by (simp add: c_def page_def page_of_def)
    finally have rest: "after (Some c) ks = drop lim (after cur ks)" .
    have all: "?g (after cur ks) acc = sum_bind (?g page acc) (?g (after (Some c) ks))"
      unfolding rest page_def page_of_def efold_append [symmetric] map_append [symmetric] by simp
    have next_page: "page_loop body (token_of (Some c)) a = Some (?g (after (Some c) ks) a)" for a
      using less.hyps [of "Some c" a] full lim cw rest by simp
    have tok: "token_of (Some c) = encodeCursor (last page)" by (simp add: token_of_def c_def)
    show ?thesis
    proof (cases "?g page acc")
      case (Inl r)
      then show ?thesis by (subst page_loop.simps) (simp add: step all)
    next
      case (Inr a)
      then show ?thesis using True next_page [of a] tok
        by (subst page_loop.simps) (simp add: step all page_token_def)
    qed
  qed
qed

lemma page_loop_efold:
  assumes "inv t s" "0 < lim" "in_int64 (Unix since)"
    and "\<And>tok acc. body tok acc =
      (case st_ListBlocks S t s tok (int lim) pf since of
         Inl e \<Rightarrow> Inl (err e acc)
       | Inr (nxt, refs) \<Rightarrow> sum_bind (efold (\<lambda>r. f (refID r) (refWF r)) refs acc) (\<lambda>a. Inr (nxt, a)))"
  shows "page_loop body [] acc =
     Some (efold (\<lambda>(i, w). f i w) (map (key_pair (blk t s)) (sel_keys (blk t s) pf (Unix since))) acc)"
  using page_loop_from [OF assms(1-3) _ assms(4) refl, of None acc] by (simp add: token_of_def after_def)

lemma page_loop_all:
  assumes "inv t s" "0 < lim" "in_int64 (Unix since)"
    and "\<And>tok acc. body tok acc =
      (case st_ListBlocks S t s tok (int lim) pf since of
         Inl e \<Rightarrow> Inl (err e acc)
       | Inr (nxt, refs) \<Rightarrow> Inr (nxt, fold (\<lambda>r. f (refID r) (refWF r)) refs acc))"
  shows "page_loop body [] acc =
     Some (Inr (fold (\<lambda>(i, w). f i w)
       (map (key_pair (blk t s)) (sel_keys (blk t s) pf (Unix since))) acc))"
proof -
  have "body tok acc = (case st_ListBlocks S t s tok (int lim) pf since of
         Inl e \<Rightarrow> Inl (err e acc)
       | Inr (nxt, refs) \<Rightarrow> sum_bind (efold (\<lambda>r acc. Inr (f (refID r) (refWF r) acc)) refs acc) (\<lambda>a. Inr (nxt, a)))"
    for tok acc unfolding assms(4) by (auto split: sum.split)
  from page_loop_efold [OF assms(1-3) this, of acc] show ?thesis unfolding case_prod_unfold by simp
qed

end

text \<open>A backend that is not under storage pressure (\<open>unlimited\<close>): \<^verbatim>\<open>Put\<close> then has
  an exact effect on the blocks.  \<open>refuses\<close> are the IDs that it will not take back.\<close>

definition put_effect ::
  "env \<Rightarrow> time \<Rightarrow> Stamp \<Rightarrow> Payload \<Rightarrow> bool \<Rightarrow> (ID \<rightharpoonup> stored) \<Rightarrow> ID \<rightharpoonup> stored" where
  "put_effect E t st p refused m =
     (let i = ComputeID E p
      in if refused \<or> (case m i of None \<Rightarrow> False | Some b \<Rightarrow> WorkFactor E st p \<le> sb_wf b) then m
         else m(i \<mapsto> new_stored E t st p))"

locale keeping_store = block_store S E inv blk
  for S :: "'s Store" and E :: env and inv :: "time \<Rightarrow> 's \<Rightarrow> bool"
    and blk :: "time \<Rightarrow> 's \<Rightarrow> ID \<Rightarrow> stored option" +
  fixes unlimited :: "'s \<Rightarrow> bool" and refuses :: "time \<Rightarrow> 's \<Rightarrow> ID \<Rightarrow> bool"
  assumes Put_keeps:
      "inv t s \<Longrightarrow> unlimited s \<Longrightarrow> wf_stamp st \<Longrightarrow> wf_payload p \<Longrightarrow> st_Put S t st p tag s = (r, s') \<Longrightarrow>
       unlimited s' \<and> refuses t s' = refuses t s \<and>
       blk t s' = put_effect E t st p (refuses t s (ComputeID E p)) (blk t s)"
    and Has_keeps: "inv t s \<Longrightarrow> wf_id i \<Longrightarrow> st_Has S t s i = Inr (blk t s i \<noteq> None \<or> refuses t s i)"
begin

text \<open>No \<^verbatim>\<open>Put\<close> lowers the work factor of a block, and a block that is not refused is
  there afterwards with at least the work factor of its stamp.\<close>

definition at_least :: "time \<Rightarrow> 's \<Rightarrow> ID \<Rightarrow> int \<Rightarrow> bool" where
  "at_least t s i w \<longleftrightarrow> (\<exists>b. blk t s i = Some b \<and> w \<le> sb_wf b)"

lemma Put_at_least:
  assumes "inv t s" "unlimited s" "wf_stamp st" "wf_payload p" "st_Put S t st p tag s = (r, s')"
  shows "at_least t s i w \<Longrightarrow> at_least t s' i w"
    "\<not> refuses t s (ComputeID E p) \<Longrightarrow> at_least t s' (ComputeID E p) (WorkFactor E st p)"
proof -
  have "blk t s' = put_effect E t st p (refuses t s (ComputeID E p)) (blk t s)"
    using Put_keeps [OF assms] by blast
  then show "at_least t s i w \<Longrightarrow> at_least t s' i w"
    "\<not> refuses t s (ComputeID E p) \<Longrightarrow> at_least t s' (ComputeID E p) (WorkFactor E st p)"
    by (auto simp: at_least_def put_effect_def Let_def new_stored_def split: option.splits if_splits)
qed

end

section \<open>Properties\<close>

text \<open>A page token round trips: decoding the token of a cursor gives the cursor back,
  and everything that decodes is a cursor with a 64-bit time and a 32-byte ID.\<close>

theorem cursor_roundtrip:
  assumes "in_int64 (fst c)" "wf_id (snd c)"
  shows "encodeCursor c \<noteq> [] \<and> decodeCursor (encodeCursor c) = Inr c \<and>
    (\<forall>token d. decodeCursor token = Inr d \<longrightarrow> in_int64 (fst d) \<and> wf_id (snd d))"
  using assms decodeCursor_wf by (auto simp: wf_cursor_def)

theorem cursor_roundtrip_witness:
  "encodeCursor (7, replicate 32 1) \<noteq> [] \<and>
   decodeCursor (encodeCursor (7, replicate 32 1)) = Inr (7, replicate 32 1)"
  using cursor_roundtrip [of "(7, replicate 32 1)"] by (simp add: in_int64_def wf_id_def)

text \<open>C32: up to work factor 48 the lifetime of a block fits the 64-bit duration, is at
  least one day and does not decrease with the work factor.\<close>

theorem TTL_lifetimes:
  assumes "v \<le> w" "w \<le> 48"
  shows "int dayNs \<le> TTLFromWorkFactor E v \<and> TTLFromWorkFactor E v \<le> TTLFromWorkFactor E w \<and>
    TTLFromWorkFactor E w < 2 ^ 63"
proof -
  have "ttlExact (nat w) \<le> ttlExact 48" using assms(2) by (intro ttlExact_mono) simp
  then have "TTLFromWorkFactor E w < 2 ^ 63"
    using ttlExact_48 assms(2) by (simp add: TTL_in_range)
  moreover have "v \<le> 48" using assms by simp
  ultimately show ?thesis using TTL_base TTL_mono [OF assms] by blast
qed

theorem TTL_lifetimes_witness:
  "int dayNs \<le> TTLFromWorkFactor env0 3 \<and> TTLFromWorkFactor env0 3 \<le> TTLFromWorkFactor env0 20 \<and>
    TTLFromWorkFactor env0 20 < 2 ^ 63"
  by (rule TTL_lifetimes) simp_all

text \<open>From work factor 49 on the product leaves the 64-bit range and the lifetime is
  the value that the platform's float conversion gives for an out-of-range number; where
  that value is the smallest 64-bit integer, the longest-lived block expires first and its
  tombstone has no duration.\<close>

theorem TTL_out_of_range:
  assumes "49 \<le> w"
  shows "TTLFromWorkFactor E w = f2i_overflow E \<and>
    (f2i_overflow E = - (2 ^ 63) \<longrightarrow>
       TTLFromWorkFactor E w < TTLFromWorkFactor E 0 \<and> wrap64 (2 * TTLFromWorkFactor E w) = 0)"
  using TTL_overflow [OF assms, of E] TTL_base [of 0 E]
  by (simp add: dayNs_def wrap64_def)

theorem TTL_out_of_range_witness:
  "TTLFromWorkFactor env0 60 < TTLFromWorkFactor env0 0 \<and> wrap64 (2 * TTLFromWorkFactor env0 60) = 0"
  using TTL_out_of_range [of 60 env0] by (simp add: env0_def wrap64_def)

end
