(* ===== verification/BadgerDB.thy ===== *)
theory BadgerDB
  imports Blockstore "HOL-Library.Sublist"
begin

text \<open>
  The embedded key-value database (\<^verbatim>\<open>github.com/dgraph-io/badger/v4\<close>) as the
  sources use it.  It is a parameter of the model: a record of operations over an
  unknown state, with two ghost observers (\<open>db_view\<close>, the logical contents with their
  expiry times, and \<open>db_healthy\<close>, open and without I/O errors) in which
  \<open>badger_laws\<close> states the documented behaviour: a snapshot read returns the live value
  of a key, an iterator with a prefix returns the live keys under it in byte order, a
  committed transaction applies its writes, an entry with a TTL is gone once the TTL has
  elapsed.  \<open>mem_badger\<close> is an executable instance that has these laws.
\<close>

datatype kv_err = ErrKeyNotFound | ErrNoRewrite | KvErr string

datatype kv_write = KSet bytes bytes | KSetTTL bytes bytes int | KDelete bytes

type_synonym kv_view = "bytes \<Rightarrow> (bytes \<times> int option) option"

record 'db badger =
  db_Get :: "time \<Rightarrow> 'db \<Rightarrow> bytes \<Rightarrow> kv_err + bytes"
  db_Iterate :: "time \<Rightarrow> 'db \<Rightarrow> bytes \<Rightarrow> kv_err + (bytes \<times> bytes) list"
  db_Commit :: "time \<Rightarrow> 'db \<Rightarrow> kv_write list \<Rightarrow> kv_err + 'db"
  db_Size :: "'db \<Rightarrow> int \<times> int"
  db_RunValueLogGC :: "time \<Rightarrow> 'db \<Rightarrow> kv_err option \<times> 'db"
  db_view :: "'db \<Rightarrow> kv_view"
  db_healthy :: "'db \<Rightarrow> bool"

fun live_value :: "time \<Rightarrow> (bytes \<times> int option) option \<Rightarrow> bytes option" where
  "live_value t None = None"
| "live_value t (Some (v, None)) = Some v"
| "live_value t (Some (v, Some e)) = (if Unix t < e then Some v else None)"

fun apply_write :: "time \<Rightarrow> kv_write \<Rightarrow> kv_view \<Rightarrow> kv_view" where
  "apply_write t (KSet k v) m = m(k := Some (v, None))"
| "apply_write t (KSetTTL k v d) m = m(k := Some (v, Some (Unix (t + d))))"
| "apply_write t (KDelete k) m = m(k := None)"

definition badger_laws :: "'db badger \<Rightarrow> bool" where
  "badger_laws B \<longleftrightarrow>
     (\<forall>t db k. db_healthy B db \<longrightarrow>
        db_Get B t db k =
          (case live_value t (db_view B db k) of None \<Rightarrow> Inl ErrKeyNotFound | Some v \<Rightarrow> Inr v)) \<and>
     (\<forall>t db p. db_healthy B db \<longrightarrow>
        (\<exists>xs. db_Iterate B t db p = Inr xs \<and> sorted_wrt (<) (map fst xs) \<and>
           (\<forall>k v. (k, v) \<in> set xs \<longleftrightarrow> prefix p k \<and> live_value t (db_view B db k) = Some v))) \<and>
     (\<forall>t db ws. db_healthy B db \<longrightarrow>
        (\<exists>db'. db_Commit B t db ws = Inr db' \<and> db_healthy B db' \<and>
           db_view B db' = fold (apply_write t) ws (db_view B db))) \<and>
     (\<forall>t db. db_healthy B db \<longrightarrow>
        (let (e, db') = db_RunValueLogGC B t db
         in (e = None \<or> e = Some ErrNoRewrite) \<and> db_healthy B db' \<and> db_view B db' = db_view B db))"

lemma badger_get:
  "badger_laws B \<Longrightarrow> db_healthy B db \<Longrightarrow> db_Get B t db k =
     (case live_value t (db_view B db k) of None \<Rightarrow> Inl ErrKeyNotFound | Some v \<Rightarrow> Inr v)"
  by (simp add: badger_laws_def)

lemma badger_iterate:
  assumes "badger_laws B" "db_healthy B db"
  obtains xs where "db_Iterate B t db p = Inr xs" "sorted_wrt (<) (map fst xs)"
    "\<And>k v. (k, v) \<in> set xs \<longleftrightarrow> prefix p k \<and> live_value t (db_view B db k) = Some v"
  using assms unfolding badger_laws_def by meson

lemma badger_commit:
  assumes "badger_laws B" "db_healthy B db"
  obtains db' where "db_Commit B t db ws = Inr db'" "db_healthy B db'"
    "db_view B db' = fold (apply_write t) ws (db_view B db)"
  using assms unfolding badger_laws_def by meson

lemma badger_gc:
  assumes "badger_laws B" "db_healthy B db" "db_RunValueLogGC B t db = (e, db')"
  shows "e = None \<or> e = Some ErrNoRewrite" "db_healthy B db'" "db_view B db' = db_view B db"
proof -
  have "let (e, db') = db_RunValueLogGC B t db
    in (e = None \<or> e = Some ErrNoRewrite) \<and> db_healthy B db' \<and> db_view B db' = db_view B db"
    using assms(1,2) unfolding badger_laws_def by blast
  then show "e = None \<or> e = Some ErrNoRewrite" "db_healthy B db'" "db_view B db' = db_view B db"
    by (simp_all add: assms(3))
qed

section \<open>An executable instance\<close>

type_synonym mem_db = "(bytes \<times> bytes \<times> int option) list"

fun mem_set :: "bytes \<Rightarrow> bytes \<times> int option \<Rightarrow> mem_db \<Rightarrow> mem_db" where
  "mem_set k v [] = [(k, v)]"
| "mem_set k v ((k', v') # db) =
     (if k < k' then (k, v) # (k', v') # db
      else if k = k' then (k, v) # db else (k', v') # mem_set k v db)"

definition mem_apply :: "time \<Rightarrow> kv_write \<Rightarrow> mem_db \<Rightarrow> mem_db" where
  "mem_apply t w db =
     (case w of
        KSet k v \<Rightarrow> mem_set k (v, None) db
      | KSetTTL k v d \<Rightarrow> mem_set k (v, Some (Unix (t + d))) db
      | KDelete k \<Rightarrow> filter (\<lambda>e. fst e \<noteq> k) db)"

fun mem_live :: "time \<Rightarrow> mem_db \<Rightarrow> (bytes \<times> bytes) list" where
  "mem_live t [] = []"
| "mem_live t ((k, e) # db) =
     (case live_value t (Some e) of None \<Rightarrow> mem_live t db | Some v \<Rightarrow> (k, v) # mem_live t db)"

definition mem_badger :: "mem_db badger" where
  "mem_badger =
     \<lparr>db_Get = (\<lambda>t db k. case live_value t (map_of db k) of None \<Rightarrow> Inl ErrKeyNotFound | Some v \<Rightarrow> Inr v),
      db_Iterate = (\<lambda>t db p. Inr (filter (\<lambda>kv. prefix p (fst kv)) (mem_live t db))),
      db_Commit = (\<lambda>t db ws. Inr (fold (mem_apply t) ws db)),
      db_Size = (\<lambda>db. (int (length db), 0)),
      db_RunValueLogGC = (\<lambda>t db. (Some ErrNoRewrite, db)),
      db_view = map_of,
      db_healthy = (\<lambda>db. sorted_wrt (<) (map fst db))\<rparr>"

lemma mem_badger_simps [simp]:
  "db_Get mem_badger t db k =
     (case live_value t (map_of db k) of None \<Rightarrow> Inl ErrKeyNotFound | Some v \<Rightarrow> Inr v)"
  "db_Iterate mem_badger t db p = Inr (filter (\<lambda>kv. prefix p (fst kv)) (mem_live t db))"
  "db_Commit mem_badger t db ws = Inr (fold (mem_apply t) ws db)"
  "db_Size mem_badger db = (int (length db), 0)"
  "db_RunValueLogGC mem_badger t db = (Some ErrNoRewrite, db)"
  "db_view mem_badger = map_of"
  "db_healthy mem_badger db = sorted_wrt (<) (map fst db)"
  by (simp_all add: mem_badger_def)

lemma fst_set_mem_set: "fst ` set (mem_set k v db) = insert k (fst ` set db)"
  by (induction k v db rule: mem_set.induct) auto

lemma sorted_mem_set: "sorted_wrt (<) (map fst db) \<Longrightarrow> sorted_wrt (<) (map fst (mem_set k v db))"
  by (induction k v db rule: mem_set.induct) (auto simp: fst_set_mem_set)

lemma map_of_mem_set: "map_of (mem_set k v db) = (map_of db)(k \<mapsto> v)"
  by (induction k v db rule: mem_set.induct) auto

lemma sorted_filter_fst: "sorted_wrt (<) (map fst db) \<Longrightarrow> sorted_wrt (<) (map fst (filter P db))"
  by (simp add: sorted_wrt_map sorted_wrt_filter)

lemma sorted_mem_apply: "sorted_wrt (<) (map fst db) \<Longrightarrow> sorted_wrt (<) (map fst (mem_apply t w db))"
  by (cases w) (simp_all add: mem_apply_def sorted_mem_set sorted_filter_fst)

lemma map_of_remove: "map_of (filter (\<lambda>e. fst e \<noteq> k) db) = (map_of db)(k := None)"
  by (induction db) auto

lemma map_of_mem_apply: "map_of (mem_apply t w db) = apply_write t w (map_of db)"
  by (cases w) (simp_all add: mem_apply_def map_of_mem_set map_of_remove)

lemma mem_fold_apply:
  "sorted_wrt (<) (map fst db) \<Longrightarrow>
   sorted_wrt (<) (map fst (fold (mem_apply t) ws db)) \<and>
   map_of (fold (mem_apply t) ws db) = fold (apply_write t) ws (map_of db)"
  by (induction ws arbitrary: db) (simp_all add: sorted_mem_apply map_of_mem_apply)

lemma fst_mem_live: "fst ` set (mem_live t db) \<subseteq> fst ` set db"
  by (induction t db rule: mem_live.induct) (auto split: option.splits)

lemma sorted_mem_live: "sorted_wrt (<) (map fst db) \<Longrightarrow> sorted_wrt (<) (map fst (mem_live t db))"
proof (induction t db rule: mem_live.induct)
  case (2 t k e db)
  then show ?case using fst_mem_live [of t db] by (fastforce split: option.split)
qed simp

lemma set_mem_live:
  "sorted_wrt (<) (map fst db) \<Longrightarrow> (k, v) \<in> set (mem_live t db) \<longleftrightarrow> live_value t (map_of db k) = Some v"
proof (induction t db rule: mem_live.induct)
  case (2 t k' e db)
  have "map_of db k' = None" using "2.prems" by (fastforce simp: map_of_eq_None_iff)
  with 2 show ?case by (auto split: option.splits)
qed simp

lemma badger_laws_mem: "badger_laws mem_badger"
proof -
  have "\<exists>xs. db_Iterate mem_badger t db p = Inr xs \<and> sorted_wrt (<) (map fst xs) \<and>
      (\<forall>k v. (k, v) \<in> set xs \<longleftrightarrow> prefix p k \<and> live_value t (db_view mem_badger db k) = Some v)"
    if "db_healthy mem_badger db" for t db p
    using that sorted_filter_fst [OF sorted_mem_live [of db t]] set_mem_live [of db] by auto
  then show ?thesis
    unfolding badger_laws_def by (auto simp: mem_fold_apply Let_def)
qed

end
