(* ===== verification/BadgerStore.thy ===== *)
theory BadgerStore
  imports BadgerDB
begin

text \<open>
  \<^verbatim>\<open>blockstore/badger.go\<close>: the store backed by the key-value database.  Every method
  is one definition; it takes the environment, the database operations \<open>B\<close> and the time
  \<open>t\<close> at which it runs (\<^verbatim>\<open>time.Now()\<close>; one instant per call).  A transaction body
  computes the list of its writes from the snapshot, which \<open>db_Commit\<close> then applies.
  The definitions come first; the invariant, the abstraction to a map from block IDs to
  blocks and the proofs about the operations are in \<open>BadgerProofs\<close>.
\<close>

section \<open>State and keys\<close>

record 'db BadgerStore =
  bs_db :: 'db
  bs_storageLimit :: int
  bs_reservations :: "Tag \<Rightarrow> int option"
  bs_medianWF :: int

definition blockPrefix :: byte where "blockPrefix = 98"
definition travPrefix :: byte where "travPrefix = 116"
definition tombPrefix :: byte where "tombPrefix = 120"

lemmas key_prefixes = blockPrefix_def travPrefix_def tombPrefix_def

definition blockValHeaderSize :: nat where
  "blockValHeaderSize = StampSize + 4 + 8 + 1"

definition legacyBlockValHeaderSize :: nat where
  "legacyBlockValHeaderSize = StampSize + 4 + 8"

definition defaultStorageLimit :: int where
  "defaultStorageLimit = 10 * 1024 * 1024 * 1024"

definition evictBatch :: int where
  "evictBatch = 10"

definition blockSize :: int where
  "blockSize = int (blockValHeaderSize + PayloadSize)"

lemmas badger_sizes [simp, size_simps] =
  blockValHeaderSize_def legacyBlockValHeaderSize_def defaultStorageLimit_def evictBatch_def
  blockSize_def

definition blockKey :: "ID \<Rightarrow> bytes" where
  "blockKey i = blockPrefix # i"

definition travKey :: "int \<Rightarrow> ID \<Rightarrow> bytes" where
  "travKey createdAt i =
     travPrefix # PutUint64 (word_of_int (if createdAt < 0 then 0 else createdAt)) @ i"

definition tombKey :: "ID \<Rightarrow> bytes" where
  "tombKey i = tombPrefix # i"

definition encodeBlockVal :: "Stamp \<Rightarrow> int \<Rightarrow> int \<Rightarrow> Tag \<Rightarrow> Payload \<Rightarrow> bytes" where
  "encodeBlockVal stamp w createdAt tag payload =
     stamp @ PutUint32 (word_of_int w) @ PutUint64 (word_of_int createdAt) @ [tag] @ payload"

definition valWF :: "bytes \<Rightarrow> int" where
  "valWF val = uint (Uint32 (slice StampSize (StampSize + 4) val))"

definition valCreatedAt :: "bytes \<Rightarrow> int" where
  "valCreatedAt val = sint (Uint64 (slice (StampSize + 4) (StampSize + 12) val))"

definition OpenBadger :: "'db \<Rightarrow> 'db BadgerStore" where
  "OpenBadger db =
     \<lparr>bs_db = db, bs_storageLimit = 0, bs_reservations = (\<lambda>_. None), bs_medianWF = 0\<rparr>"

definition WithStorageLimit :: "int \<Rightarrow> 'db BadgerStore \<Rightarrow> 'db BadgerStore" where
  "WithStorageLimit n s = s\<lparr>bs_storageLimit := n\<rparr>"

definition WithReservations :: "(Tag \<Rightarrow> int option) \<Rightarrow> 'db BadgerStore \<Rightarrow> 'db BadgerStore" where
  "WithReservations r s = s\<lparr>bs_reservations := r\<rparr>"

definition DiskUsageBytes :: "'db badger \<Rightarrow> 'db BadgerStore \<Rightarrow> int" where
  "DiskUsageBytes B s = (let (lsm, vlog) = db_Size B (bs_db s) in wrap64 (lsm + vlog))"

definition StorageLimitBytes :: "'db BadgerStore \<Rightarrow> int" where
  "StorageLimitBytes s =
     (if bs_storageLimit s = 0 then defaultStorageLimit else bs_storageLimit s)"

definition backend_err :: "kv_err \<Rightarrow> store_err" where
  "backend_err e =
     (case e of ErrKeyNotFound \<Rightarrow> ErrBackend ''Key not found''
              | ErrNoRewrite \<Rightarrow> ErrBackend ''Value log GC attempt did not result in any cleanup''
              | KvErr m \<Rightarrow> ErrBackend m)"

section \<open>Eviction\<close>

record evictCandidate =
  ec_id :: ID
  ec_createdAt :: int
  ec_wf :: int
  ec_tag :: Tag

definition evict_candidate :: "bytes \<times> bytes \<Rightarrow> evictCandidate" where
  "evict_candidate kv =
     (let val = snd kv;
          full = length val \<ge> legacyBlockValHeaderSize + PayloadSize
      in \<lparr>ec_id = drop 1 (fst kv),
          ec_createdAt = (if full then valCreatedAt val else 0),
          ec_wf = (if full then valWF val else 0),
          ec_tag = (if length val \<ge> blockValHeaderSize + PayloadSize
                    then val ! (StampSize + 12) else 0)\<rparr>)"

definition evict_scan :: "(bytes \<times> bytes) list \<Rightarrow> evictCandidate list" where
  "evict_scan items =
     map evict_candidate (filter (\<lambda>kv. length (fst kv) = 1 + IDSize) items)"

definition logicalExpiry :: "env \<Rightarrow> evictCandidate \<Rightarrow> int" where
  "logicalExpiry E c =
     wrap64 (ec_createdAt c + go_div (TTLFromWorkFactor E (ec_wf c)) nsPerSec)"

text \<open>The maps \<^verbatim>\<open>perTag\<close> and \<^verbatim>\<open>tagUsage\<close>: functions with default values, and
  the list of the keys that were inserted.\<close>

record evict_tables =
  et_keys :: "Tag list"
  et_perTag :: "Tag \<Rightarrow> evictCandidate list"
  et_usage :: "Tag \<Rightarrow> int"

definition evict_tables_of :: "env \<Rightarrow> evictCandidate list \<Rightarrow> evict_tables" where
  "evict_tables_of E all =
     \<lparr>et_keys = remdups (map ec_tag all),
      et_perTag = (\<lambda>g. sort_Slice (sorter E) (\<lambda>x y. logicalExpiry E x < logicalExpiry E y)
                       (filter (\<lambda>c. ec_tag c = g) all)),
      et_usage = (\<lambda>g. wrap64 (blockSize * int (length (filter (\<lambda>c. ec_tag c = g) all))))\<rparr>"

fun pick_loop :: "(Tag \<Rightarrow> int) \<Rightarrow> evict_tables \<Rightarrow> Tag list \<Rightarrow> (Tag \<times> int) option \<Rightarrow> (Tag \<times> int) option" where
  "pick_loop res T [] best = best"
| "pick_loop res T (g # gs) best =
     (if et_perTag T g = [] then pick_loop res T gs best
      else let over = wrap64 (et_usage T g - res g)
           in case best of
                None \<Rightarrow> pick_loop res T gs (Some (g, over))
              | Some (g', maxOver) \<Rightarrow>
                  if over > maxOver then pick_loop res T gs (Some (g, over))
                  else pick_loop res T gs best)"

definition reservation :: "'db BadgerStore \<Rightarrow> Tag \<Rightarrow> int" where
  "reservation s g = (case bs_reservations s g of None \<Rightarrow> 0 | Some r \<Rightarrow> r)"

definition evict_writes :: "env \<Rightarrow> evictCandidate \<Rightarrow> kv_write list" where
  "evict_writes E c =
     [KDelete (blockKey (ec_id c)), KDelete (travKey (ec_createdAt c) (ec_id c)),
      KSetTTL (tombKey (ec_id c)) [] (wrap64 (2 * TTLFromWorkFactor E (ec_wf c)))]"

text \<open>\<open>evict_loop\<close> counts down what is still to be evicted; \<open>i\<close> is \<^verbatim>\<open>evicted\<close>.\<close>

fun evict_loop ::
  "env \<Rightarrow> 'db badger \<Rightarrow> time \<Rightarrow> nat \<Rightarrow> nat \<Rightarrow> evict_tables \<Rightarrow> 'db BadgerStore
     \<Rightarrow> (int \<times> store_err option) \<times> 'db BadgerStore" where
  "evict_loop E B t 0 i T s = ((int i, None), s)"
| "evict_loop E B t (Suc n) i T s =
     (case pick_loop (reservation s) T (rangeOrder E i (et_keys T)) None of
        None \<Rightarrow> ((int i, None), s)
      | Some (g, _) \<Rightarrow>
          (let c = hd (et_perTag T g);
               T' = T\<lparr>et_perTag := (et_perTag T)(g := tl (et_perTag T g)),
                      et_usage := (et_usage T)(g := wrap64 (et_usage T g - blockSize))\<rparr>
           in case db_Commit B t (bs_db s) (evict_writes E c) of
                Inl e \<Rightarrow> ((int i, Some (backend_err e)), s)
              | Inr db' \<Rightarrow> evict_loop E B t n (Suc i) T' (s\<lparr>bs_db := db'\<rparr>)))"

definition Evict ::
  "env \<Rightarrow> 'db badger \<Rightarrow> time \<Rightarrow> int \<Rightarrow> 'db BadgerStore \<Rightarrow> (int \<times> store_err option) \<times> 'db BadgerStore" where
  "Evict E B t n s =
     (if n \<le> 0 then ((0, None), s)
      else case db_Iterate B t (bs_db s) [blockPrefix] of
             Inl e \<Rightarrow> ((0, Some (backend_err e)), s)
           | Inr items \<Rightarrow>
               evict_loop E B t (nat n) 0 (evict_tables_of E (evict_scan items)) s)"

section \<open>Put\<close>

definition put_writes ::
  "env \<Rightarrow> time \<Rightarrow> Stamp \<Rightarrow> Payload \<Rightarrow> Tag \<Rightarrow> kv_write list" where
  "put_writes E t stamp payload tag =
     (let i = ComputeID E payload; w = WorkFactor E stamp payload; createdAt = Unix t
      in [KSet (blockKey i) (encodeBlockVal stamp w createdAt tag payload),
          KSet (travKey createdAt i) (PutUint32 (word_of_int w) @ [tag])])"

definition put_txn ::
  "env \<Rightarrow> 'db badger \<Rightarrow> time \<Rightarrow> Stamp \<Rightarrow> Payload \<Rightarrow> Tag \<Rightarrow> 'db \<Rightarrow> kv_err + kv_write list" where
  "put_txn E B t stamp payload tag db =
     (let i = ComputeID E payload; w = WorkFactor E stamp payload
      in case db_Get B t db (tombKey i) of
           Inr _ \<Rightarrow> Inr []
         | Inl e \<Rightarrow>
             if e \<noteq> ErrKeyNotFound then Inl e
             else case db_Get B t db (blockKey i) of
                    Inr existing \<Rightarrow>
                      if length existing \<ge> StampSize + 4 + 8 \<and> valWF existing \<ge> w then Inr []
                      else let oldCreatedAt =
                             (if length existing \<ge> StampSize + 4 + 8 then valCreatedAt existing else 0)
                           in Inr (KDelete (travKey oldCreatedAt i) # put_writes E t stamp payload tag)
                  | Inl e \<Rightarrow>
                      if e \<noteq> ErrKeyNotFound then Inl e
                      else Inr (put_writes E t stamp payload tag))"

definition enforce_limit :: "env \<Rightarrow> 'db badger \<Rightarrow> time \<Rightarrow> 'db BadgerStore \<Rightarrow> 'db BadgerStore" where
  "enforce_limit E B t s =
     (if bs_storageLimit s > 0 then
        let used = DiskUsageBytes B s
        in if used > bs_storageLimit s then
             let needed = go_div (used - bs_storageLimit s) blockSize + evictBatch;
                 needed' = (if needed < 1 then 1 else needed)
             in snd (Evict E B t needed' s)
           else s
      else s)"

definition Put ::
  "env \<Rightarrow> 'db badger \<Rightarrow> time \<Rightarrow> Stamp \<Rightarrow> Payload \<Rightarrow> Tag \<Rightarrow> 'db BadgerStore
     \<Rightarrow> (store_err + ID) \<times> 'db BadgerStore" where
  "Put E B t stamp payload tag s =
     (case put_txn E B t stamp payload tag (bs_db s) of
        Inl e \<Rightarrow> (Inl (backend_err e), s)
      | Inr ws \<Rightarrow>
          (case db_Commit B t (bs_db s) ws of
             Inl e \<Rightarrow> (Inl (backend_err e), s)
           | Inr db' \<Rightarrow>
               (Inr (ComputeID E payload), enforce_limit E B t (s\<lparr>bs_db := db'\<rparr>))))"

section \<open>Reads\<close>

definition GetWorkFactor :: "'db badger \<Rightarrow> time \<Rightarrow> 'db BadgerStore \<Rightarrow> ID \<Rightarrow> store_err + int" where
  "GetWorkFactor B t s i =
     (case db_Get B t (bs_db s) (blockKey i) of
        Inl e \<Rightarrow> if e = ErrKeyNotFound then Inl ErrNotFound else Inl (backend_err e)
      | Inr val \<Rightarrow> if length val < StampSize + 4 then Inl ErrCorrupt else Inr (valWF val))"

definition Get :: "'db badger \<Rightarrow> time \<Rightarrow> 'db BadgerStore \<Rightarrow> ID \<Rightarrow> store_err + (Stamp \<times> Payload)" where
  "Get B t s i =
     (case db_Get B t (bs_db s) (blockKey i) of
        Inl e \<Rightarrow> if e = ErrKeyNotFound then Inl ErrNotFound else Inl (backend_err e)
      | Inr val \<Rightarrow>
          if length val = legacyBlockValHeaderSize + PayloadSize then
            Inr (take StampSize val,
                 slice legacyBlockValHeaderSize (legacyBlockValHeaderSize + PayloadSize) val)
          else if length val < blockValHeaderSize + PayloadSize then Inl ErrCorrupt
          else Inr (take StampSize val,
                    slice blockValHeaderSize (blockValHeaderSize + PayloadSize) val))"

definition Has :: "'db badger \<Rightarrow> time \<Rightarrow> 'db BadgerStore \<Rightarrow> ID \<Rightarrow> store_err + bool" where
  "Has B t s i =
     (case db_Get B t (bs_db s) (blockKey i) of
        Inr _ \<Rightarrow> Inr True
      | Inl e \<Rightarrow>
          if e \<noteq> ErrKeyNotFound then Inl (backend_err e)
          else case db_Get B t (bs_db s) (tombKey i) of
                 Inr _ \<Rightarrow> Inr True
               | Inl e' \<Rightarrow> if e' = ErrKeyNotFound then Inr False else Inl (backend_err e'))"

definition ListIDs :: "'db badger \<Rightarrow> time \<Rightarrow> 'db BadgerStore \<Rightarrow> store_err + ID list" where
  "ListIDs B t s =
     (case db_Iterate B t (bs_db s) [blockPrefix] of
        Inl e \<Rightarrow> Inl (backend_err e)
      | Inr items \<Rightarrow>
          Inr (map (\<lambda>kv. drop 1 (fst kv)) (filter (\<lambda>kv. length (fst kv) = 1 + IDSize) items)))"

definition trav_wf :: "bytes \<Rightarrow> int" where
  "trav_wf val = (if length val \<ge> 4 then uint (Uint32 val) else 0)"

definition trav_tag :: "bytes \<Rightarrow> Tag" where
  "trav_tag val = (if length val \<ge> 5 then val ! 4 else 0)"

definition trav_createdAt :: "bytes \<Rightarrow> int" where
  "trav_createdAt key = sint (Uint64 (slice 1 9 key))"

fun list_loop :: "int \<Rightarrow> int \<Rightarrow> int \<Rightarrow> (bytes \<times> bytes) list \<Rightarrow> BlockRef list \<Rightarrow> BlockRef list" where
  "list_loop limit powFloor sinceUnix [] refs = refs"
| "list_loop limit powFloor sinceUnix ((key, val) # items) refs =
     (if \<not> int (length refs) < limit then refs
      else if length key \<noteq> 1 + 8 + IDSize then list_loop limit powFloor sinceUnix items refs
      else if trav_createdAt key < sinceUnix then list_loop limit powFloor sinceUnix items refs
      else if trav_wf val < powFloor then list_loop limit powFloor sinceUnix items refs
      else list_loop limit powFloor sinceUnix items
             (refs @ [\<lparr>refWF = trav_wf val, refID = drop 9 key,
                       refCreatedAt = trav_createdAt key, refTag = trav_tag val\<rparr>]))"

definition skip_cursor :: "int \<Rightarrow> ID \<Rightarrow> (bytes \<times> bytes) list \<Rightarrow> (bytes \<times> bytes) list" where
  "skip_cursor seekCreatedAt seekID items =
     (case items of
        [] \<Rightarrow> []
      | (key, val) # rest \<Rightarrow>
          if length key = 1 + 8 + IDSize \<and> trav_createdAt key = seekCreatedAt \<and> drop 9 key = seekID
          then rest else items)"

definition ListBlocks ::
  "'db badger \<Rightarrow> time \<Rightarrow> 'db BadgerStore \<Rightarrow> string \<Rightarrow> int \<Rightarrow> int \<Rightarrow> time
     \<Rightarrow> store_err + (string \<times> BlockRef list)" where
  "ListBlocks B t s pageToken limit powFloor since =
     (let sinceUnix = (if Unix since < 0 then 0 else Unix since)
      in sum_bind
           (if pageToken \<noteq> [] then
              sum_bind (decodeCursor pageToken) (\<lambda>cur. Inr (fst cur, snd cur, True))
            else Inr (sinceUnix, replicate IDSize 0, False))
           (\<lambda>(seekCreatedAt, seekID, hasCursor).
              case db_Iterate B t (bs_db s) [travPrefix] of
                Inl e \<Rightarrow> Inl (backend_err e)
              | Inr items \<Rightarrow>
                  (let seeked = dropWhile (\<lambda>kv. fst kv < travKey seekCreatedAt seekID) items;
                       rest = (if hasCursor then skip_cursor seekCreatedAt seekID seeked else seeked);
                       refs = list_loop limit powFloor sinceUnix rest [];
                       last_cur = (if refs = [] then (0, replicate IDSize 0)
                                   else (refCreatedAt (last refs), refID (last refs)))
                   in Inr (if int (length refs) = limit then encodeCursor last_cur else [], refs))))"

definition Prune :: "'db badger \<Rightarrow> time \<Rightarrow> 'db BadgerStore \<Rightarrow> (int \<times> store_err option) \<times> 'db BadgerStore" where
  "Prune B t s =
     (let (e, db') = db_RunValueLogGC B t (bs_db s); s' = s\<lparr>bs_db := db'\<rparr>
      in case e of
           None \<Rightarrow> ((0, None), s')
         | Some ErrNoRewrite \<Rightarrow> ((0, None), s')
         | Some e' \<Rightarrow> ((0, Some (backend_err e')), s'))"

section \<open>The median work factor\<close>

definition goIndex :: "'a list \<Rightarrow> int \<Rightarrow> 'a option" where
  "goIndex xs i = (if 0 \<le> i \<and> i < int (length xs) then Some (xs ! nat i) else None)"

text \<open>\<open>None\<close> is the panic of an index out of range.\<close>

definition computeMedianWorkFactor ::
  "'db badger \<Rightarrow> time \<Rightarrow> 'db BadgerStore \<Rightarrow> (store_err + int) option" where
  "computeMedianWorkFactor B t s =
     (case db_Iterate B t (bs_db s) [travPrefix] of
        Inl e \<Rightarrow> Some (Inl (backend_err e))
      | Inr items \<Rightarrow>
          (let wfs = map (\<lambda>kv. uint (Uint32 (snd kv))) (filter (\<lambda>kv. length (snd kv) \<ge> 4) items);
               limit = (if bs_storageLimit s = 0 then defaultStorageLimit else bs_storageLimit s);
               capacity = go_div limit blockSize;
               halfCapacity = go_div capacity 2
           in if int (length wfs) \<le> halfCapacity then Some (Inr 0)
              else map_option Inr (goIndex (sort wfs) (int (length wfs) - halfCapacity))))"

definition RefreshMedian ::
  "'db badger \<Rightarrow> time \<Rightarrow> 'db BadgerStore \<Rightarrow> (store_err option \<times> 'db BadgerStore) option" where
  "RefreshMedian B t s =
     (case computeMedianWorkFactor B t s of
        None \<Rightarrow> None
      | Some (Inl e) \<Rightarrow> Some (Some e, s)
      | Some (Inr w) \<Rightarrow> Some (None, s\<lparr>bs_medianWF := w\<rparr>))"

definition MedianWorkFactor :: "'db BadgerStore \<Rightarrow> int" where
  "MedianWorkFactor s = bs_medianWF s"

text \<open>One round of the background updater; an error leaves the cached value.\<close>

definition runMedianUpdater_round ::
  "'db badger \<Rightarrow> time \<Rightarrow> 'db BadgerStore \<Rightarrow> 'db BadgerStore option" where
  "runMedianUpdater_round B t s =
     (case computeMedianWorkFactor B t s of
        None \<Rightarrow> None
      | Some (Inl e) \<Rightarrow> Some s
      | Some (Inr w) \<Rightarrow> Some (s\<lparr>bs_medianWF := w\<rparr>))"

section \<open>The interface value\<close>

definition badger_store :: "env \<Rightarrow> 'db badger \<Rightarrow> 'db BadgerStore Store" where
  "badger_store E B =
     \<lparr>st_Put = Put E B, st_Get = Get B, st_GetWorkFactor = GetWorkFactor B, st_Has = Has B,
      st_ListIDs = ListIDs B, st_ListBlocks = ListBlocks B, st_Prune = Prune B,
      st_Evict = Evict E B\<rparr>"

lemma badger_store_simps [simp]:
  "st_Put (badger_store E B) = Put E B" "st_Get (badger_store E B) = Get B"
  "st_GetWorkFactor (badger_store E B) = GetWorkFactor B" "st_Has (badger_store E B) = Has B"
  "st_ListIDs (badger_store E B) = ListIDs B" "st_ListBlocks (badger_store E B) = ListBlocks B"
  "st_Prune (badger_store E B) = Prune B" "st_Evict (badger_store E B) = Evict E B"
  by (simp_all add: badger_store_def)

end
