(* ===== verification/BadgerProofs.thy ===== *)
theory BadgerProofs
  imports BadgerStore
begin

text \<open>
  The invariant of the store of \<^verbatim>\<open>badger.go\<close> and its refinement to a map from block
  IDs to blocks.  \<open>badger_rep E v m\<close> says that the contents \<open>v\<close> of the database
  represent the map \<open>m\<close>: the block keys hold exactly the encoded blocks of \<open>m\<close>, and
  the traversal keys hold exactly one entry per block, under its creation time.
\<close>

section \<open>Encoded values\<close>

text \<open>A block with its tag; values written before the tag byte existed have no tag.\<close>

type_synonym tagged = "stored \<times> Tag option"

definition tag_bytes :: "Tag option \<Rightarrow> bytes" where
  "tag_bytes g = (case g of None \<Rightarrow> [] | Some x \<Rightarrow> [x])"

definition eff_tag :: "Tag option \<Rightarrow> Tag" where
  "eff_tag g = (case g of None \<Rightarrow> TagPhysical | Some x \<Rightarrow> x)"

definition block_val :: "tagged \<Rightarrow> bytes" where
  "block_val bt = (let b = fst bt in
     sb_stamp b @ PutUint32 (word_of_int (sb_wf b)) @ PutUint64 (word_of_int (sb_createdAt b)) @
     tag_bytes (snd bt) @ sb_payload b)"

definition trav_val :: "tagged \<Rightarrow> bytes" where
  "trav_val bt = PutUint32 (word_of_int (sb_wf (fst bt))) @ tag_bytes (snd bt)"

definition parse_val :: "bytes \<Rightarrow> tagged" where
  "parse_val val =
     (let legacy = length val = legacyBlockValHeaderSize + PayloadSize
      in (\<lparr>sb_stamp = take StampSize val,
           sb_payload = drop (if legacy then legacyBlockValHeaderSize else blockValHeaderSize) val,
           sb_wf = valWF val, sb_createdAt = valCreatedAt val\<rparr>,
          if legacy then None else Some (val ! (StampSize + 12))))"

lemma encodeBlockVal_block_val:
  "encodeBlockVal st w ca g p =
     block_val (\<lparr>sb_stamp = st, sb_payload = p, sb_wf = w, sb_createdAt = ca\<rparr>, Some g)"
  by (simp add: encodeBlockVal_def block_val_def tag_bytes_def Let_def)


lemma stored_sizes:
  assumes "env_ok E" "wf_stored E i b"
  shows "length (sb_stamp b) = 4" "length (sb_payload b) = 4096" "length i = 32"
    "0 \<le> sb_wf b" "sb_wf b < 2 ^ 32" "0 \<le> sb_createdAt b" "in_int64 (sb_createdAt b)"
  using assms ComputeID_wf [OF assms(1), of "sb_payload b"] WorkFactor_le [OF assms(1)]
  by (auto simp: wf_stored_def wf_stamp_def wf_payload_def wf_id_def
      intro: order.strict_trans1 [of _ 256])

lemma uint_sb_wf: "env_ok E \<Longrightarrow> wf_stored E i b \<Longrightarrow> uint (word_of_int (sb_wf b) :: u32) = sb_wf b"
  using stored_sizes(4,5) by (rule uint_word_of_int32)

lemma block_val_fields:
  assumes "env_ok E" "wf_stored E i (fst bt)"
  shows "length (block_val bt) = (case snd bt of None \<Rightarrow> 4112 | Some _ \<Rightarrow> 4113)"
    "valWF (block_val bt) = sb_wf (fst bt)"
    "valCreatedAt (block_val bt) = sb_createdAt (fst bt)"
    "take 4 (block_val bt) = sb_stamp (fst bt)"
    "drop (case snd bt of None \<Rightarrow> 16 | Some _ \<Rightarrow> 17) (block_val bt) = sb_payload (fst bt)"
    "snd bt = Some g \<Longrightarrow> block_val bt ! 16 = g"
proof -
  note z = stored_sizes [OF assms]
  show "length (block_val bt) = (case snd bt of None \<Rightarrow> 4112 | Some _ \<Rightarrow> 4113)"
    by (simp add: block_val_def Let_def tag_bytes_def z split: option.split)
  show "valWF (block_val bt) = sb_wf (fst bt)"
    by (simp add: block_val_def Let_def valWF_def uint_sb_wf [OF assms] z(1) slice_append_right slice_append_left slice_all)
  show "valCreatedAt (block_val bt) = sb_createdAt (fst bt)"
    by (simp add: block_val_def Let_def valCreatedAt_def z slice_append_right slice_append_left slice_all)
  show "take 4 (block_val bt) = sb_stamp (fst bt)"
    by (simp add: block_val_def Let_def z)
  show "drop (case snd bt of None \<Rightarrow> 16 | Some _ \<Rightarrow> 17) (block_val bt) = sb_payload (fst bt)"
    by (simp add: block_val_def Let_def z tag_bytes_def split: option.split)
  show "snd bt = Some g \<Longrightarrow> block_val bt ! 16 = g"
    by (simp add: block_val_def Let_def z tag_bytes_def nth_append)
qed

lemma parse_block_val:
  assumes "env_ok E" "wf_stored E i (fst bt)"
  shows "parse_val (block_val bt) = bt"
proof (cases "snd bt")
  case None
  then show ?thesis using block_val_fields [OF assms]
    by (cases bt) (simp add: parse_val_def)
next
  case (Some g)
  then show ?thesis using block_val_fields [OF assms]
    by (cases bt) (simp add: parse_val_def)
qed

lemma trav_val_fields:
  assumes "env_ok E" "wf_stored E i (fst bt)"
  shows "trav_wf (trav_val bt) = sb_wf (fst bt)" "trav_tag (trav_val bt) = eff_tag (snd bt)"
    "4 \<le> length (trav_val bt)" "uint (Uint32 (trav_val bt)) = sb_wf (fst bt)"
proof -
  note z = stored_sizes [OF assms]
  have u: "Uint32 (trav_val bt) = word_of_int (sb_wf (fst bt))"
    using Uint32_Put by (simp add: Uint32_def trav_val_def)
  then show "uint (Uint32 (trav_val bt)) = sb_wf (fst bt)" by (simp add: uint_sb_wf [OF assms])
  show l: "4 \<le> length (trav_val bt)" by (simp add: trav_val_def)
  show "trav_wf (trav_val bt) = sb_wf (fst bt)" using u l by (simp add: trav_wf_def uint_sb_wf [OF assms])
  show "trav_tag (trav_val bt) = eff_tag (snd bt)"
    by (auto simp: trav_tag_def trav_val_def eff_tag_def tag_bytes_def TagPhysical_def nth_append
        split: option.splits)
qed

section \<open>The representation\<close>

definition badger_rep :: "env \<Rightarrow> kv_view \<Rightarrow> (ID \<rightharpoonup> tagged) \<Rightarrow> bool" where
  "badger_rep E v m \<longleftrightarrow>
     finite (dom m) \<and>
     (\<forall>i bt. m i = Some bt \<longrightarrow> wf_stored E i (fst bt)) \<and>
     (\<forall>i. v (blockKey i) = map_option (\<lambda>bt. (block_val bt, None)) (m i)) \<and>
     (\<forall>k. v (travPrefix # k) =
        (case m (drop 8 k) of
           None \<Rightarrow> None
         | Some bt \<Rightarrow>
             if take 8 k = PutUint64 (word_of_int (sb_createdAt (fst bt)))
             then Some (trav_val bt, None) else None))"

lemma badger_repD:
  assumes "badger_rep E v m"
  shows "finite (dom m)" "m i = Some bt \<Longrightarrow> wf_stored E i (fst bt)"
    "v (blockKey i) = map_option (\<lambda>bt. (block_val bt, None)) (m i)"
    "v (travPrefix # k) =
        (case m (drop 8 k) of
           None \<Rightarrow> None
         | Some bt \<Rightarrow>
             if take 8 k = PutUint64 (word_of_int (sb_createdAt (fst bt)))
             then Some (trav_val bt, None) else None)"
  using assms unfolding badger_rep_def by blast+

definition view_map :: "kv_view \<Rightarrow> ID \<rightharpoonup> tagged" where
  "view_map v i = map_option (\<lambda>e. parse_val (fst e)) (v (blockKey i))"

lemma view_map_rep: "env_ok E \<Longrightarrow> badger_rep E v m \<Longrightarrow> view_map v = m"
proof
  fix i assume E: "env_ok E" and r: "badger_rep E v m"
  show "view_map v i = m i"
    using badger_repD(2) [OF r, THEN parse_block_val [OF E]]
    by (cases "m i") (simp_all add: view_map_def badger_repD(3) [OF r])
qed

lemma keys_distinct [simp]:
  "blockKey i \<noteq> travPrefix # k" "travPrefix # k \<noteq> blockKey i" "tombKey i \<noteq> blockKey j"
  "blockKey j \<noteq> tombKey i" "tombKey i \<noteq> travPrefix # k" "travPrefix # k \<noteq> tombKey i"
  "blockKey i \<noteq> travKey c j" "travKey c j \<noteq> blockKey i" "tombKey i \<noteq> travKey c j"
  "travKey c j \<noteq> tombKey i"
  by (simp_all add: blockKey_def tombKey_def travKey_def key_prefixes)

lemma keys_inj [simp]: "blockKey i = blockKey j \<longleftrightarrow> i = j" "tombKey i = tombKey j \<longleftrightarrow> i = j"
  by (simp_all add: blockKey_def tombKey_def)

lemma travKey_split:
  "0 \<le> c \<Longrightarrow> travPrefix # k = travKey c i \<longleftrightarrow> take 8 k = PutUint64 (word_of_int c) \<and> drop 8 k = i"
  by (auto simp: travKey_def) (metis append_take_drop_id)

text \<open>The three changes of the contents that the operations make.\<close>

lemma rep_tomb: "badger_rep E v m \<Longrightarrow> badger_rep E (v(tombKey i := x)) m"
  by (simp add: badger_rep_def)

lemma rep_delete:
  assumes r: "badger_rep E v m" and i: "m i = Some bt"
  shows "badger_rep E (v(blockKey i := None, travKey (sb_createdAt (fst bt)) i := None)) (m(i := None))"
proof -
  have c: "0 \<le> sb_createdAt (fst bt)" using badger_repD(2) [OF r i] by (simp add: wf_stored_def)
  show ?thesis using r c i
    unfolding badger_rep_def by (auto simp: travKey_split split: option.splits)
qed

lemma rep_insert:
  assumes r: "badger_rep E v m" and i: "m i = None" and w: "wf_stored E i (fst bt)"
  shows "badger_rep E (v(blockKey i \<mapsto> (block_val bt, None),
    travKey (sb_createdAt (fst bt)) i \<mapsto> (trav_val bt, None))) (m(i \<mapsto> bt))"
proof -
  have c: "0 \<le> sb_createdAt (fst bt)" using w by (simp add: wf_stored_def)
  show ?thesis using r c i w
    unfolding badger_rep_def by (auto simp: travKey_split split: option.splits)
qed

section \<open>Invariant, abstraction and reads\<close>

definition badger_abs :: "'db badger \<Rightarrow> 'db BadgerStore \<Rightarrow> ID \<rightharpoonup> tagged" where
  "badger_abs B s = view_map (db_view B (bs_db s))"

definition badger_blk :: "'db badger \<Rightarrow> time \<Rightarrow> 'db BadgerStore \<Rightarrow> ID \<rightharpoonup> stored" where
  "badger_blk B t s i = map_option fst (badger_abs B s i)"

definition tombstoned :: "'db badger \<Rightarrow> time \<Rightarrow> 'db BadgerStore \<Rightarrow> ID \<Rightarrow> bool" where
  "tombstoned B t s i \<longleftrightarrow> live_value t (db_view B (bs_db s) (tombKey i)) \<noteq> None"

definition badger_inv :: "env \<Rightarrow> 'db badger \<Rightarrow> time \<Rightarrow> 'db BadgerStore \<Rightarrow> bool" where
  "badger_inv E B t s \<longleftrightarrow>
     env_ok E \<and> clock_ok t \<and> badger_laws B \<and> db_healthy B (bs_db s) \<and>
     badger_rep E (db_view B (bs_db s)) (badger_abs B s)"

lemma badger_invD:
  assumes "badger_inv E B t s"
  shows "env_ok E" "clock_ok t" "badger_laws B" "db_healthy B (bs_db s)"
    "badger_rep E (db_view B (bs_db s)) (badger_abs B s)"
  using assms by (simp_all add: badger_inv_def)

lemma badger_invI:
  assumes "env_ok E" "clock_ok t" "badger_laws B" "db_healthy B (bs_db s)"
    "badger_rep E (db_view B (bs_db s)) m"
  shows "badger_inv E B t s" "badger_abs B s = m"
proof -
  show a: "badger_abs B s = m" using view_map_rep [OF assms(1,5)] by (simp add: badger_abs_def)
  show "badger_inv E B t s" using assms a by (simp add: badger_inv_def)
qed

lemma badger_abs_db: "bs_db s = bs_db s' \<Longrightarrow> badger_abs B s = badger_abs B s'"
  by (simp add: badger_abs_def)

lemma badger_inv_db: "badger_inv E B t s \<Longrightarrow> bs_db s' = bs_db s \<Longrightarrow> badger_inv E B t s'"
  by (simp add: badger_inv_def badger_abs_def)

lemma live_block:
  assumes "badger_inv E B t s"
  shows "live_value t' (db_view B (bs_db s) (blockKey i)) = map_option block_val (badger_abs B s i)"
  by (cases "badger_abs B s i") (simp_all add: badger_repD(3) [OF badger_invD(5) [OF assms]])

lemma get_block:
  assumes "badger_inv E B t s"
  shows "db_Get B t' (bs_db s) (blockKey i) =
    (case badger_abs B s i of None \<Rightarrow> Inl ErrKeyNotFound | Some bt \<Rightarrow> Inr (block_val bt))"
  by (simp add: badger_get [OF badger_invD(3,4) [OF assms]] live_block [OF assms] split: option.split)

lemma get_tomb:
  assumes "badger_inv E B t s"
  shows "tombstoned B t' s i \<Longrightarrow> \<exists>v. db_Get B t' (bs_db s) (tombKey i) = Inr v"
    "\<not> tombstoned B t' s i \<Longrightarrow> db_Get B t' (bs_db s) (tombKey i) = Inl ErrKeyNotFound"
  by (auto simp: badger_get [OF badger_invD(3,4) [OF assms]] tombstoned_def)

lemma abs_wf: "badger_inv E B t s \<Longrightarrow> badger_abs B s i = Some bt \<Longrightarrow> wf_stored E i (fst bt)"
  using badger_repD(2) badger_invD(5) by blast

lemma Badger_Get:
  assumes "badger_inv E B t s"
  shows "Get B t s i = (case badger_blk B t s i of
    None \<Rightarrow> Inl ErrNotFound | Some b \<Rightarrow> Inr (sb_stamp b, sb_payload b))"
proof (cases "badger_abs B s i")
  case (Some bt)
  note f = block_val_fields [OF badger_invD(1) [OF assms] abs_wf [OF assms Some]]
    stored_sizes [OF badger_invD(1) [OF assms] abs_wf [OF assms Some]]
  show ?thesis using f(1,4,5) f(8)
    by (cases "snd bt") (simp_all add: Get_def get_block [OF assms] Some badger_blk_def slice_def)
qed (simp add: Get_def get_block [OF assms] badger_blk_def)

lemma Badger_GetWorkFactor:
  assumes "badger_inv E B t s"
  shows "GetWorkFactor B t s i = (case badger_blk B t s i of
    None \<Rightarrow> Inl ErrNotFound | Some b \<Rightarrow> Inr (sb_wf b))"
proof (cases "badger_abs B s i")
  case (Some bt)
  note f = block_val_fields [OF badger_invD(1) [OF assms] abs_wf [OF assms Some]]
  show ?thesis using f(1,2)
    by (cases "snd bt") (simp_all add: GetWorkFactor_def get_block [OF assms] Some badger_blk_def)
qed (simp add: GetWorkFactor_def get_block [OF assms] badger_blk_def)

lemma Badger_Has:
  assumes "badger_inv E B t s"
  shows "Has B t s i = Inr (badger_blk B t s i \<noteq> None \<or> tombstoned B t s i)"
proof (cases "badger_abs B s i")
  case None
  then show ?thesis using get_tomb [OF assms, of t i]
    by (cases "tombstoned B t s i") (auto simp: Has_def get_block [OF assms] badger_blk_def)
qed (simp add: Has_def get_block [OF assms] badger_blk_def)

lemma block_items:
  assumes "badger_inv E B t s"
  obtains items where "db_Iterate B t (bs_db s) [blockPrefix] = Inr items"
    "sorted_wrt (<) (map fst items)"
    "set items = {(blockKey i, block_val bt) | i bt. badger_abs B s i = Some bt}"
proof -
  obtain items where it: "db_Iterate B t (bs_db s) [blockPrefix] = Inr items"
      "sorted_wrt (<) (map fst items)"
      and mem: "\<And>k v. (k, v) \<in> set items \<longleftrightarrow>
        prefix [blockPrefix] k \<and> live_value t (db_view B (bs_db s) k) = Some v"
    using badger_iterate [OF badger_invD(3,4) [OF assms]] by blast
  have p: "prefix [blockPrefix] k \<longleftrightarrow> (\<exists>i. k = blockKey i)" for k
    by (cases k) (auto simp: blockKey_def)
  have "(k, v) \<in> set items \<longleftrightarrow> (\<exists>i bt. k = blockKey i \<and> v = block_val bt \<and> badger_abs B s i = Some bt)"
    for k v
    unfolding mem p by (auto simp: live_block [OF assms])
  then have "set items = {(blockKey i, block_val bt) | i bt. badger_abs B s i = Some bt}" by auto
  with it that show thesis by blast
qed

lemma block_items_len:
  assumes "badger_inv E B t s"
    "set items = {(blockKey i, block_val bt) | i bt. badger_abs B s i = Some bt}"
  shows "filter (\<lambda>kv. length (fst kv) = 1 + IDSize) items = items"
  using assms(2) stored_sizes(3) [OF badger_invD(1) [OF assms(1)] abs_wf [OF assms(1)]]
  by (auto simp: filter_id_conv blockKey_def)

lemma Badger_ListIDs:
  assumes "badger_inv E B t s"
  shows "\<exists>ids. ListIDs B t s = Inr ids \<and> set ids = dom (badger_blk B t s) \<and> distinct ids"
proof -
  obtain items where it: "db_Iterate B t (bs_db s) [blockPrefix] = Inr items"
    "sorted_wrt (<) (map fst items)"
    "set items = {(blockKey i, block_val bt) | i bt. badger_abs B s i = Some bt}"
    using block_items [OF assms] .
  define ids where "ids = map (\<lambda>kv. drop 1 (fst kv)) items"
  have "ListIDs B t s = Inr ids"
    unfolding ListIDs_def it(1) ids_def using block_items_len [OF assms it(3)] by simp
  moreover have "set ids = dom (badger_blk B t s)"
    unfolding ids_def dom_def badger_blk_def by (force simp: it(3) blockKey_def image_iff)
  moreover have "distinct ids"
  proof -
    have "distinct (map fst items)" using it(2) by (simp add: strict_sorted_iff)
    moreover have "inj_on (drop 1) (fst ` set items)"
      by (auto simp: inj_on_def it(3) blockKey_def)
    ultimately have "distinct (map (drop 1) (map fst items))"
      by (simp add: distinct_map comp_inj_on)
    then show ?thesis by (simp add: ids_def comp_def)
  qed
  ultimately show ?thesis by blast
qed

end
