(* ===== verification/BadgerList.thy ===== *)
theory BadgerList
  imports BadgerProofs
begin

text \<open>
  \<^verbatim>\<open>BadgerStore.ListBlocks\<close> returns exactly the page that the contract describes:
  the byte order of the traversal keys is the order of \<^verbatim>\<open>(created_at, id)\<close>, the seek
  skips exactly what is not after the cursor, and the loop keeps exactly the entries
  that pass the filters.
\<close>

definition trav_cursor :: "bytes \<times> bytes \<Rightarrow> cursor" where
  "trav_cursor kv = (trav_createdAt (fst kv), drop 9 (fst kv))"

definition trav_ref :: "bytes \<times> bytes \<Rightarrow> BlockRef" where
  "trav_ref kv =
     \<lparr>refWF = trav_wf (snd kv), refID = drop 9 (fst kv),
      refCreatedAt = trav_createdAt (fst kv), refTag = trav_tag (snd kv)\<rparr>"

definition trav_selected :: "int \<Rightarrow> int \<Rightarrow> bytes \<times> bytes \<Rightarrow> bool" where
  "trav_selected pf since kv \<longleftrightarrow>
     length (fst kv) = 1 + 8 + IDSize \<and> since \<le> trav_createdAt (fst kv) \<and> pf \<le> trav_wf (snd kv)"

lemma list_loop_eq:
  "list_loop limit pf since items refs =
     refs @ map trav_ref (take (nat (limit - int (length refs))) (filter (trav_selected pf since) items))"
proof (induction limit pf since items refs rule: list_loop.induct)
  case (2 limit pf since key val items refs)
  have n: "nat (limit - int (length refs)) = Suc (nat (limit - int (length (refs @ [r]))))"
    if "int (length refs) < limit" for r :: BlockRef
    using that by simp
  show ?case
    using 2 n by (auto simp: trav_selected_def trav_ref_def not_le not_less)
qed simp

section \<open>The order of traversal keys\<close>

lemma travKey_less:
  assumes "wf_cursor c" "0 \<le> fst c" "wf_cursor d" "0 \<le> fst d"
  shows "travKey (fst c) (snd c) < travKey (fst d) (snd d) \<longleftrightarrow> c < d"
proof -
  let ?k = "\<lambda>c. PutUint64 (word_of_int (fst c) :: u64)"
  have b: "be_dec (?k c) = nat (fst c)" "be_dec (?k d) = nat (fst d)"
    using assms by (simp_all add: word_nonneg_unat wf_cursor_def)
  have "?k c < ?k d \<longleftrightarrow> fst c < fst d" using b assms(2,4) by (auto simp: be_dec_less_iff)
  moreover have "?k c = ?k d \<longleftrightarrow> fst c = fst d"
    using b assms(2,4) by (metis nat_eq_iff2 nat_0_le)
  ultimately show ?thesis using assms(2,4)
    by (simp add: travKey_def append_less_iff less_prod_def')
qed

lemma travKey_eq:
  assumes "wf_cursor c" "0 \<le> fst c" "wf_cursor d" "0 \<le> fst d"
  shows "travKey (fst c) (snd c) = travKey (fst d) (snd d) \<longleftrightarrow> c = d"
  using travKey_less [OF assms] travKey_less [OF assms(3,4,1,2)] by (metis less_irrefl linorder_less_linear)

lemma trav_cursor_key:
  "wf_cursor c \<Longrightarrow> 0 \<le> fst c \<Longrightarrow> trav_cursor (travKey (fst c) (snd c), v) = c"
  "wf_cursor c \<Longrightarrow> length (travKey (fst c) (snd c)) = 41"
  by (simp_all add: trav_cursor_def trav_createdAt_def travKey_def wf_cursor_def wf_id_def
      slice_Cons slice_append_left slice_all)

definition cursor_of :: "ID \<Rightarrow> tagged \<Rightarrow> cursor" where
  "cursor_of i bt = (sb_createdAt (fst bt), i)"

lemma cursor_of_wf:
  assumes "badger_inv E B t s" "badger_abs B s i = Some bt"
  shows "wf_cursor (cursor_of i bt)" "0 \<le> fst (cursor_of i bt)"
  using stored_sizes [OF badger_invD(1) [OF assms(1)] abs_wf [OF assms]]
  by (simp_all add: cursor_of_def wf_cursor_def wf_id_def)

text \<open>The entries of the traversal index, as the iterator returns them.\<close>

definition trav_index :: "'db badger \<Rightarrow> 'db BadgerStore \<Rightarrow> (bytes \<times> bytes) list \<Rightarrow> bool" where
  "trav_index B s items \<longleftrightarrow>
     sorted_wrt (<) (map fst items) \<and>
     set items = {(travKey (sb_createdAt (fst bt)) i, trav_val bt) | i bt. badger_abs B s i = Some bt}"

lemma trav_items:
  assumes "badger_inv E B t s"
  obtains items where "db_Iterate B t (bs_db s) [travPrefix] = Inr items" "trav_index B s items"
proof -
  obtain items where it: "db_Iterate B t (bs_db s) [travPrefix] = Inr items"
      "sorted_wrt (<) (map fst items)"
      and mem: "\<And>k v. (k, v) \<in> set items \<longleftrightarrow>
        prefix [travPrefix] k \<and> live_value t (db_view B (bs_db s) k) = Some v"
    using badger_iterate [OF badger_invD(3,4) [OF assms]] by blast
  have p: "prefix [travPrefix] k \<longleftrightarrow> (\<exists>k'. k = travPrefix # k')" for k by (cases k) auto
  have live: "live_value t (db_view B (bs_db s) (travPrefix # k)) = Some v \<longleftrightarrow>
      (\<exists>i bt. badger_abs B s i = Some bt \<and> travPrefix # k = travKey (sb_createdAt (fst bt)) i \<and>
         v = trav_val bt)" for k v
  proof -
    have "(\<exists>i bt. badger_abs B s i = Some bt \<and> travPrefix # k = travKey (sb_createdAt (fst bt)) i \<and>
         v = trav_val bt) \<longleftrightarrow> (\<exists>i bt. badger_abs B s i = Some bt \<and>
         take 8 k = PutUint64 (word_of_int (sb_createdAt (fst bt))) \<and> drop 8 k = i \<and> v = trav_val bt)"
    proof (intro ex_cong1 conj_cong [OF refl])
      fix i bt assume "badger_abs B s i = Some bt"
      then have "0 \<le> sb_createdAt (fst bt)" using cursor_of_wf(2) [OF assms] by (simp add: cursor_of_def)
      then show "(travPrefix # k = travKey (sb_createdAt (fst bt)) i \<and> v = trav_val bt) =
        (take 8 k = PutUint64 (word_of_int (sb_createdAt (fst bt))) \<and> drop 8 k = i \<and> v = trav_val bt)"
        by (simp only: travKey_split conj_assoc)
    qed
    moreover have "live_value t (db_view B (bs_db s) (travPrefix # k)) = Some v \<longleftrightarrow>
      (\<exists>bt. badger_abs B s (drop 8 k) = Some bt \<and>
         take 8 k = PutUint64 (word_of_int (sb_createdAt (fst bt))) \<and> v = trav_val bt)"
      using badger_repD(4) [OF badger_invD(5) [OF assms], of k]
      by (cases "badger_abs B s (drop 8 k)") auto
    ultimately show ?thesis by blast
  qed
  have tk: "travKey c i = travPrefix # tl (travKey c i)" for c i by (simp add: travKey_def)
  have "(k, v) \<in> set items \<longleftrightarrow> (\<exists>i bt. k = travKey (sb_createdAt (fst bt)) i \<and> v = trav_val bt \<and>
      badger_abs B s i = Some bt)" for k v
    unfolding mem p using live tk by metis
  then have "set items =
    {(travKey (sb_createdAt (fst bt)) i, trav_val bt) | i bt. badger_abs B s i = Some bt}" by fast
  with it that show thesis unfolding trav_index_def by blast
qed


lemma trav_entry:
  assumes "badger_inv E B t s" "trav_index B s items" "kv \<in> set items"
  obtains i bt where "badger_abs B s i = Some bt" "trav_cursor kv = cursor_of i bt"
    "kv = (travKey (fst (trav_cursor kv)) (snd (trav_cursor kv)), trav_val bt)"
    "trav_ref kv = \<lparr>refWF = sb_wf (fst bt), refID = i, refCreatedAt = sb_createdAt (fst bt),
       refTag = eff_tag (snd bt)\<rparr>"
    "length (fst kv) = 41" "wf_cursor (trav_cursor kv)" "0 \<le> fst (trav_cursor kv)"
proof -
  obtain i bt where m: "badger_abs B s i = Some bt"
    and kv: "kv = (travKey (sb_createdAt (fst bt)) i, trav_val bt)"
    using assms(2,3) unfolding trav_index_def by auto
  note w = cursor_of_wf [OF assms(1) m]
  have kv': "kv = (travKey (fst (cursor_of i bt)) (snd (cursor_of i bt)), trav_val bt)"
    by (simp add: kv cursor_of_def)
  have c: "trav_cursor kv = cursor_of i bt" unfolding kv' by (rule trav_cursor_key(1) [OF w])
  have r: "trav_ref kv = \<lparr>refWF = trav_wf (trav_val bt), refID = snd (trav_cursor kv),
      refCreatedAt = fst (trav_cursor kv), refTag = trav_tag (trav_val bt)\<rparr>"
    by (simp add: trav_ref_def trav_cursor_def kv)
  show thesis
  proof (rule that [OF m c])
    show "trav_ref kv = \<lparr>refWF = sb_wf (fst bt), refID = i, refCreatedAt = sb_createdAt (fst bt),
       refTag = eff_tag (snd bt)\<rparr>"
      using r c trav_val_fields [OF badger_invD(1) [OF assms(1)] abs_wf [OF assms(1) m]]
      by (simp add: cursor_of_def)
    show "length (fst kv) = 41" using trav_cursor_key(2) [OF w(1)] kv' by simp
  qed (use w c kv' in simp_all)
qed

lemma trav_key_order:
  assumes "badger_inv E B t s" "trav_index B s items" "kv \<in> set items" "wf_cursor c" "0 \<le> fst c"
  shows "travKey (fst c) (snd c) < fst kv \<longleftrightarrow> c < trav_cursor kv"
    "fst kv < travKey (fst c) (snd c) \<longleftrightarrow> trav_cursor kv < c"
    "fst kv = travKey (fst c) (snd c) \<longleftrightarrow> trav_cursor kv = c"
  using trav_entry [OF assms(1-3)] travKey_less travKey_eq assms(4,5) by (metis fst_conv)+

lemma trav_sorted:
  assumes "badger_inv E B t s" "trav_index B s items"
  shows "sorted_wrt (\<lambda>x y. trav_cursor x < trav_cursor y) items"
proof -
  have "sorted_wrt (\<lambda>x y. fst x < fst y) items"
    using assms(2) by (simp add: trav_index_def sorted_wrt_map)
  moreover have "fst x < fst y \<longleftrightarrow> trav_cursor x < trav_cursor y"
    if "x \<in> set items" "y \<in> set items" for x y
    using trav_entry [OF assms that(1)] trav_key_order(1) [OF assms that(2), of "trav_cursor x"]
    by (metis fst_conv)
  ultimately show ?thesis by (metis (no_types, lifting) sorted_wrt_mono_rel)
qed

lemma trav_select_keys:
  assumes "badger_inv E B t s" "trav_index B s items"
  shows "map trav_cursor (filter (trav_selected pf (if since < 0 then 0 else since)) items) =
    sel_keys (badger_blk B t s) pf since"
proof (rule sel_keys_unique)
  let ?P = "trav_selected pf (if since < 0 then 0 else since)"
  show "finite (dom (badger_blk B t s))"
    using badger_repD(1) [OF badger_invD(5) [OF assms(1)]] by (simp add: badger_blk_def dom_def)
  show "sorted_wrt (<) (map trav_cursor (filter ?P items))"
    using trav_sorted [OF assms] by (simp add: sorted_wrt_map sorted_wrt_filter)
  have P: "?P kv \<longleftrightarrow> pf \<le> refWF (trav_ref kv) \<and> since \<le> refCreatedAt (trav_ref kv)"
    if "kv \<in> set items" for kv
  proof -
    have "length (fst kv) = 41" "0 \<le> trav_createdAt (fst kv)"
      using trav_entry [OF assms that] by (metis, metis trav_cursor_def fst_conv)
    then show ?thesis by (auto simp: trav_selected_def trav_ref_def)
  qed
  show "set (map trav_cursor (filter ?P items)) = sel_set (badger_blk B t s) pf since"
  proof (intro equalityI subsetI)
    fix c assume "c \<in> set (map trav_cursor (filter ?P items))"
    then obtain kv where kv: "kv \<in> set items" "?P kv" "c = trav_cursor kv" by auto
    then obtain i bt where "badger_abs B s i = Some bt" "c = cursor_of i bt"
      "trav_ref kv = \<lparr>refWF = sb_wf (fst bt), refID = i, refCreatedAt = sb_createdAt (fst bt),
       refTag = eff_tag (snd bt)\<rparr>" using trav_entry [OF assms kv(1)] by metis
    with P [OF kv(1)] kv(2) show "c \<in> sel_set (badger_blk B t s) pf since"
      by (cases bt) (auto simp: sel_set_def badger_blk_def cursor_of_def)
  next
    fix c assume "c \<in> sel_set (badger_blk B t s) pf since"
    then obtain i bt where bt: "badger_abs B s i = Some bt" "c = cursor_of i bt"
      "pf \<le> sb_wf (fst bt)" "since \<le> sb_createdAt (fst bt)"
      by (auto simp: sel_set_def badger_blk_def cursor_of_def)
    define kv where "kv = (travKey (fst c) (snd c), trav_val bt)"
    have "kv = (travKey (sb_createdAt (fst bt)) i, trav_val bt)" by (simp add: kv_def bt(2) cursor_of_def)
    then have kv: "kv \<in> set items" using assms(2) bt(1) unfolding trav_index_def by fast
    have c: "trav_cursor kv = c"
      unfolding kv_def using cursor_of_wf [OF assms(1) bt(1)] bt(2) by (simp add: trav_cursor_key)
    obtain j bt' where j: "badger_abs B s j = Some bt'" "trav_cursor kv = cursor_of j bt'"
      and r: "trav_ref kv = \<lparr>refWF = sb_wf (fst bt'), refID = j, refCreatedAt = sb_createdAt (fst bt'),
       refTag = eff_tag (snd bt')\<rparr>" using trav_entry [OF assms kv] by metis
    have "cursor_of j bt' = cursor_of i bt" using j(2) c bt(2) by simp
    then have "j = i" by (simp add: cursor_of_def)
    moreover from this have "bt' = bt" using j(1) bt(1) by simp
    ultimately have "?P kv" using r bt(3,4) P [OF kv] by simp
    with kv c show "c \<in> set (map trav_cursor (filter ?P items))" by auto
  qed
qed

lemma seek_items:
  assumes "badger_inv E B t s" "trav_index B s items" "wf_cursor c" "0 \<le> fst c"
  shows "skip_cursor (fst c) (snd c) (dropWhile (\<lambda>kv. fst kv < travKey (fst c) (snd c)) items) =
    filter (\<lambda>kv. c < trav_cursor kv) items"
proof -
  let ?k = "travKey (fst c) (snd c)"
  define D where "D = filter (\<lambda>kv. \<not> trav_cursor kv < c) items"
  have so: "sorted_wrt (\<lambda>x y. fst x < fst y) items"
    using assms(2) by (simp add: trav_index_def sorted_wrt_map)
  have "dropWhile (\<lambda>kv. fst kv < ?k) items = filter (\<lambda>kv. \<not> fst kv < ?k) items"
    using so by (rule dropWhile_sorted_filter) (rule order.strict_trans)
  also have "\<dots> = D"
    unfolding D_def using trav_key_order(2) [OF assms(1,2) _ assms(3,4)] by (intro filter_cong) auto
  finally have d: "dropWhile (\<lambda>kv. fst kv < ?k) items = D" .
  have g: "filter (\<lambda>kv. c < trav_cursor kv) items = filter (\<lambda>kv. trav_cursor kv \<noteq> c) D"
    unfolding D_def filter_filter by (intro filter_cong) (auto simp: neq_iff)
  have ds: "sorted_wrt (\<lambda>x y. trav_cursor x < trav_cursor y) D"
    unfolding D_def using trav_sorted [OF assms(1,2)] by (rule sorted_wrt_filter)
  have sk: "skip_cursor (fst c) (snd c) D = filter (\<lambda>kv. trav_cursor kv \<noteq> c) D"
  proof (cases D)
    case (Cons kv rest)
    have kv: "kv \<in> set items" and ge: "\<not> trav_cursor kv < c"
      using Cons by (auto simp: D_def filter_eq_Cons_iff)
    have "trav_cursor y \<noteq> c" if "y \<in> set rest" for y using ds that ge Cons by auto
    then have "filter (\<lambda>kv. trav_cursor kv \<noteq> c) rest = rest" by (simp add: filter_id_conv)
    moreover have "length (fst kv) = 41" using trav_entry [OF assms(1,2) kv] by metis
    ultimately show ?thesis
      by (auto simp: Cons skip_cursor_def trav_cursor_def prod_eq_iff case_prod_beta)
  qed (simp add: skip_cursor_def)
  show ?thesis unfolding d g by (rule sk)
qed

lemma seek_start:
  assumes "badger_inv E B t s" "trav_index B s items" "0 \<le> su" "in_int64 su"
  shows "filter (trav_selected pf su) (dropWhile (\<lambda>kv. fst kv < travKey su (replicate IDSize 0)) items) =
    filter (trav_selected pf su) items"
proof -
  let ?c = "(su, replicate IDSize 0) :: cursor"
  have c: "wf_cursor ?c" "0 \<le> fst ?c" using assms(3,4) by (auto simp: wf_cursor_def wf_id_def)
  have so: "sorted_wrt (\<lambda>x y. fst x < fst y) items"
    using assms(2) by (simp add: trav_index_def sorted_wrt_map)
  have "dropWhile (\<lambda>kv. fst kv < travKey (fst ?c) (snd ?c)) items =
      filter (\<lambda>kv. \<not> fst kv < travKey (fst ?c) (snd ?c)) items"
    using so by (rule dropWhile_sorted_filter) (rule order.strict_trans)
  also have "\<dots> = filter (\<lambda>kv. \<not> trav_cursor kv < ?c) items"
    using trav_key_order(2) [OF assms(1,2) _ c] by (intro filter_cong) auto
  finally have "filter (trav_selected pf su) (dropWhile (\<lambda>kv. fst kv < travKey su (replicate IDSize 0)) items)
      = filter (\<lambda>kv. trav_selected pf su kv \<and> \<not> trav_cursor kv < ?c) items" by (simp add: conj_commute)
  also have "\<dots> = filter (trav_selected pf su) items"
  proof (intro filter_cong refl iffI conjI)
    fix kv assume kv: "kv \<in> set items" "trav_selected pf su kv"
    then have "su \<le> fst (trav_cursor kv)" by (simp add: trav_selected_def trav_cursor_def)
    moreover have "replicate n 0 \<le> (xs :: bytes)" if "n \<le> length xs" for n xs
      using that
    proof (induction n arbitrary: xs)
      case (Suc n) then show ?case by (cases xs) (auto simp: word_neq_0_conv)
    qed simp
    moreover have "wf_cursor (trav_cursor kv)" using trav_entry [OF assms(1,2) kv(1)] by metis
    ultimately show "\<not> trav_cursor kv < ?c" by (auto simp: less_prod_def' wf_cursor_def wf_id_def not_less)
  qed simp
  finally show ?thesis .
qed

section \<open>ListBlocks\<close>

lemma wf_tokens:
  "wf_cursor c \<Longrightarrow> token_of (Some c) \<noteq> [] \<and> decodeCursor (token_of (Some c)) = Inr c"
  "token_of None = []"
  by (simp_all add: token_of_def)

text \<open>The references of a page, before the limit cuts it.\<close>

lemma ListBlocks_refs:
  assumes "badger_inv E B t s" "\<And>c. cur = Some c \<Longrightarrow> wf_cursor c \<and> 0 \<le> fst c" "in_int64 (Unix since)"
  shows "\<exists>xs. set xs \<subseteq> {kv. \<exists>items. trav_index B s items \<and> kv \<in> set items} \<and>
     map trav_cursor xs = after cur (sel_keys (badger_blk B t s) pf (Unix since)) \<and>
     ListBlocks B t s (token_of cur) limit pf since =
       (let refs = map trav_ref (take (nat limit) xs)
        in Inr (if int (length refs) = limit then encodeCursor
                 (if refs = [] then (0, replicate IDSize 0) else (refCreatedAt (last refs), refID (last refs)))
                else [], refs))"
proof -
  obtain items where it: "db_Iterate B t (bs_db s) [travPrefix] = Inr items" "trav_index B s items"
    using trav_items [OF assms(1)] .
  define su where "su = (if Unix since < 0 then 0 else Unix since)"
  have su: "0 \<le> su" "in_int64 su" using assms(3) by (auto simp: su_def in_int64_def)
  define sel where "sel = filter (trav_selected pf su) items"
  have keys: "map trav_cursor sel = sel_keys (badger_blk B t s) pf (Unix since)"
    unfolding sel_def su_def by (rule trav_select_keys [OF assms(1) it(2)])
  define xs where "xs = (case cur of None \<Rightarrow> sel | Some c \<Rightarrow> filter (\<lambda>kv. c < trav_cursor kv) sel)"
  have sub: "set xs \<subseteq> set items" by (auto simp: xs_def sel_def split: option.splits)
  have 1: "map trav_cursor xs = after cur (sel_keys (badger_blk B t s) pf (Unix since))"
    by (simp add: xs_def after_def filter_map comp_def flip: keys split: option.split)
  have 2: "ListBlocks B t s (token_of cur) limit pf since =
       (let refs = map trav_ref (take (nat limit) xs)
        in Inr (if int (length refs) = limit then encodeCursor
                 (if refs = [] then (0, replicate IDSize 0) else (refCreatedAt (last refs), refID (last refs)))
                else [], refs))"
  proof (cases cur)
    case None
    have f: "filter (trav_selected pf su) (dropWhile (\<lambda>kv. fst kv < travKey su (replicate 32 0)) items) = xs"
      using seek_start [OF assms(1) it(2) su, of pf] by (simp add: None xs_def sel_def)
    show ?thesis unfolding ListBlocks_def None wf_tokens Let_def su_def [symmetric]
      by (simp add: it(1) list_loop_eq f)
  next
    case (Some c)
    note c = assms(2) [OF Some]
    have f: "filter (\<lambda>kv. c < trav_cursor kv \<and> trav_selected pf su kv) items = xs"
      by (auto simp: Some xs_def sel_def intro: filter_cong)
    show ?thesis unfolding ListBlocks_def Some Let_def su_def [symmetric]
      using wf_tokens(1) [of c] seek_items [OF assms(1) it(2), of c] c
      by (simp add: it(1) list_loop_eq f)
  qed
  show ?thesis using sub it(2) 1 2 by blast
qed

lemma Badger_ListBlocks:
  assumes i: "badger_inv E B t s" and lim: "0 < lim" and since: "in_int64 (Unix since)"
    and cur: "\<And>c. cur = Some c \<Longrightarrow> wf_cursor c \<and> 0 \<le> fst c"
    and page: "page = page_of lim cur (sel_keys (badger_blk B t s) pf (Unix since))"
  shows "\<exists>refs. ListBlocks B t s (token_of cur) (int lim) pf since = Inr (page_token lim page, refs) \<and>
    map (\<lambda>r. (refID r, refWF r)) refs = map (key_pair (badger_blk B t s)) page \<and>
    map (\<lambda>r. (refCreatedAt r, refID r)) refs = page"
proof -
  obtain xs where sub: "set xs \<subseteq> {kv. \<exists>items. trav_index B s items \<and> kv \<in> set items}"
    and xs: "map trav_cursor xs = after cur (sel_keys (badger_blk B t s) pf (Unix since))"
    and res: "ListBlocks B t s (token_of cur) (int lim) pf since =
       (let refs = map trav_ref (take (nat (int lim)) xs)
        in Inr (if int (length refs) = int lim then encodeCursor
                 (if refs = [] then (0, replicate IDSize 0) else (refCreatedAt (last refs), refID (last refs)))
                else [], refs))"
    using ListBlocks_refs [OF i cur since, of cur pf "int lim"] by blast
  define refs where "refs = map trav_ref (take lim xs)"
  have p: "page = map trav_cursor (take lim xs)" by (simp add: page page_of_def take_map flip: xs)
  have 1: "map (\<lambda>r. (refCreatedAt r, refID r)) refs = page"
    by (simp add: refs_def p trav_ref_def trav_cursor_def)
  have "(refID (trav_ref kv), refWF (trav_ref kv)) = key_pair (badger_blk B t s) (trav_cursor kv)"
    if kv: "kv \<in> set (take lim xs)" for kv
  proof -
    from kv sub obtain items where it: "trav_index B s items" "kv \<in> set items"
      by (auto dest: in_set_takeD)
    from trav_entry [OF i it] obtain j bt where "badger_abs B s j = Some bt"
      "trav_cursor kv = cursor_of j bt" "trav_ref kv = \<lparr>refWF = sb_wf (fst bt), refID = j,
        refCreatedAt = sb_createdAt (fst bt), refTag = eff_tag (snd bt)\<rparr>" by metis
    then show ?thesis by (simp add: key_pair_def cursor_of_def badger_blk_def)
  qed
  then have 2: "map (\<lambda>r. (refID r, refWF r)) refs = map (key_pair (badger_blk B t s)) page"
    by (simp add: refs_def p)
  have l: "length refs = length page" using 1 by auto
  have "refs \<noteq> [] \<Longrightarrow> (refCreatedAt (last refs), refID (last refs)) = last page"
    using 1 by (metis (no_types, lifting) last_map)
  moreover have "length refs = lim \<Longrightarrow> refs \<noteq> []" using lim by auto
  ultimately have "ListBlocks B t s (token_of cur) (int lim) pf since = Inr (page_token lim page, refs)"
    unfolding res Let_def nat_int refs_def [symmetric] by (auto simp: page_token_def l)
  with 1 2 show ?thesis by blast
qed

end
