(* ===== verification/BadgerEvict.thy ===== *)
theory BadgerEvict
  imports BadgerList
begin

text \<open>
  \<^verbatim>\<open>BadgerStore.Put\<close> and \<^verbatim>\<open>BadgerStore.Evict\<close> refine their abstract
  counterparts on the map of blocks: an insertion that keeps the higher work factor, and
  a run of evictions each of which takes a block with the soonest logical expiry from a
  tag that is furthest above its reservation (\<open>evict_run\<close>).
\<close>

section \<open>The specification of eviction\<close>

definition tag_blocks :: "(ID \<rightharpoonup> tagged) \<Rightarrow> Tag \<Rightarrow> ID set" where
  "tag_blocks m g = {i. \<exists>bt. m i = Some bt \<and> eff_tag (snd bt) = g}"

definition over_reservation :: "(Tag \<Rightarrow> int) \<Rightarrow> (ID \<rightharpoonup> tagged) \<Rightarrow> Tag \<Rightarrow> int" where
  "over_reservation res m g = wrap64 (wrap64 (blockSize * int (card (tag_blocks m g))) - res g)"

definition block_expiry :: "env \<Rightarrow> tagged \<Rightarrow> int" where
  "block_expiry E bt =
     wrap64 (sb_createdAt (fst bt) + go_div (TTLFromWorkFactor E (sb_wf (fst bt))) nsPerSec)"

definition evictable :: "env \<Rightarrow> (Tag \<Rightarrow> int) \<Rightarrow> (ID \<rightharpoonup> tagged) \<Rightarrow> ID \<Rightarrow> bool" where
  "evictable E res m i \<longleftrightarrow>
     (\<exists>bt. m i = Some bt \<and>
        (\<forall>g. tag_blocks m g \<noteq> {} \<longrightarrow>
           over_reservation res m g \<le> over_reservation res m (eff_tag (snd bt))) \<and>
        (\<forall>j bt'. m j = Some bt' \<and> eff_tag (snd bt') = eff_tag (snd bt) \<longrightarrow>
           block_expiry E bt \<le> block_expiry E bt'))"

inductive evict_run ::
  "env \<Rightarrow> (Tag \<Rightarrow> int) \<Rightarrow> (ID \<rightharpoonup> tagged) \<Rightarrow> ID list \<Rightarrow> (ID \<rightharpoonup> tagged) \<Rightarrow> bool" for E res where
  evict_done: "evict_run E res m [] m"
| evict_step: "evictable E res m i \<Longrightarrow> evict_run E res (m(i := None)) is m' \<Longrightarrow>
    evict_run E res m (i # is) m'"

inductive_cases evict_runE: "evict_run E res m is m'"

lemma evictable_dom: "evictable E res m i \<Longrightarrow> i \<in> dom m"
  by (auto simp: evictable_def)

lemma evict_run_result:
  "evict_run E res m is m' \<Longrightarrow> m' = m |` (- set is) \<and> set is \<subseteq> dom m \<and> distinct is"
proof (induction rule: evict_run.induct)
  case (evict_step m i "is" m')
  have "(m(i := None)) |` (- set is) = m |` (- set (i # is))"
    by (auto simp: restrict_map_def fun_eq_iff)
  then show ?case using evict_step evictable_dom [OF evict_step(1)]
    by (auto simp: restrict_map_def split: if_splits)
qed (simp add: restrict_map_def)

section \<open>The tables of Evict\<close>

definition cand_of :: "ID \<Rightarrow> tagged \<Rightarrow> evictCandidate" where
  "cand_of i bt =
     \<lparr>ec_id = i, ec_createdAt = sb_createdAt (fst bt), ec_wf = sb_wf (fst bt),
      ec_tag = eff_tag (snd bt)\<rparr>"

definition tag_cands :: "(ID \<rightharpoonup> tagged) \<Rightarrow> Tag \<Rightarrow> evictCandidate set" where
  "tag_cands m g = {cand_of i bt | i bt. m i = Some bt \<and> eff_tag (snd bt) = g}"

lemma ec_id_cand [simp]: "ec_id (cand_of i bt) = i"
  by (simp add: cand_of_def)

lemma tag_cands_iff:
  "c \<in> tag_cands m g \<longleftrightarrow> (\<exists>bt. m (ec_id c) = Some bt \<and> c = cand_of (ec_id c) bt \<and> eff_tag (snd bt) = g)"
  unfolding tag_cands_def by force

lemma cand_of_tag: "m i = Some bt \<Longrightarrow> cand_of i bt \<in> tag_cands m (eff_tag (snd bt))"
  unfolding tag_cands_def by blast

definition tables_ok :: "env \<Rightarrow> (ID \<rightharpoonup> tagged) \<Rightarrow> evict_tables \<Rightarrow> bool" where
  "tables_ok E m T \<longleftrightarrow>
     (\<forall>g. set (et_perTag T g) = tag_cands m g \<and> distinct (et_perTag T g) \<and>
        sorted (map (logicalExpiry E) (et_perTag T g)) \<and>
        et_usage T g = wrap64 (blockSize * int (length (et_perTag T g))) \<and>
        (et_perTag T g \<noteq> [] \<longrightarrow> g \<in> set (et_keys T)))"

lemma wrap64_diff [simp]: "wrap64 (wrap64 a - b) = wrap64 (a - b)"
proof -
  have "(word_of_int (wrap64 a - b) :: u64) = word_of_int (a - b)"
    by (simp add: wrap64_def flip: wi_hom_sub)
  then show ?thesis by (simp add: wrap64_def)
qed

lemma ec_id_inj: "inj_on ec_id (tag_cands m g)"
  by (auto simp: inj_on_def tag_cands_def cand_of_def)

lemma ec_id_tag_cands: "ec_id ` tag_cands m g = tag_blocks m g"
  by (force simp: tag_cands_def tag_blocks_def cand_of_def image_iff)

lemma card_tag_blocks: "tables_ok E m T \<Longrightarrow> card (tag_blocks m g) = length (et_perTag T g)"
proof -
  assume ok: "tables_ok E m T"
  then have "card (tag_cands m g) = length (et_perTag T g)"
    unfolding tables_ok_def by (metis distinct_card)
  then show ?thesis using card_image [OF ec_id_inj [of m g]] by (simp add: ec_id_tag_cands)
qed

lemma tables_over:
  "tables_ok E m T \<Longrightarrow> wrap64 (et_usage T g - res g) = over_reservation res m g"
  by (simp add: over_reservation_def card_tag_blocks) (simp add: tables_ok_def)

text \<open>The inner loop picks a non-empty tag that is furthest above its reservation.\<close>

lemma pick_loop_spec:
  "case pick_loop res T gs best of
     None \<Rightarrow> best = None \<and> (\<forall>g \<in> set gs. et_perTag T g = [])
   | Some (g, ov) \<Rightarrow>
       (best = Some (g, ov) \<or> g \<in> set gs \<and> et_perTag T g \<noteq> [] \<and> ov = wrap64 (et_usage T g - res g)) \<and>
       (\<forall>h ov'. best = Some (h, ov') \<longrightarrow> ov' \<le> ov) \<and>
       (\<forall>h \<in> set gs. et_perTag T h \<noteq> [] \<longrightarrow> wrap64 (et_usage T h - res h) \<le> ov)"
proof (induction res T gs best rule: pick_loop.induct)
  case (1 res T best)
  then show ?case by (auto split: option.split)
next
  case (2 res T g gs best)
  let ?o = "wrap64 (et_usage T g - res g)"
  show ?case
  proof (cases "et_perTag T g = []")
    case True
    then show ?thesis using 2(1) by (auto split: option.splits)
  next
    case ne: False
    show ?thesis
    proof (cases best)
      case None
      then show ?thesis using 2(2) [OF ne refl None] ne
        by (auto simp: Let_def split: option.splits)
    next
      case (Some p)
      obtain h ov where p: "p = (h, ov)" by (cases p)
      show ?thesis
      proof (cases "ov < ?o")
        case True
        then show ?thesis using 2(3) [OF ne refl Some p [symmetric]] ne Some p
          by (auto simp: Let_def split: option.splits)
      next
        case False
        then show ?thesis using 2(4) [OF ne refl Some p [symmetric]] ne Some p
          by (auto simp: Let_def split: option.splits)
      qed
    qed
  qed
qed


lemma pick_None:
  assumes "env_ok E" "tables_ok E m T" "pick_loop res T (rangeOrder E k (et_keys T)) None = None"
  shows "dom m = {}"
proof -
  have "set (rangeOrder E k (et_keys T)) = set (et_keys T)"
    using env_okD(5) [OF assms(1)] by (rule mset_eq_setD)
  with pick_loop_spec [where res = res and T = T and gs = "rangeOrder E k (et_keys T)" and best = None]
  have "\<forall>g \<in> set (et_keys T). et_perTag T g = []" by (simp add: assms(3))
  moreover have "et_perTag T g \<noteq> [] \<Longrightarrow> g \<in> set (et_keys T)" for g
    using assms(2) by (simp add: tables_ok_def)
  ultimately have "et_perTag T g = []" for g by blast
  then have "tag_cands m g = {}" for g using assms(2) by (simp add: tables_ok_def)
  then have "m i = None" for i using cand_of_tag [of m i] by (cases "m i") blast+
  then show ?thesis by (auto simp: dom_def)
qed

lemma logicalExpiry_cand [simp]: "logicalExpiry E (cand_of i bt) = block_expiry E bt"
  by (simp add: logicalExpiry_def cand_of_def block_expiry_def)

lemma tag_cands_delete:
  "m i = Some bt \<Longrightarrow> tag_cands (m(i := None)) g = tag_cands m g - {cand_of i bt}"
  by (rule set_eqI) (auto simp: tag_cands_iff)

definition drop_cand :: "Tag \<Rightarrow> evict_tables \<Rightarrow> evict_tables" where
  "drop_cand g T =
     T\<lparr>et_perTag := (et_perTag T)(g := tl (et_perTag T g)),
       et_usage := (et_usage T)(g := wrap64 (et_usage T g - blockSize))\<rparr>"

lemma pick_Some:
  assumes E: "env_ok E" and T: "tables_ok E m T"
    and p: "pick_loop res T (rangeOrder E k (et_keys T)) None = Some (g, ov)"
  obtains i bt where "m i = Some bt" "hd (et_perTag T g) = cand_of i bt" "evictable E res m i"
    "tables_ok E (m(i := None)) (drop_cand g T)"
proof -
  have ks: "set (rangeOrder E k (et_keys T)) = set (et_keys T)"
    using env_okD(5) [OF E] by (rule mset_eq_setD)
  note spec = pick_loop_spec [where res = res and T = T and gs = "rangeOrder E k (et_keys T)" and best = None,
    unfolded p ks, simplified]
  obtain c cs where cs: "et_perTag T g = c # cs" using spec by (cases "et_perTag T g") auto
  have tok: "set (et_perTag T h) = tag_cands m h" "distinct (et_perTag T h)"
    "sorted (map (logicalExpiry E) (et_perTag T h))"
    "et_usage T h = wrap64 (blockSize * int (length (et_perTag T h)))"
    "et_perTag T h \<noteq> [] \<Longrightarrow> h \<in> set (et_keys T)" for h
    using T by (simp_all add: tables_ok_def)
  have "c \<in> tag_cands m g" using tok(1) [of g] cs by auto
  then obtain i bt where i: "m i = Some bt" "c = cand_of i bt" and g: "eff_tag (snd bt) = g"
    by (auto simp: tag_cands_def)
  have over: "over_reservation res m h \<le> over_reservation res m g" if "tag_blocks m h \<noteq> {}" for h
  proof -
    have "et_perTag T h \<noteq> []"
      using that tok(1) [of h] ec_id_tag_cands [of m h] by (metis image_is_empty set_empty2)
    then show ?thesis using spec tok(5) [of h] tables_over [OF T] by auto
  qed
  have exp: "block_expiry E bt \<le> block_expiry E bt'" if "m j = Some bt'" "eff_tag (snd bt') = g" for j bt'
  proof -
    have "cand_of j bt' \<in> set (c # cs)" using cand_of_tag [of m j bt'] that tok(1) [of g] cs by simp
    then have "logicalExpiry E c \<le> logicalExpiry E (cand_of j bt')" using tok(3) [of g] cs by auto
    then show ?thesis by (simp add: i(2))
  qed
  have ev: "evictable E res m i" unfolding evictable_def using i(1) g over exp by blast
  have T': "tables_ok E (m(i := None)) (drop_cand g T)"
    unfolding tables_ok_def
  proof (intro allI conjI)
    fix h
    have other: "cand_of i bt \<notin> tag_cands m h" if "h \<noteq> g"
      using that g by (auto simp: tag_cands_def cand_of_def)
    show "set (et_perTag (drop_cand g T) h) = tag_cands (m(i := None)) h"
      using tok(1,2) [of h] cs other i by (cases "h = g") (auto simp: drop_cand_def tag_cands_delete)
    show "distinct (et_perTag (drop_cand g T) h)"
      using tok(2) [of h] by (auto simp: drop_cand_def intro: distinct_tl)
    show "sorted (map (logicalExpiry E) (et_perTag (drop_cand g T) h))"
      using tok(3) [of h] cs by (auto simp: drop_cand_def)
    show "et_usage (drop_cand g T) h = wrap64 (blockSize * int (length (et_perTag (drop_cand g T) h)))"
      using tok(4) [of h] cs by (cases "h = g") (simp_all add: drop_cand_def algebra_simps)
    show "et_perTag (drop_cand g T) h \<noteq> [] \<longrightarrow> h \<in> set (et_keys (drop_cand g T))"
      using tok(5) [of h] by (cases "et_perTag T g") (auto simp: drop_cand_def)
  qed
  show thesis by (rule that [OF i(1) _ ev T']) (simp add: cs i(2))
qed

lemma evict_candidate_block:
  assumes "env_ok E" "wf_stored E i (fst bt)"
  shows "evict_candidate (blockKey i, block_val bt) = cand_of i bt"
  using block_val_fields [OF assms]
  by (cases "snd bt") (simp_all add: evict_candidate_def cand_of_def Let_def blockKey_def eff_tag_def TagPhysical_def)

lemma evict_scan_cands:
  assumes "badger_inv E B t s" "sorted_wrt (<) (map fst items)"
    "set items = {(blockKey i, block_val bt) | i bt. badger_abs B s i = Some bt}"
  shows "set (evict_scan items) = {cand_of i bt | i bt. badger_abs B s i = Some bt}"
    "distinct (evict_scan items)"
proof -
  have ev: "evict_candidate (blockKey i, block_val bt) = cand_of i bt"
    if "badger_abs B s i = Some bt" for i bt
    using evict_candidate_block [OF badger_invD(1) [OF assms(1)] abs_wf [OF assms(1) that]] .
  have sc: "evict_scan items = map evict_candidate items"
    unfolding evict_scan_def using block_items_len [OF assms(1,3)] by simp
  show "set (evict_scan items) = {cand_of i bt | i bt. badger_abs B s i = Some bt}"
    unfolding sc set_map assms(3) using ev by (force simp: image_iff)
  have "distinct items" using assms(2) by (metis distinct_map strict_sorted_iff)
  moreover have "inj_on evict_candidate (set items)"
  proof (rule inj_onI)
    fix x y assume xy: "x \<in> set items" "y \<in> set items" "evict_candidate x = evict_candidate y"
    then obtain i bt j bt' where "x = (blockKey i, block_val bt)" "badger_abs B s i = Some bt"
      "y = (blockKey j, block_val bt')" "badger_abs B s j = Some bt'"
      using assms(3) by auto
    with xy(3) ev show "x = y" by (auto simp: cand_of_def)
  qed
  ultimately show "distinct (evict_scan items)" by (simp add: sc distinct_map)
qed

lemma tables_ok_init:
  assumes "env_ok E" "set all = {cand_of i bt | i bt. m i = Some bt}" "distinct all"
  shows "tables_ok E m (evict_tables_of E all)"
proof -
  let ?lt = "\<lambda>x y. logicalExpiry E x < logicalExpiry E y"
  let ?p = "\<lambda>g. filter (\<lambda>c. ec_tag c = g) all"
  note so = sort_Slice_set [OF env_okD(4) [OF assms(1)], of ?lt "logicalExpiry E", OF refl]
  note sk = sort_Slice_key(2) [OF env_okD(4) [OF assms(1)], of ?lt "logicalExpiry E", OF refl]
  have "set (?p g) = tag_cands m g" for g
    using assms(2) by (auto simp: tag_cands_def cand_of_def)
  moreover have "?p g \<noteq> [] \<Longrightarrow> g \<in> ec_tag ` set all" for g by (auto simp: filter_empty_conv)
  moreover have "sort_Slice (sorter E) ?lt xs = [] \<longleftrightarrow> xs = []" for xs
    using so(2) [of xs] by (metis length_0_conv)
  ultimately show ?thesis
    unfolding tables_ok_def by (simp add: evict_tables_of_def so sk assms(3))
qed

section \<open>Evict\<close>

lemma Unix_tomb: "fold (apply_write t) (evict_writes E (cand_of i bt)) v =
   (v(blockKey i := None, travKey (sb_createdAt (fst bt)) i := None))
     (tombKey i \<mapsto> ([], Some (Unix (t + wrap64 (2 * TTLFromWorkFactor E (sb_wf (fst bt)))))))"
  by (simp add: evict_writes_def cand_of_def)

definition tomb_view :: "env \<Rightarrow> time \<Rightarrow> (ID \<rightharpoonup> tagged) \<Rightarrow> ID list \<Rightarrow> kv_view \<Rightarrow> ID
    \<Rightarrow> (bytes \<times> int option) option" where
  "tomb_view E t m is v j =
     (if j \<in> set is
      then Some ([], Some (Unix (t + wrap64 (2 * TTLFromWorkFactor E (sb_wf (fst (the (m j))))))))
      else v (tombKey j))"

lemma evict_one:
  assumes i: "badger_inv E B t s" and m: "badger_abs B s i = Some bt"
    and c: "db_Commit B t (bs_db s) (evict_writes E (cand_of i bt)) = Inr db'"
  defines "s' \<equiv> s\<lparr>bs_db := db'\<rparr>"
  shows "badger_inv E B t s'" "badger_abs B s' = (badger_abs B s)(i := None)"
    "db_view B db' (tombKey j) = tomb_view E t (badger_abs B s) [i] (db_view B (bs_db s)) j"
proof -
  have h: "db_healthy B db'" and v: "db_view B db' =
      fold (apply_write t) (evict_writes E (cand_of i bt)) (db_view B (bs_db s))"
    using badger_commit [OF badger_invD(3,4) [OF i]] c by (metis sum.inject(2))+
  have r: "badger_rep E (db_view B (bs_db s')) ((badger_abs B s)(i := None))"
    unfolding s'_def BadgerStore.select_convs BadgerStore.update_convs v Unix_tomb
    by (simp add: s'_def v Unix_tomb rep_tomb rep_delete [OF badger_invD(5) [OF i] m])
  show "badger_inv E B t s'" "badger_abs B s' = (badger_abs B s)(i := None)"
    using badger_invI [OF badger_invD(1-3) [OF i], of s'] h r by (simp_all add: s'_def)
  show "db_view B db' (tombKey j) = tomb_view E t (badger_abs B s) [i] (db_view B (bs_db s)) j"
    by (simp add: v Unix_tomb tomb_view_def m)
qed

lemma evict_loop_run:
  assumes "badger_inv E B t s" "tables_ok E (badger_abs B s) T"
  shows "\<exists>is db'. evict_loop E B t n k T s = ((int (k + length is), None), s\<lparr>bs_db := db'\<rparr>) \<and>
    badger_inv E B t (s\<lparr>bs_db := db'\<rparr>) \<and>
    evict_run E (reservation s) (badger_abs B s) is (badger_abs B (s\<lparr>bs_db := db'\<rparr>)) \<and>
    length is = min n (card (dom (badger_abs B s))) \<and>
    (\<forall>j. db_view B db' (tombKey j) = tomb_view E t (badger_abs B s) is (db_view B (bs_db s)) j)"
  using assms
proof (induction n arbitrary: k T s)
  case 0
  have "s\<lparr>bs_db := bs_db s\<rparr> = s" by simp
  with 0 evict_done [of E "reservation s" "badger_abs B s"] show ?case
    by (intro exI [of _ "[]"] exI [of _ "bs_db s"]) (simp add: tomb_view_def)
next
  case (Suc n)
  note E = badger_invD(1) [OF Suc.prems(1)]
  let ?m = "badger_abs B s"
  show ?case
  proof (cases "pick_loop (reservation s) T (rangeOrder E k (et_keys T)) None")
    case None
    then have "dom ?m = {}" using pick_None [OF E Suc.prems(2)] by blast
    with None Suc.prems(1) evict_done [of E "reservation s" ?m] show ?thesis
      by (intro exI [of _ "[]"] exI [of _ "bs_db s"]) (simp add: tomb_view_def)
  next
    case (Some p)
    obtain g ov where p: "p = (g, ov)" by (cases p)
    obtain i bt where i: "?m i = Some bt" "hd (et_perTag T g) = cand_of i bt"
      "evictable E (reservation s) ?m i" "tables_ok E (?m(i := None)) (drop_cand g T)"
      using pick_Some [OF E Suc.prems(2), of "reservation s" k g ov] Some p by blast
    obtain db1 where c: "db_Commit B t (bs_db s) (evict_writes E (cand_of i bt)) = Inr db1"
      using badger_commit [OF badger_invD(3,4) [OF Suc.prems(1)]] by metis
    define s1 where "s1 = s\<lparr>bs_db := db1\<rparr>"
    note one = evict_one [OF Suc.prems(1) i(1) c, folded s1_def]
    have res: "reservation s1 = reservation s" by (simp add: s1_def reservation_def fun_eq_iff)
    have step: "evict_loop E B t (Suc n) k T s = evict_loop E B t n (Suc k) (drop_cand g T) s1"
      by (simp add: Some p Let_def i(2) c s1_def drop_cand_def)
    obtain "is" db' where ih: "evict_loop E B t n (Suc k) (drop_cand g T) s1 =
          ((int (Suc k + length is), None), s1\<lparr>bs_db := db'\<rparr>)"
      "badger_inv E B t (s1\<lparr>bs_db := db'\<rparr>)"
      "evict_run E (reservation s) (?m(i := None)) is (badger_abs B (s1\<lparr>bs_db := db'\<rparr>))"
      "length is = min n (card (dom (?m(i := None))))"
      "\<And>j. db_view B db' (tombKey j) = tomb_view E t (?m(i := None)) is (db_view B db1) j"
    proof -
      have db: "bs_db s1 = db1" by (simp add: s1_def)
      from Suc.IH [OF one(1), of "drop_cand g T" "Suc k", unfolded one(2) res db, OF i(4)]
      show thesis using that by blast
    qed
    have s1: "s1\<lparr>bs_db := db'\<rparr> = s\<lparr>bs_db := db'\<rparr>" by (simp add: s1_def)
    have "card (dom ?m) = Suc (card (dom (?m(i := None))))"
    proof -
      have "i \<in> dom ?m" "finite (dom ?m)" using i(1) badger_repD(1) [OF badger_invD(5) [OF Suc.prems(1)]] by auto
      then show ?thesis using card_Suc_Diff1 [of "dom ?m" i] by simp
    qed
    moreover have "db_view B db' (tombKey j) = tomb_view E t ?m (i # is) (db_view B (bs_db s)) j" for j
    proof (cases "j \<in> set is")
      case True
      then have "j \<noteq> i" using evict_run_result [OF ih(3)] by auto
      with True show ?thesis by (simp add: ih(5) tomb_view_def)
    qed (simp add: ih(5) one(3) tomb_view_def)
    ultimately show ?thesis
      using step ih evict_step [OF i(3) ih(3)] unfolding s1
      by (intro exI [of _ "i # is"] exI [of _ db']) simp
  qed
qed


text \<open>The outcome of \<^verbatim>\<open>Evict\<close>: which blocks go, what remains, and the tombstones.\<close>

lemma Evict_run:
  assumes "badger_inv E B t s"
  shows "\<exists>is db'. Evict E B t n s = ((int (length is), None), s\<lparr>bs_db := db'\<rparr>) \<and>
    badger_inv E B t (s\<lparr>bs_db := db'\<rparr>) \<and>
    evict_run E (reservation s) (badger_abs B s) is (badger_abs B (s\<lparr>bs_db := db'\<rparr>)) \<and>
    length is = min (nat n) (card (dom (badger_abs B s))) \<and>
    (\<forall>j. db_view B db' (tombKey j) = tomb_view E t (badger_abs B s) is (db_view B (bs_db s)) j)"
proof (cases "n \<le> 0")
  case True
  with assms evict_done [of E "reservation s" "badger_abs B s"] show ?thesis
    by (intro exI [of _ "[]"] exI [of _ "bs_db s"]) (simp add: Evict_def tomb_view_def)
next
  case False
  obtain items where it: "db_Iterate B t (bs_db s) [blockPrefix] = Inr items"
    "sorted_wrt (<) (map fst items)"
    "set items = {(blockKey i, block_val bt) | i bt. badger_abs B s i = Some bt}"
    using block_items [OF assms] .
  have "tables_ok E (badger_abs B s) (evict_tables_of E (evict_scan items))"
    using tables_ok_init [OF badger_invD(1) [OF assms]] evict_scan_cands [OF assms it(2,3)] by blast
  from evict_loop_run [OF assms this, of "nat n" 0] False it(1) show ?thesis
    by (simp add: Evict_def)
qed

section \<open>Put\<close>

definition new_block :: "env \<Rightarrow> time \<Rightarrow> Stamp \<Rightarrow> Payload \<Rightarrow> Tag \<Rightarrow> tagged" where
  "new_block E t st p tag = (new_stored E t st p, Some tag)"

text \<open>What \<^verbatim>\<open>Put\<close> does to the map of blocks, before the storage limit is enforced.\<close>

definition put_spec ::
  "env \<Rightarrow> time \<Rightarrow> Stamp \<Rightarrow> Payload \<Rightarrow> Tag \<Rightarrow> bool \<Rightarrow> (ID \<rightharpoonup> tagged) \<Rightarrow> ID \<rightharpoonup> tagged" where
  "put_spec E t st p tag tomb m =
     (let i = ComputeID E p
      in if tomb \<or> (case m i of None \<Rightarrow> False | Some bt \<Rightarrow> WorkFactor E st p \<le> sb_wf (fst bt)) then m
         else m(i \<mapsto> new_block E t st p tag))"

lemma put_writes_view:
  assumes "0 \<le> Unix t"
  shows "fold (apply_write t) (put_writes E t st p tag) v =
    v(blockKey (ComputeID E p) \<mapsto> (block_val (new_block E t st p tag), None),
      travKey (Unix t) (ComputeID E p) \<mapsto> (trav_val (new_block E t st p tag), None))"
  by (simp add: put_writes_def Let_def encodeBlockVal_block_val new_block_def new_stored_def
      trav_val_def tag_bytes_def)

lemma put_txn_rep:
  assumes i: "badger_inv E B t s" and st: "wf_stamp st" "wf_payload p"
  shows "\<exists>ws. put_txn E B t st p tag (bs_db s) = Inr ws \<and>
    badger_rep E (fold (apply_write t) ws (db_view B (bs_db s)))
      (put_spec E t st p tag (tombstoned B t s (ComputeID E p)) (badger_abs B s)) \<and>
    (\<forall>j. fold (apply_write t) ws (db_view B (bs_db s)) (tombKey j) = db_view B (bs_db s) (tombKey j))"
proof (cases "tombstoned B t s (ComputeID E p)")
  case True
  then obtain v where "db_Get B t (bs_db s) (tombKey (ComputeID E p)) = Inr v"
    using get_tomb(1) [OF i] by blast
  with True badger_invD(5) [OF i] show ?thesis by (simp add: put_txn_def put_spec_def Let_def)
next
  case False
  let ?i = "ComputeID E p" and ?v = "db_view B (bs_db s)" and ?m = "badger_abs B s"
  let ?n = "new_block E t st p tag"
  note tomb = get_tomb(2) [OF i False]
  note E = badger_invD(1) [OF i] and rep = badger_invD(5) [OF i]
  have u: "0 \<le> Unix t" using badger_invD(2) [OF i] by (simp add: clock_ok_def)
  have n: "wf_stored E ?i (fst ?n)" and nc: "sb_createdAt (fst ?n) = Unix t"
    using wf_new_stored [OF badger_invD(2) [OF i] st]
    by (simp_all add: new_block_def new_stored_def)
  show ?thesis
  proof (cases "?m ?i")
    case None
    then show ?thesis using rep_insert [OF rep None n] False
      by (simp add: put_txn_def put_spec_def Let_def tomb get_block [OF i] put_writes_view [OF u] nc)
  next
    case (Some bt)
    note f = block_val_fields [OF E abs_wf [OF i Some]]
    have len: "16 \<le> length (block_val bt)" using f(1) by (simp split: option.splits)
    show ?thesis
    proof (cases "WorkFactor E st p \<le> sb_wf (fst bt)")
      case True
      then show ?thesis using Some rep f(2) len
        by (simp add: put_txn_def put_spec_def Let_def tomb get_block [OF i])
    next
      case worse: False
      have r: "badger_rep E (?v(blockKey ?i := None, travKey (sb_createdAt (fst bt)) ?i := None)) (?m(?i := None))"
        by (rule rep_delete [OF rep Some])
      have "badger_rep E ((?v(travKey (sb_createdAt (fst bt)) ?i := None))
          (blockKey ?i \<mapsto> (block_val ?n, None), travKey (Unix t) ?i \<mapsto> (trav_val ?n, None))) (?m(?i \<mapsto> ?n))"
        using rep_insert [OF r _ n] by (simp add: nc fun_upd_twist [of "blockKey ?i"])
      then show ?thesis using Some worse False f(2,3) len
        by (simp add: put_txn_def put_spec_def Let_def tomb get_block [OF i] put_writes_view [OF u])
    qed
  qed
qed


lemma put_commit:
  assumes i: "badger_inv E B t s" and st: "wf_stamp st" "wf_payload p"
  obtains ws db' where "put_txn E B t st p tag (bs_db s) = Inr ws" "db_Commit B t (bs_db s) ws = Inr db'"
    "badger_inv E B t (s\<lparr>bs_db := db'\<rparr>)"
    "badger_abs B (s\<lparr>bs_db := db'\<rparr>) =
       put_spec E t st p tag (tombstoned B t s (ComputeID E p)) (badger_abs B s)"
    "\<And>j. db_view B db' (tombKey j) = db_view B (bs_db s) (tombKey j)"
proof -
  obtain ws where ws: "put_txn E B t st p tag (bs_db s) = Inr ws"
    and r: "badger_rep E (fold (apply_write t) ws (db_view B (bs_db s)))
      (put_spec E t st p tag (tombstoned B t s (ComputeID E p)) (badger_abs B s))"
    and tb: "\<And>j. fold (apply_write t) ws (db_view B (bs_db s)) (tombKey j) = db_view B (bs_db s) (tombKey j)"
    using put_txn_rep [OF i st] by blast
  obtain db' where db: "db_Commit B t (bs_db s) ws = Inr db'" "db_healthy B db'"
    and v: "db_view B db' = fold (apply_write t) ws (db_view B (bs_db s))"
    using badger_commit [OF badger_invD(3,4) [OF i]] by metis
  define s' where "s' = s\<lparr>bs_db := db'\<rparr>"
  have "badger_rep E (db_view B (bs_db s'))
      (put_spec E t st p tag (tombstoned B t s (ComputeID E p)) (badger_abs B s))"
    using r by (simp add: s'_def v)
  with badger_invI [OF badger_invD(1-3) [OF i], of s'] db(2) have
    "badger_inv E B t s'" "badger_abs B s' =
      put_spec E t st p tag (tombstoned B t s (ComputeID E p)) (badger_abs B s)"
    by (simp_all add: s'_def)
  with ws db tb v show thesis using that unfolding s'_def by simp
qed

lemma Put_run:
  fixes tag :: Tag
  assumes i: "badger_inv E B t s" and st: "wf_stamp st" "wf_payload p"
  defines "m \<equiv> put_spec E t st p tag (tombstoned B t s (ComputeID E p)) (badger_abs B s)"
  shows "\<exists>is db'. Put E B t st p tag s = (Inr (ComputeID E p), s\<lparr>bs_db := db'\<rparr>) \<and>
    badger_inv E B t (s\<lparr>bs_db := db'\<rparr>) \<and>
    evict_run E (reservation s) m is (badger_abs B (s\<lparr>bs_db := db'\<rparr>)) \<and>
    (bs_storageLimit s \<le> 0 \<longrightarrow> is = []) \<and>
    (\<forall>j. db_view B db' (tombKey j) = tomb_view E t m is (db_view B (bs_db s)) j)"
proof -
  obtain ws db1 where p: "put_txn E B t st p tag (bs_db s) = Inr ws" "db_Commit B t (bs_db s) ws = Inr db1"
    "badger_inv E B t (s\<lparr>bs_db := db1\<rparr>)" "badger_abs B (s\<lparr>bs_db := db1\<rparr>) = m"
    "\<And>j. db_view B db1 (tombKey j) = db_view B (bs_db s) (tombKey j)"
    using put_commit [OF i st] unfolding m_def by metis
  define s1 where "s1 = s\<lparr>bs_db := db1\<rparr>"
  have P: "Put E B t st p tag s = (Inr (ComputeID E p), enforce_limit E B t s1)"
    by (simp add: Put_def p s1_def)
  have "enforce_limit E B t s1 = s1 \<or>
      bs_storageLimit s > 0 \<and> (\<exists>n. enforce_limit E B t s1 = snd (Evict E B t n s1))"
    by (simp add: enforce_limit_def Let_def s1_def) blast
  then show ?thesis
  proof
    assume e: "enforce_limit E B t s1 = s1"
    show ?thesis using P e p(3-5) evict_done [of E "reservation s" m]
      by (intro exI [of _ "[]"] exI [of _ db1]) (simp add: s1_def tomb_view_def)
  next
    assume a: "bs_storageLimit s > 0 \<and> (\<exists>n. enforce_limit E B t s1 = snd (Evict E B t n s1))"
    then obtain n where n: "enforce_limit E B t s1 = snd (Evict E B t n s1)" by blast
    have r: "reservation s1 = reservation s" by (simp add: s1_def reservation_def fun_eq_iff)
    obtain "is" db' where e: "Evict E B t n s1 = ((int (length is), None), s1\<lparr>bs_db := db'\<rparr>)"
      "badger_inv E B t (s1\<lparr>bs_db := db'\<rparr>)"
      "evict_run E (reservation s) m is (badger_abs B (s1\<lparr>bs_db := db'\<rparr>))"
      "\<And>j. db_view B db' (tombKey j) = tomb_view E t m is (db_view B db1) j"
    proof -
      have m: "badger_abs B s1 = m" and db: "bs_db s1 = db1" using p(4) by (simp_all add: s1_def)
      from Evict_run [OF p(3) [folded s1_def], of n, unfolded m r db] that show thesis by blast
    qed
    show ?thesis using P n e a p(5)
      by (intro exI [of _ "is"] exI [of _ db']) (simp add: s1_def tomb_view_def)
  qed
qed

section \<open>The store satisfies the contract\<close>

lemma put_spec_new:
  assumes "put_spec E t st p tag tomb m i = Some bt"
  shows "m i = Some bt \<or> i = ComputeID E p \<and> fst bt = new_stored E t st p"
  using assms by (auto simp: put_spec_def Let_def new_block_def split: if_splits option.splits)

lemma Badger_Put_law:
  assumes "badger_inv E B t s" "wf_stamp st" "wf_payload p" "Put E B t st p tag s = (r, s')"
  shows "badger_inv E B t s' \<and> r = Inr (ComputeID E p) \<and>
    (\<forall>i b. badger_blk B t s' i = Some b \<longrightarrow>
       badger_blk B t s i = Some b \<or> i = ComputeID E p \<and> b = new_stored E t st p)"
proof -
  let ?m = "put_spec E t st p tag (tombstoned B t s (ComputeID E p)) (badger_abs B s)"
  obtain "is" where r: "r = Inr (ComputeID E p)" "badger_inv E B t s'"
    "evict_run E (reservation s) ?m is (badger_abs B s')"
    using Put_run [OF assms(1-3), of tag] assms(4) by auto
  have "badger_blk B t s i = Some b \<or> i = ComputeID E p \<and> b = new_stored E t st p"
    if b: "badger_blk B t s' i = Some b" for i b
  proof -
    obtain bt where bt: "badger_abs B s' i = Some bt" "b = fst bt" using b by (auto simp: badger_blk_def)
    then have "?m i = Some bt" using evict_run_result [OF r(3)] by (simp add: restrict_map_def split: if_splits)
    from put_spec_new [OF this] show ?thesis using bt(2) by (cases bt) (auto simp: badger_blk_def)
  qed
  with r show ?thesis by blast
qed

interpretation badger: block_store "badger_store E B" E "badger_inv E B" "badger_blk B" for E B
proof (unfold_locales, goal_cases)
  case (3 t s t')
  then show ?case by (auto simp: badger_inv_def badger_blk_def fun_eq_iff)
next
  case (4 t s)
  then show ?case using badger_repD(1) [OF badger_invD(5)]
    by (auto simp: badger_blk_def dom_def)
next
  case (5 t s i b)
  then show ?case using abs_wf by (auto simp: badger_blk_def)
next
  case (9 t s)
  then show ?case using Badger_ListIDs by simp
next
  case (10 t s lim since cur page pf)
  then show ?case using Badger_ListBlocks [of E B t s lim since cur page pf] by auto
next
  case (11 t s st p tag r s')
  then show ?case using Badger_Put_law by simp
qed (auto simp: badger_invD Badger_Get Badger_GetWorkFactor Badger_Has)

lemma Badger_Put_keeps:
  assumes "badger_inv E B t s" "bs_storageLimit s \<le> 0" "wf_stamp st" "wf_payload p"
    "Put E B t st p tag s = (r, s')"
  shows "bs_storageLimit s' \<le> 0 \<and> tombstoned B t s' = tombstoned B t s \<and>
    badger_blk B t s' = put_effect E t st p (tombstoned B t s (ComputeID E p)) (badger_blk B t s)"
proof -
  let ?i = "ComputeID E p"
  let ?m = "put_spec E t st p tag (tombstoned B t s ?i) (badger_abs B s)"
  obtain db' where s': "s' = s\<lparr>bs_db := db'\<rparr>" and r: "evict_run E (reservation s) ?m [] (badger_abs B s')"
    and tb: "\<And>j. db_view B db' (tombKey j) = db_view B (bs_db s) (tombKey j)"
    using Put_run [OF assms(1,3,4), of tag] assms(2,5) by (auto simp: tomb_view_def)
  have m: "badger_abs B s' = ?m" using evict_run_result [OF r] by (simp add: restrict_map_def fun_eq_iff)
  have "badger_blk B t s' j = put_effect E t st p (tombstoned B t s ?i) (badger_blk B t s) j" for j
    unfolding badger_blk_def m
    by (auto simp: put_spec_def put_effect_def Let_def new_block_def badger_blk_def split: option.splits)
  then show ?thesis using assms(2) tb by (auto simp: s' tombstoned_def fun_eq_iff)
qed

interpretation badger_keep: keeping_store "badger_store E B" E "badger_inv E B" "badger_blk B"
  "\<lambda>s. bs_storageLimit s \<le> 0" "tombstoned B" for E B
  by unfold_locales (simp_all add: Badger_Put_keeps Badger_Has)

end
