(* ===== verification/BadgerProps.thy ===== *)
theory BadgerProps
  imports BadgerEvict
begin

text \<open>
  The properties of the store of \<^verbatim>\<open>badger.go\<close>: insertion, eviction, tombstones,
  listing and the median work factor, with instances on the in-memory database.
\<close>

section \<open>The median work factor\<close>

definition count_wf :: "(ID \<rightharpoonup> stored) \<Rightarrow> (int \<Rightarrow> bool) \<Rightarrow> nat" where
  "count_wf m P = card {i. \<exists>b. m i = Some b \<and> P (sb_wf b)}"

definition half_capacity :: "'db BadgerStore \<Rightarrow> int" where
  "half_capacity s = go_div (go_div (StorageLimitBytes s) blockSize) 2"

lemma sorted_nth_count:
  fixes xs :: "'a :: linorder list"
  assumes "sorted xs" "j < length xs"
  shows "length xs - j \<le> length (filter (\<lambda>y. xs ! j \<le> y) xs)"
    "length (filter (\<lambda>y. xs ! j < y) xs) < length xs - j"
proof -
  have split: "xs = take j xs @ xs ! j # drop (Suc j) xs" using assms(2) by (simp add: id_take_nth_drop)
  have s: "sorted (take j xs @ xs ! j # drop (Suc j) xs)" using assms(1) split by simp
  have "filter (\<lambda>y. xs ! j \<le> y) (drop j xs) = drop j xs"
    using s assms(2) by (auto simp: filter_id_conv sorted_append Cons_nth_drop_Suc [symmetric])
  then have "length (drop j xs) \<le> length (filter (\<lambda>y. xs ! j \<le> y) xs)"
    by (metis append_take_drop_id filter_append length_append le_add2)
  then show "length xs - j \<le> length (filter (\<lambda>y. xs ! j \<le> y) xs)" by simp
  have "filter (\<lambda>y. xs ! j < y) (take j xs @ [xs ! j]) = []"
    using s by (auto simp: filter_empty_conv sorted_append not_less)
  then have "filter (\<lambda>y. xs ! j < y) xs = filter (\<lambda>y. xs ! j < y) (drop (Suc j) xs)"
    by (subst split) (simp add: filter_append)
  then show "length (filter (\<lambda>y. xs ! j < y) xs) < length xs - j"
    using length_filter_le [of "\<lambda>y. xs ! j < y" "drop (Suc j) xs"] assms(2) by simp
qed

lemma trav_count:
  assumes "badger_inv E B t s" "trav_index B s items"
  shows "length (filter P (map (\<lambda>kv. uint (Uint32 (snd kv))) items)) = count_wf (badger_blk B t s) P"
    "filter (\<lambda>kv. length (snd kv) \<ge> 4) items = items"
proof -
  let ?w = "\<lambda>kv. uint (Uint32 (snd kv))" and ?id = "\<lambda>kv. refID (trav_ref kv)"
  let ?F = "\<lambda>i bt. (travKey (sb_createdAt (fst bt)) i, trav_val bt)"
  have entry: "kv \<in> set items \<longleftrightarrow> (\<exists>bt. badger_abs B s (?id kv) = Some bt \<and> kv = ?F (?id kv) bt)" for kv
  proof
    assume "kv \<in> set items"
    with assms show "\<exists>bt. badger_abs B s (?id kv) = Some bt \<and> kv = ?F (?id kv) bt"
      by (rule trav_entry) (simp add: cursor_of_def)
  next
    assume "\<exists>bt. badger_abs B s (?id kv) = Some bt \<and> kv = ?F (?id kv) bt"
    then show "kv \<in> set items" using assms(2) unfolding trav_index_def by blast
  qed
  have F: "?id (?F i bt) = i" "?w (?F i bt) = sb_wf (fst bt)" "4 \<le> length (snd (?F i bt))"
    if m: "badger_abs B s i = Some bt" for i bt
    using trav_val_fields [OF badger_invD(1) [OF assms(1)] abs_wf [OF assms(1) m]]
      cursor_of_wf [OF assms(1) m] trav_cursor_key(1) [of "cursor_of i bt"]
    by (simp_all add: trav_ref_def trav_cursor_def cursor_of_def)
  show "filter (\<lambda>kv. length (snd kv) \<ge> 4) items = items"
  proof (rule filter_True, rule ballI)
    fix kv assume "kv \<in> set items"
    then obtain bt where m: "badger_abs B s (?id kv) = Some bt" "kv = ?F (?id kv) bt" using entry by blast
    show "4 \<le> length (snd kv)" by (subst m(2)) (rule F(3) [OF m(1)])
  qed
  define fs where "fs = filter (\<lambda>kv. P (?w kv)) items"
  have inj: "inj_on ?id (set items)"
  proof (rule inj_onI)
    fix x y assume xy: "x \<in> set items" "y \<in> set items" "?id x = ?id y"
    obtain bt where x: "badger_abs B s (?id x) = Some bt" "x = ?F (?id x) bt"
      using xy(1) entry [of x] by blast
    obtain bt' where y: "badger_abs B s (?id x) = Some bt'" "y = ?F (?id x) bt'"
      using xy(2) entry [of y] unfolding xy(3) by blast
    have "bt = bt'" using x(1) y(1) by simp
    then show "x = y" using x(2) y(2) by simp
  qed
  have "distinct (map fst items)" using assms(2) by (simp add: trav_index_def strict_sorted_iff)
  then have "distinct items" by (simp add: distinct_map)
  then have "distinct (map ?id fs)"
    using inj unfolding fs_def by (auto simp: distinct_map inj_on_def)
  moreover have "set (map ?id fs) = {i. \<exists>b. badger_blk B t s i = Some b \<and> P (sb_wf b)}"
  proof (intro equalityI subsetI)
    fix i assume "i \<in> set (map ?id fs)"
    then obtain kv where "kv \<in> set fs" "i = ?id kv" unfolding set_map by blast
    then have kv: "kv \<in> set items" "P (?w kv)" "i = ?id kv" by (simp_all add: fs_def)
    then obtain bt where bt: "badger_abs B s i = Some bt" "kv = ?F i bt" using entry [of kv] by blast
    have "badger_blk B t s i = Some (fst bt)" by (simp add: badger_blk_def bt(1))
    moreover have "P (sb_wf (fst bt))" using kv(2) F(2) [OF bt(1)] bt(2) by simp
    ultimately show "i \<in> {i. \<exists>b. badger_blk B t s i = Some b \<and> P (sb_wf b)}" by simp
  next
    fix i assume "i \<in> {i. \<exists>b. badger_blk B t s i = Some b \<and> P (sb_wf b)}"
    then obtain bt where m: "badger_abs B s i = Some bt" "P (sb_wf (fst bt))"
      by (auto simp: badger_blk_def)
    have "?F i bt \<in> set items"
      unfolding entry F(1) [OF m(1)] using m(1) by (intro exI [of _ bt] conjI refl)
    then have "?F i bt \<in> set fs" using F(2) [OF m(1)] m(2) unfolding fs_def by simp
    then have "?id (?F i bt) \<in> set (map ?id fs)" by simp
    then show "i \<in> set (map ?id fs)" using F(1) [OF m(1)] by simp
  qed
  ultimately have "count_wf (badger_blk B t s) P = length (map ?id fs)"
    using distinct_card [of "map ?id fs"] by (simp only: count_wf_def)
  moreover have "length (filter P (map ?w items)) = length fs"
    by (simp add: fs_def filter_map comp_def)
  ultimately show "length (filter P (map ?w items)) = count_wf (badger_blk B t s) P" by simp
qed

text \<open>The value that \<^verbatim>\<open>computeMedianWorkFactor\<close> reads, in terms of the sorted work
  factors of the stored blocks.\<close>

lemma median_cases:
  assumes "badger_inv E B t s"
  obtains ws where "sorted ws" "\<And>P. length (filter P ws) = count_wf (badger_blk B t s) P"
    "computeMedianWorkFactor B t s =
      (if int (length ws) \<le> half_capacity s then Some (Inr 0)
       else map_option Inr (goIndex ws (int (length ws) - half_capacity s)))"
proof -
  obtain items where it: "db_Iterate B t (bs_db s) [travPrefix] = Inr items" "trav_index B s items"
    using trav_items [OF assms] .
  note c = trav_count [OF assms it(2)]
  let ?ws = "map (\<lambda>kv. uint (Uint32 (snd kv))) items"
  have "length (filter P (sort ?ws)) = length (filter P ?ws)" for P
    by (simp add: filter_sort)
  then show thesis
    using that [of "sort ?ws"] c it(1)
    by (simp add: computeMedianWorkFactor_def Let_def half_capacity_def StorageLimitBytes_def)
qed


section \<open>The empty store over the in-memory database\<close>

lemma badger_inv_open:
  "env_ok E \<Longrightarrow> clock_ok t \<Longrightarrow> badger_inv E mem_badger t (WithStorageLimit n (OpenBadger []))"
  by (simp add: badger_inv_def badger_laws_mem badger_rep_def badger_abs_def view_map_def dom_def
      OpenBadger_def WithStorageLimit_def)

lemma env0_clock: "env_ok env0" "0 \<le> t \<Longrightarrow> t < 1000000000000000000 \<Longrightarrow> clock_ok t"
  by (auto simp: env_ok_env0 clock_ok_def Unix_def nsPerSec_def in_int64_def)

text \<open>A store with one block in it.\<close>

definition one_block :: "mem_db BadgerStore" where
  "one_block = snd (Put env0 mem_badger 0 (replicate 4 255) (replicate 4096 0) TagLan (OpenBadger []))"

lemma open_no_limit: "OpenBadger db = WithStorageLimit 0 (OpenBadger db)"
  by (simp add: OpenBadger_def WithStorageLimit_def)

lemma one_block_inv:
  "badger_inv env0 mem_badger 0 one_block"
  "badger_abs mem_badger one_block =
     [ComputeID env0 (replicate 4096 0) \<mapsto> new_block env0 0 (replicate 4 255) (replicate 4096 0) TagLan]"
  "bs_storageLimit one_block = 0" "bs_reservations one_block = (\<lambda>_. None)"
proof -
  let ?s = "OpenBadger [] :: mem_db BadgerStore"
  have i: "badger_inv env0 mem_badger 0 ?s"
    using badger_inv_open [OF env0_clock(1), of 0 0] by (simp add: env0_clock flip: open_no_limit)
  have w: "wf_stamp (replicate 4 255)" "wf_payload (replicate 4096 0)"
    by (simp_all add: wf_stamp_def wf_payload_def)
  have m: "badger_abs mem_badger ?s = Map.empty"
    by (simp add: badger_abs_def view_map_def OpenBadger_def fun_eq_iff)
  have tb: "\<not> tombstoned mem_badger 0 ?s j" for j by (simp add: tombstoned_def OpenBadger_def)
  have p: "put_spec env0 0 (replicate 4 255) (replicate 4096 0) TagLan False Map.empty =
     [ComputeID env0 (replicate 4096 0) \<mapsto> new_block env0 0 (replicate 4 255) (replicate 4096 0) TagLan]"
    by (simp add: put_spec_def)
  have lim: "bs_storageLimit ?s = 0" by (simp add: OpenBadger_def)
  from Put_run [OF i w, of TagLan, unfolded m p] tb
  obtain db' where d: "one_block = ?s\<lparr>bs_db := db'\<rparr>" "badger_inv env0 mem_badger 0 one_block"
    and r: "evict_run env0 (reservation ?s) [ComputeID env0 (replicate 4096 0) \<mapsto>
      new_block env0 0 (replicate 4 255) (replicate 4096 0) TagLan] [] (badger_abs mem_badger one_block)"
    unfolding one_block_def by (auto simp: lim p)
  show "badger_inv env0 mem_badger 0 one_block" by (rule d(2))
  show "badger_abs mem_badger one_block =
     [ComputeID env0 (replicate 4096 0) \<mapsto> new_block env0 0 (replicate 4 255) (replicate 4096 0) TagLan]"
    using evict_run_result [OF r] by (simp add: restrict_map_def fun_eq_iff)
  show "bs_storageLimit one_block = 0" "bs_reservations one_block = (\<lambda>_. None)"
    by (simp_all add: d(1) OpenBadger_def)
qed


lemma one_block_wf: "WorkFactor env0 (replicate 4 255) p = 0"
proof -
  have r: "replicate 4 255 = (255 :: byte) # replicate 3 255" by (simp add: eval_nat_numeral)
  have "LeadingZeros8 255 = 0" using LeadingZeros8_ge_iff [of 1 255] by simp
  then show ?thesis unfolding WorkFactor_def env0_def r
    by (simp add: pad_to_def argonKeyLen_def leadingZeroBits_Cons)
qed

section \<open>Properties\<close>

text \<open>C1: \<^verbatim>\<open>BadgerStore.Put\<close> refines insertion into a map of blocks: the call
  succeeds with the block's ID and keeps the invariant; a tombstoned block is refused, a
  block already present with at least the same work factor stays as it is, any other
  block is stored with the new stamp, tag and creation time (both index keys included);
  what the storage limit then removes is a run of evictions, none without a limit.\<close>

theorem Put_refines:
  assumes "badger_inv E B t s" "wf_stamp st" "wf_payload p"
  shows "\<exists>is db'. Put E B t st p tag s = (Inr (ComputeID E p), s\<lparr>bs_db := db'\<rparr>) \<and>
    badger_inv E B t (s\<lparr>bs_db := db'\<rparr>) \<and>
    evict_run E (reservation s)
      (put_spec E t st p tag (tombstoned B t s (ComputeID E p)) (badger_abs B s)) is
      (badger_abs B (s\<lparr>bs_db := db'\<rparr>)) \<and>
    (bs_storageLimit s \<le> 0 \<longrightarrow> is = [])"
  using Put_run [OF assms, of tag] by blast

theorem Put_refines_witness:
  "\<exists>db'. Put env0 mem_badger 5 (replicate 4 1) (replicate 4096 1) TagGlobal one_block =
      (Inr (ComputeID env0 (replicate 4096 1)), one_block\<lparr>bs_db := db'\<rparr>) \<and>
    badger_inv env0 mem_badger 5 (one_block\<lparr>bs_db := db'\<rparr>) \<and>
    evict_run env0 (reservation one_block)
      (put_spec env0 5 (replicate 4 1) (replicate 4096 1) TagGlobal
         (tombstoned mem_badger 5 one_block (ComputeID env0 (replicate 4096 1)))
         (badger_abs mem_badger one_block)) []
      (badger_abs mem_badger (one_block\<lparr>bs_db := db'\<rparr>))"
proof -
  have i: "badger_inv env0 mem_badger 5 one_block"
    using badger.later [OF one_block_inv(1), of 5] by (simp add: env0_clock)
  have w: "wf_stamp (replicate 4 1)" "wf_payload (replicate 4096 1)"
    by (simp_all add: wf_stamp_def wf_payload_def)
  from Put_refines [OF i w, of TagGlobal] show ?thesis unfolding one_block_inv(3) by auto
qed

text \<open>C2: \<^verbatim>\<open>BadgerStore.Evict\<close> removes exactly \<open>min n (number of blocks)\<close> blocks and
  reports that number; every removed block is, at the moment it goes, one with the
  soonest logical expiry in a tag that is furthest above its reservation; the invariant
  holds afterwards; each removed block has a tombstone that expires after twice the
  lifetime of its work factor, and no other tombstone changes.\<close>

theorem Evict_refines:
  assumes "badger_inv E B t s"
  shows "\<exists>is db'. Evict E B t n s = ((int (length is), None), s\<lparr>bs_db := db'\<rparr>) \<and>
    badger_inv E B t (s\<lparr>bs_db := db'\<rparr>) \<and>
    evict_run E (reservation s) (badger_abs B s) is (badger_abs B (s\<lparr>bs_db := db'\<rparr>)) \<and>
    length is = min (nat n) (card (dom (badger_abs B s))) \<and>
    (\<forall>j. db_view B db' (tombKey j) =
       (if j \<in> set is
        then Some ([], Some (Unix (t + wrap64 (2 * TTLFromWorkFactor E
               (sb_wf (fst (the (badger_abs B s j))))))))
        else db_view B (bs_db s) (tombKey j)))"
  using Evict_run [OF assms, of n] by (simp add: tomb_view_def)

theorem Evict_refines_witness:
  "\<exists>is db'. Evict env0 mem_badger 0 3 one_block = ((int (length is), None), one_block\<lparr>bs_db := db'\<rparr>) \<and>
    badger_inv env0 mem_badger 0 (one_block\<lparr>bs_db := db'\<rparr>) \<and>
    evict_run env0 (reservation one_block) (badger_abs mem_badger one_block) is
      (badger_abs mem_badger (one_block\<lparr>bs_db := db'\<rparr>)) \<and> length is = 1"
  using Evict_refines [OF one_block_inv(1), of 3] by (simp add: one_block_inv(2)) blast



text \<open>With no configured limit, or one that holds at least two blocks, the
  median work factor is computed without a panic: it is 0 while the store is at most half
  full, and otherwise the largest floor that at least half the capacity of the stored
  blocks meets (at least \<open>halfCapacity\<close> blocks have that work factor or more, fewer have
  more).\<close>

theorem median_correct:
  assumes "badger_inv E B t s" "bs_storageLimit s = 0 \<or> 2 * blockSize \<le> bs_storageLimit s"
  shows "\<exists>w. computeMedianWorkFactor B t s = Some (Inr w) \<and>
    (if int (card (dom (badger_blk B t s))) \<le> half_capacity s then w = 0
     else half_capacity s \<le> int (count_wf (badger_blk B t s) (\<lambda>v. w \<le> v)) \<and>
          int (count_wf (badger_blk B t s) (\<lambda>v. w < v)) < half_capacity s)"
proof -
  obtain ws where ws: "sorted ws" "\<And>P. length (filter P ws) = count_wf (badger_blk B t s) P"
    and c: "computeMedianWorkFactor B t s =
      (if int (length ws) \<le> half_capacity s then Some (Inr 0)
       else map_option Inr (goIndex ws (int (length ws) - half_capacity s)))"
    using median_cases [OF assms(1)] by metis
  have l: "length ws = card (dom (badger_blk B t s))"
    using ws(2) [of "\<lambda>_. True"] by (simp add: count_wf_def dom_def)
  have h: "0 < half_capacity s"
  proof -
    have "2 * 4113 \<le> StorageLimitBytes s" using assms(2) by (auto simp: StorageLimitBytes_def)
    then have "2 \<le> StorageLimitBytes s div 4113" by linarith
    then show ?thesis using \<open>2 * 4113 \<le> StorageLimitBytes s\<close>
      by (simp add: half_capacity_def go_div_nonneg)
  qed
  show ?thesis
  proof (cases "int (length ws) \<le> half_capacity s")
    case True
    then show ?thesis using c l by auto
  next
    case False
    define j where "j = nat (int (length ws) - half_capacity s)"
    have j: "j < length ws" "int (length ws) - int j = half_capacity s" using False h by (auto simp: j_def)
    from sorted_nth_count [OF ws(1) j(1)] j ws(2) have
      "half_capacity s \<le> int (count_wf (badger_blk B t s) (\<lambda>v. ws ! j \<le> v))"
      "int (count_wf (badger_blk B t s) (\<lambda>v. ws ! j < v)) < half_capacity s"
      by (simp_all add: of_nat_diff)
    moreover have "computeMedianWorkFactor B t s = Some (Inr (ws ! j))"
      using c False j h by (simp add: goIndex_def j_def)
    ultimately show ?thesis using False l by auto
  qed
qed

theorem median_correct_witness:
  "\<exists>w. computeMedianWorkFactor mem_badger 0 one_block = Some (Inr w) \<and>
    (if int (card (dom (badger_blk mem_badger 0 one_block))) \<le> half_capacity one_block then w = 0
     else half_capacity one_block \<le> int (count_wf (badger_blk mem_badger 0 one_block) (\<lambda>v. w \<le> v)) \<and>
          int (count_wf (badger_blk mem_badger 0 one_block) (\<lambda>v. w < v)) < half_capacity one_block)"
  by (rule median_correct [OF one_block_inv(1)]) (simp add: one_block_inv(3))

text \<open>A configured limit smaller than two blocks makes the computation panic
  (index out of range) as soon as the store holds a block.\<close>

theorem median_panics:
  assumes "badger_inv E B t s" "0 < bs_storageLimit s" "bs_storageLimit s < 2 * blockSize"
    and "badger_blk B t s i = Some b"
  shows "computeMedianWorkFactor B t s = None"
proof -
  obtain ws where ws: "\<And>P. length (filter P ws) = count_wf (badger_blk B t s) P"
    and c: "computeMedianWorkFactor B t s =
      (if int (length ws) \<le> half_capacity s then Some (Inr 0)
       else map_option Inr (goIndex ws (int (length ws) - half_capacity s)))"
    using median_cases [OF assms(1)] by metis
  have "half_capacity s = 0"
  proof -
    have "bs_storageLimit s div 4113 < 2" "0 \<le> bs_storageLimit s div 4113" using assms(2,3) by auto
    then show ?thesis using assms(2) by (simp add: half_capacity_def StorageLimitBytes_def go_div_nonneg)
  qed
  moreover have "0 < length ws"
  proof -
    have "finite (dom (badger_blk B t s))" by (rule badger.finite_blk [OF assms(1)])
    then have "0 < card (dom (badger_blk B t s))" using assms(4) by (auto simp: card_gt_0_iff)
    then show ?thesis using ws [of "\<lambda>_. True"] by (simp add: count_wf_def dom_def)
  qed
  ultimately show ?thesis using c by (simp add: goIndex_def)
qed

theorem median_panics_witness:
  "computeMedianWorkFactor mem_badger 0 (WithStorageLimit 5000 one_block) = None"
proof (rule median_panics)
  show "badger_inv env0 mem_badger 0 (WithStorageLimit 5000 one_block)"
    by (rule badger_inv_db [OF one_block_inv(1)]) (simp add: WithStorageLimit_def)
  have "badger_abs mem_badger (WithStorageLimit 5000 one_block) = badger_abs mem_badger one_block"
    by (rule badger_abs_db) (simp add: WithStorageLimit_def)
  then show "badger_blk mem_badger 0 (WithStorageLimit 5000 one_block) (ComputeID env0 (replicate 4096 0)) =
      Some (new_stored env0 0 (replicate 4 255) (replicate 4096 0))"
    by (simp add: badger_blk_def one_block_inv(2) new_block_def)
qed (simp_all add: WithStorageLimit_def)

text \<open>C12: a client that calls \<^verbatim>\<open>ListBlocks\<close> page after page until the token is
  empty terminates and sees every block that passes the work-factor and age filters
  exactly once, in the order of \<^verbatim>\<open>(created_at, id)\<close>.\<close>

theorem ListBlocks_pages:
  assumes "badger_inv E B t s" "0 < lim" "in_int64 (Unix since)"
  shows "page_loop (\<lambda>tok acc. case ListBlocks B t s tok (int lim) pf since of
      Inl e \<Rightarrow> Inl e | Inr (nxt, refs) \<Rightarrow> Inr (nxt, acc @ map refID refs)) [] [] =
    Some (Inr (map snd (sel_keys (badger_blk B t s) pf (Unix since))))"
proof -
  have f: "fold (\<lambda>r acc. acc @ [refID r]) refs acc = acc @ map refID refs" for refs :: "BlockRef list" and acc
    by (induction refs arbitrary: acc) auto
  have g: "fold (\<lambda>(i, w) acc. acc @ [i]) xs acc = acc @ map fst xs" for xs :: "(ID \<times> int) list" and acc
    by (induction xs arbitrary: acc) auto
  have "page_loop (\<lambda>tok acc. case ListBlocks B t s tok (int lim) pf since of
      Inl e \<Rightarrow> Inl e | Inr (nxt, refs) \<Rightarrow> Inr (nxt, acc @ map refID refs)) [] [] =
    Some (Inr (fold (\<lambda>(i, w). (\<lambda>i w acc. acc @ [i]) i w)
      (map (key_pair (badger_blk B t s)) (sel_keys (badger_blk B t s) pf (Unix since))) []))"
    by (rule badger.page_loop_all [OF assms, where err = "\<lambda>e acc. e"]) (simp add: f split: sum.split)
  then show ?thesis by (simp add: g key_pair_def comp_def)
qed

theorem ListBlocks_pages_witness:
  "page_loop (\<lambda>tok acc. case ListBlocks mem_badger 0 one_block tok (int 1) 0 zeroTime of
      Inl e \<Rightarrow> Inl e | Inr (nxt, refs) \<Rightarrow> Inr (nxt, acc @ map refID refs)) [] [] =
    Some (Inr (map snd (sel_keys (badger_blk mem_badger 0 one_block) 0 (Unix zeroTime))))"
  by (rule ListBlocks_pages [OF one_block_inv(1)]) (simp_all add: in_int64_def)

text \<open>After \<^verbatim>\<open>Put\<close> of a block that is not tombstoned, in a store without a limit,
  \<^verbatim>\<open>GetWorkFactor\<close> returns the larger of the old and the new work factor, and
  \<^verbatim>\<open>Get\<close> returns the new stamp and payload when the work factor rose, the old ones
  otherwise.\<close>

theorem Put_then_Get:
  assumes "badger_inv E B t s" "bs_storageLimit s = 0" "wf_stamp st" "wf_payload p"
    and "\<not> tombstoned B t s (ComputeID E p)" "Put E B t st p tag s = (r, s')"
  shows "Get B t s' (ComputeID E p) =
      (case badger_blk B t s (ComputeID E p) of
         None \<Rightarrow> Inr (st, p)
       | Some b \<Rightarrow> if sb_wf b < WorkFactor E st p then Inr (st, p) else Inr (sb_stamp b, sb_payload b)) \<and>
    GetWorkFactor B t s' (ComputeID E p) =
      (case badger_blk B t s (ComputeID E p) of
         None \<Rightarrow> Inr (WorkFactor E st p)
       | Some b \<Rightarrow> Inr (max (sb_wf b) (WorkFactor E st p)))"
proof -
  let ?m = "put_spec E t st p tag False (badger_abs B s)" and ?i = "ComputeID E p"
  have i': "badger_inv E B t s'" and r: "evict_run E (reservation s) ?m [] (badger_abs B s')"
    using Put_run [OF assms(1,3,4), of tag] assms(2,5,6) by auto
  have "badger_abs B s' = ?m" using evict_run_result [OF r] by (simp add: restrict_map_def fun_eq_iff)
  then have "badger_blk B t s' ?i =
      (case badger_blk B t s ?i of None \<Rightarrow> Some (new_stored E t st p)
       | Some b \<Rightarrow> if sb_wf b < WorkFactor E st p then Some (new_stored E t st p) else Some b)"
    by (auto simp: badger_blk_def put_spec_def Let_def new_block_def split: option.split)
  then show ?thesis
    by (auto simp: Badger_Get [OF i'] Badger_GetWorkFactor [OF i'] new_stored_def split: option.split)
qed

theorem Put_then_Get_witness:
  "Get mem_badger 0 one_block (ComputeID env0 (replicate 4096 0)) = Inr (replicate 4 255, replicate 4096 0)"
proof -
  have i: "badger_inv env0 mem_badger 0 (OpenBadger [])"
    using badger_inv_open [OF env0_clock(1), of 0 0] by (simp add: env0_clock flip: open_no_limit)
  have "badger_blk mem_badger 0 (OpenBadger []) j = None" for j
    by (simp add: badger_blk_def badger_abs_def view_map_def OpenBadger_def)
  with Put_then_Get [OF i, of "replicate 4 255" "replicate 4096 0" TagLan _ one_block] show ?thesis
    by (simp add: one_block_def wf_stamp_def wf_payload_def OpenBadger_def tombstoned_def prod_eq_iff)
qed

end
