(* ===== verification/FileSystem.thy ===== *)
theory FileSystem
  imports Runtime "HOL-Library.Char_ord" "HOL-Library.Sublist"
begin

text \<open>
  The part of the packages \<^verbatim>\<open>os\<close>, \<^verbatim>\<open>io\<close> and \<^verbatim>\<open>path/filepath\<close> that the
  sources use.  A path is its list of components.  A file system is the list of its
  files, the list of its directories and a fault function: \<open>fs_fault fs op p = Some (e, k)\<close>
  makes the operation \<open>op\<close> on \<open>p\<close> fail with the error \<open>e\<close> (a failing write leaves
  the first \<open>k\<close> bytes behind).
\<close>

type_synonym path = "string list"

datatype io_err = NotExist | IOErr string

datatype fs_op = OpRead | OpStat | OpWrite | OpRename | OpRemove | OpMkdir | OpWalk

record fsys =
  fs_files :: "(path \<times> bytes) list"
  fs_dirs :: "path list"
  fs_fault :: "fs_op \<Rightarrow> path \<Rightarrow> (string \<times> nat) option"

definition fs_empty :: fsys where
  "fs_empty = \<lparr>fs_files = [], fs_dirs = [[]], fs_fault = (\<lambda>_ _. None)\<rparr>"

definition faultless :: "fsys \<Rightarrow> bool" where
  "faultless fs \<longleftrightarrow> (\<forall>op p. fs_fault fs op p = None)"

definition set_file :: "path \<Rightarrow> bytes \<Rightarrow> (path \<times> bytes) list \<Rightarrow> (path \<times> bytes) list" where
  "set_file p b files = (p, b) # filter (\<lambda>f. fst f \<noteq> p) files"

definition del_file :: "path \<Rightarrow> (path \<times> bytes) list \<Rightarrow> (path \<times> bytes) list" where
  "del_file p files = filter (\<lambda>f. fst f \<noteq> p) files"

text \<open>\<^verbatim>\<open>os.ReadFile\<close>, and \<^verbatim>\<open>os.Open\<close> followed by reading to the end.\<close>

definition fs_read :: "fsys \<Rightarrow> path \<Rightarrow> io_err + bytes" where
  "fs_read fs p =
     (case fs_fault fs OpRead p of
        Some (e, _) \<Rightarrow> Inl (IOErr e)
      | None \<Rightarrow> (case map_of (fs_files fs) p of None \<Rightarrow> Inl NotExist | Some b \<Rightarrow> Inr b))"

text \<open>\<^verbatim>\<open>os.Stat\<close> without error.\<close>

definition fs_stat :: "fsys \<Rightarrow> path \<Rightarrow> bool" where
  "fs_stat fs p \<longleftrightarrow> fs_fault fs OpStat p = None \<and> map_of (fs_files fs) p \<noteq> None"

text \<open>\<^verbatim>\<open>io.ReadFull\<close> into a buffer of \<open>n\<close> bytes.\<close>

definition ReadFull :: "nat \<Rightarrow> bytes \<Rightarrow> io_err + bytes" where
  "ReadFull n b = (if length b < n then Inl (IOErr ''unexpected EOF'') else Inr (take n b))"

definition fs_write :: "path \<Rightarrow> bytes \<Rightarrow> fsys \<Rightarrow> io_err option \<times> fsys" where
  "fs_write p b fs =
     (case fs_fault fs OpWrite p of
        Some (e, k) \<Rightarrow> (Some (IOErr e), fs\<lparr>fs_files := set_file p (take k b) (fs_files fs)\<rparr>)
      | None \<Rightarrow>
          if butlast p \<in> set (fs_dirs fs)
          then (None, fs\<lparr>fs_files := set_file p b (fs_files fs)\<rparr>)
          else (Some NotExist, fs))"

definition fs_rename :: "path \<Rightarrow> path \<Rightarrow> fsys \<Rightarrow> io_err option \<times> fsys" where
  "fs_rename p q fs =
     (case fs_fault fs OpRename p of
        Some (e, _) \<Rightarrow> (Some (IOErr e), fs)
      | None \<Rightarrow>
          (case map_of (fs_files fs) p of
             None \<Rightarrow> (Some NotExist, fs)
           | Some b \<Rightarrow> (None, fs\<lparr>fs_files := set_file q b (del_file p (fs_files fs))\<rparr>)))"

definition fs_remove :: "path \<Rightarrow> fsys \<Rightarrow> io_err option \<times> fsys" where
  "fs_remove p fs =
     (case fs_fault fs OpRemove p of
        Some (e, _) \<Rightarrow> (Some (IOErr e), fs)
      | None \<Rightarrow>
          (case map_of (fs_files fs) p of
             None \<Rightarrow> (Some NotExist, fs)
           | Some _ \<Rightarrow> (None, fs\<lparr>fs_files := del_file p (fs_files fs)\<rparr>)))"

definition fs_mkdirAll :: "path \<Rightarrow> fsys \<Rightarrow> io_err option \<times> fsys" where
  "fs_mkdirAll p fs =
     (case fs_fault fs OpMkdir p of
        Some (e, _) \<Rightarrow> (Some (IOErr e), fs)
      | None \<Rightarrow> (None, fs\<lparr>fs_dirs := remdups (prefixes p @ fs_dirs fs)\<rparr>))"

text \<open>\<^verbatim>\<open>filepath.WalkDir\<close> restricted to what its callbacks look at: the files below
  \<open>root\<close>, in lexical order.\<close>

definition fs_walk :: "fsys \<Rightarrow> path \<Rightarrow> io_err + path list" where
  "fs_walk fs root =
     (case fs_fault fs OpWalk root of
        Some (e, _) \<Rightarrow> Inl (IOErr e)
      | None \<Rightarrow>
          if root \<in> set (fs_dirs fs)
          then Inr (sort (filter (\<lambda>p. strict_prefix root p) (map fst (fs_files fs))))
          else Inl NotExist)"

section \<open>Lemmas\<close>

text \<open>A file system on which no operation fails, whose file names are distinct.\<close>

definition fs_ok :: "fsys \<Rightarrow> bool" where
  "fs_ok fs \<longleftrightarrow> faultless fs \<and> distinct (map fst (fs_files fs))"

lemma fs_okD: "fs_ok fs \<Longrightarrow> fs_fault fs op p = None" "fs_ok fs \<Longrightarrow> distinct (map fst (fs_files fs))"
  by (auto simp: fs_ok_def faultless_def)

definition fs_map :: "fsys \<Rightarrow> path \<rightharpoonup> bytes" where
  "fs_map fs = map_of (fs_files fs)"

lemma map_of_filter_fst: "map_of (filter (\<lambda>f. fst f \<noteq> p) xs) = (map_of xs)(p := None)"
  by (induction xs) auto

lemma map_of_set_file [simp]: "map_of (set_file p b xs) = (map_of xs)(p \<mapsto> b)"
  by (simp add: set_file_def map_of_filter_fst)

lemma map_of_del_file [simp]: "map_of (del_file p xs) = (map_of xs)(p := None)"
  by (simp add: del_file_def map_of_filter_fst)

lemma distinct_set_file [simp]:
  "distinct (map fst xs) \<Longrightarrow> distinct (map fst (set_file p b xs))"
  by (auto simp: set_file_def distinct_map_filter)

lemma distinct_del_file [simp]:
  "distinct (map fst xs) \<Longrightarrow> distinct (map fst (del_file p xs))"
  by (simp add: del_file_def distinct_map_filter)

lemma fs_read_ok:
  "fs_ok fs \<Longrightarrow> fs_read fs p = (case fs_map fs p of None \<Rightarrow> Inl NotExist | Some b \<Rightarrow> Inr b)"
  by (simp add: fs_read_def fs_okD fs_map_def)

lemma fs_stat_ok: "fs_ok fs \<Longrightarrow> fs_stat fs p \<longleftrightarrow> fs_map fs p \<noteq> None"
  by (simp add: fs_stat_def fs_okD fs_map_def)

lemma fs_write_ok:
  assumes "fs_ok fs" "butlast p \<in> set (fs_dirs fs)"
  obtains fs' where "fs_write p b fs = (None, fs')" "fs_ok fs'" "fs_dirs fs' = fs_dirs fs"
    "fs_map fs' = (fs_map fs)(p \<mapsto> b)"
  by (rule that [of "fs\<lparr>fs_files := set_file p b (fs_files fs)\<rparr>"])
    (use assms in \<open>simp_all add: fs_write_def fs_ok_def faultless_def fs_map_def\<close>)

lemma fs_rename_ok:
  assumes "fs_ok fs" "fs_map fs p = Some b" "p \<noteq> q"
  obtains fs' where "fs_rename p q fs = (None, fs')" "fs_ok fs'" "fs_dirs fs' = fs_dirs fs"
    "fs_map fs' = (fs_map fs)(p := None, q \<mapsto> b)"
  by (rule that [of "fs\<lparr>fs_files := set_file q b (del_file p (fs_files fs))\<rparr>"])
    (use assms in \<open>simp_all add: fs_rename_def fs_ok_def faultless_def fs_map_def\<close>)

lemma fs_remove_ok:
  assumes "fs_ok fs" "fs_map fs p = Some b"
  obtains fs' where "fs_remove p fs = (None, fs')" "fs_ok fs'" "fs_dirs fs' = fs_dirs fs"
    "fs_map fs' = (fs_map fs)(p := None)"
  by (rule that [of "fs\<lparr>fs_files := del_file p (fs_files fs)\<rparr>"])
    (use assms in \<open>simp_all add: fs_remove_def fs_ok_def faultless_def fs_map_def\<close>)

lemma fs_mkdirAll_ok:
  assumes "fs_ok fs"
  obtains fs' where "fs_mkdirAll p fs = (None, fs')" "fs_ok fs'"
    "set (fs_dirs fs) \<subseteq> set (fs_dirs fs')" "p \<in> set (fs_dirs fs')" "fs_map fs' = fs_map fs"
  by (rule that [of "fs\<lparr>fs_dirs := remdups (prefixes p @ fs_dirs fs)\<rparr>"])
    (use assms in \<open>simp_all add: fs_mkdirAll_def fs_ok_def faultless_def fs_map_def in_set_prefixes\<close>)

lemma fs_walk_ok:
  assumes "fs_ok fs" "root \<in> set (fs_dirs fs)"
  obtains ps where "fs_walk fs root = Inr ps" "distinct ps"
    "set ps = {p. strict_prefix root p \<and> fs_map fs p \<noteq> None}"
proof -
  define ps where "ps = sort (filter (\<lambda>p. strict_prefix root p) (map fst (fs_files fs)))"
  have "fs_walk fs root = Inr ps" using assms by (simp add: fs_walk_def fs_okD ps_def)
  moreover have "distinct ps" using fs_okD(2) [OF assms(1)] by (simp add: ps_def)
  moreover have "set ps = {p. strict_prefix root p \<and> fs_map fs p \<noteq> None}"
    by (auto simp: ps_def fs_map_def map_of_eq_None_iff image_iff)
  ultimately show thesis using that by blast
qed

lemma fs_ok_empty: "fs_ok fs_empty" "fs_map fs_empty = Map.empty"
  by (simp_all add: fs_ok_def faultless_def fs_empty_def fs_map_def)

end
