(* ===== verification/FlatFile.thy ===== *)
theory FlatFile
  imports Blockstore FileSystem
begin

text \<open>
  \<^verbatim>\<open>blockstore/flatfile.go\<close>: one file per block, under two levels of directories
  named by the first bytes of the ID.  The definitions follow the source; the invariant,
  in \<open>FlatProofs\<close>, relates the files whose names have 64 characters to a map from IDs to blocks, and the
  store satisfies the contract \<open>block_store\<close>.
\<close>

section \<open>Definitions\<close>

definition flatHeaderSize :: nat where
  "flatHeaderSize = StampSize + 4 + 8 + 8"

definition flatFileSize :: int where
  "flatFileSize = int (flatHeaderSize + PayloadSize)"

lemmas flat_sizes [simp, size_simps] = flatHeaderSize_def flatFileSize_def

record FlatFileStore =
  ff_root :: path
  ff_storageLimit :: int
  ff_fs :: fsys

definition io_store_err :: "io_err \<Rightarrow> store_err" where
  "io_store_err e = (case e of NotExist \<Rightarrow> ErrBackend ''file does not exist'' | IOErr m \<Rightarrow> ErrBackend m)"

definition OpenFlatFile :: "path \<Rightarrow> fsys \<Rightarrow> store_err + FlatFileStore" where
  "OpenFlatFile dir fs =
     (case fs_mkdirAll dir fs of
        (Some e, fs') \<Rightarrow> Inl (io_store_err e)
      | (None, fs') \<Rightarrow> Inr \<lparr>ff_root = dir, ff_storageLimit = 0, ff_fs = fs'\<rparr>)"

definition FlatFile_WithStorageLimit :: "int \<Rightarrow> FlatFileStore \<Rightarrow> FlatFileStore" where
  "FlatFile_WithStorageLimit n s = s\<lparr>ff_storageLimit := n\<rparr>"

definition blockPath :: "path \<Rightarrow> ID \<Rightarrow> path" where
  "blockPath root i = (let h = hex_Encode i in root @ [slice 0 2 h, slice 2 4 h, h])"

definition diskUsage :: "FlatFileStore \<Rightarrow> io_err + int" where
  "diskUsage s =
     (case fs_walk (ff_fs s) (ff_root s) of
        Inl e \<Rightarrow> Inl e
      | Inr ps \<Rightarrow> Inr (int (length (filter (\<lambda>p. length (last p) = 2 * IDSize) ps)) * flatFileSize))"

record flatHeader =
  fh_stamp :: Stamp
  fh_wf :: int
  fh_createdAt :: int
  fh_expiresAt :: int

definition readHeader :: "fsys \<Rightarrow> path \<Rightarrow> io_err + flatHeader" where
  "readHeader fs p =
     sum_bind (fs_read fs p) (\<lambda>f.
     sum_bind (ReadFull flatHeaderSize f) (\<lambda>hdr.
       Inr \<lparr>fh_stamp = take StampSize hdr,
            fh_wf = uint (Uint32 (slice StampSize (StampSize + 4) hdr)),
            fh_createdAt = sint (Uint64 (slice (StampSize + 4) (StampSize + 12) hdr)),
            fh_expiresAt = sint (Uint64 (slice (StampSize + 12) (StampSize + 20) hdr))\<rparr>))"

record flatCandidate =
  fc_path :: path
  fc_expiresAt :: int

fun flat_candidates :: "fsys \<Rightarrow> path list \<Rightarrow> flatCandidate list" where
  "flat_candidates fs [] = []"
| "flat_candidates fs (p # ps) =
     (if length (last p) \<noteq> 2 * IDSize then flat_candidates fs ps
      else case readHeader fs p of
             Inl _ \<Rightarrow> flat_candidates fs ps
           | Inr h \<Rightarrow> \<lparr>fc_path = p, fc_expiresAt = fh_expiresAt h\<rparr> # flat_candidates fs ps)"

fun flat_evict_loop :: "int \<Rightarrow> int \<Rightarrow> flatCandidate list \<Rightarrow> fsys \<Rightarrow> int \<times> fsys" where
  "flat_evict_loop n evicted [] fs = (evicted, fs)"
| "flat_evict_loop n evicted (c # cs) fs =
     (if evicted \<ge> n then (evicted, fs)
      else case fs_remove (fc_path c) fs of
             (None, fs') \<Rightarrow> flat_evict_loop n (evicted + 1) cs fs'
           | (Some _, fs') \<Rightarrow> flat_evict_loop n evicted cs fs')"

definition FlatFile_Evict ::
  "env \<Rightarrow> time \<Rightarrow> int \<Rightarrow> FlatFileStore \<Rightarrow> (int \<times> store_err option) \<times> FlatFileStore" where
  "FlatFile_Evict E t n s =
     (if n \<le> 0 then ((0, None), s)
      else case fs_walk (ff_fs s) (ff_root s) of
             Inl e \<Rightarrow> ((0, Some (io_store_err e)), s)
           | Inr ps \<Rightarrow>
               (let all = sort_Slice (sorter E) (\<lambda>x y. fc_expiresAt x < fc_expiresAt y)
                            (flat_candidates (ff_fs s) ps);
                    (evicted, fs') = flat_evict_loop n 0 all (ff_fs s)
                in ((evicted, None), s\<lparr>ff_fs := fs'\<rparr>)))"

definition flat_buf :: "env \<Rightarrow> time \<Rightarrow> Stamp \<Rightarrow> Payload \<Rightarrow> bytes" where
  "flat_buf E t stamp payload =
     (let w = WorkFactor E stamp payload; expiresAt = t + TTLFromWorkFactor E w
      in stamp @ PutUint32 (word_of_int w) @ PutUint64 (word_of_int (Unix t)) @
         PutUint64 (word_of_int (Unix expiresAt)) @ payload)"

definition tmpPath :: "path \<Rightarrow> path" where
  "tmpPath p = butlast p @ [last p @ ''.tmp'']"

definition flat_make_room :: "env \<Rightarrow> time \<Rightarrow> FlatFileStore \<Rightarrow> FlatFileStore" where
  "flat_make_room E t s =
     (if ff_storageLimit s > 0 then
        (case diskUsage s of
           Inl _ \<Rightarrow> s
         | Inr usage \<Rightarrow>
             if usage \<ge> ff_storageLimit s then
               let needed = go_div (usage - ff_storageLimit s) flatFileSize + 10 + 1
               in snd (FlatFile_Evict E t needed s)
             else s)
      else s)"

definition FlatFile_Put ::
  "env \<Rightarrow> time \<Rightarrow> Stamp \<Rightarrow> Payload \<Rightarrow> Tag \<Rightarrow> FlatFileStore \<Rightarrow> (store_err + ID) \<times> FlatFileStore" where
  "FlatFile_Put E t stamp payload tag s =
     (let i = ComputeID E payload; w = WorkFactor E stamp payload;
          path = blockPath (ff_root s) i;
          keep = (case readHeader (ff_fs s) path of Inl _ \<Rightarrow> False | Inr h \<Rightarrow> fh_wf h \<ge> w)
      in if keep then (Inr i, s)
         else
           let s1 = flat_make_room E t s
           in case fs_mkdirAll (butlast path) (ff_fs s1) of
                (Some e, fs2) \<Rightarrow> (Inl (io_store_err e), s1\<lparr>ff_fs := fs2\<rparr>)
              | (None, fs2) \<Rightarrow>
                  (case fs_write (tmpPath path) (flat_buf E t stamp payload) fs2 of
                     (Some e, fs3) \<Rightarrow> (Inl (io_store_err e), s1\<lparr>ff_fs := fs3\<rparr>)
                   | (None, fs3) \<Rightarrow>
                       (case fs_rename (tmpPath path) path fs3 of
                          (Some e, fs4) \<Rightarrow>
                            (Inl (io_store_err e), s1\<lparr>ff_fs := snd (fs_remove (tmpPath path) fs4)\<rparr>)
                        | (None, fs4) \<Rightarrow> (Inr i, s1\<lparr>ff_fs := fs4\<rparr>))))"

definition FlatFile_Get :: "time \<Rightarrow> FlatFileStore \<Rightarrow> ID \<Rightarrow> store_err + (Stamp \<times> Payload)" where
  "FlatFile_Get t s i =
     (case fs_read (ff_fs s) (blockPath (ff_root s) i) of
        Inl NotExist \<Rightarrow> Inl ErrNotFound
      | Inl e \<Rightarrow> Inl (io_store_err e)
      | Inr f \<Rightarrow>
          (case ReadFull (flatHeaderSize + PayloadSize) f of
             Inl e \<Rightarrow> Inl (io_store_err e)
           | Inr buf \<Rightarrow> Inr (take StampSize buf, drop flatHeaderSize buf)))"

definition FlatFile_GetWorkFactor :: "time \<Rightarrow> FlatFileStore \<Rightarrow> ID \<Rightarrow> store_err + int" where
  "FlatFile_GetWorkFactor t s i =
     (case readHeader (ff_fs s) (blockPath (ff_root s) i) of
        Inl NotExist \<Rightarrow> Inl ErrNotFound
      | Inl e \<Rightarrow> Inl (io_store_err e)
      | Inr h \<Rightarrow> Inr (fh_wf h))"

definition FlatFile_Has :: "time \<Rightarrow> FlatFileStore \<Rightarrow> ID \<Rightarrow> store_err + bool" where
  "FlatFile_Has t s i =
     (case readHeader (ff_fs s) (blockPath (ff_root s) i) of
        Inl NotExist \<Rightarrow> Inr False
      | Inl e \<Rightarrow> Inl (io_store_err e)
      | Inr h \<Rightarrow> Inr True)"

text \<open>The ID that a file name denotes, if any.\<close>

definition name_id :: "path \<Rightarrow> ID option" where
  "name_id p =
     (case hex_Decode (last p) of
        None \<Rightarrow> None
      | Some b \<Rightarrow> if length b = IDSize then Some b else None)"

fun flat_ids :: "fsys \<Rightarrow> path list \<Rightarrow> ID list" where
  "flat_ids fs [] = []"
| "flat_ids fs (p # ps) =
     (case name_id p of
        None \<Rightarrow> flat_ids fs ps
      | Some i \<Rightarrow> if fs_stat fs p then i # flat_ids fs ps else flat_ids fs ps)"

definition FlatFile_ListIDs :: "time \<Rightarrow> FlatFileStore \<Rightarrow> store_err + ID list" where
  "FlatFile_ListIDs t s =
     (case fs_walk (ff_fs s) (ff_root s) of
        Inl e \<Rightarrow> Inl (io_store_err e)
      | Inr ps \<Rightarrow> Inr (flat_ids (ff_fs s) ps))"

record flatEntry =
  fe_id :: ID
  fe_wf :: int
  fe_createdAt :: int

fun flat_entries :: "fsys \<Rightarrow> int \<Rightarrow> int \<Rightarrow> path list \<Rightarrow> flatEntry list" where
  "flat_entries fs powFloor sinceUnix [] = []"
| "flat_entries fs powFloor sinceUnix (p # ps) =
     (case name_id p of
        None \<Rightarrow> flat_entries fs powFloor sinceUnix ps
      | Some i \<Rightarrow>
          (case readHeader fs p of
             Inl _ \<Rightarrow> flat_entries fs powFloor sinceUnix ps
           | Inr h \<Rightarrow>
               if fh_wf h < powFloor \<or> fh_createdAt h < sinceUnix
               then flat_entries fs powFloor sinceUnix ps
               else \<lparr>fe_id = i, fe_wf = fh_wf h, fe_createdAt = fh_createdAt h\<rparr>
                      # flat_entries fs powFloor sinceUnix ps))"

definition entry_less :: "flatEntry \<Rightarrow> flatEntry \<Rightarrow> bool" where
  "entry_less x y =
     (if fe_createdAt x \<noteq> fe_createdAt y then fe_createdAt x < fe_createdAt y
      else bytes_Compare (fe_id x) (fe_id y) < 0)"

fun flat_page :: "cursor option \<Rightarrow> int \<Rightarrow> flatEntry list \<Rightarrow> flatEntry list \<Rightarrow> flatEntry list" where
  "flat_page cur limit [] refs = refs"
| "flat_page cur limit (e # es) refs =
     (if (case cur of
            None \<Rightarrow> False
          | Some c \<Rightarrow> fe_createdAt e < fst c \<or>
                      fe_createdAt e = fst c \<and> bytes_Compare (fe_id e) (snd c) \<le> 0)
      then flat_page cur limit es refs
      else let refs' = refs @ [e]
           in if int (length refs') = limit then refs' else flat_page cur limit es refs')"

definition FlatFile_ListBlocks ::
  "env \<Rightarrow> time \<Rightarrow> FlatFileStore \<Rightarrow> string \<Rightarrow> int \<Rightarrow> int \<Rightarrow> time \<Rightarrow> store_err + (string \<times> BlockRef list)" where
  "FlatFile_ListBlocks E t s pageToken limit powFloor since =
     sum_bind
       (if pageToken \<noteq> [] then sum_bind (decodeCursor pageToken) (\<lambda>c. Inr (Some c)) else Inr None)
       (\<lambda>cur.
          case fs_walk (ff_fs s) (ff_root s) of
            Inl e \<Rightarrow> Inl (io_store_err e)
          | Inr ps \<Rightarrow>
              (let entries = sort_Slice (sorter E) entry_less
                               (flat_entries (ff_fs s) powFloor (Unix since) ps);
                   page = flat_page cur limit entries [];
                   refs = map (\<lambda>e. \<lparr>refWF = fe_wf e, refID = fe_id e, refCreatedAt = 0,
                                     refTag = TagPhysical\<rparr>) page;
                   last_cur = (if page = [] then (0, replicate IDSize 0)
                               else (fe_createdAt (last page), fe_id (last page)))
               in Inr (if int (length refs) = limit then encodeCursor last_cur else [], refs)))"

definition FlatFile_Prune :: "time \<Rightarrow> FlatFileStore \<Rightarrow> (int \<times> store_err option) \<times> FlatFileStore" where
  "FlatFile_Prune t s = ((0, None), s)"

definition flat_store :: "env \<Rightarrow> FlatFileStore Store" where
  "flat_store E =
     \<lparr>st_Put = FlatFile_Put E, st_Get = FlatFile_Get, st_GetWorkFactor = FlatFile_GetWorkFactor,
      st_Has = FlatFile_Has, st_ListIDs = FlatFile_ListIDs, st_ListBlocks = FlatFile_ListBlocks E,
      st_Prune = FlatFile_Prune, st_Evict = FlatFile_Evict E\<rparr>"

lemma flat_store_simps [simp]:
  "st_Put (flat_store E) = FlatFile_Put E" "st_Get (flat_store E) = FlatFile_Get"
  "st_GetWorkFactor (flat_store E) = FlatFile_GetWorkFactor" "st_Has (flat_store E) = FlatFile_Has"
  "st_ListIDs (flat_store E) = FlatFile_ListIDs" "st_ListBlocks (flat_store E) = FlatFile_ListBlocks E"
  "st_Prune (flat_store E) = FlatFile_Prune" "st_Evict (flat_store E) = FlatFile_Evict E"
  by (simp_all add: flat_store_def)

text \<open>Replacing a file by writing a temporary one and renaming it.\<close>

lemma tmpPath_neq: "p \<noteq> [] \<Longrightarrow> tmpPath p \<noteq> p" "butlast (tmpPath p) = butlast p"
proof -
  show "butlast (tmpPath p) = butlast p" by (simp add: tmpPath_def)
  assume "p \<noteq> []"
  then have "last (tmpPath p) \<noteq> last p" by (simp add: tmpPath_def)
  then show "tmpPath p \<noteq> p" by auto
qed

lemma replace_file_ok:
  assumes "fs_ok fs" "p \<noteq> []" "butlast p \<in> set (fs_dirs fs)"
  obtains fs1 fs2 where "fs_write (tmpPath p) b fs = (None, fs1)" "fs_rename (tmpPath p) p fs1 = (None, fs2)"
    "fs_ok fs2" "fs_dirs fs2 = fs_dirs fs" "fs_map fs2 p = Some b"
proof -
  obtain fs1 where w: "fs_write (tmpPath p) b fs = (None, fs1)" "fs_ok fs1" "fs_dirs fs1 = fs_dirs fs"
    "fs_map fs1 = (fs_map fs)(tmpPath p \<mapsto> b)"
    using fs_write_ok [OF assms(1)] assms(3) tmpPath_neq(2) by metis
  obtain fs2 where r: "fs_rename (tmpPath p) p fs1 = (None, fs2)" "fs_ok fs2" "fs_dirs fs2 = fs_dirs fs1"
    "fs_map fs2 = (fs_map fs1)(tmpPath p := None, p \<mapsto> b)"
    using fs_rename_ok [OF w(2), of "tmpPath p" b p] w(4) tmpPath_neq(1) [OF assms(2)] by auto
  show thesis using that [of fs1 fs2] w r by simp
qed

end
