(* ===== verification/FlatProofs.thy ===== *)
theory FlatProofs
  imports FlatFile
begin

text \<open>
  Invariant and refinement of the flat-file store: below the root, the files whose names
  have 64 characters are exactly the encoded blocks of a map from IDs to blocks with
  their logical expiry; any other file (an index, a temporary file) is ignored.
\<close>

section \<open>Encoded files\<close>

text \<open>A stored block with its logical expiry.\<close>

type_synonym dated = "stored \<times> int"

definition flat_val :: "dated \<Rightarrow> bytes" where
  "flat_val bx = (let b = fst bx in
     sb_stamp b @ PutUint32 (word_of_int (sb_wf b)) @ PutUint64 (word_of_int (sb_createdAt b)) @
     PutUint64 (word_of_int (snd bx)) @ sb_payload b)"

definition parse_flat :: "bytes \<Rightarrow> dated" where
  "parse_flat f =
     (\<lparr>sb_stamp = take 4 f, sb_payload = drop 24 f, sb_wf = uint (Uint32 (slice 4 8 f)),
       sb_createdAt = sint (Uint64 (slice 8 16 f))\<rparr>, sint (Uint64 (slice 16 24 f)))"

definition wf_dated :: "env \<Rightarrow> ID \<Rightarrow> dated \<Rightarrow> bool" where
  "wf_dated E i bx \<longleftrightarrow> wf_stored E i (fst bx) \<and> in_int64 (snd bx)"

definition header_of :: "dated \<Rightarrow> flatHeader" where
  "header_of bx =
     \<lparr>fh_stamp = sb_stamp (fst bx), fh_wf = sb_wf (fst bx), fh_createdAt = sb_createdAt (fst bx),
      fh_expiresAt = snd bx\<rparr>"

lemma flat_stored:
  assumes "env_ok E" "wf_stored E i b"
  shows "length (sb_stamp b) = 4" "length (sb_payload b) = 4096" "length i = 32"
    "0 \<le> sb_createdAt b" "in_int64 (sb_createdAt b)"
    "uint (word_of_int (sb_wf b) :: u32) = sb_wf b"
proof -
  have "0 \<le> sb_wf b" "sb_wf b \<le> 256" using assms WorkFactor_le by (auto simp: wf_stored_def)
  then show "uint (word_of_int (sb_wf b) :: u32) = sb_wf b" by (intro uint_word_of_int32) auto
qed (use assms ComputeID_wf [OF assms(1)] in
      \<open>auto simp: wf_stored_def wf_stamp_def wf_payload_def wf_id_def\<close>)

lemma flat_val_fields:
  assumes "env_ok E" "wf_dated E i bx"
  shows "length (flat_val bx) = 4120" "take 4 (flat_val bx) = sb_stamp (fst bx)"
    "drop 24 (flat_val bx) = sb_payload (fst bx)"
    "uint (Uint32 (slice 4 8 (flat_val bx))) = sb_wf (fst bx)"
    "sint (Uint64 (slice 8 16 (flat_val bx))) = sb_createdAt (fst bx)"
    "sint (Uint64 (slice 16 24 (flat_val bx))) = snd bx"
  using assms(2) flat_stored [OF assms(1), of i "fst bx"]
  by (simp_all add: wf_dated_def flat_val_def Let_def slice_append_right slice_append_left slice_all)

lemma parse_flat_val: "env_ok E \<Longrightarrow> wf_dated E i bx \<Longrightarrow> parse_flat (flat_val bx) = bx"
  using flat_val_fields [of E i bx] by (cases bx) (simp add: parse_flat_def)

lemma slice_take: "j \<le> n \<Longrightarrow> slice i j (take n xs) = slice i j xs"
  by (simp add: slice_def drop_take min_absorb1 diff_le_mono)

lemma readHeader_val:
  assumes "env_ok E" "wf_dated E i bx" "fs_read fs p = Inr (flat_val bx)"
  shows "readHeader fs p = Inr (header_of bx)"
  using flat_val_fields [OF assms(1,2)]
  by (simp add: readHeader_def assms(3) ReadFull_def slice_take header_of_def)

lemma flat_buf_val:
  "flat_buf E t st p = flat_val (new_stored E t st p, Unix (t + TTLFromWorkFactor E (WorkFactor E st p)))"
  by (simp add: flat_buf_def flat_val_def new_stored_def Let_def)

section \<open>Paths\<close>

lemma blockPath_last [simp]: "last (blockPath root i) = hex_Encode i"
  by (simp add: blockPath_def Let_def)

lemma blockPath_inj [simp]: "blockPath root i = blockPath root j \<longleftrightarrow> i = j"
  using hex_Encode_inj by (metis blockPath_last)

lemma blockPath_under [simp]: "strict_prefix root (blockPath root i)"
  by (simp add: blockPath_def Let_def strict_prefix_def)

lemma name_id_blockPath: "wf_id i \<Longrightarrow> name_id (blockPath root i) = Some i"
  by (simp add: name_id_def wf_id_def)

lemma name_id_len: "name_id p = Some i \<Longrightarrow> length (last p) = 64"
  by (auto simp: name_id_def dest: hex_Decode_length split: option.splits if_splits)

lemma tmpPath_last [simp]: "last (tmpPath p) = last p @ ''.tmp''" "butlast (tmpPath p) = butlast p"
  by (simp_all add: tmpPath_def)

section \<open>Invariant and abstraction\<close>

definition flat_rep :: "env \<Rightarrow> path \<Rightarrow> (path \<rightharpoonup> bytes) \<Rightarrow> (ID \<rightharpoonup> dated) \<Rightarrow> bool" where
  "flat_rep E root f m \<longleftrightarrow>
     finite (dom m) \<and>
     (\<forall>i bx. m i = Some bx \<longrightarrow> wf_dated E i bx) \<and>
     (\<forall>p. strict_prefix root p \<and> length (last p) = 64 \<longrightarrow>
        f p = (case name_id p of
                 None \<Rightarrow> None
               | Some i \<Rightarrow> if p = blockPath root i then map_option flat_val (m i) else None))"

definition flat_abs :: "FlatFileStore \<Rightarrow> ID \<rightharpoonup> dated" where
  "flat_abs s i =
     (if wf_id i then map_option parse_flat (fs_map (ff_fs s) (blockPath (ff_root s) i)) else None)"

definition flat_blk :: "time \<Rightarrow> FlatFileStore \<Rightarrow> ID \<rightharpoonup> stored" where
  "flat_blk t s i = map_option fst (flat_abs s i)"

definition flat_inv :: "env \<Rightarrow> time \<Rightarrow> FlatFileStore \<Rightarrow> bool" where
  "flat_inv E t s \<longleftrightarrow>
     env_ok E \<and> clock_ok t \<and> fs_ok (ff_fs s) \<and> ff_root s \<in> set (fs_dirs (ff_fs s)) \<and>
     flat_rep E (ff_root s) (fs_map (ff_fs s)) (flat_abs s)"

lemma flat_repD:
  assumes "flat_rep E root f m"
  shows "finite (dom m)" "m i = Some bx \<Longrightarrow> wf_dated E i bx"
    "strict_prefix root p \<Longrightarrow> length (last p) = 64 \<Longrightarrow>
        f p = (case name_id p of
                 None \<Rightarrow> None
               | Some i \<Rightarrow> if p = blockPath root i then map_option flat_val (m i) else None)"
  using assms unfolding flat_rep_def by blast+

lemma wf_dated_id: "env_ok E \<Longrightarrow> wf_dated E i bx \<Longrightarrow> wf_id i"
  using flat_stored(3) by (auto simp: wf_dated_def wf_id_def)

lemma flat_rep_path:
  assumes "env_ok E" "flat_rep E root f m" "wf_id i"
  shows "f (blockPath root i) = map_option flat_val (m i)"
  using flat_repD(3) [OF assms(2) blockPath_under, of i] assms(3)
  by (simp add: name_id_blockPath) (simp add: wf_id_def)

lemma flat_abs_rep:
  assumes "env_ok E" "flat_rep E (ff_root s) (fs_map (ff_fs s)) m"
  shows "flat_abs s = m"
proof
  fix i
  show "flat_abs s i = m i"
  proof (cases "wf_id i")
    case True
    then show ?thesis
      using flat_repD(2) [OF assms(2), THEN parse_flat_val [OF assms(1)]]
      by (cases "m i") (simp_all add: flat_abs_def flat_rep_path [OF assms True])
  next
    case False
    then have "m i = None"
      using flat_repD(2) [OF assms(2), of i] wf_dated_id [OF assms(1), of i] by (cases "m i") auto
    with False show ?thesis by (simp add: flat_abs_def)
  qed
qed

lemma flat_invD:
  assumes "flat_inv E t s"
  shows "env_ok E" "clock_ok t" "fs_ok (ff_fs s)" "ff_root s \<in> set (fs_dirs (ff_fs s))"
    "flat_rep E (ff_root s) (fs_map (ff_fs s)) (flat_abs s)"
  using assms by (simp_all add: flat_inv_def)

lemma flat_invI:
  assumes "env_ok E" "clock_ok t" "fs_ok (ff_fs s)" "ff_root s \<in> set (fs_dirs (ff_fs s))"
    "flat_rep E (ff_root s) (fs_map (ff_fs s)) m"
  shows "flat_inv E t s" "flat_abs s = m"
proof -
  show a: "flat_abs s = m" using flat_abs_rep [OF assms(1,5)] .
  show "flat_inv E t s" using assms a by (simp add: flat_inv_def)
qed

lemma flat_wf: "flat_inv E t s \<Longrightarrow> flat_abs s i = Some bx \<Longrightarrow> wf_dated E i bx"
  using flat_repD(2) flat_invD(5) by blast

lemma flat_read:
  assumes "flat_inv E t s" "wf_id i"
  shows "fs_read (ff_fs s) (blockPath (ff_root s) i) =
    (case flat_abs s i of None \<Rightarrow> Inl NotExist | Some bx \<Rightarrow> Inr (flat_val bx))"
  using flat_rep_path [OF flat_invD(1,5) [OF assms(1)] assms(2)]
  by (simp add: fs_read_ok [OF flat_invD(3) [OF assms(1)]] split: option.split)

lemma flat_header:
  assumes "flat_inv E t s" "wf_id i"
  shows "readHeader (ff_fs s) (blockPath (ff_root s) i) =
    (case flat_abs s i of None \<Rightarrow> Inl NotExist | Some bx \<Rightarrow> Inr (header_of bx))"
proof (cases "flat_abs s i")
  case None
  then show ?thesis using flat_read [OF assms] by (simp add: readHeader_def)
next
  case (Some bx)
  then show ?thesis
    using readHeader_val [OF flat_invD(1) [OF assms(1)] flat_wf [OF assms(1) Some]] flat_read [OF assms]
    by simp
qed

lemma FlatFile_reads:
  assumes "flat_inv E t s" "wf_id i"
  shows "FlatFile_Get t s i = (case flat_blk t s i of
      None \<Rightarrow> Inl ErrNotFound | Some b \<Rightarrow> Inr (sb_stamp b, sb_payload b))"
    "FlatFile_GetWorkFactor t s i = (case flat_blk t s i of
      None \<Rightarrow> Inl ErrNotFound | Some b \<Rightarrow> Inr (sb_wf b))"
    "FlatFile_Has t s i = Inr (flat_blk t s i \<noteq> None)"
proof -
  show "FlatFile_Get t s i = (case flat_blk t s i of
      None \<Rightarrow> Inl ErrNotFound | Some b \<Rightarrow> Inr (sb_stamp b, sb_payload b))"
  proof (cases "flat_abs s i")
    case (Some bx)
    then show ?thesis
      using flat_val_fields [OF flat_invD(1) [OF assms(1)] flat_wf [OF assms(1) Some]]
      by (simp add: FlatFile_Get_def flat_read [OF assms] flat_blk_def ReadFull_def)
  qed (simp add: FlatFile_Get_def flat_read [OF assms] flat_blk_def)
  show "FlatFile_GetWorkFactor t s i = (case flat_blk t s i of
      None \<Rightarrow> Inl ErrNotFound | Some b \<Rightarrow> Inr (sb_wf b))"
    "FlatFile_Has t s i = Inr (flat_blk t s i \<noteq> None)"
    by (simp_all add: FlatFile_GetWorkFactor_def FlatFile_Has_def flat_header [OF assms] flat_blk_def
        header_of_def split: option.split)
qed


section \<open>Walking the blocks\<close>

definition entry_of :: "ID \<Rightarrow> dated \<Rightarrow> flatEntry" where
  "entry_of i bx = \<lparr>fe_id = i, fe_wf = sb_wf (fst bx), fe_createdAt = sb_createdAt (fst bx)\<rparr>"

definition fcand_of :: "path \<Rightarrow> ID \<Rightarrow> dated \<Rightarrow> flatCandidate" where
  "fcand_of root i bx = \<lparr>fc_path = blockPath root i, fc_expiresAt = snd bx\<rparr>"

text \<open>The IDs of the block files among the paths of a walk.\<close>

definition walk_ids :: "path list \<Rightarrow> ID list" where
  "walk_ids ps = map (\<lambda>p. the (name_id p)) (filter (\<lambda>p. length (last p) = 64) ps)"

definition block_paths :: "FlatFileStore \<Rightarrow> path list \<Rightarrow> bool" where
  "block_paths s ps \<longleftrightarrow>
     (\<forall>p \<in> set ps. length (last p) = 64 \<longrightarrow>
        (\<exists>i bx. flat_abs s i = Some bx \<and> p = blockPath (ff_root s) i))"

lemma block_paths_Cons:
  "block_paths s (p # ps) \<longleftrightarrow> block_paths s ps \<and>
     (length (last p) = 64 \<longrightarrow> (\<exists>i bx. flat_abs s i = Some bx \<and> p = blockPath (ff_root s) i))"
  by (auto simp: block_paths_def)

lemma name_id_None: "length (last p) \<noteq> 64 \<Longrightarrow> name_id p = None"
  using name_id_len by (cases "name_id p") auto

lemma flat_abs_id: "flat_inv E t s \<Longrightarrow> flat_abs s i = Some bx \<Longrightarrow> wf_id i"
  using flat_wf wf_dated_id flat_invD(1) by blast

lemma flat_loops:
  assumes "flat_inv E t s" "block_paths s ps"
  shows "flat_ids (ff_fs s) ps = walk_ids ps \<and>
    flat_entries (ff_fs s) pf su ps =
       filter (\<lambda>e. pf \<le> fe_wf e \<and> su \<le> fe_createdAt e)
         (map (\<lambda>i. entry_of i (the (flat_abs s i))) (walk_ids ps)) \<and>
    flat_candidates (ff_fs s) ps = map (\<lambda>i. fcand_of (ff_root s) i (the (flat_abs s i))) (walk_ids ps)"
  using assms(2)
proof (induction ps)
  case (Cons p ps)
  note ih = Cons.IH [OF block_paths_Cons [THEN iffD1, OF Cons.prems, THEN conjunct1]]
  show ?case
  proof (cases "length (last p) = 64")
    case True
    then obtain i bx where i: "flat_abs s i = Some bx" "p = blockPath (ff_root s) i"
      using Cons.prems block_paths_Cons by blast
    note w = flat_abs_id [OF assms(1) i(1)]
    have n: "name_id p = Some i" using name_id_blockPath [OF w] i(2) by simp
    have h: "readHeader (ff_fs s) p = Inr (header_of bx)"
      using flat_header [OF assms(1) w] i by simp
    have st: "fs_stat (ff_fs s) p"
      using flat_rep_path [OF flat_invD(1,5) [OF assms(1)] w] i
      by (simp add: fs_stat_ok [OF flat_invD(3) [OF assms(1)]])
    have wi: "walk_ids (p # ps) = i # walk_ids ps" using True n by (simp add: walk_ids_def)
    have c: "fcand_of (ff_root s) i bx = \<lparr>fc_path = p, fc_expiresAt = fh_expiresAt (header_of bx)\<rparr>"
      and e: "entry_of i bx = \<lparr>fe_id = i, fe_wf = fh_wf (header_of bx), fe_createdAt = fh_createdAt (header_of bx)\<rparr>"
      by (simp_all add: fcand_of_def entry_of_def header_of_def i(2))
    show ?thesis unfolding wi using True ih
      by (auto simp: n h st i(1) c e not_less)
  next
    case False
    then have "walk_ids (p # ps) = walk_ids ps" by (simp add: walk_ids_def)
    with False ih show ?thesis by (simp add: name_id_None)
  qed
qed (simp add: walk_ids_def)

lemma flat_walk:
  assumes "flat_inv E t s"
  obtains ps where "fs_walk (ff_fs s) (ff_root s) = Inr ps" "block_paths s ps"
    "distinct (walk_ids ps)" "set (walk_ids ps) = dom (flat_abs s)"
    "length (filter (\<lambda>p. length (last p) = 2 * IDSize) ps) = card (dom (flat_abs s))"
proof -
  let ?r = "ff_root s"
  obtain ps where ps: "fs_walk (ff_fs s) ?r = Inr ps" "distinct ps"
    "set ps = {p. strict_prefix ?r p \<and> fs_map (ff_fs s) p \<noteq> None}"
    using fs_walk_ok [OF flat_invD(3,4) [OF assms]] .
  have bp: "\<exists>i bx. flat_abs s i = Some bx \<and> p = blockPath ?r i \<and> name_id p = Some i"
    if "p \<in> set ps" "length (last p) = 64" for p
  proof -
    have "fs_map (ff_fs s) p \<noteq> None" "strict_prefix ?r p" using that ps(3) by auto
    with flat_repD(3) [OF flat_invD(5) [OF assms] this(2) that(2)] show ?thesis
      by (auto split: option.splits if_splits)
  qed
  have mem: "blockPath ?r i \<in> set ps \<and> name_id (blockPath ?r i) = Some i \<and> length (hex_Encode i) = 64"
    if "flat_abs s i = Some bx" for i bx
    using flat_abs_id [OF assms that] flat_rep_path [OF flat_invD(1,5) [OF assms], of i] that
    by (auto simp: ps(3) name_id_blockPath wf_id_def)
  have block: "block_paths s ps" using bp unfolding block_paths_def by blast
  have set: "set (walk_ids ps) = dom (flat_abs s)"
  proof (intro equalityI subsetI)
    fix i assume "i \<in> set (walk_ids ps)"
    then show "i \<in> dom (flat_abs s)" using bp by (force simp: walk_ids_def)
  next
    fix i assume "i \<in> dom (flat_abs s)"
    then obtain bx where "flat_abs s i = Some bx" by blast
    from mem [OF this] have "blockPath ?r i \<in> set (filter (\<lambda>p. length (last p) = 64) ps)"
      "the (name_id (blockPath ?r i)) = i" by simp_all
    then show "i \<in> set (walk_ids ps)" unfolding walk_ids_def set_map by (metis image_eqI)
  qed
  have "inj_on (\<lambda>p. the (name_id p)) (set (filter (\<lambda>p. length (last p) = 64) ps))"
  proof (rule inj_onI)
    fix x y assume x: "x \<in> set (filter (\<lambda>p. length (last p) = 64) ps)"
      and y: "y \<in> set (filter (\<lambda>p. length (last p) = 64) ps)" and e: "the (name_id x) = the (name_id y)"
    obtain i where i: "x = blockPath ?r i" "name_id x = Some i" using bp [of x] x by auto
    obtain j where j: "y = blockPath ?r j" "name_id y = Some j" using bp [of y] y by auto
    show "x = y" using e i j by simp
  qed
  then have dist: "distinct (walk_ids ps)"
    unfolding walk_ids_def distinct_map using ps(2) by simp
  then have "length (walk_ids ps) = card (dom (flat_abs s))" using set distinct_card by metis
  then have "length (filter (\<lambda>p. length (last p) = 2 * IDSize) ps) = card (dom (flat_abs s))"
    by (simp add: walk_ids_def)
  with that ps(1) block dist set show thesis by blast
qed


section \<open>Listing\<close>

definition ekey :: "flatEntry \<Rightarrow> cursor" where
  "ekey e = (fe_createdAt e, fe_id e)"

lemma entry_less_key: "entry_less x y \<longleftrightarrow> ekey x < ekey y"
  by (auto simp: entry_less_def ekey_def bytes_Compare_less less_prod_def')

lemma flat_page_eq:
  assumes "length refs < lim"
  shows "flat_page cur (int lim) es refs =
    refs @ take (lim - length refs) (filter (\<lambda>e. case cur of None \<Rightarrow> True | Some c \<Rightarrow> c < ekey e) es)"
  using assms
proof (induction es arbitrary: refs)
  case (Cons e es)
  have aft: "(case cur of None \<Rightarrow> False | Some c \<Rightarrow> fe_createdAt e < fst c \<or>
      fe_createdAt e = fst c \<and> bytes_Compare (fe_id e) (snd c) \<le> 0) \<longleftrightarrow>
      \<not> (case cur of None \<Rightarrow> True | Some c \<Rightarrow> c < ekey e)"
    by (cases cur) (auto simp: ekey_def bytes_Compare_le less_prod_def')
  show ?case
  proof (cases "case cur of None \<Rightarrow> True | Some c \<Rightarrow> c < ekey e")
    case False
    then show ?thesis using Cons aft by simp
  next
    case True
    have d: "lim - length refs = Suc (lim - length (refs @ [e]))" using Cons.prems by simp
    show ?thesis
    proof (cases "length (refs @ [e]) = lim")
      case l: True
      then have "lim - length refs = Suc 0" by simp
      then show ?thesis using True aft l by (simp add: Let_def flip: of_nat_Suc)
    next
      case False
      then have "length (refs @ [e]) < lim" using Cons.prems by simp
      then show ?thesis using Cons.IH [of "refs @ [e]"] True aft False d
        by (simp add: Let_def del: of_nat_Suc flip: of_nat_Suc)
    qed
  qed
qed simp

lemma flat_listing:
  assumes "flat_inv E t s"
  obtains ps es where "fs_walk (ff_fs s) (ff_root s) = Inr ps"
    "sort_Slice (sorter E) entry_less (flat_entries (ff_fs s) pf su ps) = es"
    "map ekey es = sel_keys (flat_blk t s) pf su"
    "\<And>e. e \<in> set es \<Longrightarrow> (fe_id e, fe_wf e) = key_pair (flat_blk t s) (ekey e)"
proof -
  obtain ps where ps: "fs_walk (ff_fs s) (ff_root s) = Inr ps" "block_paths s ps"
    "distinct (walk_ids ps)" "set (walk_ids ps) = dom (flat_abs s)"
    using flat_walk [OF assms] .
  define es0 where "es0 = flat_entries (ff_fs s) pf su ps"
  define es where "es = sort_Slice (sorter E) entry_less es0"
  have es0: "es0 = filter (\<lambda>e. pf \<le> fe_wf e \<and> su \<le> fe_createdAt e)
      (map (\<lambda>i. entry_of i (the (flat_abs s i))) (walk_ids ps))"
    unfolding es0_def using flat_loops [OF assms ps(2)] by blast
  have so: "set es = set es0"
    unfolding es_def by (rule sort_Slice_set(1) [OF env_okD(4) [OF flat_invD(1) [OF assms]] entry_less_key])
  have sk: "sorted (map ekey es)"
    unfolding es_def by (rule sort_Slice_key(2) [OF env_okD(4) [OF flat_invD(1) [OF assms]] entry_less_key])
  have mem: "e \<in> set es \<longleftrightarrow> (\<exists>i bx. flat_abs s i = Some bx \<and> e = entry_of i bx \<and>
      pf \<le> sb_wf (fst bx) \<and> su \<le> sb_createdAt (fst bx))" for e
  proof -
    have "e \<in> set es \<longleftrightarrow> (\<exists>i \<in> dom (flat_abs s). e = entry_of i (the (flat_abs s i)) \<and>
        pf \<le> fe_wf e \<and> su \<le> fe_createdAt e)"
      unfolding so es0 using ps(4) by auto
    then show ?thesis by (force simp: entry_of_def)
  qed
  have "distinct (map ekey es0)"
  proof -
    have "distinct (map fe_id (map (\<lambda>i. entry_of i (the (flat_abs s i))) (walk_ids ps)))"
      using ps(3) by (simp add: comp_def entry_of_def)
    then have "distinct (map fe_id es0)" unfolding es0 by (rule distinct_map_filter)
    then have "distinct (map snd (map ekey es0))" by (simp add: ekey_def comp_def)
    then show ?thesis unfolding distinct_map [of snd] by blast
  qed
  moreover have "mset (map ekey es) = mset (map ekey es0)"
    using sort_Slice_key(1) [OF env_okD(4) [OF flat_invD(1) [OF assms]] entry_less_key, where xs = es0]
    by (simp add: es_def)
  ultimately have "sorted_wrt (<) (map ekey es)"
    using sk by (metis mset_eq_imp_distinct_iff strict_sorted_iff)
  moreover have "set (map ekey es) = sel_set (flat_blk t s) pf su"
  proof (intro equalityI subsetI)
    fix k assume "k \<in> set (map ekey es)"
    then obtain e where "e \<in> set es" "k = ekey e" by auto
    then obtain i bx where "flat_abs s i = Some bx" "k = ekey (entry_of i bx)"
      "pf \<le> sb_wf (fst bx)" "su \<le> sb_createdAt (fst bx)" unfolding mem by blast
    then show "k \<in> sel_set (flat_blk t s) pf su"
      by (cases bx) (auto simp: sel_set_def flat_blk_def ekey_def entry_of_def)
  next
    fix k assume "k \<in> sel_set (flat_blk t s) pf su"
    then obtain i bx where "flat_abs s i = Some bx" "k = ekey (entry_of i bx)"
      "pf \<le> sb_wf (fst bx)" "su \<le> sb_createdAt (fst bx)"
      by (auto simp: sel_set_def flat_blk_def ekey_def entry_of_def)
    then have "entry_of i bx \<in> set es" unfolding mem by blast
    then show "k \<in> set (map ekey es)" using \<open>k = ekey (entry_of i bx)\<close> by simp
  qed
  moreover have "finite (dom (flat_blk t s))"
    using flat_repD(1) [OF flat_invD(5) [OF assms]] by (simp add: flat_blk_def dom_def)
  ultimately have keys: "map ekey es = sel_keys (flat_blk t s) pf su" by (intro sel_keys_unique)
  have pair: "(fe_id e, fe_wf e) = key_pair (flat_blk t s) (ekey e)" if "e \<in> set es" for e
  proof -
    obtain i bx where "flat_abs s i = Some bx" "e = entry_of i bx" using \<open>e \<in> set es\<close> unfolding mem by blast
    then show ?thesis by (simp add: key_pair_def ekey_def entry_of_def flat_blk_def)
  qed
  show thesis by (rule that [OF ps(1) es_def [unfolded es0_def, symmetric] keys pair])
qed

lemma FlatFile_ListBlocks_page:
  assumes i: "flat_inv E t s" and lim: "0 < lim"
    and cur: "\<And>c. cur = Some c \<Longrightarrow> wf_cursor c"
    and page: "page = page_of lim cur (sel_keys (flat_blk t s) pf (Unix since))"
  shows "\<exists>refs. FlatFile_ListBlocks E t s (token_of cur) (int lim) pf since = Inr (page_token lim page, refs) \<and>
    map (\<lambda>r. (refID r, refWF r)) refs = map (key_pair (flat_blk t s)) page"
proof -
  obtain ps es where w: "fs_walk (ff_fs s) (ff_root s) = Inr ps"
    and es: "sort_Slice (sorter E) entry_less (flat_entries (ff_fs s) pf (Unix since) ps) = es"
    and keys: "map ekey es = sel_keys (flat_blk t s) pf (Unix since)"
    and pair: "\<And>e. e \<in> set es \<Longrightarrow> (fe_id e, fe_wf e) = key_pair (flat_blk t s) (ekey e)"
    using flat_listing [OF i, of pf "Unix since"] by metis
  define pg where "pg = take lim (filter (\<lambda>e. case cur of None \<Rightarrow> True | Some c \<Rightarrow> c < ekey e) es)"
  define refs where "refs = map (\<lambda>e. \<lparr>refWF = fe_wf e, refID = fe_id e, refCreatedAt = 0, refTag = TagPhysical\<rparr>) pg"
  have fp: "flat_page cur (int lim) es [] = pg" using flat_page_eq [of "[]" lim cur es] lim by (simp add: pg_def)
  have tok: "(if token_of cur \<noteq> [] then sum_bind (decodeCursor (token_of cur)) (\<lambda>c. Inr (Some c)) else Inr None) =
      (Inr cur :: store_err + cursor option)"
    using cur by (cases cur) (simp_all add: token_of_def)
  have pgk: "map ekey pg = page"
    unfolding page page_of_def pg_def after_def keys [symmetric] by (cases cur) (simp_all add: take_map filter_map comp_def)
  then have len: "length pg = length page" by (metis length_map)
  have "map (\<lambda>r. (refID r, refWF r)) refs = map (\<lambda>e. (fe_id e, fe_wf e)) pg" by (simp add: refs_def)
  also have "\<dots> = map (\<lambda>e. key_pair (flat_blk t s) (ekey e)) pg"
    using pair by (auto simp: pg_def dest: in_set_takeD)
  also have "\<dots> = map (key_pair (flat_blk t s)) page" by (simp flip: pgk)
  finally have 1: "map (\<lambda>r. (refID r, refWF r)) refs = map (key_pair (flat_blk t s)) page" .
  have last: "pg \<noteq> [] \<Longrightarrow> (fe_createdAt (last pg), fe_id (last pg)) = last page"
    unfolding pgk [symmetric] by (simp add: last_map ekey_def)
  have "FlatFile_ListBlocks E t s (token_of cur) (int lim) pf since = Inr (page_token lim page, refs)"
    unfolding FlatFile_ListBlocks_def tok using lim last len
    by (auto simp: w es fp page_token_def refs_def Let_def)
  with 1 show ?thesis by blast
qed


section \<open>Evict and Put\<close>

lemma flat_rep_other:
  assumes "flat_rep E root f m" "length (last p) \<noteq> 64"
  shows "flat_rep E root (f(p := x)) m"
  using assms unfolding flat_rep_def by auto

lemma flat_rep_remove:
  assumes "flat_rep E root f m"
  shows "flat_rep E root (f(blockPath root i := None)) (m(i := None))"
  using assms unfolding flat_rep_def
  by (auto simp: fun_upd_apply split: option.split)

lemma flat_rep_set:
  assumes "flat_rep E root f m" "wf_dated E i bx" "wf_id i"
  shows "flat_rep E root (f(blockPath root i \<mapsto> flat_val bx)) (m(i \<mapsto> bx))"
  using assms name_id_blockPath [OF assms(3)] unfolding flat_rep_def
  by (auto split: option.split)

lemma flat_remove_one:
  assumes "flat_inv E t s" "flat_abs s i = Some bx"
  obtains fs' where "fs_remove (blockPath (ff_root s) i) (ff_fs s) = (None, fs')"
    "flat_inv E t (s\<lparr>ff_fs := fs'\<rparr>)" "flat_abs (s\<lparr>ff_fs := fs'\<rparr>) = (flat_abs s)(i := None)"
proof -
  let ?p = "blockPath (ff_root s) i"
  have "fs_map (ff_fs s) ?p = Some (flat_val bx)"
    using flat_rep_path [OF flat_invD(1,5) [OF assms(1)] flat_abs_id [OF assms]] assms(2) by simp
  from fs_remove_ok [OF flat_invD(3) [OF assms(1)] this]
  obtain fs' where r: "fs_remove ?p (ff_fs s) = (None, fs')" "fs_ok fs'" "fs_dirs fs' = fs_dirs (ff_fs s)"
    "fs_map fs' = (fs_map (ff_fs s))(?p := None)" .
  define s' where "s' = s\<lparr>ff_fs := fs'\<rparr>"
  have "flat_rep E (ff_root s') (fs_map (ff_fs s')) ((flat_abs s)(i := None))"
    using flat_rep_remove [OF flat_invD(5) [OF assms(1)]] r(4) by (simp add: s'_def)
  from flat_invI [OF flat_invD(1,2) [OF assms(1)] _ _ this] r(2,3) flat_invD(4) [OF assms(1)]
  have "flat_inv E t s'" "flat_abs s' = (flat_abs s)(i := None)" by (simp_all add: s'_def)
  with that r(1) show thesis by (simp add: s'_def)
qed

lemma flat_evict_loop_run:
  assumes "flat_inv E t s" "map fc_path cs = map (blockPath (ff_root s)) is" "distinct is"
    "set is \<subseteq> dom (flat_abs s)"
  shows "\<exists>fs'. flat_evict_loop n ev cs (ff_fs s) = (ev + int (min (nat (n - ev)) (length is)), fs') \<and>
    flat_inv E t (s\<lparr>ff_fs := fs'\<rparr>) \<and>
    flat_abs (s\<lparr>ff_fs := fs'\<rparr>) = flat_abs s |` (- set (take (nat (n - ev)) is))"
  using assms
proof (induction cs arbitrary: s ev "is")
  case Nil
  have "s\<lparr>ff_fs := ff_fs s\<rparr> = s" by simp
  with Nil show ?case by (intro exI [of _ "ff_fs s"]) (simp add: restrict_map_def)
next
  case (Cons c cs)
  then obtain i js where ij: "is = i # js" "fc_path c = blockPath (ff_root s) i"
    "map fc_path cs = map (blockPath (ff_root s)) js" by auto
  show ?case
  proof (cases "n \<le> ev")
    case True
    have "s\<lparr>ff_fs := ff_fs s\<rparr> = s" by simp
    with True Cons.prems(1) show ?thesis by (intro exI [of _ "ff_fs s"]) (simp add: restrict_map_def)
  next
    case False
    obtain bx where bx: "flat_abs s i = Some bx" using Cons.prems(4) ij(1) by auto
    obtain fs1 where r: "fs_remove (blockPath (ff_root s) i) (ff_fs s) = (None, fs1)"
      "flat_inv E t (s\<lparr>ff_fs := fs1\<rparr>)" "flat_abs (s\<lparr>ff_fs := fs1\<rparr>) = (flat_abs s)(i := None)"
      using flat_remove_one [OF Cons.prems(1) bx] .
    have "map fc_path cs = map (blockPath (ff_root (s\<lparr>ff_fs := fs1\<rparr>))) js" "distinct js"
      "set js \<subseteq> dom (flat_abs (s\<lparr>ff_fs := fs1\<rparr>))" using Cons.prems(3,4) ij r(3) by auto
    note IH = Cons.IH [OF r(2) this, of "ev + 1", unfolded r(3)]
    have upd: "ff_fs (s\<lparr>ff_fs := fs1\<rparr>) = fs1" "s\<lparr>ff_fs := fs1, ff_fs := fs\<rparr> = s\<lparr>ff_fs := fs\<rparr>" for fs
      by simp_all
    from IH [unfolded upd] obtain fs' where
      ih: "flat_evict_loop n (ev + 1) cs fs1 = (ev + 1 + int (min (nat (n - (ev + 1))) (length js)), fs')"
      "flat_inv E t (s\<lparr>ff_fs := fs'\<rparr>)"
      "flat_abs (s\<lparr>ff_fs := fs'\<rparr>) = (flat_abs s)(i := None) |` (- set (take (nat (n - (ev + 1))) js))"
      by blast
    have n: "nat (n - ev) = Suc (nat (n - (ev + 1)))" using False by simp
    have "(flat_abs s)(i := None) |` (- set (take (nat (n - (ev + 1))) js)) =
        flat_abs s |` (- set (take (nat (n - ev)) is))"
      unfolding n ij(1) by (auto simp: restrict_map_def fun_eq_iff)
    with ih False ij(1,2) r(1) n show ?thesis by (intro exI [of _ fs']) simp
  qed
qed

text \<open>What an eviction leaves: \<open>gone\<close> are blocks of the soonest logical expiry.\<close>

definition soonest :: "(ID \<rightharpoonup> dated) \<Rightarrow> ID set \<Rightarrow> bool" where
  "soonest m gone \<longleftrightarrow>
     gone \<subseteq> dom m \<and> (\<forall>i \<in> gone. \<forall>j \<in> dom m - gone. snd (the (m i)) \<le> snd (the (m j)))"

lemma FlatFile_Evict_run:
  assumes "flat_inv E t s"
  shows "\<exists>gone fs'. FlatFile_Evict E t n s = ((int (card gone), None), s\<lparr>ff_fs := fs'\<rparr>) \<and>
    flat_inv E t (s\<lparr>ff_fs := fs'\<rparr>) \<and> soonest (flat_abs s) gone \<and>
    card gone = min (nat n) (card (dom (flat_abs s))) \<and>
    flat_abs (s\<lparr>ff_fs := fs'\<rparr>) = flat_abs s |` (- gone)"
proof (cases "n \<le> 0")
  case True
  with assms show ?thesis
    by (intro exI [of _ "{}"] exI [of _ "ff_fs s"])
      (simp add: FlatFile_Evict_def soonest_def restrict_map_def)
next
  case False
  obtain ps where ps: "fs_walk (ff_fs s) (ff_root s) = Inr ps" "block_paths s ps"
    "distinct (walk_ids ps)" "set (walk_ids ps) = dom (flat_abs s)"
    using flat_walk [OF assms] .
  define m where "m = flat_abs s"
  define cs0 where "cs0 = flat_candidates (ff_fs s) ps"
  define cs where "cs = sort_Slice (sorter E) (\<lambda>x y. fc_expiresAt x < fc_expiresAt y) cs0"
  define ids where "ids = map (\<lambda>c. the (name_id (fc_path c))) cs"
  have cs0: "cs0 = map (\<lambda>i. fcand_of (ff_root s) i (the (m i))) (walk_ids ps)"
    unfolding cs0_def m_def using flat_loops [OF assms ps(2)] by blast
  note srt = env_okD(4) [OF flat_invD(1) [OF assms]]
  have ms: "mset cs = mset cs0" and so: "sorted (map fc_expiresAt cs)"
    unfolding cs_def by (rule sort_Slice_key [OF srt refl])+
  have nid: "name_id (blockPath (ff_root s) i) = Some i" if "i \<in> dom m" for i
    using that flat_abs_id [OF assms] name_id_blockPath unfolding m_def by blast
  have c: "\<exists>i \<in> dom m. c = fcand_of (ff_root s) i (the (m i))" if "c \<in> set cs" for c
    using that mset_eq_setD [OF ms] ps(4) unfolding cs0 m_def by auto
  have csi: "cs = map (\<lambda>i. fcand_of (ff_root s) i (the (m i))) ids"
  proof -
    have "fcand_of (ff_root s) (the (name_id (fc_path x))) (the (m (the (name_id (fc_path x))))) = x"
      if "x \<in> set cs" for x using c [OF that] nid by (force simp: fcand_of_def)
    then show ?thesis unfolding ids_def by (simp add: map_idI comp_def)
  qed
  have "mset ids = mset (walk_ids ps)"
  proof -
    have "mset ids = image_mset (\<lambda>c. the (name_id (fc_path c))) (mset cs0)" by (simp add: ids_def ms)
    also have "\<dots> = mset (map (\<lambda>i. the (name_id (blockPath (ff_root s) i))) (walk_ids ps))"
      by (simp add: cs0 fcand_of_def image_mset.compositionality comp_def)
    also have "map (\<lambda>i. the (name_id (blockPath (ff_root s) i))) (walk_ids ps) = walk_ids ps"
      using nid ps(4) by (intro map_idI) (simp add: m_def)
    finally show ?thesis .
  qed
  then have ids: "distinct ids" "set ids = dom m"
    using ps(3,4) mset_eq_imp_distinct_iff mset_eq_setD unfolding m_def by metis+
  have "map fc_path cs = map (blockPath (ff_root s)) ids"
    by (subst csi) (simp add: fcand_of_def comp_def)
  from flat_evict_loop_run [OF assms this ids(1), of n 0] ids(2) obtain fs' where
    r: "flat_evict_loop n 0 cs (ff_fs s) = (int (min (nat n) (length ids)), fs')"
      "flat_inv E t (s\<lparr>ff_fs := fs'\<rparr>)"
      "flat_abs (s\<lparr>ff_fs := fs'\<rparr>) = m |` (- set (take (nat n) ids))"
    by (auto simp: m_def)
  have card: "card (set (take (nat n) ids)) = min (nat n) (length ids)"
    using ids(1) by (simp add: distinct_card min.commute)
  have "soonest m (set (take (nat n) ids))"
  proof -
    have "sorted (map (\<lambda>i. snd (the (m i))) ids)"
    proof -
      have "map fc_expiresAt cs = map (\<lambda>i. snd (the (m i))) ids"
        by (subst csi) (simp add: fcand_of_def comp_def)
      then show ?thesis using so by simp
    qed
    then have "sorted_wrt (\<lambda>i j. snd (the (m i)) \<le> snd (the (m j))) (take (nat n) ids @ drop (nat n) ids)"
      by (simp add: sorted_wrt_map)
    then have "\<forall>i \<in> set (take (nat n) ids). \<forall>j \<in> set (drop (nat n) ids). snd (the (m i)) \<le> snd (the (m j))"
      unfolding sorted_wrt_append by blast
    moreover have "dom m - set (take (nat n) ids) \<subseteq> set (drop (nat n) ids)"
      using ids(2) by (metis Diff_subset_conv append_take_drop_id equalityE set_append)
    ultimately show ?thesis unfolding soonest_def using ids(2) set_take_subset [of "nat n" ids] by blast
  qed
  moreover have "length ids = card (dom m)" using ids distinct_card by metis
  moreover have "FlatFile_Evict E t n s = ((int (min (nat n) (length ids)), None), s\<lparr>ff_fs := fs'\<rparr>)"
    using False by (simp add: FlatFile_Evict_def ps(1) r(1) flip: cs0_def cs_def)
  ultimately show ?thesis using r card unfolding m_def
    by (intro exI [of _ "set (take (nat n) ids)"] exI [of _ fs']) simp
qed


definition flat_new :: "env \<Rightarrow> time \<Rightarrow> Stamp \<Rightarrow> Payload \<Rightarrow> dated" where
  "flat_new E t st p =
     (new_stored E t st p, wrap64 (Unix (t + TTLFromWorkFactor E (WorkFactor E st p))))"

lemma flat_buf_new: "flat_buf E t st p = flat_val (flat_new E t st p)"
  by (simp add: flat_buf_val flat_new_def flat_val_def wrap64_def Let_def)

lemma flat_new_wf:
  "env_ok E \<Longrightarrow> clock_ok t \<Longrightarrow> wf_stamp st \<Longrightarrow> wf_payload p \<Longrightarrow> wf_dated E (ComputeID E p) (flat_new E t st p)"
  by (simp add: wf_dated_def flat_new_def wf_new_stored)

text \<open>The eviction before a write: nothing goes while the limit is off or not reached.\<close>

lemma flat_make_room_run:
  assumes "flat_inv E t s"
  shows "\<exists>gone fs'. flat_make_room E t s = s\<lparr>ff_fs := fs'\<rparr> \<and> flat_inv E t (s\<lparr>ff_fs := fs'\<rparr>) \<and>
    soonest (flat_abs s) gone \<and> flat_abs (s\<lparr>ff_fs := fs'\<rparr>) = flat_abs s |` (- gone) \<and>
    (ff_storageLimit s \<le> 0 \<or> int (card (dom (flat_abs s))) * flatFileSize < ff_storageLimit s \<longrightarrow> gone = {}) \<and>
    (0 < ff_storageLimit s \<longrightarrow>
       int (card (dom (flat_abs s |` (- gone)))) * flatFileSize < ff_storageLimit s)"
proof -
  let ?n = "card (dom (flat_abs s))" and ?L = "ff_storageLimit s"
  obtain ps where ps: "fs_walk (ff_fs s) (ff_root s) = Inr ps"
    "length (filter (\<lambda>p. length (last p) = 2 * IDSize) ps) = ?n"
    using flat_walk [OF assms] .
  have du: "diskUsage s = Inr (int ?n * flatFileSize)" using ps by (simp add: diskUsage_def)
  show ?thesis
  proof (cases "0 < ?L \<and> ?L \<le> int ?n * flatFileSize")
    case True
    let ?k = "go_div (int ?n * flatFileSize - ?L) flatFileSize + 10 + 1"
    obtain gone fs' where e: "FlatFile_Evict E t ?k s = ((int (card gone), None), s\<lparr>ff_fs := fs'\<rparr>)"
      "flat_inv E t (s\<lparr>ff_fs := fs'\<rparr>)" "soonest (flat_abs s) gone"
      "card gone = min (nat ?k) ?n" "flat_abs (s\<lparr>ff_fs := fs'\<rparr>) = flat_abs s |` (- gone)"
      using FlatFile_Evict_run [OF assms, of ?k] by blast
    have fin: "finite (dom (flat_abs s))" by (rule flat_repD(1) [OF flat_invD(5) [OF assms]])
    have "dom (flat_abs s |` (- gone)) = dom (flat_abs s) - gone" by (auto simp: restrict_map_def split: if_splits)
    moreover have "gone \<subseteq> dom (flat_abs s)" using e(3) by (simp add: soonest_def)
    ultimately have "card (dom (flat_abs s |` (- gone))) = ?n - card gone"
      using fin finite_subset by (metis card_Diff_subset)
    moreover have "int (?n - card gone) * 4120 < ?L"
    proof -
      have k: "?k = (int ?n * 4120 - ?L) div 4120 + 11" using True by (simp add: go_div_nonneg)
      have pos: "0 \<le> (int ?n * 4120 - ?L) div 4120" using True by (simp add: pos_imp_zdiv_nonneg_iff)
      have lo: "int ?n * 4120 - ?L < 4120 * ((int ?n * 4120 - ?L) div 4120) + 4120" by linarith
      show ?thesis
      proof (cases "nat ?k \<le> ?n")
        case le: True
        then have "card gone = nat ?k" using e(4) by simp
        then have "int (?n - card gone) = int ?n - ?k" using le k pos by (simp add: of_nat_diff)
        then show ?thesis using lo k by simp
      next
        case False
        then show ?thesis using e(4) True by simp
      qed
    qed
    ultimately show ?thesis
      using True e(1,2,3,5) du
      by (intro exI [of _ gone] exI [of _ fs']) (simp add: flat_make_room_def Let_def)
  next
    case False
    then have "flat_make_room E t s = s" by (auto simp: flat_make_room_def du)
    with False assms show ?thesis
      by (intro exI [of _ "{}"] exI [of _ "ff_fs s"]) (auto simp: soonest_def restrict_map_def)
  qed
qed

lemma flat_write_block:
  assumes "flat_inv E t s" "wf_stamp st" "wf_payload p"
  defines "q \<equiv> blockPath (ff_root s) (ComputeID E p)"
  obtains fs2 fs3 fs4 where "fs_mkdirAll (butlast q) (ff_fs s) = (None, fs2)"
    "fs_write (tmpPath q) (flat_buf E t st p) fs2 = (None, fs3)" "fs_rename (tmpPath q) q fs3 = (None, fs4)"
    "flat_inv E t (s\<lparr>ff_fs := fs4\<rparr>)"
    "flat_abs (s\<lparr>ff_fs := fs4\<rparr>) = (flat_abs s)(ComputeID E p \<mapsto> flat_new E t st p)"
proof -
  let ?i = "ComputeID E p" and ?b = "flat_buf E t st p"
  note E = flat_invD(1) [OF assms(1)]
  have wi: "wf_id ?i" using E by simp
  have lq: "length (last q) = 64" using wi by (simp add: q_def wf_id_def)
  then have tq: "length (last (tmpPath q)) \<noteq> 64" "tmpPath q \<noteq> q" by (auto dest: arg_cong [where f = last])
  obtain fs2 where 2: "fs_mkdirAll (butlast q) (ff_fs s) = (None, fs2)" "fs_ok fs2"
    "set (fs_dirs (ff_fs s)) \<subseteq> set (fs_dirs fs2)" "butlast q \<in> set (fs_dirs fs2)" "fs_map fs2 = fs_map (ff_fs s)"
    using fs_mkdirAll_ok [OF flat_invD(3) [OF assms(1)]] .
  have "butlast (tmpPath q) \<in> set (fs_dirs fs2)" using 2(4) by simp
  from fs_write_ok [OF 2(2) this, of ?b]
  obtain fs3 where 3: "fs_write (tmpPath q) ?b fs2 = (None, fs3)" "fs_ok fs3" "fs_dirs fs3 = fs_dirs fs2"
    "fs_map fs3 = (fs_map (ff_fs s))(tmpPath q \<mapsto> ?b)" unfolding 2(5) .
  have "fs_map fs3 (tmpPath q) = Some ?b" using 3(4) by simp
  from fs_rename_ok [OF 3(2) this tq(2)]
  obtain fs4 where 4: "fs_rename (tmpPath q) q fs3 = (None, fs4)" "fs_ok fs4" "fs_dirs fs4 = fs_dirs fs3"
    "fs_map fs4 = (fs_map (ff_fs s))(tmpPath q := None, q \<mapsto> ?b)" using 3(4) by auto
  define s' where "s' = s\<lparr>ff_fs := fs4\<rparr>"
  have "flat_rep E (ff_root s) ((fs_map (ff_fs s))(tmpPath q := None, q \<mapsto> ?b)) ((flat_abs s)(?i \<mapsto> flat_new E t st p))"
    unfolding flat_buf_new q_def
    by (rule flat_rep_set [OF flat_rep_other [OF flat_invD(5) [OF assms(1)] tq(1) [unfolded q_def]]
          flat_new_wf [OF E flat_invD(2) [OF assms(1)] assms(2,3)] wi])
  then have "flat_rep E (ff_root s') (fs_map (ff_fs s')) ((flat_abs s)(?i \<mapsto> flat_new E t st p))"
    by (simp add: s'_def 4(4))
  moreover have "ff_root s' \<in> set (fs_dirs (ff_fs s'))"
    using flat_invD(4) [OF assms(1)] 2(3) 3(3) 4(3) by (auto simp: s'_def)
  ultimately have "flat_inv E t s'" "flat_abs s' = (flat_abs s)(?i \<mapsto> flat_new E t st p)"
    using flat_invI [OF E flat_invD(2) [OF assms(1)], of s'] 4(2) by (simp_all add: s'_def)
  with that 2(1) 3(1) 4(1) show thesis by (simp add: s'_def)
qed

definition flat_keeps :: "(ID \<rightharpoonup> dated) \<Rightarrow> ID \<Rightarrow> int \<Rightarrow> bool" where
  "flat_keeps m i w = (case m i of None \<Rightarrow> False | Some bx \<Rightarrow> w \<le> sb_wf (fst bx))"

text \<open>\<^verbatim>\<open>Put\<close>: the block that is kept, or the eviction and the write.\<close>

lemma FlatFile_Put_run:
  assumes "flat_inv E t s" "wf_stamp st" "wf_payload p"
  defines "i \<equiv> ComputeID E p"
  shows "\<exists>fs'. FlatFile_Put E t st p tag s = (Inr i, s\<lparr>ff_fs := fs'\<rparr>) \<and> flat_inv E t (s\<lparr>ff_fs := fs'\<rparr>) \<and>
    (if flat_keeps (flat_abs s) i (WorkFactor E st p)
     then flat_abs (s\<lparr>ff_fs := fs'\<rparr>) = flat_abs s
     else \<exists>gone. soonest (flat_abs s) gone \<and>
       (ff_storageLimit s \<le> 0 \<or> int (card (dom (flat_abs s))) * flatFileSize < ff_storageLimit s \<longrightarrow> gone = {}) \<and>
       (0 < ff_storageLimit s \<longrightarrow>
          int (card (dom (flat_abs s |` (- gone)))) * flatFileSize < ff_storageLimit s) \<and>
       flat_abs (s\<lparr>ff_fs := fs'\<rparr>) = (flat_abs s |` (- gone))(i \<mapsto> flat_new E t st p))"
proof -
  have wi: "wf_id i" using flat_invD(1) [OF assms(1)] by (simp add: i_def)
  let ?keep = "flat_keeps (flat_abs s) i (WorkFactor E st p)"
  have k: "(case readHeader (ff_fs s) (blockPath (ff_root s) i) of Inl _ \<Rightarrow> False
      | Inr h \<Rightarrow> fh_wf h \<ge> WorkFactor E st p) \<longleftrightarrow> ?keep"
    by (cases "flat_abs s i") (simp_all add: flat_header [OF assms(1) wi] header_of_def flat_keeps_def)
  show ?thesis
  proof (cases ?keep)
    case True
    then have "FlatFile_Put E t st p tag s = (Inr i, s)"
      unfolding FlatFile_Put_def Let_def i_def [symmetric] k by (simp only: if_True)
    with True assms(1) show ?thesis by (intro exI [of _ "ff_fs s"]) simp
  next
    case False
    obtain gone fs1 where g: "flat_make_room E t s = s\<lparr>ff_fs := fs1\<rparr>" "flat_inv E t (s\<lparr>ff_fs := fs1\<rparr>)"
      "soonest (flat_abs s) gone" "flat_abs (s\<lparr>ff_fs := fs1\<rparr>) = flat_abs s |` (- gone)"
      "ff_storageLimit s \<le> 0 \<or> int (card (dom (flat_abs s))) * flatFileSize < ff_storageLimit s \<longrightarrow> gone = {}"
      "0 < ff_storageLimit s \<longrightarrow>
       int (card (dom (flat_abs s |` (- gone)))) * flatFileSize < ff_storageLimit s"
      using flat_make_room_run [OF assms(1)] by blast
    obtain fs2 fs3 fs4 where w: "fs_mkdirAll (butlast (blockPath (ff_root s) i)) fs1 = (None, fs2)"
      "fs_write (tmpPath (blockPath (ff_root s) i)) (flat_buf E t st p) fs2 = (None, fs3)"
      "fs_rename (tmpPath (blockPath (ff_root s) i)) (blockPath (ff_root s) i) fs3 = (None, fs4)"
      "flat_inv E t (s\<lparr>ff_fs := fs4\<rparr>)"
      "flat_abs (s\<lparr>ff_fs := fs4\<rparr>) = (flat_abs s |` (- gone))(i \<mapsto> flat_new E t st p)"
      using flat_write_block [OF g(2) assms(2,3)] g(4) unfolding i_def by auto
    have "FlatFile_Put E t st p tag s = (Inr i, s\<lparr>ff_fs := fs4\<rparr>)"
      unfolding FlatFile_Put_def Let_def i_def [symmetric] k using False
      by (simp add: g(1) w)
    with w(4,5) g False show ?thesis by (intro exI [of _ fs4]) auto
  qed
qed

section \<open>The store satisfies the contract\<close>

lemma FlatFile_Put_law:
  assumes "flat_inv E t s" "wf_stamp st" "wf_payload p" "FlatFile_Put E t st p tag s = (r, s')"
  shows "flat_inv E t s' \<and> r = Inr (ComputeID E p) \<and>
    (\<forall>i b. flat_blk t s' i = Some b \<longrightarrow>
       flat_blk t s i = Some b \<or> i = ComputeID E p \<and> b = new_stored E t st p)"
proof -
  obtain fs' gone where f: "r = Inr (ComputeID E p)" "flat_inv E t s'"
    "flat_abs s' = flat_abs s \<or> flat_abs s' = (flat_abs s |` (- gone))(ComputeID E p \<mapsto> flat_new E t st p)"
    using FlatFile_Put_run [OF assms(1-3), of tag] assms(4) by (auto split: if_splits)
  have "flat_blk t s i = Some b \<or> i = ComputeID E p \<and> b = new_stored E t st p"
    if "flat_blk t s' i = Some b" for i b
    using f(3) that by (auto simp: flat_blk_def flat_new_def restrict_map_def split: if_splits)
  with f show ?thesis by blast
qed

interpretation flat: block_store "flat_store E" E "flat_inv E" flat_blk for E
proof (unfold_locales, goal_cases)
  case (3 t s t')
  then show ?case by (auto simp: flat_inv_def flat_blk_def fun_eq_iff)
next
  case (4 t s)
  then show ?case using flat_repD(1) [OF flat_invD(5)] by (auto simp: flat_blk_def dom_def)
next
  case (5 t s i b)
  then show ?case using flat_wf by (auto simp: flat_blk_def wf_dated_def)
next
  case (9 t s)
  obtain ps where ps: "fs_walk (ff_fs s) (ff_root s) = Inr ps" "block_paths s ps"
    "distinct (walk_ids ps)" "set (walk_ids ps) = dom (flat_abs s)"
    using flat_walk [OF 9] .
  have "dom (flat_blk t s) = dom (flat_abs s)" by (auto simp: flat_blk_def dom_def)
  with ps flat_loops [OF 9 ps(2)] show ?case by (simp add: FlatFile_ListIDs_def)
next
  case (10 t s lim since cur page pf)
  then show ?case using FlatFile_ListBlocks_page [of E t s lim cur page pf since] by simp
next
  case (11 t s st p tag r s')
  then show ?case using FlatFile_Put_law by simp
qed (auto simp: flat_invD FlatFile_reads)

lemma FlatFile_Put_keeps:
  assumes "flat_inv E t s" "ff_storageLimit s \<le> 0" "wf_stamp st" "wf_payload p"
    "FlatFile_Put E t st p tag s = (r, s')"
  shows "ff_storageLimit s' \<le> 0 \<and> flat_blk t s' = put_effect E t st p False (flat_blk t s)"
proof -
  let ?i = "ComputeID E p"
  obtain fs' where s': "s' = s\<lparr>ff_fs := fs'\<rparr>" and e: "if flat_keeps (flat_abs s) ?i (WorkFactor E st p)
     then flat_abs s' = flat_abs s
     else \<exists>gone. gone = {} \<and> flat_abs s' = (flat_abs s |` (- gone))(?i \<mapsto> flat_new E t st p)"
    using FlatFile_Put_run [OF assms(1,3,4), of tag] assms(2,5) by (auto split: if_splits)
  have "flat_blk t s' j = put_effect E t st p False (flat_blk t s) j" for j
    using e by (auto simp: flat_blk_def put_effect_def Let_def flat_keeps_def flat_new_def restrict_map_def
        split: option.splits if_splits)
  then show ?thesis using assms(2) by (auto simp: s' fun_eq_iff)
qed

interpretation flat_keep: keeping_store "flat_store E" E "flat_inv E" flat_blk
  "\<lambda>s. ff_storageLimit s \<le> 0" "\<lambda>t s i. False" for E
  by unfold_locales (simp_all add: FlatFile_Put_keeps FlatFile_reads)

section \<open>Properties\<close>


text \<open>The empty store at the root of an empty file system.\<close>

definition flat_empty :: FlatFileStore where
  "flat_empty = \<lparr>ff_root = [], ff_storageLimit = 0, ff_fs = fs_empty\<rparr>"

lemma flat_inv_empty: "env_ok E \<Longrightarrow> clock_ok t \<Longrightarrow> flat_inv E t flat_empty" "flat_abs flat_empty = Map.empty"
proof -
  have "flat_rep E (ff_root flat_empty) (fs_map (ff_fs flat_empty)) Map.empty"
    by (auto simp: flat_rep_def flat_empty_def fs_ok_empty split: option.split)
  then show "env_ok E \<Longrightarrow> clock_ok t \<Longrightarrow> flat_inv E t flat_empty"
    by (rule flat_invI(1) [rotated 4]) (use fs_ok_empty in \<open>simp_all add: flat_empty_def fs_empty_def\<close>)
  show "flat_abs flat_empty = Map.empty"
    by (simp add: flat_abs_def flat_empty_def fs_ok_empty fun_eq_iff)
qed

definition flat_one :: FlatFileStore where
  "flat_one = snd (FlatFile_Put env0 0 (replicate 4 7) (replicate 4096 1) TagLan flat_empty)"

lemma flat_one_inv:
  "flat_inv env0 0 flat_one"
  "flat_abs flat_one =
     [ComputeID env0 (replicate 4096 1) \<mapsto> flat_new env0 0 (replicate 4 7) (replicate 4096 1)]"
  "ff_root flat_one = []"
proof -
  have c: "clock_ok 0" by (simp add: clock_ok_def Unix_def in_int64_def)
  have w: "wf_stamp (replicate 4 7)" "wf_payload (replicate 4096 1)"
    by (simp_all add: wf_stamp_def wf_payload_def)
  have "ff_storageLimit flat_empty = 0" by (simp add: flat_empty_def)
  with FlatFile_Put_run [OF flat_inv_empty(1) [OF env_ok_env0 c] w, of TagLan]
  show "flat_inv env0 0 flat_one" "flat_abs flat_one =
     [ComputeID env0 (replicate 4096 1) \<mapsto> flat_new env0 0 (replicate 4 7) (replicate 4096 1)]"
    "ff_root flat_one = []"
    by (auto simp: flat_inv_empty(2) flat_keeps_def flat_one_def flat_empty_def [THEN arg_cong [where f = ff_root]])
qed


text \<open>\<^verbatim>\<open>FlatFileStore.Evict\<close> removes \<open>min n (number of blocks)\<close> blocks, reports
  that number, keeps the invariant and every other block, and no block that stays expires
  before one that went.\<close>

theorem FlatFile_Evict_soonest:
  assumes "flat_inv E t s"
  shows "\<exists>gone fs'. FlatFile_Evict E t n s = ((int (card gone), None), s\<lparr>ff_fs := fs'\<rparr>) \<and>
    flat_inv E t (s\<lparr>ff_fs := fs'\<rparr>) \<and> card gone = min (nat n) (card (dom (flat_abs s))) \<and>
    gone \<subseteq> dom (flat_abs s) \<and>
    (\<forall>i j bx by'. i \<in> gone \<and> flat_abs s i = Some bx \<and> j \<notin> gone \<and> flat_abs s j = Some by' \<longrightarrow>
       snd bx \<le> snd by') \<and>
    flat_abs (s\<lparr>ff_fs := fs'\<rparr>) = flat_abs s |` (- gone)"
proof -
  obtain gone fs' where e: "FlatFile_Evict E t n s = ((int (card gone), None), s\<lparr>ff_fs := fs'\<rparr>)"
    "flat_inv E t (s\<lparr>ff_fs := fs'\<rparr>)" "soonest (flat_abs s) gone"
    "card gone = min (nat n) (card (dom (flat_abs s)))" "flat_abs (s\<lparr>ff_fs := fs'\<rparr>) = flat_abs s |` (- gone)"
    using FlatFile_Evict_run [OF assms, of n] by blast
  have "snd bx \<le> snd by'" if "i \<in> gone" "flat_abs s i = Some bx" "j \<notin> gone" "flat_abs s j = Some by'"
    for i j bx by'
  proof -
    have "j \<in> dom (flat_abs s) - gone" using that(3,4) by auto
    with e(3) that(1) have "snd (the (flat_abs s i)) \<le> snd (the (flat_abs s j))"
      unfolding soonest_def by blast
    then show ?thesis by (simp add: that(2,4))
  qed
  moreover have "gone \<subseteq> dom (flat_abs s)" using e(3) by (simp add: soonest_def)
  ultimately show ?thesis using e by blast
qed

theorem FlatFile_Evict_soonest_witness:
  "\<exists>fs'. FlatFile_Evict env0 0 5 flat_one = ((1, None), flat_one\<lparr>ff_fs := fs'\<rparr>) \<and>
    flat_abs (flat_one\<lparr>ff_fs := fs'\<rparr>) = Map.empty"
proof -
  let ?i = "ComputeID env0 (replicate 4096 1)"
  have d: "dom (flat_abs flat_one) = {?i}" by (simp add: flat_one_inv(2))
  obtain gone fs' where e: "FlatFile_Evict env0 0 5 flat_one = ((int (card gone), None), flat_one\<lparr>ff_fs := fs'\<rparr>)"
    "card gone = 1" "gone \<subseteq> {?i}" "flat_abs (flat_one\<lparr>ff_fs := fs'\<rparr>) = flat_abs flat_one |` (- gone)"
    using FlatFile_Evict_soonest [OF flat_one_inv(1), of 5] unfolding d by auto
  have "gone = {?i}" using e(2,3) by (metis card.empty subset_singletonD zero_neq_one)
  with e(1,4) show ?thesis
    by (intro exI [of _ fs']) (simp add: flat_one_inv(2) restrict_map_def fun_eq_iff)
qed

end
