(* ===== verification/BlockIndex.thy ===== *)
theory BlockIndex
  imports FlatProofs
begin

text \<open>
  \<^verbatim>\<open>blockstore/index.go\<close>: the binary index of a flat-file store, its records, the
  file format and the binary search.  The compressor (\<^verbatim>\<open>compress/zlib\<close>) is a pair of
  functions with the law that decompression inverts compression; it is standard library
  code whose bytes the program never looks at.
\<close>

section \<open>Definitions\<close>

record zlib =
  zlib_compress :: "bytes \<Rightarrow> bytes"
  zlib_decompress :: "bytes \<Rightarrow> bytes option"

definition zlib_ok :: "zlib \<Rightarrow> bool" where
  "zlib_ok Z \<longleftrightarrow> (\<forall>b. zlib_decompress Z (zlib_compress Z b) = Some b)"

definition zlib0 :: zlib where
  "zlib0 = \<lparr>zlib_compress = (\<lambda>b. b), zlib_decompress = Some\<rparr>"

definition indexMagic :: string where "indexMagic = ''SNK1''"
definition indexRecSize :: nat where "indexRecSize = 38"
definition shardThreshold :: nat where "shardThreshold = 10000000"

record IndexRecord =
  ir_ID :: ID
  ir_WorkFactor :: byte
  ir_ExpiresAt :: u32

definition isExpired :: "time \<Rightarrow> IndexRecord \<Rightarrow> bool" where
  "isExpired t r \<longleftrightarrow> (word_of_int (Unix t) :: u32) > ir_ExpiresAt r"

record Index =
  ix_records :: "IndexRecord list"

function index_loop :: "IndexRecord list \<Rightarrow> ID \<Rightarrow> nat \<Rightarrow> nat \<Rightarrow> IndexRecord option" where
  "index_loop recs i lo hi =
     (if lo < hi then
        let mid = (lo + hi) div 2; cmp = bytes_Compare (ir_ID (recs ! mid)) i
        in if cmp = 0 then Some (recs ! mid)
           else if cmp < 0 then index_loop recs i (mid + 1) hi
           else index_loop recs i lo mid
      else None)"
  by auto
termination by (relation "measure (\<lambda>(recs, i, lo, hi). hi - lo)") auto

declare index_loop.simps [simp del]

definition index_search :: "Index \<Rightarrow> ID \<Rightarrow> IndexRecord option" where
  "index_search idx i = index_loop (ix_records idx) i 0 (length (ix_records idx))"

definition Index_Has :: "time \<Rightarrow> Index \<Rightarrow> ID \<Rightarrow> bool" where
  "Index_Has t idx i = (case index_search idx i of None \<Rightarrow> False | Some r \<Rightarrow> \<not> isExpired t r)"

definition Index_Records :: "time \<Rightarrow> Index \<Rightarrow> IndexRecord list" where
  "Index_Records t idx =
     (let now = word_of_int (Unix t) :: u32
      in filter (\<lambda>r. ir_ExpiresAt r > now) (ix_records idx))"

definition Index_Len :: "Index \<Rightarrow> nat" where
  "Index_Len idx = length (ix_records idx)"

fun scan_loop :: "fsys \<Rightarrow> u32 \<Rightarrow> path list \<Rightarrow> IndexRecord list" where
  "scan_loop fs now [] = []"
| "scan_loop fs now (p # ps) =
     (if length (last p) \<noteq> 2 * IDSize then scan_loop fs now ps
      else case readHeader fs p of
             Inl _ \<Rightarrow> scan_loop fs now ps
           | Inr h \<Rightarrow>
               if now > word_of_int (fh_expiresAt h) then scan_loop fs now ps
               else case name_id p of
                      None \<Rightarrow> scan_loop fs now ps
                    | Some i \<Rightarrow>
                        \<lparr>ir_ID = i, ir_WorkFactor = word_of_int (fh_wf h),
                         ir_ExpiresAt = word_of_int (fh_expiresAt h)\<rparr> # scan_loop fs now ps)"

definition scanRecords :: "time \<Rightarrow> fsys \<Rightarrow> path \<Rightarrow> io_err + IndexRecord list" where
  "scanRecords t fs storeRoot =
     (case fs_walk fs storeRoot of
        Inl e \<Rightarrow> Inl e
      | Inr ps \<Rightarrow> Inr (scan_loop fs (word_of_int (Unix t)) ps))"

definition encode_record :: "IndexRecord \<Rightarrow> bytes" where
  "encode_record r = ir_ID r @ [ir_WorkFactor r] @ PutUint32 (ir_ExpiresAt r) @ [0]"

definition encodeIndex :: "IndexRecord list \<Rightarrow> bytes" where
  "encodeIndex records =
     bytes_of_string indexMagic @ PutUint32 (word_of_nat (length records)) @
     concat (map encode_record records)"

datatype index_err = IxTruncated | IxBadMagic | IxRecords | IxIO io_err | IxZlib

definition parse_record :: "bytes \<Rightarrow> nat \<Rightarrow> IndexRecord" where
  "parse_record data k =
     (let off = k * indexRecSize
      in \<lparr>ir_ID = slice off (off + IDSize) data,
          ir_WorkFactor = data ! (off + IDSize),
          ir_ExpiresAt = Uint32 (slice (off + IDSize + 1) (off + IDSize + 5) data)\<rparr>)"

definition parseIndex :: "bytes \<Rightarrow> index_err + Index" where
  "parseIndex data =
     (if length data < 8 then Inl IxTruncated
      else if string_of_bytes (take 4 data) \<noteq> indexMagic then Inl IxBadMagic
      else let cnt = unat (Uint32 (slice 4 8 data)); rest = drop 8 data
           in if length rest < cnt * indexRecSize then Inl IxRecords
              else Inr \<lparr>ix_records = map (parse_record rest) [0..<cnt]\<rparr>)"

definition addSuffix :: "string \<Rightarrow> path \<Rightarrow> path" where
  "addSuffix suf p = butlast p @ [last p @ suf]"

text \<open>\<^verbatim>\<open>os.Create\<close>, the writes and \<^verbatim>\<open>Close\<close> are one write of the whole file:
  without its directory the creation fails, and a fault of the writes is followed by the
  removal of the temporary file.\<close>

definition writeSingleIndex :: "zlib \<Rightarrow> path \<Rightarrow> IndexRecord list \<Rightarrow> fsys \<Rightarrow> io_err option \<times> fsys" where
  "writeSingleIndex Z p records fs =
     (let tmp = addSuffix ''.tmp'' p
      in case fs_write tmp (zlib_compress Z (encodeIndex records)) fs of
           (Some NotExist, fs') \<Rightarrow> (Some NotExist, fs')
         | (Some e, fs') \<Rightarrow> (Some e, snd (fs_remove tmp fs'))
         | (None, fs') \<Rightarrow> fs_rename tmp p fs')"

definition shard_file :: "nat \<Rightarrow> string" where
  "shard_file b = hex_Encode [word_of_nat b] @ ''.bin''"

definition ShardName :: "ID \<Rightarrow> string" where
  "ShardName i = hex_Encode [i ! 0] @ ''.bin''"

text \<open>The loop over the 256 first bytes: \<open>records\<close> is what is left of the sorted list.\<close>

fun shards_loop :: "zlib \<Rightarrow> path \<Rightarrow> nat list \<Rightarrow> IndexRecord list \<Rightarrow> fsys \<Rightarrow> io_err option \<times> fsys" where
  "shards_loop Z dir [] records fs = (None, fs)"
| "shards_loop Z dir (b # bs) records fs =
     (let mine = takeWhile (\<lambda>r. ir_ID r ! 0 = word_of_nat b) records;
          rest = drop (length mine) records
      in case writeSingleIndex Z (dir @ [shard_file b]) mine fs of
           (Some e, fs') \<Rightarrow> (Some e, fs')
         | (None, fs') \<Rightarrow> shards_loop Z dir bs rest fs')"

definition writeShards :: "zlib \<Rightarrow> path \<Rightarrow> IndexRecord list \<Rightarrow> fsys \<Rightarrow> io_err option \<times> fsys" where
  "writeShards Z storeRoot records fs =
     (let shardDir = storeRoot @ [''index'']
      in case fs_mkdirAll shardDir fs of
           (Some e, fs') \<Rightarrow> (Some e, fs')
         | (None, fs') \<Rightarrow> shards_loop Z shardDir [0..<256] records fs')"

definition id_less :: "IndexRecord \<Rightarrow> IndexRecord \<Rightarrow> bool" where
  "id_less x y \<longleftrightarrow> bytes_Compare (ir_ID x) (ir_ID y) < 0"

definition BuildIndex :: "env \<Rightarrow> zlib \<Rightarrow> time \<Rightarrow> path \<Rightarrow> fsys \<Rightarrow> io_err option \<times> fsys" where
  "BuildIndex E Z t storeRoot fs =
     (case scanRecords t fs storeRoot of
        Inl e \<Rightarrow> (Some e, fs)
      | Inr records0 \<Rightarrow>
          (let records = sort_Slice (sorter E) id_less records0
           in if length records \<ge> shardThreshold then writeShards Z storeRoot records fs
              else writeSingleIndex Z (storeRoot @ [''index.bin'']) records fs))"

definition BuildShardedIndex :: "env \<Rightarrow> zlib \<Rightarrow> time \<Rightarrow> path \<Rightarrow> fsys \<Rightarrow> io_err option \<times> fsys" where
  "BuildShardedIndex E Z t storeRoot fs =
     (case scanRecords t fs storeRoot of
        Inl e \<Rightarrow> (Some e, fs)
      | Inr records0 \<Rightarrow> writeShards Z storeRoot (sort_Slice (sorter E) id_less records0) fs)"

definition OpenIndex :: "zlib \<Rightarrow> fsys \<Rightarrow> path \<Rightarrow> index_err + Index" where
  "OpenIndex Z fs p =
     (case fs_read fs p of
        Inl e \<Rightarrow> Inl (IxIO e)
      | Inr f \<Rightarrow> (case zlib_decompress Z f of None \<Rightarrow> Inl IxZlib | Some data \<Rightarrow> parseIndex data))"

section \<open>Binary search\<close>

definition strict_ids :: "IndexRecord list \<Rightarrow> bool" where
  "strict_ids recs \<longleftrightarrow> sorted_wrt (<) (map ir_ID recs)"

lemma index_loop_spec:
  assumes "strict_ids recs" "hi \<le> length recs"
    and "\<And>k. k < length recs \<Longrightarrow> ir_ID (recs ! k) = i \<Longrightarrow> lo \<le> k \<and> k < hi"
  shows "index_loop recs i lo hi = find (\<lambda>r. ir_ID r = i) recs"
  using assms
proof (induction recs i lo hi rule: index_loop.induct)
  case (1 recs i lo hi)
  have mono: "ir_ID (recs ! a) < ir_ID (recs ! b)" if "a < b" "b < length recs" for a b
    using that "1.prems"(1) by (simp add: strict_ids_def sorted_wrt_iff_nth_less)
  show ?case
  proof (cases "lo < hi")
    case False
    then have "find (\<lambda>r. ir_ID r = i) recs = None"
      using "1.prems"(3) by (fastforce simp: find_None_iff in_set_conv_nth)
    then show ?thesis using False by (subst index_loop.simps) simp
  next
    case lt: True
    define mid where "mid = (lo + hi) div 2"
    have m: "lo \<le> mid" "mid < hi" "mid < length recs" using lt "1.prems"(2) by (auto simp: mid_def)
    consider (eq) "ir_ID (recs ! mid) = i" | (lo) "ir_ID (recs ! mid) < i" | (hi) "i < ir_ID (recs ! mid)"
      by (metis linorder_less_linear)
    then show ?thesis
    proof cases
      case eq
      have "find (\<lambda>r. ir_ID r = i) recs = Some (recs ! mid)"
        using eq m(3) mono by (auto simp: find_Some_iff) (metis less_irrefl)
      then show ?thesis using lt eq by (subst index_loop.simps) (simp add: Let_def bytes_Compare_eq flip: mid_def)
    next
      case lo
      have "mid + 1 \<le> k \<and> k < hi" if "k < length recs" "ir_ID (recs ! k) = i" for k
        using "1.prems"(3) [OF that] lo mono [of k mid] m(3) that(2)
        by (metis Suc_eq_plus1 Suc_leI linorder_neqE_nat order.asym)
      then have "index_loop recs i (mid + 1) hi = find (\<lambda>r. ir_ID r = i) recs"
        using "1.IH"(1) [OF lt mid_def refl] lo "1.prems"(1,2)
        by (simp add: bytes_Compare_eq bytes_Compare_less)
      moreover have "bytes_Compare (ir_ID (recs ! mid)) i < 0" using lo by (simp add: bytes_Compare_less)
      ultimately show ?thesis using lt by (subst index_loop.simps) (simp add: Let_def flip: mid_def)
    next
      case hi
      have "lo \<le> k \<and> k < mid" if "k < length recs" "ir_ID (recs ! k) = i" for k
        using "1.prems"(3) [OF that] hi mono [of mid k] that m(3)
        by (metis linorder_neqE_nat order.asym)
      moreover have ne: "\<not> bytes_Compare (ir_ID (recs ! mid)) i \<le> 0"
        using hi by (simp add: bytes_Compare_le)
      ultimately have "index_loop recs i lo mid = find (\<lambda>r. ir_ID r = i) recs"
        using "1.IH"(2) [OF lt mid_def refl] "1.prems"(1) m(3) by simp
      then show ?thesis using lt ne by (subst index_loop.simps) (simp add: Let_def flip: mid_def)
    qed
  qed
qed

lemma index_search_find:
  "strict_ids (ix_records idx) \<Longrightarrow> index_search idx i = find (\<lambda>r. ir_ID r = i) (ix_records idx)"
  unfolding index_search_def by (rule index_loop_spec) auto

section \<open>File format\<close>

definition wf_record :: "IndexRecord \<Rightarrow> bool" where
  "wf_record r \<longleftrightarrow> wf_id (ir_ID r)"

lemma length_encode_record [simp]: "wf_record r \<Longrightarrow> length (encode_record r) = 38"
  by (simp add: encode_record_def wf_record_def wf_id_def)

lemma length_encode_records:
  "list_all wf_record rs \<Longrightarrow> length (concat (map encode_record rs)) = length rs * 38"
  by (induction rs) auto

lemma drop_encode_records:
  "list_all wf_record rs \<Longrightarrow> drop (k * 38) (concat (map encode_record rs)) = concat (map encode_record (drop k rs))"
proof (induction rs arbitrary: k)
  case (Cons r rs)
  then show ?case by (cases k) (auto simp: drop_append)
qed simp

lemma slice_off: "slice (off + a) (off + b) xs = slice a b (drop off xs)"
  by (simp add: slice_def add.commute)

lemma parse_encode_record:
  assumes "list_all wf_record rs" "k < length rs"
  shows "parse_record (concat (map encode_record rs)) k = rs ! k"
proof -
  let ?d = "concat (map encode_record rs)" and ?r = "rs ! k"
  have w: "wf_record ?r" using assms by (simp add: list_all_length)
  then have i: "length (ir_ID ?r) = 32" by (simp add: wf_record_def wf_id_def)
  have d: "drop (k * 38) ?d = encode_record ?r @ concat (map encode_record (drop (Suc k) rs))"
    using drop_encode_records [OF assms(1)] assms(2) by (simp add: Cons_nth_drop_Suc [symmetric])
  have s: "slice (k * 38 + a) (k * 38 + b) ?d = slice a b (encode_record ?r)" if "b \<le> 38" for a b
    using that w by (simp add: slice_off d slice_append_left)
  have n: "?d ! (k * 38 + 32) = encode_record ?r ! 32"
  proof -
    have "k * 38 \<le> length ?d" using assms by (simp add: length_encode_records)
    then have "?d ! (k * 38 + 32) = drop (k * 38) ?d ! 32" by simp
    then show ?thesis using w by (simp add: d nth_append)
  qed
  have "slice (k * 38) (k * 38 + 32) ?d = ir_ID ?r"
    using s [of 32 0] i by (simp add: encode_record_def slice_append_left slice_all)
  moreover have "?d ! (k * 38 + 32) = ir_WorkFactor ?r"
    using n i by (simp add: encode_record_def nth_append)
  moreover have "Uint32 (slice (k * 38 + 32 + 1) (k * 38 + 32 + 5) ?d) = ir_ExpiresAt ?r"
  proof -
    have "slice (k * 38 + 33) (k * 38 + 37) ?d = PutUint32 (ir_ExpiresAt ?r)"
      using s [of 37 33] i
      by (simp add: encode_record_def slice_append_left slice_append_right slice_Cons slice_all)
    then show ?thesis by (simp add: add.commute)
  qed
  ultimately show ?thesis
    unfolding parse_record_def indexRecSize_def Let_def IDSize_def by (cases ?r) simp
qed

lemma parse_encodeIndex:
  assumes "list_all wf_record rs" "length rs < 2 ^ 32"
  shows "parseIndex (encodeIndex rs) = Inr \<lparr>ix_records = rs\<rparr>"
proof -
  let ?d = "concat (map encode_record rs)"
  have m: "length indexMagic = 4" by (simp add: indexMagic_def)
  have c: "unat (Uint32 (slice 4 8 (encodeIndex rs))) = length rs"
    using assms(2) by (simp add: encodeIndex_def m slice_append_right slice_append_left slice_all
        unat_of_nat)
  have "map (parse_record ?d) [0..<length rs] = rs"
    using parse_encode_record [OF assms(1)] by (intro nth_equalityI) auto
  moreover have "drop 8 (encodeIndex rs) = ?d" "take 4 (encodeIndex rs) = bytes_of_string indexMagic"
    "\<not> length (encodeIndex rs) < 8"
    by (simp_all add: encodeIndex_def m)
  ultimately show ?thesis
    using c length_encode_records [OF assms(1)]
    by (simp add: parseIndex_def Let_def indexRecSize_def)
qed

section \<open>Building the index of a store\<close>

definition record_of :: "ID \<Rightarrow> dated \<Rightarrow> IndexRecord" where
  "record_of i bx =
     \<lparr>ir_ID = i, ir_WorkFactor = word_of_int (sb_wf (fst bx)), ir_ExpiresAt = word_of_int (snd bx)\<rparr>"

definition live_at :: "time \<Rightarrow> dated \<Rightarrow> bool" where
  "live_at t bx \<longleftrightarrow> \<not> (word_of_int (Unix t) :: u32) > word_of_int (snd bx)"

lemma ir_ID_record [simp]: "ir_ID (record_of i bx) = i"
  by (simp add: record_of_def)

lemma scan_loop_eq:
  assumes "flat_inv E t s" "block_paths s ps"
  shows "scan_loop (ff_fs s) (word_of_int (Unix t)) ps =
    map (\<lambda>i. record_of i (the (flat_abs s i)))
      (filter (\<lambda>i. live_at t (the (flat_abs s i))) (walk_ids ps))"
  using assms(2)
proof (induction ps)
  case (Cons p ps)
  note ih = Cons.IH [OF block_paths_Cons [THEN iffD1, OF Cons.prems, THEN conjunct1]]
  show ?case
  proof (cases "length (last p) = 64")
    case True
    then obtain i bx where i: "flat_abs s i = Some bx" "p = blockPath (ff_root s) i"
      using Cons.prems block_paths_Cons by blast
    note w = flat_abs_id [OF assms(1) i(1)]
    have n: "name_id p = Some i" using name_id_blockPath [OF w] i(2) by simp
    have h: "readHeader (ff_fs s) p = Inr (header_of bx)"
      using flat_header [OF assms(1) w] i by simp
    have wi: "walk_ids (p # ps) = i # walk_ids ps" using True n by (simp add: walk_ids_def)
    have f: "fh_expiresAt (header_of bx) = snd bx" "fh_wf (header_of bx) = sb_wf (fst bx)"
      by (simp_all add: header_of_def)
    show ?thesis unfolding wi using True ih
      by (simp add: n h f i(1) record_of_def live_at_def)
  next
    case False
    then have "walk_ids (p # ps) = walk_ids ps" by (simp add: walk_ids_def)
    with False ih show ?thesis by simp
  qed
qed (simp add: walk_ids_def)

text \<open>The records of a store: sorted by ID, one for each block that has not expired.\<close>

definition index_of :: "time \<Rightarrow> (ID \<rightharpoonup> dated) \<Rightarrow> IndexRecord list \<Rightarrow> bool" where
  "index_of t m rs \<longleftrightarrow>
     strict_ids rs \<and> list_all wf_record rs \<and>
     set rs = {record_of i bx | i bx. m i = Some bx \<and> live_at t bx}"

lemma scan_sorted:
  assumes "flat_inv E t s"
  obtains rs0 where "scanRecords t (ff_fs s) (ff_root s) = Inr rs0"
    "index_of t (flat_abs s) (sort_Slice (sorter E) id_less rs0)"
    "length (sort_Slice (sorter E) id_less rs0) \<le> card (dom (flat_abs s))"
proof -
  obtain ps where ps: "fs_walk (ff_fs s) (ff_root s) = Inr ps" "block_paths s ps"
    "distinct (walk_ids ps)" "set (walk_ids ps) = dom (flat_abs s)"
    using flat_walk [OF assms] .
  define m where "m = flat_abs s"
  define rs0 where "rs0 = scan_loop (ff_fs s) (word_of_int (Unix t)) ps"
  define rs where "rs = sort_Slice (sorter E) id_less rs0"
  have rs0: "rs0 = map (\<lambda>i. record_of i (the (m i))) (filter (\<lambda>i. live_at t (the (m i))) (walk_ids ps))"
    unfolding rs0_def m_def by (rule scan_loop_eq [OF assms ps(2)])
  note srt = env_okD(4) [OF flat_invD(1) [OF assms]]
  have key: "id_less x y \<longleftrightarrow> ir_ID x < ir_ID y" for x y by (simp add: id_less_def bytes_Compare_less)
  have ms: "mset rs = mset rs0" and so: "sorted (map ir_ID rs)"
    unfolding rs_def by (rule sort_Slice_key [OF srt key])+
  have "map ir_ID rs0 = filter (\<lambda>i. live_at t (the (m i))) (walk_ids ps)"
    by (simp add: rs0 record_of_def comp_def)
  then have "distinct (map ir_ID rs0)" using ps(3) by simp
  moreover have "mset (map ir_ID rs) = mset (map ir_ID rs0)" using ms by simp
  ultimately have "strict_ids rs"
    unfolding strict_ids_def using so by (metis mset_eq_imp_distinct_iff strict_sorted_iff)
  moreover have "set rs = {record_of i bx | i bx. m i = Some bx \<and> live_at t bx}"
  proof (intro equalityI subsetI)
    fix r assume "r \<in> set rs"
    then have "r \<in> set rs0" using mset_eq_setD [OF ms] by simp
    then obtain i where "i \<in> dom m" "live_at t (the (m i))" "r = record_of i (the (m i))"
      using ps(4) by (auto simp: rs0 m_def)
    then obtain bx where "m i = Some bx" "live_at t bx" "r = record_of i bx" by (metis domD option.sel)
    then show "r \<in> {record_of i bx | i bx. m i = Some bx \<and> live_at t bx}" by blast
  next
    fix r assume "r \<in> {record_of i bx | i bx. m i = Some bx \<and> live_at t bx}"
    then obtain i bx where "m i = Some bx" "live_at t bx" "r = record_of i bx" by blast
    then have "r \<in> set rs0" using ps(4) by (force simp: rs0 m_def)
    then show "r \<in> set rs" using mset_eq_setD [OF ms] by simp
  qed
  moreover have "list_all wf_record rs"
    using flat_abs_id [OF assms] unfolding list_all_iff \<open>set rs = _\<close>
    by (auto simp: wf_record_def record_of_def m_def)
  ultimately have "index_of t m rs" by (simp add: index_of_def)
  moreover have "length rs \<le> card (dom m)"
  proof -
    have "length rs = length rs0" using ms by (metis size_mset)
    also have "\<dots> \<le> length (walk_ids ps)" by (simp add: rs0)
    also have "\<dots> = card (dom m)" using ps(3,4) distinct_card unfolding m_def by metis
    finally show ?thesis .
  qed
  ultimately show thesis using that [of rs0] ps(1) by (simp add: scanRecords_def rs_def m_def rs0_def)
qed

lemma index_of_Has:
  assumes "index_of t m rs"
  shows "Index_Has t \<lparr>ix_records = rs\<rparr> i \<longleftrightarrow> (\<exists>bx. m i = Some bx \<and> live_at t bx)"
proof -
  have st: "strict_ids rs" and se: "set rs = {record_of i bx | i bx. m i = Some bx \<and> live_at t bx}"
    using assms by (auto simp: index_of_def)
  have f: "index_search \<lparr>ix_records = rs\<rparr> i = find (\<lambda>r. ir_ID r = i) rs"
    using index_search_find [of "\<lparr>ix_records = rs\<rparr>" i] st by simp
  show ?thesis
  proof (cases "find (\<lambda>r. ir_ID r = i) rs")
    case None
    then have "\<forall>r \<in> set rs. ir_ID r \<noteq> i" by (simp add: find_None_iff)
    moreover have "record_of i bx \<in> set rs" if "m i = Some bx" "live_at t bx" for bx
      unfolding se using that by blast
    ultimately have "\<not> (\<exists>bx. m i = Some bx \<and> live_at t bx)" using ir_ID_record by blast
    with None f show ?thesis by (simp add: Index_Has_def)
  next
    case (Some r)
    then have r: "r \<in> set rs" "ir_ID r = i" by (auto simp: find_Some_iff)
    then obtain j bx where j: "m j = Some bx" "live_at t bx" "r = record_of j bx"
      unfolding se by blast
    then have "j = i" using r(2) by simp
    with j have "m i = Some bx" "live_at t bx" "r = record_of i bx" by simp_all
    with Some f show ?thesis
      by (auto simp: Index_Has_def isExpired_def record_of_def live_at_def)
  qed
qed


lemma writeSingleIndex_ok:
  assumes "fs_ok fs" "butlast p \<in> set (fs_dirs fs)" "p \<noteq> []"
  obtains fs' where "writeSingleIndex Z p rs fs = (None, fs')" "fs_ok fs'" "fs_dirs fs' = fs_dirs fs"
    "fs_map fs' = (fs_map fs)(addSuffix ''.tmp'' p := None, p \<mapsto> zlib_compress Z (encodeIndex rs))"
proof -
  let ?tmp = "addSuffix ''.tmp'' p" and ?b = "zlib_compress Z (encodeIndex rs)"
  have "butlast ?tmp \<in> set (fs_dirs fs)" using assms(2) by (simp add: addSuffix_def)
  from fs_write_ok [OF assms(1) this, of ?b]
  obtain fs1 where 1: "fs_write ?tmp ?b fs = (None, fs1)" "fs_ok fs1" "fs_dirs fs1 = fs_dirs fs"
    "fs_map fs1 = (fs_map fs)(?tmp \<mapsto> ?b)" .
  have t: "?tmp \<noteq> p"
  proof
    assume "?tmp = p"
    then have "last ?tmp = last p" by simp
    then show False by (simp add: addSuffix_def)
  qed
  have "fs_map fs1 ?tmp = Some ?b" using 1(4) by simp
  from fs_rename_ok [OF 1(2) this t]
  obtain fs2 where 2: "fs_rename ?tmp p fs1 = (None, fs2)" "fs_ok fs2" "fs_dirs fs2 = fs_dirs fs1"
    "fs_map fs2 = (fs_map fs1)(?tmp := None, p \<mapsto> ?b)" .
  show thesis
  proof (rule that [of fs2])
    show "writeSingleIndex Z p rs fs = (None, fs2)" by (simp add: writeSingleIndex_def 1(1) 2(1))
    show "fs_map fs2 = (fs_map fs)(?tmp := None, p \<mapsto> ?b)" by (simp add: 2(4) 1(4))
  qed (simp_all add: 2 1)
qed

lemma open_written:
  assumes "zlib_ok Z" "fs_ok fs" "fs_map fs p = Some (zlib_compress Z (encodeIndex rs))"
    "list_all wf_record rs" "length rs < 2 ^ 32"
  shows "OpenIndex Z fs p = Inr \<lparr>ix_records = rs\<rparr>"
  using assms(1,3) parse_encodeIndex [OF assms(4,5)]
  by (simp add: OpenIndex_def fs_read_ok [OF assms(2)] zlib_ok_def)

text \<open>An index file does not disturb the blocks of the store.\<close>

lemma flat_inv_other_files:
  assumes "flat_inv E t s" "fs_ok fs'" "set (fs_dirs (ff_fs s)) \<subseteq> set (fs_dirs fs')"
    and "\<And>p. length (last p) = 64 \<Longrightarrow> fs_map fs' p = fs_map (ff_fs s) p"
  shows "flat_inv E t (s\<lparr>ff_fs := fs'\<rparr>)" "flat_abs (s\<lparr>ff_fs := fs'\<rparr>) = flat_abs s"
proof -
  have r: "flat_rep E (ff_root s) (fs_map fs') (flat_abs s)"
    using flat_invD(5) [OF assms(1)] assms(4) unfolding flat_rep_def by auto
  have "ff_root s \<in> set (fs_dirs fs')" using flat_invD(4) [OF assms(1)] assms(3) by blast
  then show "flat_inv E t (s\<lparr>ff_fs := fs'\<rparr>)" "flat_abs (s\<lparr>ff_fs := fs'\<rparr>) = flat_abs s"
    using flat_invI [OF flat_invD(1,2) [OF assms(1)], of "s\<lparr>ff_fs := fs'\<rparr>"] assms(2) r by simp_all
qed

lemma BuildIndex_ok:
  assumes "flat_inv E t s" "card (dom (flat_abs s)) < shardThreshold" "zlib_ok Z"
  obtains fs' rs where "BuildIndex E Z t (ff_root s) (ff_fs s) = (None, fs')"
    "OpenIndex Z fs' (ff_root s @ [''index.bin'']) = Inr \<lparr>ix_records = rs\<rparr>"
    "index_of t (flat_abs s) rs" "flat_inv E t (s\<lparr>ff_fs := fs'\<rparr>)" "flat_abs (s\<lparr>ff_fs := fs'\<rparr>) = flat_abs s"
proof -
  obtain rs0 where rs0: "scanRecords t (ff_fs s) (ff_root s) = Inr rs0"
    "index_of t (flat_abs s) (sort_Slice (sorter E) id_less rs0)"
    "length (sort_Slice (sorter E) id_less rs0) \<le> card (dom (flat_abs s))"
    using scan_sorted [OF assms(1)] .
  define rs where "rs = sort_Slice (sorter E) id_less rs0"
  have ix: "index_of t (flat_abs s) rs" using rs0(2) by (simp add: rs_def)
  then have l: "length rs < shardThreshold" "list_all wf_record rs" using assms(2) rs0(3) by (auto simp: index_of_def rs_def)
  let ?p = "ff_root s @ [''index.bin'']"
  have "butlast ?p \<in> set (fs_dirs (ff_fs s))" using flat_invD(4) [OF assms(1)] by simp
  from writeSingleIndex_ok [OF flat_invD(3) [OF assms(1)] this]
  obtain fs' where w: "writeSingleIndex Z ?p rs (ff_fs s) = (None, fs')" "fs_ok fs'"
    "fs_dirs fs' = fs_dirs (ff_fs s)" "fs_map fs' = (fs_map (ff_fs s))
       (addSuffix ''.tmp'' ?p := None, ?p \<mapsto> zlib_compress Z (encodeIndex rs))" by auto
  have b: "BuildIndex E Z t (ff_root s) (ff_fs s) = (None, fs')"
    using l(1) w(1) by (simp add: BuildIndex_def rs0(1) Let_def flip: rs_def)
  have o: "OpenIndex Z fs' ?p = Inr \<lparr>ix_records = rs\<rparr>"
    by (rule open_written [OF assms(3) w(2) _ l(2)]) (use l(1) in \<open>simp_all add: w(4) shardThreshold_def\<close>)
  have "fs_map fs' q = fs_map (ff_fs s) q" if "length (last q) = 64" for q
    using that by (auto simp: w(4) addSuffix_def)
  from flat_inv_other_files [OF assms(1) w(2) _ this] w(3) that [OF b o ix] show thesis by simp
qed

section \<open>Shards\<close>

definition first_byte :: "IndexRecord \<Rightarrow> nat" where
  "first_byte r = unat (ir_ID r ! 0)"

lemma first_byte_lt: "first_byte r < 256"
  by (simp add: first_byte_def)

lemma first_byte_mono:
  assumes "wf_record x" "wf_record y" "ir_ID x < ir_ID y" shows "first_byte x \<le> first_byte y"
proof -
  obtain a as b bs where "ir_ID x = a # as" "ir_ID y = b # bs"
    using assms(1,2) by (auto simp: wf_record_def wf_id_def length_Suc_conv numeral_eq_Suc)
  then show ?thesis using assms(3) by (auto simp: first_byte_def word_less_nat_alt)
qed

lemma first_byte_eq: "b < 256 \<Longrightarrow> ir_ID r ! 0 = word_of_nat b \<longleftrightarrow> first_byte r = b"
  by (auto simp: first_byte_def unat_of_nat word_unat_eq_iff)

lemma shard_file_inj: "a < 256 \<Longrightarrow> b < 256 \<Longrightarrow> shard_file a = shard_file b \<longleftrightarrow> a = b"
  using hex_Encode_inj [of "[word_of_nat a]" "[word_of_nat b]"]
  by (auto simp: shard_file_def word_unat_eq_iff unat_of_nat)

lemma ShardName_first: "wf_record r \<Longrightarrow> ShardName (ir_ID r) = shard_file (first_byte r)"
  by (simp add: ShardName_def shard_file_def first_byte_def)

lemma takeWhile_shard:
  assumes "strict_ids rs" "list_all wf_record rs" "\<forall>r \<in> set rs. b \<le> first_byte r" "b < 256"
  shows "takeWhile (\<lambda>r. ir_ID r ! 0 = word_of_nat b) rs = filter (\<lambda>r. first_byte r = b) rs"
    "drop (length (filter (\<lambda>r. first_byte r = b) rs)) rs = filter (\<lambda>r. b < first_byte r) rs"
proof -
  let ?P = "\<lambda>r. first_byte r = b"
  have so: "sorted_wrt (\<lambda>x y. first_byte x \<le> first_byte y) rs"
  proof (rule sorted_wrt_mono_rel [of rs "\<lambda>x y. ir_ID x < ir_ID y"])
    show "sorted_wrt (\<lambda>x y. ir_ID x < ir_ID y) rs" using assms(1) by (simp add: strict_ids_def sorted_wrt_map)
    show "first_byte x \<le> first_byte y" if "x \<in> set rs" "y \<in> set rs" "ir_ID x < ir_ID y" for x y
      using that assms(2) by (intro first_byte_mono) (auto simp: list_all_iff)
  qed
  have 1: "takeWhile ?P rs = filter ?P rs \<and> dropWhile ?P rs = filter (\<lambda>r. b < first_byte r) rs"
    using so assms(3)
  proof (induction rs)
    case (Cons r rs)
    show ?case
    proof (cases "first_byte r = b")
      case False
      then have "b < first_byte r" using Cons.prems(2) by auto
      then have "\<forall>x \<in> set (r # rs). b < first_byte x" using Cons.prems(1) by auto
      then have "filter ?P (r # rs) = []" "filter (\<lambda>r. b < first_byte r) (r # rs) = r # rs"
        by (auto simp: filter_empty_conv filter_id_conv)
      then show ?thesis using False by simp
    qed (use Cons in auto)
  qed simp
  moreover have tw: "takeWhile (\<lambda>r. ir_ID r ! 0 = word_of_nat b) rs = takeWhile ?P rs"
    using first_byte_eq [OF assms(4)] by simp
  ultimately show "takeWhile (\<lambda>r. ir_ID r ! 0 = word_of_nat b) rs = filter ?P rs" by simp
  show "drop (length (filter ?P rs)) rs = filter (\<lambda>r. b < first_byte r) rs"
    using 1 dropWhile_eq_drop [of ?P rs] by metis
qed

lemma shards_loop_ok:
  assumes "fs_ok fs" "dir \<in> set (fs_dirs fs)" "strict_ids rs" "list_all wf_record rs"
    "\<forall>r \<in> set rs. a \<le> first_byte r" "a \<le> 256"
  shows "\<exists>fs'. shards_loop Z dir [a..<256] rs fs = (None, fs') \<and> fs_ok fs' \<and> fs_dirs fs' = fs_dirs fs \<and>
    (\<forall>b. a \<le> b \<and> b < 256 \<longrightarrow> fs_map fs' (dir @ [shard_file b]) =
       Some (zlib_compress Z (encodeIndex (filter (\<lambda>r. first_byte r = b) rs)))) \<and>
    (\<forall>p. (\<forall>b \<ge> a. b < 256 \<longrightarrow> p \<noteq> dir @ [shard_file b] \<and> p \<noteq> dir @ [shard_file b @ ''.tmp'']) \<longrightarrow>
       fs_map fs' p = fs_map fs p)"
  using assms
proof (induction "256 - a" arbitrary: a fs rs)
  case 0
  then have "a = 256" by simp
  with 0 show ?case by auto
next
  case (Suc n)
  then have a: "a < 256" and up: "[a..<256] = a # [Suc a..<256]" by (auto simp: upt_conv_Cons)
  define mine where "mine = filter (\<lambda>r. first_byte r = a) rs"
  define rest where "rest = filter (\<lambda>r. a < first_byte r) rs"
  note tw = takeWhile_shard [OF Suc.prems(3-5) a, folded mine_def rest_def]
  let ?p = "dir @ [shard_file a]"
  have bl: "butlast ?p \<in> set (fs_dirs fs)" using Suc.prems(2) by simp
  obtain fs1 where w: "writeSingleIndex Z ?p mine fs = (None, fs1)" "fs_ok fs1" "fs_dirs fs1 = fs_dirs fs"
    "fs_map fs1 = (fs_map fs)(addSuffix ''.tmp'' ?p := None, ?p \<mapsto> zlib_compress Z (encodeIndex mine))"
    using writeSingleIndex_ok [OF Suc.prems(1) bl] by auto
  have tmp: "addSuffix ''.tmp'' ?p = dir @ [shard_file a @ ''.tmp'']" by (simp add: addSuffix_def)
  have step: "shards_loop Z dir [a..<256] rs fs = shards_loop Z dir [Suc a..<256] rest fs1"
    unfolding up using tw w(1) by (simp add: Let_def)
  have pre: "strict_ids rest" "list_all wf_record rest" "\<forall>r \<in> set rest. Suc a \<le> first_byte r"
    "dir \<in> set (fs_dirs fs1)" "Suc a \<le> 256" "n = 256 - Suc a"
    using Suc.prems(2-4) Suc.hyps(2) a w(3)
    by (auto simp: rest_def strict_ids_def sorted_wrt_map sorted_wrt_filter list_all_iff)
  obtain fs' where ih: "shards_loop Z dir [Suc a..<256] rest fs1 = (None, fs')" "fs_ok fs'"
    "fs_dirs fs' = fs_dirs fs1"
    "\<And>b. Suc a \<le> b \<Longrightarrow> b < 256 \<Longrightarrow> fs_map fs' (dir @ [shard_file b]) =
       Some (zlib_compress Z (encodeIndex (filter (\<lambda>r. first_byte r = b) rest)))"
    "\<And>p. (\<And>b. Suc a \<le> b \<Longrightarrow> b < 256 \<Longrightarrow> p \<noteq> dir @ [shard_file b] \<and> p \<noteq> dir @ [shard_file b @ ''.tmp'']) \<Longrightarrow>
       fs_map fs' p = fs_map fs1 p"
    using Suc.hyps(1) [OF pre(6) w(2) pre(4,1,2,3,5)] by metis
  have other: "filter (\<lambda>r. first_byte r = b) rest = filter (\<lambda>r. first_byte r = b) rs" if "a < b" for b
    using that by (auto simp: rest_def intro: filter_cong)
  have len: "length (shard_file b) = 6" for b by (simp add: shard_file_def)
  have here: "fs_map fs' ?p = Some (zlib_compress Z (encodeIndex mine))"
  proof -
    have "fs_map fs' ?p = fs_map fs1 ?p"
    proof (rule ih(5))
      fix b assume "Suc a \<le> b" "b < 256"
      then show "?p \<noteq> dir @ [shard_file b] \<and> ?p \<noteq> dir @ [shard_file b @ ''.tmp'']"
        using shard_file_inj [OF a, of b] len [of a] len [of b] by (auto dest: arg_cong [where f = length])
    qed
    then show ?thesis by (simp add: w(4))
  qed
  have files: "fs_map fs' (dir @ [shard_file b]) =
       Some (zlib_compress Z (encodeIndex (filter (\<lambda>r. first_byte r = b) rs)))" if "a \<le> b" "b < 256" for b
    using that here ih(4) [of b] other [of b] by (cases "a = b") (auto simp: mine_def)
  have rest: "fs_map fs' p = fs_map fs p"
    if "\<And>b. a \<le> b \<Longrightarrow> b < 256 \<Longrightarrow> p \<noteq> dir @ [shard_file b] \<and> p \<noteq> dir @ [shard_file b @ ''.tmp'']" for p
    using ih(5) [of p] that a by (auto simp: w(4) tmp)
  show ?case using step ih(1-3) w(3) files rest by (intro exI [of _ fs']) auto
qed

lemma BuildShardedIndex_ok:
  assumes "flat_inv E t s" "card (dom (flat_abs s)) < 2 ^ 32" "zlib_ok Z" "wf_id i"
  obtains fs' rs where "BuildShardedIndex E Z t (ff_root s) (ff_fs s) = (None, fs')"
    "OpenIndex Z fs' (ff_root s @ [''index'', ShardName i]) = Inr \<lparr>ix_records = rs\<rparr>"
    "index_of t (flat_abs s |` {j. j ! 0 = i ! 0}) rs"
    "flat_inv E t (s\<lparr>ff_fs := fs'\<rparr>)" "flat_abs (s\<lparr>ff_fs := fs'\<rparr>) = flat_abs s"
proof -
  obtain rs0 where rs0: "scanRecords t (ff_fs s) (ff_root s) = Inr rs0"
    "index_of t (flat_abs s) (sort_Slice (sorter E) id_less rs0)"
    "length (sort_Slice (sorter E) id_less rs0) \<le> card (dom (flat_abs s))"
    using scan_sorted [OF assms(1)] .
  define rs where "rs = sort_Slice (sorter E) id_less rs0"
  define b where "b = unat (i ! 0)"
  define mine where "mine = filter (\<lambda>r. first_byte r = b) rs"
  let ?d = "ff_root s @ [''index'']" and ?m = "flat_abs s" and ?n = "flat_abs s |` {j. j ! 0 = i ! 0}"
  have ix: "strict_ids rs" "list_all wf_record rs" "length rs \<le> card (dom ?m)"
    "set rs = {record_of i bx | i bx. ?m i = Some bx \<and> live_at t bx}"
    using rs0(2,3) by (simp_all add: rs_def index_of_def)
  obtain fs1 where m: "fs_mkdirAll ?d (ff_fs s) = (None, fs1)" "fs_ok fs1"
    "set (fs_dirs (ff_fs s)) \<subseteq> set (fs_dirs fs1)" "?d \<in> set (fs_dirs fs1)" "fs_map fs1 = fs_map (ff_fs s)"
    using fs_mkdirAll_ok [OF flat_invD(3) [OF assms(1)]] .
  obtain fs' where f: "shards_loop Z ?d [0..<256] rs fs1 = (None, fs')" "fs_ok fs'" "fs_dirs fs' = fs_dirs fs1"
    "\<And>b. b < 256 \<Longrightarrow> fs_map fs' (?d @ [shard_file b]) =
       Some (zlib_compress Z (encodeIndex (filter (\<lambda>r. first_byte r = b) rs)))"
    "\<And>p. (\<And>b. b < 256 \<Longrightarrow> p \<noteq> ?d @ [shard_file b] \<and> p \<noteq> ?d @ [shard_file b @ ''.tmp'']) \<Longrightarrow>
       fs_map fs' p = fs_map fs1 p"
    using shards_loop_ok [OF m(2,4) ix(1,2), of 0 Z] by (metis le0 zero_le_numeral)
  have bl: "b < 256" by (simp add: b_def)
  have sn: "ShardName i = shard_file b" by (simp add: ShardName_def shard_file_def b_def)
  have len: "length (shard_file b) = 6" for b by (simp add: shard_file_def)
  have 1: "BuildShardedIndex E Z t (ff_root s) (ff_fs s) = (None, fs')"
    using m(1) f(1) by (simp add: BuildShardedIndex_def rs0(1) writeShards_def Let_def flip: rs_def)
  have "length mine < 2 ^ 32"
    using ix(3) assms(2) length_filter_le [of _ rs] unfolding mine_def by (meson le_less_trans order_trans)
  moreover have "list_all wf_record mine" using ix(2) by (auto simp: mine_def list_all_iff)
  moreover have "fs_map fs' (?d @ [shard_file b]) = Some (zlib_compress Z (encodeIndex mine))"
    using f(4) [OF bl] by (simp add: mine_def)
  ultimately have 2: "OpenIndex Z fs' (ff_root s @ [''index'', ShardName i]) = Inr \<lparr>ix_records = mine\<rparr>"
    using open_written [OF assms(3) f(2)] by (simp add: sn)
  have fb: "first_byte (record_of j bx) = b \<longleftrightarrow> j ! 0 = i ! 0" for j bx
    by (simp add: first_byte_def b_def word_unat_eq_iff)
  have 3: "index_of t ?n mine"
    unfolding index_of_def
  proof (intro conjI)
    show "strict_ids mine"
      using ix(1) by (simp add: mine_def strict_ids_def sorted_wrt_map sorted_wrt_filter)
    show "list_all wf_record mine" by (rule \<open>list_all wf_record mine\<close>)
    have "r \<in> set mine \<longleftrightarrow> (\<exists>j bx. r = record_of j bx \<and> ?n j = Some bx \<and> live_at t bx)" for r
      unfolding mine_def set_filter ix(4) using fb by (auto simp: restrict_map_def)
    then show "set mine = {record_of j bx | j bx. ?n j = Some bx \<and> live_at t bx}" by blast
  qed
  have "fs_map fs' q = fs_map (ff_fs s) q" if "length (last q) = 64" for q
  proof -
    have "fs_map fs' q = fs_map fs1 q" by (rule f(5)) (use that len in auto)
    then show ?thesis by (simp add: m(5))
  qed
  from flat_inv_other_files [OF assms(1) f(2) _ this] f(3) m(3) that [OF 1 2 3] show thesis by simp
qed

section \<open>Properties\<close>

text \<open>The index file format round trips: parsing what was encoded gives back the
  records, for any list of fewer than \<open>2^32\<close> records.\<close>

theorem index_roundtrip:
  assumes "list_all wf_record rs" "length rs < 2 ^ 32"
  shows "parseIndex (encodeIndex rs) = Inr \<lparr>ix_records = rs\<rparr>"
  by (rule parse_encodeIndex [OF assms])

theorem index_roundtrip_witness:
  "parseIndex (encodeIndex [\<lparr>ir_ID = replicate 32 9, ir_WorkFactor = 3, ir_ExpiresAt = 77\<rparr>]) =
     Inr \<lparr>ix_records = [\<lparr>ir_ID = replicate 32 9, ir_WorkFactor = 3, ir_ExpiresAt = 77\<rparr>]\<rparr>"
  by (rule index_roundtrip) (simp_all add: wf_record_def wf_id_def)

text \<open>C34: On records strictly sorted by ID the binary search finds exactly the record
  with that ID, and reports absence otherwise.\<close>

theorem index_search_correct:
  assumes "strict_ids (ix_records idx)"
  shows "index_search idx i = Some r \<longleftrightarrow> r \<in> set (ix_records idx) \<and> ir_ID r = i"
proof -
  have d: "distinct (map ir_ID (ix_records idx))" using assms by (simp add: strict_ids_def strict_sorted_iff)
  show ?thesis
  proof
    assume "index_search idx i = Some r"
    then show "r \<in> set (ix_records idx) \<and> ir_ID r = i"
      by (auto simp: index_search_find [OF assms] find_Some_iff)
  next
    assume r: "r \<in> set (ix_records idx) \<and> ir_ID r = i"
    then obtain r' where "find (\<lambda>r. ir_ID r = i) (ix_records idx) = Some r'"
      by (cases "find (\<lambda>r. ir_ID r = i) (ix_records idx)") (auto simp: find_None_iff)
    moreover from this have "r' \<in> set (ix_records idx)" "ir_ID r' = i" by (auto simp: find_Some_iff)
    ultimately show "index_search idx i = Some r"
      using d r by (auto simp: index_search_find [OF assms] distinct_map inj_on_def)
  qed
qed

theorem index_search_correct_witness:
  "index_search \<lparr>ix_records = [\<lparr>ir_ID = [1], ir_WorkFactor = 3, ir_ExpiresAt = 77\<rparr>,
     \<lparr>ir_ID = [2], ir_WorkFactor = 4, ir_ExpiresAt = 78\<rparr>]\<rparr> [2] =
   Some \<lparr>ir_ID = [2], ir_WorkFactor = 4, ir_ExpiresAt = 78\<rparr>"
  by (subst index_search_correct) (simp_all add: strict_ids_def)

text \<open>Building the index of a store (below the sharding threshold) and opening it
  gives an index that has an ID exactly when the store holds the block and its logical
  expiry, as a 32-bit time, has not passed; the store itself is unchanged.\<close>

theorem BuildIndex_correct:
  assumes "flat_inv E t s" "card (dom (flat_abs s)) < shardThreshold" "zlib_ok Z"
  shows "\<exists>fs' idx. BuildIndex E Z t (ff_root s) (ff_fs s) = (None, fs') \<and>
    OpenIndex Z fs' (ff_root s @ [''index.bin'']) = Inr idx \<and>
    (\<forall>i. Index_Has t idx i \<longleftrightarrow>
       (\<exists>b x. flat_abs s i = Some (b, x) \<and> (word_of_int (Unix t) :: u32) \<le> word_of_int x)) \<and>
    flat_inv E t (s\<lparr>ff_fs := fs'\<rparr>) \<and> flat_abs (s\<lparr>ff_fs := fs'\<rparr>) = flat_abs s"
proof -
  obtain fs' rs where b: "BuildIndex E Z t (ff_root s) (ff_fs s) = (None, fs')"
    "OpenIndex Z fs' (ff_root s @ [''index.bin'']) = Inr \<lparr>ix_records = rs\<rparr>"
    "index_of t (flat_abs s) rs" "flat_inv E t (s\<lparr>ff_fs := fs'\<rparr>)" "flat_abs (s\<lparr>ff_fs := fs'\<rparr>) = flat_abs s"
    using BuildIndex_ok [OF assms] .
  show ?thesis using b index_of_Has [OF b(3)]
    by (intro exI [of _ fs'] exI [of _ "\<lparr>ix_records = rs\<rparr>"]) (simp add: live_at_def not_less)
qed

theorem BuildIndex_correct_witness:
  "\<exists>fs' idx. BuildIndex env0 zlib0 0 [] (ff_fs flat_one) = (None, fs') \<and>
    OpenIndex zlib0 fs' [''index.bin''] = Inr idx \<and>
    (\<forall>i. Index_Has 0 idx i \<longleftrightarrow>
       (\<exists>b x. flat_abs flat_one i = Some (b, x) \<and> (word_of_int (Unix 0) :: u32) \<le> word_of_int x))"
proof -
  have z: "zlib_ok zlib0" by (simp add: zlib_ok_def zlib0_def)
  have r: "ff_root flat_one = []" by (rule flat_one_inv(3))
  have "card (dom (flat_abs flat_one)) < shardThreshold" by (simp add: flat_one_inv(2) shardThreshold_def)
  from BuildIndex_correct [OF flat_one_inv(1) this z] show ?thesis unfolding r append_Nil by blast
qed

text \<open>The sharded index is complete: the shard named by \<^verbatim>\<open>ShardName(id)\<close> answers
  for every block ID, and building it leaves the store unchanged.\<close>

theorem BuildShardedIndex_correct:
  assumes "flat_inv E t s" "card (dom (flat_abs s)) < 2 ^ 32" "zlib_ok Z" "wf_id i"
  shows "\<exists>fs' idx. BuildShardedIndex E Z t (ff_root s) (ff_fs s) = (None, fs') \<and>
    OpenIndex Z fs' (ff_root s @ [''index'', ShardName i]) = Inr idx \<and>
    (Index_Has t idx i \<longleftrightarrow>
       (\<exists>b x. flat_abs s i = Some (b, x) \<and> (word_of_int (Unix t) :: u32) \<le> word_of_int x)) \<and>
    flat_inv E t (s\<lparr>ff_fs := fs'\<rparr>) \<and> flat_abs (s\<lparr>ff_fs := fs'\<rparr>) = flat_abs s"
proof -
  obtain fs' rs where b: "BuildShardedIndex E Z t (ff_root s) (ff_fs s) = (None, fs')"
    "OpenIndex Z fs' (ff_root s @ [''index'', ShardName i]) = Inr \<lparr>ix_records = rs\<rparr>"
    "index_of t (flat_abs s |` {j. j ! 0 = i ! 0}) rs"
    "flat_inv E t (s\<lparr>ff_fs := fs'\<rparr>)" "flat_abs (s\<lparr>ff_fs := fs'\<rparr>) = flat_abs s"
    using BuildShardedIndex_ok [OF assms] .
  show ?thesis using b index_of_Has [OF b(3), of i]
    by (intro exI [of _ fs'] exI [of _ "\<lparr>ix_records = rs\<rparr>"]) (simp add: live_at_def not_less)
qed

theorem BuildShardedIndex_correct_witness:
  "\<exists>fs' idx. BuildShardedIndex env0 zlib0 0 [] (ff_fs flat_one) = (None, fs') \<and>
    OpenIndex zlib0 fs' [''index'', ShardName (replicate 32 1)] = Inr idx"
proof -
  have z: "zlib_ok zlib0" by (simp add: zlib_ok_def zlib0_def)
  have i: "wf_id (replicate 32 1)" by (simp add: wf_id_def)
  have r: "ff_root flat_one = []" by (rule flat_one_inv(3))
  have "card (dom (flat_abs flat_one)) < 2 ^ 32" by (simp add: flat_one_inv(2))
  from BuildShardedIndex_correct [OF flat_one_inv(1) this z i] show ?thesis unfolding r append_Nil by blast
qed

text \<open>A record whose expiry is the current second is reported by \<^verbatim>\<open>Has\<close> and left
  out by \<^verbatim>\<open>Records\<close>; for every other record of a sorted index the two agree.\<close>

theorem Has_vs_Records:
  assumes "strict_ids (ix_records idx)" "r \<in> set (ix_records idx)"
  shows "(ir_ExpiresAt r = word_of_int (Unix t) \<longrightarrow>
      Index_Has t idx (ir_ID r) \<and> r \<notin> set (Index_Records t idx)) \<and>
    (ir_ExpiresAt r \<noteq> word_of_int (Unix t) \<longrightarrow>
      Index_Has t idx (ir_ID r) = (r \<in> set (Index_Records t idx)))"
proof -
  have d: "distinct (map ir_ID (ix_records idx))" using assms(1) by (simp add: strict_ids_def strict_sorted_iff)
  obtain r' where f: "find (\<lambda>x. ir_ID x = ir_ID r) (ix_records idx) = Some r'"
    using assms(2) by (cases "find (\<lambda>x. ir_ID x = ir_ID r) (ix_records idx)") (auto simp: find_None_iff)
  then have "r' \<in> set (ix_records idx)" "ir_ID r' = ir_ID r" by (auto simp: find_Some_iff)
  then have "r' = r" using d assms(2) by (auto simp: distinct_map inj_on_def)
  then show ?thesis using f assms(2)
    by (auto simp: Index_Has_def Index_Records_def isExpired_def Let_def index_search_find [OF assms(1)])
qed

theorem Has_vs_Records_witness:
  "Index_Has 5000000000 \<lparr>ix_records = [\<lparr>ir_ID = [1], ir_WorkFactor = 3, ir_ExpiresAt = 5\<rparr>]\<rparr> [1] \<and>
   \<lparr>ir_ID = [1], ir_WorkFactor = 3, ir_ExpiresAt = 5\<rparr> \<notin>
     set (Index_Records 5000000000 \<lparr>ix_records = [\<lparr>ir_ID = [1], ir_WorkFactor = 3, ir_ExpiresAt = 5\<rparr>]\<rparr>)"
  using Has_vs_Records [of "\<lparr>ix_records = [\<lparr>ir_ID = [1], ir_WorkFactor = 3, ir_ExpiresAt = 5\<rparr>]\<rparr>"
      "\<lparr>ir_ID = [1], ir_WorkFactor = 3, ir_ExpiresAt = 5\<rparr>" 5000000000]
  by (simp add: strict_ids_def Unix_def nsPerSec_def)

end
