(* ===== verification/GoStrings.thy ===== *)
theory GoStrings
  imports Codecs "HOL-Library.Sublist"
begin

text \<open>
  What the sources use of the packages \<^verbatim>\<open>strings\<close>, \<^verbatim>\<open>bytes\<close> and \<^verbatim>\<open>unicode\<close>:
  decoding of UTF-8 (an invalid byte is the replacement character, one byte wide),
  trimming of white space, searching for a byte.
\<close>

section \<open>UTF-8\<close>

definition is_cont :: "nat \<Rightarrow> bool" where
  "is_cont b \<longleftrightarrow> 0x80 \<le> b \<and> b \<le> 0xBF"

definition runeError :: nat where "runeError = 0xFFFD"

text \<open>The first character of a non-empty text and its width.\<close>

fun decode2 :: "nat \<Rightarrow> nat list \<Rightarrow> nat \<times> nat" where
  "decode2 b0 (b1 # _) = (if is_cont b1 then ((b0 - 0xC0) * 64 + (b1 - 0x80), 2) else (runeError, 1))"
| "decode2 b0 _ = (runeError, 1)"

fun decode3 :: "nat \<Rightarrow> nat list \<Rightarrow> nat \<times> nat" where
  "decode3 b0 (b1 # b2 # _) =
     (if is_cont b1 \<and> is_cont b2 \<and> (b0 = 0xE0 \<longrightarrow> 0xA0 \<le> b1) \<and> (b0 = 0xED \<longrightarrow> b1 \<le> 0x9F)
      then ((b0 - 0xE0) * 4096 + (b1 - 0x80) * 64 + (b2 - 0x80), 3) else (runeError, 1))"
| "decode3 b0 _ = (runeError, 1)"

fun decode4 :: "nat \<Rightarrow> nat list \<Rightarrow> nat \<times> nat" where
  "decode4 b0 (b1 # b2 # b3 # _) =
     (if is_cont b1 \<and> is_cont b2 \<and> is_cont b3 \<and> (b0 = 0xF0 \<longrightarrow> 0x90 \<le> b1) \<and> (b0 = 0xF4 \<longrightarrow> b1 \<le> 0x8F)
      then ((b0 - 0xF0) * 262144 + (b1 - 0x80) * 4096 + (b2 - 0x80) * 64 + (b3 - 0x80), 4) else (runeError, 1))"
| "decode4 b0 _ = (runeError, 1)"

definition decodeRune :: "nat \<Rightarrow> nat list \<Rightarrow> nat \<times> nat" where
  "decodeRune b0 bs =
     (if b0 < 0x80 then (b0, 1)
      else if 0xC2 \<le> b0 \<and> b0 \<le> 0xDF then decode2 b0 bs
      else if 0xE0 \<le> b0 \<and> b0 \<le> 0xEF then decode3 b0 bs
      else if 0xF0 \<le> b0 \<and> b0 \<le> 0xF4 then decode4 b0 bs
      else (runeError, 1))"

function runes_of :: "nat list \<Rightarrow> nat list" where
  "runes_of [] = []"
| "runes_of (b # bs) = (let (r, w) = decodeRune b bs in r # runes_of (drop (w - 1) bs))"
  by pat_completeness auto
termination by (relation "measure length") auto

definition runes :: "string \<Rightarrow> nat list" where
  "runes s = runes_of (map (\<lambda>c. of_char c) s)"

text \<open>\<^verbatim>\<open>unicode.IsControl\<close>: the category Cc.\<close>

definition IsControl :: "nat \<Rightarrow> bool" where
  "IsControl r \<longleftrightarrow> r < 0x20 \<or> 0x7F \<le> r \<and> r < 0xA0"

lemma runes_ascii: "\<forall>c \<in> set s. of_char c < (128 :: nat) \<Longrightarrow> runes s = map of_char s"
proof -
  assume "\<forall>c \<in> set s. of_char c < (128 :: nat)"
  then show ?thesis unfolding runes_def
  proof (induction s)
    case (Cons c s)
    then show ?case by (simp add: decodeRune_def)
  qed simp
qed

section \<open>Trimming\<close>

text \<open>The white space of \<^verbatim>\<open>unicode.IsSpace\<close>, each character as its UTF-8 bytes.\<close>

definition space_seqs :: "nat list list" where
  "space_seqs =
     [[9], [10], [11], [12], [13], [32], [0xC2, 0x85], [0xC2, 0xA0], [0xE1, 0x9A, 0x80],
      [0xE2, 0x80, 0x80], [0xE2, 0x80, 0x81], [0xE2, 0x80, 0x82], [0xE2, 0x80, 0x83], [0xE2, 0x80, 0x84],
      [0xE2, 0x80, 0x85], [0xE2, 0x80, 0x86], [0xE2, 0x80, 0x87], [0xE2, 0x80, 0x88], [0xE2, 0x80, 0x89],
      [0xE2, 0x80, 0x8A], [0xE2, 0x80, 0xA8], [0xE2, 0x80, 0xA9], [0xE2, 0x80, 0xAF], [0xE2, 0x81, 0x9F],
      [0xE3, 0x80, 0x80]]"

definition spaces :: "string list" where
  "spaces = map (map char_of) space_seqs"

lemma spaces_nonempty: "q \<in> set spaces \<Longrightarrow> 0 < length q"
  by (auto simp: spaces_def space_seqs_def)

function trim_with :: "string list \<Rightarrow> string \<Rightarrow> string" where
  "trim_with seqs s =
     (case find (\<lambda>q. q \<noteq> [] \<and> prefix q s) seqs of
        None \<Rightarrow> s
      | Some q \<Rightarrow> trim_with seqs (drop (length q) s))"
  by auto
termination
  by (relation "measure (\<lambda>(seqs, s). length s)") (fastforce simp: find_Some_iff prefix_def)+

declare trim_with.simps [simp del]

definition TrimSpace :: "string \<Rightarrow> string" where
  "TrimSpace s = rev (trim_with (map rev spaces) (rev (trim_with spaces s)))"

text \<open>Text that starts and ends with visible ASCII characters is left alone.\<close>

definition visible :: "char \<Rightarrow> bool" where
  "visible c \<longleftrightarrow> 33 \<le> (of_char c :: nat) \<and> of_char c < (128 :: nat)"

lemma space_heads:
  "q \<in> set spaces \<Longrightarrow> \<not> visible (hd q)" "q \<in> set spaces \<Longrightarrow> \<not> visible (last q)"
  by (auto simp: spaces_def space_seqs_def visible_def)

lemma trim_with_visible:
  assumes "s = [] \<or> visible (hd s)" "\<And>q. q \<in> set seqs \<Longrightarrow> \<not> visible (hd q)"
  shows "trim_with seqs s = s"
proof -
  have "\<not> (q \<noteq> [] \<and> prefix q s)" if "q \<in> set seqs" for q
    using assms(1) assms(2) [OF that] by (auto simp: prefix_def)
  then have "find (\<lambda>q. q \<noteq> [] \<and> prefix q s) seqs = None" by (auto simp: find_None_iff)
  then show ?thesis by (subst trim_with.simps) simp
qed

lemma TrimSpace_visible:
  assumes "s = [] \<or> visible (hd s) \<and> visible (last s)"
  shows "TrimSpace s = s"
proof -
  have "trim_with spaces s = s" using assms space_heads(1) by (intro trim_with_visible) auto
  moreover have "trim_with (map rev spaces) (rev s) = rev s"
  proof (rule trim_with_visible)
    show "rev s = [] \<or> visible (hd (rev s))" using assms by (cases "s = []") (auto simp: hd_rev)
    fix q assume "q \<in> set (map rev spaces)"
    then show "\<not> visible (hd q)" using space_heads(2) spaces_nonempty by (auto simp: hd_rev)
  qed
  ultimately show ?thesis by (simp add: TrimSpace_def)
qed

section \<open>Searching\<close>

fun indexOf :: "'a \<Rightarrow> 'a list \<Rightarrow> nat option" where
  "indexOf c [] = None"
| "indexOf c (x # xs) = (if x = c then Some 0 else map_option Suc (indexOf c xs))"

definition lastIndexOf :: "'a \<Rightarrow> 'a list \<Rightarrow> nat option" where
  "lastIndexOf c xs = map_option (\<lambda>k. length xs - 1 - k) (indexOf c (rev xs))"

lemma indexOf_append: "c \<notin> set xs \<Longrightarrow> indexOf c (xs @ c # ys) = Some (length xs)"
  by (induction xs) auto

lemma indexOf_None: "indexOf c xs = None \<longleftrightarrow> c \<notin> set xs"
  by (induction xs) auto

lemma lastIndexOf_append: "c \<notin> set ys \<Longrightarrow> lastIndexOf c (xs @ c # ys) = Some (length xs)"
  by (simp add: lastIndexOf_def indexOf_append)

end
