(* ===== verification/NetTags.thy ===== *)
theory NetTags
  imports Blockstore GoStrings "HOL-Library.Char_ord"
begin

text \<open>
  How a block gets its origin tag: \<^verbatim>\<open>tagFromRemoteAddr\<close> of
  \<^verbatim>\<open>transport/relay/server.go\<close>, \<^verbatim>\<open>tagForURL\<close> of \<^verbatim>\<open>client.go\<close> and the
  classifier of \<^verbatim>\<open>geoip.go\<close>.  The text parsers of the packages \<^verbatim>\<open>net\<close> and
  \<^verbatim>\<open>net/url\<close> and the lookup in the MaxMind database (a third-party reader) are
  parameters; what the code decides from an address is defined on its bytes.
\<close>

record net =
  net_SplitHostPort :: "string \<Rightarrow> string option"
  net_ParseIP :: "string \<Rightarrow> bytes option"
  url_Hostname :: "string \<Rightarrow> string option"
  url_Parse :: "string \<Rightarrow> (string \<times> string) option"
  net_Port :: "string \<Rightarrow> string"

text \<open>Address parsers for instances: no address is accepted, a URL is a scheme and a host.\<close>

definition net0 :: net where
  "net0 = \<lparr>net_SplitHostPort = (\<lambda>_. None), net_ParseIP = (\<lambda>_. None), url_Hostname = (\<lambda>_. None),
     url_Parse = (\<lambda>u. if prefix ''http://'' u then Some (''http'', drop 7 u) else None), net_Port = (\<lambda>_. [])\<rparr>"

section \<open>net.IP\<close>

definition To4 :: "bytes \<Rightarrow> bytes option" where
  "To4 ip =
     (if length ip = 4 then Some ip
      else if length ip = 16 \<and> take 10 ip = replicate 10 0 \<and> ip ! 10 = 255 \<and> ip ! 11 = 255
      then Some (drop 12 ip) else None)"

definition IsPrivate :: "bytes \<Rightarrow> bool" where
  "IsPrivate ip =
     (case To4 ip of
        Some ip4 \<Rightarrow>
          ip4 ! 0 = 10 \<or> ip4 ! 0 = 172 \<and> ip4 ! 1 AND 0xf0 = 16 \<or> ip4 ! 0 = 192 \<and> ip4 ! 1 = 168
      | None \<Rightarrow> length ip = 16 \<and> ip ! 0 AND 0xfe = 0xfc)"

definition IsLoopback :: "bytes \<Rightarrow> bool" where
  "IsLoopback ip =
     (case To4 ip of
        Some ip4 \<Rightarrow> ip4 ! 0 = 127
      | None \<Rightarrow> ip = replicate 15 0 @ [1])"

definition IsLinkLocalUnicast :: "bytes \<Rightarrow> bool" where
  "IsLinkLocalUnicast ip =
     (case To4 ip of
        Some ip4 \<Rightarrow> ip4 ! 0 = 169 \<and> ip4 ! 1 = 254
      | None \<Rightarrow> length ip = 16 \<and> ip ! 0 = 0xfe \<and> ip ! 1 AND 0xc0 = 0x80)"

definition isLanIP :: "bytes \<Rightarrow> bool" where
  "isLanIP ip \<longleftrightarrow> IsPrivate ip \<or> IsLoopback ip \<or> IsLinkLocalUnicast ip"

section \<open>Tags from addresses\<close>

definition tagFromRemoteAddr :: "net \<Rightarrow> string \<Rightarrow> Tag" where
  "tagFromRemoteAddr N addr =
     (let host = (case net_SplitHostPort N addr of None \<Rightarrow> addr | Some h \<Rightarrow> h)
      in case net_ParseIP N host of
           Some ip \<Rightarrow> if isLanIP ip then TagLan else TagGlobal
         | None \<Rightarrow> TagGlobal)"

definition tagForURL :: "net \<Rightarrow> string \<Rightarrow> Tag" where
  "tagForURL N rawURL =
     (case url_Hostname N rawURL of
        None \<Rightarrow> TagGlobal
      | Some host \<Rightarrow>
          (case net_ParseIP N host of
             Some ip \<Rightarrow> if isLanIP ip then TagLan else TagGlobal
           | None \<Rightarrow> TagGlobal))"

section \<open>Regions\<close>

record regionSpec =
  rs_country :: string
  rs_subdivision :: string

record GeoIP =
  g_regions :: "regionSpec list"
  g_reader :: "(bytes \<Rightarrow> (string \<times> string list) option) option"

text \<open>\<^verbatim>\<open>strings.ToUpper\<close> on ASCII text (ISO 3166 codes).\<close>

definition upperChar :: "char \<Rightarrow> char" where
  "upperChar c = (if CHR ''a'' \<le> c \<and> c \<le> CHR ''z'' then char_of (of_char c - 32 :: nat) else c)"

definition ToUpper :: "string \<Rightarrow> string" where
  "ToUpper s = map upperChar s"

definition parseRegion :: "string \<Rightarrow> regionSpec option" where
  "parseRegion r0 =
     (let r = ToUpper (TrimSpace r0)
      in if r = [] then None
         else if CHR ''-'' \<in> set r
         then Some \<lparr>rs_country = takeWhile (\<lambda>c. c \<noteq> CHR ''-'') r,
                    rs_subdivision = tl (dropWhile (\<lambda>c. c \<noteq> CHR ''-'') r)\<rparr>
         else Some \<lparr>rs_country = r, rs_subdivision = []\<rparr>)"

definition NewGeoIP :: "string list \<Rightarrow> GeoIP" where
  "NewGeoIP regions = \<lparr>g_regions = List.map_filter parseRegion regions, g_reader = None\<rparr>"

text \<open>\<^verbatim>\<open>load\<close>: a database that opens replaces the reader, an error keeps the old one.\<close>

definition GeoIP_load :: "(string + (bytes \<Rightarrow> (string \<times> string list) option)) \<Rightarrow> GeoIP \<Rightarrow> GeoIP" where
  "GeoIP_load opened g = (case opened of Inl e \<Rightarrow> g | Inr r \<Rightarrow> g\<lparr>g_reader := Some r\<rparr>)"

definition isRegional :: "GeoIP \<Rightarrow> bytes \<Rightarrow> bool" where
  "isRegional g ip =
     (if g_regions g = [] then False
      else case g_reader g of
             None \<Rightarrow> False
           | Some City \<Rightarrow>
               (case City ip of
                  None \<Rightarrow> False
                | Some (country, subs) \<Rightarrow>
                    (let subdiv = (case subs of [] \<Rightarrow> [] | s # _ \<Rightarrow> s)
                     in list_ex (\<lambda>spec. rs_country spec = country \<and>
                          (rs_subdivision spec = [] \<or> rs_subdivision spec = subdiv)) (g_regions g))))"

definition GeoIP_Tag :: "net \<Rightarrow> GeoIP \<Rightarrow> string \<Rightarrow> Tag" where
  "GeoIP_Tag N g addr =
     (let host = (case net_SplitHostPort N addr of None \<Rightarrow> addr | Some h \<Rightarrow> h)
      in case net_ParseIP N host of
           None \<Rightarrow> TagGlobal
         | Some ip \<Rightarrow>
             if isLanIP ip then TagLan
             else if isRegional g ip then TagRegional else TagGlobal)"

lemma GeoIP_Tag_no_regions: "g_regions g = [] \<Longrightarrow> GeoIP_Tag N g addr = tagFromRemoteAddr N addr"
  by (simp add: GeoIP_Tag_def tagFromRemoteAddr_def isRegional_def Let_def split: option.split)

section \<open>Properties\<close>

text \<open>The classifier refines the plain LAN-or-Global rule: the tag is LAN exactly when
  the plain rule says LAN; a Global address becomes Regional only when a loaded database
  places it in a configured country (and subdivision, when one is configured).\<close>

theorem GeoIP_Tag_refines:
  "(GeoIP_Tag N g addr = TagLan \<longleftrightarrow> tagFromRemoteAddr N addr = TagLan) \<and>
   GeoIP_Tag N g addr \<in> {TagLan, TagRegional, TagGlobal} \<and>
   (GeoIP_Tag N g addr = TagRegional \<longrightarrow>
     (\<exists>ip City country subs spec. g_reader g = Some City \<and> City ip = Some (country, subs) \<and>
        spec \<in> set (g_regions g) \<and> rs_country spec = country \<and>
        (rs_subdivision spec = [] \<or> (\<exists>rest. subs = rs_subdivision spec # rest))))"
proof -
  have r: "\<exists>City country subs spec. g_reader g = Some City \<and> City ip = Some (country, subs) \<and>
      spec \<in> set (g_regions g) \<and> rs_country spec = country \<and>
      (rs_subdivision spec = [] \<or> (\<exists>rest. subs = rs_subdivision spec # rest))" if reg: "isRegional g ip" for ip
  proof -
    obtain City country subs where c: "g_reader g = Some City" "City ip = Some (country, subs)"
      using reg by (auto simp: isRegional_def split: if_splits option.splits)
    obtain spec where "spec \<in> set (g_regions g)" "rs_country spec = country"
      "rs_subdivision spec = [] \<or> rs_subdivision spec = (case subs of [] \<Rightarrow> [] | s # _ \<Rightarrow> s)"
      using reg c by (auto simp: isRegional_def Let_def list_ex_iff split: if_splits)
    then show ?thesis using c by (cases subs) auto
  qed
  have 1: "(GeoIP_Tag N g addr = TagLan \<longleftrightarrow> tagFromRemoteAddr N addr = TagLan) \<and>
      GeoIP_Tag N g addr \<in> {TagLan, TagRegional, TagGlobal}"
    unfolding GeoIP_Tag_def tagFromRemoteAddr_def Let_def
    by (auto simp: tag_defs split: option.split if_splits)
  have "GeoIP_Tag N g addr = TagRegional \<longrightarrow> (\<exists>ip. isRegional g ip)"
    unfolding GeoIP_Tag_def Let_def by (auto simp: tag_defs split: option.split if_splits)
  with r 1 show ?thesis by blast
qed

theorem GeoIP_Tag_refines_witness:
  "GeoIP_Tag (net0\<lparr>net_ParseIP := \<lambda>_. Some [8, 8, 8, 8]\<rparr>)
     (GeoIP_load (Inr (\<lambda>_. Some (''US'', [''GA'']))) (NewGeoIP ['' us-ga ''])) ''8.8.8.8''
     \<in> {TagLan, TagRegional, TagGlobal}"
  using GeoIP_Tag_refines by blast

end
