(* ===== verification/MessageFormat.thy ===== *)
theory MessageFormat
  imports Pow
begin

text \<open>
  \<^verbatim>\<open>client/message_format.go\<close>: the fixed-size plaintext of a message (version 3), its
  encoder and decoder, the embedded signature and the skip list of a thread.  The
  signature scheme (\<^verbatim>\<open>crypto/ed25519\<close>) is a pair of functions; a private key is the
  32-byte seed followed by the public key, as the package documents.
\<close>

section \<open>Layout\<close>

definition pubKeySize :: nat where "pubKeySize = 32"
definition nonceSize :: nat where "nonceSize = 24"
definition tagSize :: nat where "tagSize = 16"
definition ciphertextOffset :: nat where "ciphertextOffset = pubKeySize + nonceSize"
definition plaintextSize :: nat where "plaintextSize = PayloadSize - ciphertextOffset - tagSize"
definition threadCount :: nat where "threadCount = 8"
definition V3HeaderSize :: nat where "V3HeaderSize = 368"
definition V3MaxContent :: nat where "V3MaxContent = plaintextSize - V3HeaderSize"

lemmas format_sizes [simp, size_simps] = pubKeySize_def nonceSize_def tagSize_def ciphertextOffset_def
  plaintextSize_def threadCount_def V3HeaderSize_def V3MaxContent_def

definition MagicV3 :: bytes where "MagicV3 = [0x53, 0x4E, 0x4B, 0x03]"

definition MsgTypeText :: byte where "MsgTypeText = 0"
definition MsgTypeBinary :: byte where "MsgTypeBinary = 1"
definition MsgTypeSystem :: byte where "MsgTypeSystem = 2"
definition MsgTypePost :: byte where "MsgTypePost = 3"
definition MsgTypeEdit :: byte where "MsgTypeEdit = 4"
definition MsgTypeDelete :: byte where "MsgTypeDelete = 5"

datatype format_err = ErrNotV3 | ErrMalformed | ErrContentTooLarge

record MessagePayload =
  mp_MsgType :: byte
  mp_Flags :: byte
  mp_Timestamp :: int
  mp_SenderPub :: bytes
  mp_Signature :: bytes
  mp_ThreadRefs :: "bytes list"
  mp_Content :: bytes
  mp_Channel :: string
  mp_SentTo :: bytes
  mp_DecryptedBy :: string

text \<open>The zero value of the struct.\<close>

definition zero_mp :: MessagePayload where
  "zero_mp = \<lparr>mp_MsgType = 0, mp_Flags = 0, mp_Timestamp = 0, mp_SenderPub = replicate 32 0,
     mp_Signature = replicate 64 0, mp_ThreadRefs = replicate 8 (replicate 32 0), mp_Content = [],
     mp_Channel = [], mp_SentTo = [], mp_DecryptedBy = []\<rparr>"

definition IsAnonymous :: "MessagePayload \<Rightarrow> bool" where
  "IsAnonymous p \<longleftrightarrow> mp_SenderPub p = replicate 32 0"

text \<open>The fields are copied into a zeroed array at the offsets of the layout.\<close>

definition put_refs :: "bytes list \<Rightarrow> bytes \<Rightarrow> bytes" where
  "put_refs refs buf =
     fold (\<lambda>i buf. poke (110 + i * 32) (refs ! i) buf) [0..<threadCount] buf"

definition EncodePayload :: "MessagePayload \<Rightarrow> format_err + bytes" where
  "EncodePayload p =
     (if length (mp_Content p) > V3MaxContent then Inl ErrContentTooLarge
      else
        let buf = replicate plaintextSize 0;
            buf = poke 0 MagicV3 buf;
            buf = poke 4 [mp_MsgType p] buf;
            buf = poke 5 [mp_Flags p] buf;
            buf = poke 6 (LePutUint64 (word_of_int (mp_Timestamp p))) buf;
            buf = poke 14 (mp_SenderPub p) buf;
            buf = poke 46 (mp_Signature p) buf;
            buf = put_refs (mp_ThreadRefs p) buf;
            buf = poke 366 (LePutUint16 (word_of_nat (length (mp_Content p)))) buf
        in Inr (poke 368 (mp_Content p) buf))"

definition DecodePayload :: "bytes \<Rightarrow> format_err + MessagePayload" where
  "DecodePayload plain =
     (if slice 0 4 plain \<noteq> MagicV3 then Inl ErrNotV3
      else
        let contentLen = unat (LeUint16 (slice 366 368 plain))
        in if contentLen > V3MaxContent then Inl ErrMalformed
           else Inr \<lparr>mp_MsgType = plain ! 4, mp_Flags = plain ! 5,
                     mp_Timestamp = sint (LeUint64 (slice 6 14 plain)),
                     mp_SenderPub = slice 14 46 plain, mp_Signature = slice 46 110 plain,
                     mp_ThreadRefs = map (\<lambda>i. slice (110 + i * 32) (110 + (i + 1) * 32) plain) [0..<threadCount],
                     mp_Content = slice 368 (368 + contentLen) plain,
                     mp_Channel = [], mp_SentTo = [], mp_DecryptedBy = []\<rparr>)"

section \<open>Signatures\<close>

record ed25519 =
  ed_Public :: "bytes \<Rightarrow> bytes"
  ed_Sign :: "bytes \<Rightarrow> bytes \<Rightarrow> bytes"
  ed_Verify :: "bytes \<Rightarrow> bytes \<Rightarrow> bytes \<Rightarrow> bool"

text \<open>\<open>ed_key D seed\<close> is the private key of a seed.\<close>

definition ed_key :: "ed25519 \<Rightarrow> bytes \<Rightarrow> bytes" where
  "ed_key D seed = seed @ ed_Public D seed"

definition ed_ok :: "ed25519 \<Rightarrow> bool" where
  "ed_ok D \<longleftrightarrow>
     (\<forall>seed. length seed = 32 \<longrightarrow> length (ed_Public D seed) = 32) \<and>
     (\<forall>k m. length (ed_Sign D k m) = 64) \<and>
     (\<forall>seed m. length seed = 32 \<longrightarrow> ed_Verify D (ed_Public D seed) m (ed_Sign D (ed_key D seed) m))"

definition SignPayload :: "ed25519 \<Rightarrow> bytes \<Rightarrow> bytes \<Rightarrow> bytes" where
  "SignPayload D sigKey plain =
     (let z = poke 46 (replicate 64 0) plain; sig = ed_Sign D sigKey z
      in poke 46 sig z)"

definition VerifySignature :: "ed25519 \<Rightarrow> bytes \<Rightarrow> bool" where
  "VerifySignature D plain =
     (if slice 14 46 plain = replicate 32 0 then False
      else
        let sig = slice 46 110 plain; z = poke 46 (replicate 64 0) plain; pub = slice 14 46 z
        in ed_Verify D pub z sig)"

definition BuildThreadRefs :: "bytes \<Rightarrow> bytes list \<Rightarrow> bytes list" where
  "BuildThreadRefs target prevRefs =
     target # map (\<lambda>i. prevRefs ! (i - 1)) [1..<threadCount]"

section \<open>Reading back what was written\<close>

lemma slice_poke_same:
  "i \<le> j \<Longrightarrow> length v = j - i \<Longrightarrow> j \<le> length xs \<Longrightarrow> slice i j (poke i v xs) = v"
  by (simp add: slice_def poke_def)

lemma slice_poke_prefix:
  "i \<le> j \<Longrightarrow> j \<le> i + length v \<Longrightarrow> i + length v \<le> length xs \<Longrightarrow>
   slice i j (poke i v xs) = take (j - i) v"
  by (simp add: slice_def poke_def)

lemma slice_poke_before:
  "b \<le> i \<Longrightarrow> i \<le> length xs \<Longrightarrow> slice a b (poke i v xs) = slice a b xs"
  by (auto simp: slice_def poke_def min_def drop_take)

lemma slice_poke_after:
  "i + length v \<le> a \<Longrightarrow> i \<le> length xs \<Longrightarrow> slice a b (poke i v xs) = slice a b xs"
  by (simp add: slice_def poke_def)

lemma nth_poke:
  "i + length v \<le> length xs \<Longrightarrow> k < length xs \<Longrightarrow>
   poke i v xs ! k = (if i \<le> k \<and> k < i + length v then v ! (k - i) else xs ! k)"
  by (auto simp: poke_def nth_append min_def)

lemma poke_poke_same:
  "length v = length w \<Longrightarrow> i + length v \<le> length xs \<Longrightarrow> poke i v (poke i w xs) = poke i v xs"
  by (simp add: poke_def)

lemma poke_slice_self:
  "i + n \<le> length xs \<Longrightarrow> poke i (slice i (i + n) xs) xs = xs"
  by (simp add: poke_def slice_def) (metis add.commute append_take_drop_id drop_drop)

lemmas poke_reads = slice_poke_same slice_poke_prefix slice_poke_before slice_poke_after nth_poke

definition wf_mp :: "MessagePayload \<Rightarrow> bool" where
  "wf_mp p \<longleftrightarrow> in_int64 (mp_Timestamp p) \<and> length (mp_SenderPub p) = 32 \<and> length (mp_Signature p) = 64 \<and>
     length (mp_ThreadRefs p) = 8 \<and> list_all (\<lambda>r. length r = 32) (mp_ThreadRefs p)"

lemma wf_refs_nth: "wf_mp p \<Longrightarrow> i < 8 \<Longrightarrow> length (mp_ThreadRefs p ! i) = 32"
  by (simp add: wf_mp_def list_all_length)

lemma upt8: "[0..<8] = [0, 1, 2, 3, 4, 5, 6, 7::nat]"
  by (simp add: upt_rec)

lemma put_refs_slices:
  assumes "length refs = 8" "list_all (\<lambda>r. length r = 32) refs" "length buf = plaintextSize"
  shows "length (put_refs refs buf) = plaintextSize"
    "i < 8 \<Longrightarrow> slice (110 + i * 32) (110 + (i + 1) * 32) (put_refs refs buf) = refs ! i"
    "b \<le> 110 \<Longrightarrow> slice a b (put_refs refs buf) = slice a b buf"
    "366 \<le> a \<Longrightarrow> slice a b (put_refs refs buf) = slice a b buf"
    "k < 110 \<Longrightarrow> put_refs refs buf ! k = buf ! k"
proof -
  have r: "length (refs ! i) = 32" if "i < 8" for i using assms that by (simp add: list_all_length)
  define f where "f = (\<lambda>n. fold (\<lambda>i buf. poke (110 + i * 32) (refs ! i) buf) [0..<n] buf)"
  have f: "length (f n) = 4024 \<and>
      (\<forall>i < n. slice (110 + i * 32) (110 + (i + 1) * 32) (f n) = refs ! i) \<and>
      (\<forall>a b. b \<le> 110 \<longrightarrow> slice a b (f n) = slice a b buf) \<and>
      (\<forall>a b. 366 \<le> a \<longrightarrow> slice a b (f n) = slice a b buf) \<and>
      (\<forall>k < 110. f n ! k = buf ! k)" if "n \<le> 8" for n
    using that
  proof (induction n)
    case (Suc n)
    then have ih: "length (f n) = 4024" "\<And>i. i < n \<Longrightarrow> slice (110 + i * 32) (110 + (i + 1) * 32) (f n) = refs ! i"
      "\<And>a b. b \<le> 110 \<Longrightarrow> slice a b (f n) = slice a b buf" "\<And>a b. 366 \<le> a \<Longrightarrow> slice a b (f n) = slice a b buf"
      "\<And>k. k < 110 \<Longrightarrow> f n ! k = buf ! k"
      by auto
    have s: "f (Suc n) = poke (110 + n * 32) (refs ! n) (f n)" by (simp add: f_def)
    have n: "n < 8" "length (refs ! n) = 32" using Suc.prems r by auto
    have "slice (110 + i * 32) (110 + (i + 1) * 32) (f (Suc n)) = refs ! i" if "i < Suc n" for i
    proof (cases "i = n")
      case True
      then show ?thesis unfolding s using n ih(1) by (simp add: slice_poke_same)
    next
      case False
      then have "i < n" using that by simp
      then show ?thesis unfolding s using n ih(1,2) by (subst slice_poke_before) auto
    qed
    then show ?case using ih n unfolding s by (auto simp: slice_poke_before slice_poke_after nth_poke)
  qed (use assms(3) in \<open>simp add: f_def\<close>)
  have p: "put_refs refs buf = f 8" by (simp add: put_refs_def f_def)
  from f [of 8] show "length (put_refs refs buf) = plaintextSize"
    "i < 8 \<Longrightarrow> slice (110 + i * 32) (110 + (i + 1) * 32) (put_refs refs buf) = refs ! i"
    "b \<le> 110 \<Longrightarrow> slice a b (put_refs refs buf) = slice a b buf"
    "366 \<le> a \<Longrightarrow> slice a b (put_refs refs buf) = slice a b buf"
    "k < 110 \<Longrightarrow> put_refs refs buf ! k = buf ! k"
    unfolding p by auto
qed

text \<open>What is read from an encoded buffer.\<close>

lemma EncodePayload_fields:
  assumes "wf_mp p" "EncodePayload p = Inr buf"
  shows "length buf = plaintextSize" "slice 0 4 buf = MagicV3" "buf ! 4 = mp_MsgType p" "buf ! 5 = mp_Flags p"
    "slice 6 14 buf = LePutUint64 (word_of_int (mp_Timestamp p))" "slice 14 46 buf = mp_SenderPub p"
    "slice 46 110 buf = mp_Signature p"
    "i < 8 \<Longrightarrow> slice (110 + i * 32) (110 + (i + 1) * 32) buf = mp_ThreadRefs p ! i"
    "slice 366 368 buf = LePutUint16 (word_of_nat (length (mp_Content p)))"
    "slice 368 (368 + length (mp_Content p)) buf = mp_Content p" "length (mp_Content p) \<le> V3MaxContent"
proof -
  have w: "length (mp_SenderPub p) = 32" "length (mp_Signature p) = 64" "length (mp_ThreadRefs p) = 8"
    "list_all (\<lambda>r. length r = 32) (mp_ThreadRefs p)" using assms(1) by (simp_all add: wf_mp_def)
  define b0 :: bytes where "b0 = replicate plaintextSize 0"
  have l0: "length b0 = 4024" by (simp add: b0_def)
  define b1 where "b1 = poke 46 (mp_Signature p) (poke 14 (mp_SenderPub p)
    (poke 6 (LePutUint64 (word_of_int (mp_Timestamp p))) (poke 5 [mp_Flags p] (poke 4 [mp_MsgType p] (poke 0 MagicV3 b0)))))"
  have m: "length MagicV3 = 4" by (simp add: MagicV3_def)
  have l1: "length b1 = 4024" using w m l0 by (simp add: b1_def)
  define b2 where "b2 = put_refs (mp_ThreadRefs p) b1"
  note r = put_refs_slices [OF w(3,4), of b1, folded b2_def]
  have l2: "length b2 = 4024" using r(1) l1 by simp
  show c: "length (mp_Content p) \<le> V3MaxContent"
    using assms(2) by (simp add: EncodePayload_def split: if_splits)
  let ?l = "LePutUint16 (word_of_nat (length (mp_Content p)))"
  have buf: "buf = poke 368 (mp_Content p) (poke 366 ?l b2)"
    using assms(2) c unfolding EncodePayload_def b2_def b1_def b0_def by (simp add: Let_def)
  note facts = buf l2 l1 l0 w m c
  show "length buf = plaintextSize" using facts by simp
  have lo: "slice a b buf = slice a b b1" if "b \<le> 110" for a b
    using that facts r(3) by (simp add: slice_poke_before)
  show "slice 0 4 buf = MagicV3" using lo facts by (simp add: b1_def poke_reads)
  show "slice 6 14 buf = LePutUint64 (word_of_int (mp_Timestamp p))" "slice 14 46 buf = mp_SenderPub p"
    "slice 46 110 buf = mp_Signature p"
    using lo facts by (simp_all add: b1_def poke_reads)
  have n: "buf ! k = b1 ! k" if "k < 110" for k using that facts r(5) by (simp add: nth_poke)
  show "buf ! 4 = mp_MsgType p" "buf ! 5 = mp_Flags p" using n facts by (simp_all add: b1_def nth_poke)
  show "i < 8 \<Longrightarrow> slice (110 + i * 32) (110 + (i + 1) * 32) buf = mp_ThreadRefs p ! i"
    using facts r(2) [of i] by (simp add: slice_poke_before)
  show "slice 366 368 buf = ?l" "slice 368 (368 + length (mp_Content p)) buf = mp_Content p"
    using facts by (simp_all add: poke_reads)
qed

text \<open>The part of a payload that travels.\<close>

definition wire :: "MessagePayload \<Rightarrow> MessagePayload" where
  "wire p = p\<lparr>mp_Channel := [], mp_SentTo := [], mp_DecryptedBy := []\<rparr>"

lemma unat_len16: "n \<le> V3MaxContent \<Longrightarrow> unat (word_of_nat n :: 16 word) = n"
  by (simp add: unat_of_nat)

lemma Decode_of_fields:
  assumes "wf_mp p" "length (mp_Content p) \<le> V3MaxContent" "slice 0 4 buf = MagicV3"
    "buf ! 4 = mp_MsgType p" "buf ! 5 = mp_Flags p"
    "slice 6 14 buf = LePutUint64 (word_of_int (mp_Timestamp p))" "slice 14 46 buf = mp_SenderPub p"
    "slice 46 110 buf = sig"
    "\<And>i. i < 8 \<Longrightarrow> slice (110 + i * 32) (110 + (i + 1) * 32) buf = mp_ThreadRefs p ! i"
    "slice 366 368 buf = LePutUint16 (word_of_nat (length (mp_Content p)))"
    "slice 368 (368 + length (mp_Content p)) buf = mp_Content p"
  shows "DecodePayload buf = Inr (wire (p\<lparr>mp_Signature := sig\<rparr>))"
proof -
  have l: "length (mp_ThreadRefs p) = 8" "in_int64 (mp_Timestamp p)" using assms(1) by (simp_all add: wf_mp_def)
  have "map (\<lambda>i. slice (110 + i * 32) (110 + (i + 1) * 32) buf) [0..<threadCount] = mp_ThreadRefs p"
    using assms(9) l by (intro nth_equalityI) auto
  then show ?thesis
    unfolding DecodePayload_def assms(3-8,10) wire_def
    using assms(2,11) l unat_len16 [OF assms(2)] by (cases p) (simp add: Let_def)
qed

lemma Decode_Encode:
  assumes "wf_mp p" "EncodePayload p = Inr buf"
  shows "DecodePayload buf = Inr (wire p)"
proof -
  note f = EncodePayload_fields [OF assms]
  have "DecodePayload buf = Inr (wire (p\<lparr>mp_Signature := mp_Signature p\<rparr>))"
    by (rule Decode_of_fields [OF assms(1) f(11,2-7) f(8) f(9,10)])
  then show ?thesis by simp
qed

lemma SignPayload_fields:
  assumes "ed_ok D" "length buf = plaintextSize"
  shows "length (SignPayload D k buf) = plaintextSize"
    "b \<le> 46 \<Longrightarrow> slice a b (SignPayload D k buf) = slice a b buf"
    "110 \<le> a \<Longrightarrow> slice a b (SignPayload D k buf) = slice a b buf"
    "i < 46 \<Longrightarrow> SignPayload D k buf ! i = buf ! i"
    "slice 46 110 (SignPayload D k buf) = ed_Sign D k (poke 46 (replicate 64 0) buf)"
    "poke 46 (replicate 64 0) (SignPayload D k buf) = poke 46 (replicate 64 0) buf"
proof -
  have s: "length (ed_Sign D k m) = 64" for m using assms(1) by (simp add: ed_ok_def)
  show "length (SignPayload D k buf) = plaintextSize"
    "b \<le> 46 \<Longrightarrow> slice a b (SignPayload D k buf) = slice a b buf"
    "110 \<le> a \<Longrightarrow> slice a b (SignPayload D k buf) = slice a b buf"
    "i < 46 \<Longrightarrow> SignPayload D k buf ! i = buf ! i"
    "slice 46 110 (SignPayload D k buf) = ed_Sign D k (poke 46 (replicate 64 0) buf)"
    "poke 46 (replicate 64 0) (SignPayload D k buf) = poke 46 (replicate 64 0) buf"
    using assms(2) s by (simp_all add: SignPayload_def Let_def poke_reads poke_poke_same)
qed

lemma Verify_Sign:
  assumes "ed_ok D" "length buf = plaintextSize" "length seed = 32"
    "slice 14 46 buf = ed_Public D seed" "ed_Public D seed \<noteq> replicate 32 0"
  shows "VerifySignature D (SignPayload D (ed_key D seed) buf)"
proof -
  note f = SignPayload_fields [OF assms(1,2), where k = "ed_key D seed"]
  have "slice 14 46 (poke 46 (replicate 64 0) buf) = ed_Public D seed"
    using assms(2,4) by (simp add: slice_poke_before)
  moreover have "ed_Verify D (ed_Public D seed) m (ed_Sign D (ed_key D seed) m)" for m
    using assms(1,3) by (simp add: ed_ok_def)
  ultimately show ?thesis using assms(4,5) f(2,5,6) by (simp add: VerifySignature_def Let_def)
qed

lemma Decode_Sign:
  assumes "wf_mp p" "EncodePayload p = Inr buf" "ed_ok D"
  shows "DecodePayload (SignPayload D k buf) =
    Inr (wire (p\<lparr>mp_Signature := ed_Sign D k (poke 46 (replicate 64 0) buf)\<rparr>))"
proof -
  note e = EncodePayload_fields [OF assms(1,2)]
  note f = SignPayload_fields [OF assms(3) e(1), where k = k]
  show ?thesis
    by (rule Decode_of_fields [OF assms(1) e(11)]) (use e f in simp_all)
qed

lemma DecodePayload_wf:
  assumes "length plain = plaintextSize" "DecodePayload plain = Inr p"
  shows "wf_mp p" "length (mp_Content p) \<le> V3MaxContent" "mp_SenderPub p = slice 14 46 plain"
    "slice 0 4 plain = MagicV3"
  using assms by (auto simp: DecodePayload_def Let_def wf_mp_def list_all_iff split: if_splits)

text \<open>The skip list of a message whose chain of reply targets, latest first, is given.\<close>

fun thread_refs :: "bytes list \<Rightarrow> bytes list" where
  "thread_refs [] = replicate 8 (replicate 32 0)"
| "thread_refs (target # earlier) = BuildThreadRefs target (thread_refs earlier)"

lemma BuildThreadRefs_take:
  "length prev = 8 \<Longrightarrow> BuildThreadRefs target prev = take 8 (target # prev)"
  by (rule nth_equalityI) (auto simp: BuildThreadRefs_def nth_Cons split: nat.split)

section \<open>Properties\<close>

text \<open>The plaintext of a message round trips: encoding fails exactly when the content
  is too long; otherwise it gives 4024 bytes that decode to the same message without its
  local annotations.\<close>

theorem payload_roundtrip:
  assumes "wf_mp p"
  shows "if length (mp_Content p) > V3MaxContent then EncodePayload p = Inl ErrContentTooLarge
    else case EncodePayload p of
           Inl _ \<Rightarrow> False
         | Inr buf \<Rightarrow> length buf = plaintextSize \<and> DecodePayload buf = Inr (wire p)"
proof (cases "EncodePayload p")
  case (Inl e)
  then show ?thesis by (auto simp: EncodePayload_def Let_def split: if_splits)
next
  case (Inr buf)
  then show ?thesis using EncodePayload_fields(1,11) [OF assms Inr] Decode_Encode [OF assms Inr] by simp
qed

theorem payload_roundtrip_witness:
  "case EncodePayload (zero_mp\<lparr>mp_Content := [104, 105]\<rparr>) of
     Inl _ \<Rightarrow> False
   | Inr buf \<Rightarrow> DecodePayload buf = Inr (wire (zero_mp\<lparr>mp_Content := [104, 105]\<rparr>))"
proof -
  have "wf_mp (zero_mp\<lparr>mp_Content := [104, 105]\<rparr>)"
    by (simp add: wf_mp_def zero_mp_def in_int64_def list_all_iff)
  from payload_roundtrip [OF this] show ?thesis
    by (simp add: zero_mp_def split: sum.splits)
qed

text \<open>What decodes is a well-formed message, and encoding it again gives a buffer that
  decodes to the same message: the decoder accepts no message that the encoder could not
  have written.\<close>

theorem decode_canonical:
  assumes "length plain = plaintextSize" "DecodePayload plain = Inr p"
  shows "wf_mp p \<and> (\<exists>buf. EncodePayload p = Inr buf \<and> DecodePayload buf = Inr p)"
proof -
  note w = DecodePayload_wf [OF assms]
  obtain buf where b: "EncodePayload p = Inr buf"
    using w(2) by (auto simp: EncodePayload_def Let_def)
  have "wire p = p" using assms by (auto simp: DecodePayload_def Let_def wire_def split: if_splits)
  then show ?thesis using w(1) b Decode_Encode [OF w(1) b] by simp
qed

theorem decode_canonical_witness:
  "case EncodePayload zero_mp of Inl _ \<Rightarrow> False
   | Inr plain \<Rightarrow> (case DecodePayload plain of Inl _ \<Rightarrow> False | Inr p \<Rightarrow> wf_mp p)"
proof -
  have w: "wf_mp zero_mp" by (simp add: wf_mp_def zero_mp_def in_int64_def list_all_iff)
  obtain buf where b: "EncodePayload zero_mp = Inr buf"
    by (auto simp: EncodePayload_def Let_def zero_mp_def)
  from decode_canonical [OF EncodePayload_fields(1) [OF w b] Decode_Encode [OF w b]]
  show ?thesis by (simp add: b Decode_Encode [OF w b])
qed

text \<open>A signed buffer verifies and still decodes to the same message with the
  signature in place; verification never succeeds for an anonymous sender.\<close>

theorem sign_then_verify:
  assumes "ed_ok D" "length seed = 32" "ed_Public D seed \<noteq> replicate 32 0"
    and "wf_mp p" "mp_SenderPub p = ed_Public D seed" "EncodePayload p = Inr buf"
  shows "VerifySignature D (SignPayload D (ed_key D seed) buf) \<and>
    DecodePayload (SignPayload D (ed_key D seed) buf) =
      Inr (wire (p\<lparr>mp_Signature := ed_Sign D (ed_key D seed) (poke 46 (replicate 64 0) buf)\<rparr>)) \<and>
    (\<forall>plain. slice 14 46 plain = replicate 32 0 \<longrightarrow> \<not> VerifySignature D plain)"
  using Verify_Sign [OF assms(1) EncodePayload_fields(1) [OF assms(4,6)] assms(2) _ assms(3)]
    EncodePayload_fields(6) [OF assms(4,6)] assms(5) Decode_Sign [OF assms(4,6,1)]
  by (simp add: VerifySignature_def)

text \<open>A signature scheme for instances: the signature is constant.\<close>

definition ed0 :: ed25519 where
  "ed0 = \<lparr>ed_Public = pad_to 32 1, ed_Sign = (\<lambda>k m. replicate 64 7), ed_Verify = (\<lambda>pub m s. s = replicate 64 7)\<rparr>"

lemma ed_ok_ed0: "ed_ok ed0"
  by (simp add: ed_ok_def ed0_def)

theorem sign_then_verify_witness:
  "case EncodePayload (zero_mp\<lparr>mp_SenderPub := replicate 32 1\<rparr>) of
     Inl _ \<Rightarrow> False
   | Inr buf \<Rightarrow> VerifySignature ed0 (SignPayload ed0 (ed_key ed0 (replicate 32 1)) buf)"
proof -
  have p: "ed_Public ed0 (replicate 32 1) = replicate 32 1" by (simp add: ed0_def pad_to_def)
  have ne: "replicate 32 1 \<noteq> (replicate 32 0 :: bytes)" by simp
  have w: "wf_mp (zero_mp\<lparr>mp_SenderPub := replicate 32 1\<rparr>)"
    by (simp add: wf_mp_def zero_mp_def in_int64_def list_all_iff)
  obtain buf where b: "EncodePayload (zero_mp\<lparr>mp_SenderPub := replicate 32 1\<rparr>) = Inr buf"
    by (auto simp: EncodePayload_def Let_def zero_mp_def)
  have "mp_SenderPub (zero_mp\<lparr>mp_SenderPub := replicate 32 1\<rparr>) = ed_Public ed0 (replicate 32 1)"
    by (simp add: p)
  from sign_then_verify [OF ed_ok_ed0 _ _ w this b] show ?thesis using ne by (simp add: b p)
qed

text \<open>The skip list built by \<^verbatim>\<open>BuildThreadRefs\<close> along a chain of replies lists
  the last eight messages of the chain in order: entry \<open>k\<close> is \<open>k + 1\<close> messages back.\<close>

theorem thread_refs_last_eight:
  "thread_refs targets = take 8 (targets @ replicate 8 (replicate 32 0))"
proof (induction targets)
  case (Cons x targets)
  then have "length (thread_refs targets) = 8" by simp
  then show ?case using Cons by (simp add: BuildThreadRefs_take take_Cons')
qed simp

end
