(* ===== verification/Crypto.thy ===== *)
theory Crypto
  imports MessageFormat
begin

text \<open>
  \<^verbatim>\<open>client/crypto.go\<close>: encryption of a message for one recipient or for a channel,
  and the trial decryption.  The primitives (Curve25519, the map from Ed25519 keys,
  SHA-512, XChaCha20-Poly1305) are a record of functions; \<open>crypto_ok\<close> states the
  documented behaviour that the code relies on: decryption inverts encryption and accepts
  nothing else, the Diffie-Hellman function is symmetric and ignores bit 255, and the map
  between the curves sends the public key of a seed to the public key of its scalar.
  The draws of \<^verbatim>\<open>crypto/rand\<close> are arguments.
\<close>

section \<open>Primitives\<close>

record crypto =
  cr_ed :: ed25519
  cr_Montgomery :: "bytes \<Rightarrow> bytes option"
  cr_sha512 :: "bytes \<Rightarrow> bytes"
  cr_X25519 :: "bytes \<Rightarrow> bytes \<Rightarrow> bytes"
  cr_Seal :: "bytes \<Rightarrow> bytes \<Rightarrow> bytes \<Rightarrow> bytes"
  cr_Open :: "bytes \<Rightarrow> bytes \<Rightarrow> bytes \<Rightarrow> bytes option"

definition basepoint :: bytes where
  "basepoint = 9 # replicate 31 0"

definition x_Public :: "crypto \<Rightarrow> bytes \<Rightarrow> bytes" where
  "x_Public C scalar = cr_X25519 C scalar basepoint"

definition mask255 :: "bytes \<Rightarrow> bytes" where
  "mask255 u = u[31 := u ! 31 AND 0x7f]"

definition clampScalar :: "bytes \<Rightarrow> bytes" where
  "clampScalar s = (let s1 = s[0 := s ! 0 AND 248]; s2 = s1[31 := s1 ! 31 AND 127] in s2[31 := s2 ! 31 OR 64])"

definition crypto_ok :: "crypto \<Rightarrow> bool" where
  "crypto_ok C \<longleftrightarrow>
     ed_ok (cr_ed C) \<and>
     (\<forall>m. length (cr_sha512 C m) = 64) \<and>
     (\<forall>a u. length (cr_X25519 C a u) = 32) \<and>
     (\<forall>a b. cr_X25519 C a (x_Public C b) = cr_X25519 C b (x_Public C a)) \<and>
     (\<forall>a u. length u = 32 \<longrightarrow> cr_X25519 C a (mask255 u) = cr_X25519 C a u) \<and>
     (\<forall>seed. length seed = 32 \<longrightarrow>
        cr_Montgomery C (ed_Public (cr_ed C) seed) = Some (x_Public C (clampScalar (take 32 (cr_sha512 C seed))))) \<and>
     (\<forall>k n p. length (cr_Seal C k n p) = length p + 16 \<and> cr_Open C k n (cr_Seal C k n p) = Some p) \<and>
     (\<forall>k n c p. cr_Open C k n c = Some p \<longrightarrow> c = cr_Seal C k n p)"

text \<open>A call of Go code that may panic, return an error or return a value.\<close>

datatype 'a call = Panics | Fails | Returns 'a

text \<open>\<^verbatim>\<open>ecdh.X25519\<close>: keys must have 32 bytes and an all-zero result is an error.\<close>

definition ECDH :: "crypto \<Rightarrow> bytes \<Rightarrow> bytes \<Rightarrow> bytes option" where
  "ECDH C scalar u = (let r = cr_X25519 C scalar u in if r = replicate 32 0 then None else Some r)"

definition EdPubToX25519 :: "crypto \<Rightarrow> bytes \<Rightarrow> bytes option" where
  "EdPubToX25519 C edPub =
     (case cr_Montgomery C edPub of None \<Rightarrow> None | Some u \<Rightarrow> if length u = 32 then Some u else None)"

definition edPrivToX25519 :: "crypto \<Rightarrow> bytes \<Rightarrow> bytes call" where
  "edPrivToX25519 C edPriv =
     (if length edPriv < 32 then Panics
      else
        let h = cr_sha512 C (take 32 edPriv); scalar = clampScalar (take 32 h)
        in if length scalar = 32 then Returns scalar else Fails)"

text \<open>\<^verbatim>\<open>chacha20poly1305.NewX\<close> refuses a key that has not 32 bytes; \<^verbatim>\<open>Open\<close> panics on a
  nonce of the wrong length.\<close>

definition aead_Open :: "crypto \<Rightarrow> bytes \<Rightarrow> bytes \<Rightarrow> bytes \<Rightarrow> bytes call" where
  "aead_Open C key nonce ct =
     (if length key \<noteq> 32 then Fails
      else if length nonce \<noteq> nonceSize then Panics
      else case cr_Open C key nonce ct of None \<Rightarrow> Fails | Some p \<Rightarrow> Returns p)"

section \<open>Encryption\<close>

datatype crypt_err = CeFormat format_err | CeCurve | CeRand string

record enc_rand =
  rn_ephemeral :: "string + bytes"
  rn_nonce :: "string + bytes"
  rn_noise :: "string + byte"

definition encryptPlain :: "env \<Rightarrow> crypto \<Rightarrow> enc_rand \<Rightarrow> bytes \<Rightarrow> bytes \<Rightarrow> crypt_err + Payload" where
  "encryptPlain E C R recipientPub plain =
     (case rn_ephemeral R of
        Inl e \<Rightarrow> Inl (CeRand e)
      | Inr ephemeral \<Rightarrow>
          (case ECDH C ephemeral recipientPub of
             None \<Rightarrow> Inl CeCurve
           | Some shared \<Rightarrow>
               (let key = sha256 E shared
                in case rn_nonce R of
                     Inl e \<Rightarrow> Inl (CeRand e)
                   | Inr nonce \<Rightarrow>
                       (let ct = cr_Seal C key nonce plain; pub = x_Public C ephemeral
                        in case rn_noise R of
                             Inl e \<Rightarrow> Inl (CeRand e)
                           | Inr noise \<Rightarrow>
                               Inr (pub[31 := (pub ! 31 AND 0x7f) OR (noise AND 0x80)] @ nonce @ ct)))))"

definition Encrypt :: "env \<Rightarrow> crypto \<Rightarrow> enc_rand \<Rightarrow> bytes \<Rightarrow> MessagePayload \<Rightarrow> crypt_err + Payload" where
  "Encrypt E C R recipientEdPub mp =
     (case EdPubToX25519 C recipientEdPub of
        None \<Rightarrow> Inl CeCurve
      | Some recipientPub \<Rightarrow>
          (case EncodePayload mp of
             Inl e \<Rightarrow> Inl (CeFormat e)
           | Inr plain \<Rightarrow> encryptPlain E C R recipientPub plain))"

definition EncryptSigned ::
  "env \<Rightarrow> crypto \<Rightarrow> enc_rand \<Rightarrow> bytes \<Rightarrow> MessagePayload \<Rightarrow> bytes \<Rightarrow> crypt_err + Payload" where
  "EncryptSigned E C R recipientEdPub mp sigKey =
     (case EdPubToX25519 C recipientEdPub of
        None \<Rightarrow> Inl CeCurve
      | Some recipientPub \<Rightarrow>
          (case EncodePayload mp of
             Inl e \<Rightarrow> Inl (CeFormat e)
           | Inr plain \<Rightarrow> encryptPlain E C R recipientPub (SignPayload (cr_ed C) sigKey plain)))"

definition channelSaltSize :: nat where "channelSaltSize = pubKeySize"

definition encryptChannelPlain ::
  "env \<Rightarrow> crypto \<Rightarrow> string + bytes \<Rightarrow> string + bytes \<Rightarrow> bytes \<Rightarrow> bytes \<Rightarrow> crypt_err + Payload" where
  "encryptChannelPlain E C rsalt rnonce channelKey plain =
     (case rsalt of
        Inl e \<Rightarrow> Inl (CeRand e)
      | Inr salt \<Rightarrow>
          (let blockKey = sha256 E (channelKey @ salt)
           in case rnonce of
                Inl e \<Rightarrow> Inl (CeRand e)
              | Inr nonce \<Rightarrow> Inr (salt @ nonce @ cr_Seal C blockKey nonce plain)))"

definition EncryptChannel ::
  "env \<Rightarrow> crypto \<Rightarrow> string + bytes \<Rightarrow> string + bytes \<Rightarrow> bytes \<Rightarrow> MessagePayload \<Rightarrow> crypt_err + Payload" where
  "EncryptChannel E C rsalt rnonce channelKey mp =
     (case EncodePayload mp of
        Inl e \<Rightarrow> Inl (CeFormat e)
      | Inr plain \<Rightarrow> encryptChannelPlain E C rsalt rnonce channelKey plain)"

definition EncryptChannelSigned ::
  "env \<Rightarrow> crypto \<Rightarrow> string + bytes \<Rightarrow> string + bytes \<Rightarrow> bytes \<Rightarrow> MessagePayload \<Rightarrow> bytes \<Rightarrow> crypt_err + Payload" where
  "EncryptChannelSigned E C rsalt rnonce channelKey mp sigKey =
     (case EncodePayload mp of
        Inl e \<Rightarrow> Inl (CeFormat e)
      | Inr plain \<Rightarrow> encryptChannelPlain E C rsalt rnonce channelKey (SignPayload (cr_ed C) sigKey plain))"

section \<open>Trial decryption\<close>

text \<open>\<^verbatim>\<open>[plaintextSize]byte(s)\<close> panics when the slice is too short.  The check of a
  decoded message: a claimed sender needs a valid signature.\<close>

definition accept_plain :: "crypto \<Rightarrow> bytes \<Rightarrow> MessagePayload call" where
  "accept_plain C buf =
     (case DecodePayload buf of
        Inl _ \<Rightarrow> Fails
      | Inr mp \<Rightarrow> if \<not> IsAnonymous mp \<and> \<not> VerifySignature (cr_ed C) buf then Fails else Returns mp)"

definition tryDecryptChannel :: "env \<Rightarrow> crypto \<Rightarrow> bytes \<Rightarrow> Payload \<Rightarrow> MessagePayload call" where
  "tryDecryptChannel E C channelKey payload =
     (let blockKey = sha256 E (channelKey @ take channelSaltSize payload)
      in case aead_Open C blockKey (slice channelSaltSize ciphertextOffset payload) (drop ciphertextOffset payload) of
           Panics \<Rightarrow> Panics
         | Fails \<Rightarrow> Fails
         | Returns plainSlice \<Rightarrow>
             if length plainSlice \<noteq> plaintextSize then Fails else accept_plain C plainSlice)"

definition magicV1 :: bytes where "magicV1 = [0x53, 0x4E, 0x4B, 0x01]"
definition v1HeaderSize :: nat where "v1HeaderSize = 6"
definition v1MaxContent :: nat where "v1MaxContent = plaintextSize - v1HeaderSize"

definition decode_v1 :: "bytes \<Rightarrow> MessagePayload call" where
  "decode_v1 plain =
     (if length plain < v1HeaderSize then Fails
      else
        let msgLen = unat (LeUint16 (slice 4 v1HeaderSize plain))
        in if msgLen > v1MaxContent \<or> v1HeaderSize + msgLen > length plain then Fails
           else Returns (zero_mp\<lparr>mp_MsgType := MsgTypeText,
                                 mp_Content := slice v1HeaderSize (v1HeaderSize + msgLen) plain\<rparr>))"

definition tryDecrypt :: "env \<Rightarrow> crypto \<Rightarrow> bytes \<Rightarrow> Payload \<Rightarrow> MessagePayload call" where
  "tryDecrypt E C edPriv payload =
     (case edPrivToX25519 C edPriv of
        Panics \<Rightarrow> Panics
      | Fails \<Rightarrow> Fails
      | Returns privKey \<Rightarrow>
          (case ECDH C privKey (take pubKeySize payload) of
             None \<Rightarrow> Fails
           | Some shared \<Rightarrow>
               (let key = sha256 E shared
                in case aead_Open C key (slice pubKeySize ciphertextOffset payload) (drop ciphertextOffset payload) of
                     Panics \<Rightarrow> Panics
                   | Fails \<Rightarrow> Fails
                   | Returns plain \<Rightarrow>
                       if length plain < 4 then Fails
                       else if take 4 plain = MagicV3 then
                         (if length plain < plaintextSize then Panics
                          else accept_plain C (take plaintextSize plain))
                       else if take 4 plain = magicV1 then decode_v1 plain
                       else Fails)))"

section \<open>Lemmas\<close>

lemmas channel_sizes [simp, size_simps] = channelSaltSize_def v1HeaderSize_def v1MaxContent_def

lemma crypto_okD:
  assumes "crypto_ok C"
  shows "ed_ok (cr_ed C)" "length (cr_sha512 C m) = 64" "length (cr_X25519 C a u) = 32"
    "cr_X25519 C a (x_Public C b) = cr_X25519 C b (x_Public C a)"
    "length u = 32 \<Longrightarrow> cr_X25519 C a (mask255 u) = cr_X25519 C a u"
    "length seed = 32 \<Longrightarrow> cr_Montgomery C (ed_Public (cr_ed C) seed) =
       Some (x_Public C (clampScalar (take 32 (cr_sha512 C seed))))"
    "length (cr_Seal C k n p) = length p + 16" "cr_Open C k n (cr_Seal C k n p) = Some p"
    "cr_Open C k n c = Some p \<Longrightarrow> c = cr_Seal C k n p"
  using assms unfolding crypto_ok_def by blast+

lemma length_clampScalar [simp]: "length (clampScalar s) = length s"
  by (simp add: clampScalar_def Let_def)

lemma length_x_Public [simp]: "crypto_ok C \<Longrightarrow> length (x_Public C a) = 32"
  by (simp add: x_Public_def crypto_okD)

lemma mask_noise:
  assumes "length u = 32"
  shows "mask255 (u[31 := (u ! 31 AND 0x7f) OR (n AND 0x80)]) = mask255 u"
proof -
  have "((u ! 31 AND 0x7f) OR (n AND 0x80)) AND 0x7f = u ! 31 AND (0x7f :: byte)"
  proof (rule bit_word_eqI)
    fix k assume "k < LENGTH(8)"
    then have "k < 8" by simp
    then have "k \<in> {0, 1, 2, 3, 4, 5, 6, 7}" by auto
    then show "bit (((u ! 31 AND 0x7f) OR (n AND 0x80)) AND 0x7f) k = bit (u ! 31 AND (0x7f :: byte)) k"
      by (auto simp: bit_simps)
  qed
  then show ?thesis using assms by (simp add: mask255_def)
qed

definition recipient_scalar :: "crypto \<Rightarrow> bytes \<Rightarrow> bytes" where
  "recipient_scalar C seed = clampScalar (take 32 (cr_sha512 C seed))"

lemma EdPub_of_seed:
  "crypto_ok C \<Longrightarrow> length seed = 32 \<Longrightarrow>
   EdPubToX25519 C (ed_Public (cr_ed C) seed) = Some (x_Public C (recipient_scalar C seed))"
  by (simp add: EdPubToX25519_def crypto_okD recipient_scalar_def)

lemma edPriv_of_seed:
  "crypto_ok C \<Longrightarrow> length seed = 32 \<Longrightarrow>
   edPrivToX25519 C (ed_key (cr_ed C) seed) = Returns (recipient_scalar C seed)"
  by (simp add: edPrivToX25519_def ed_key_def recipient_scalar_def crypto_okD)

text \<open>A block made for the recipient opens to the plaintext.\<close>

lemma tryDecrypt_encryptPlain:
  assumes "env_ok E" "crypto_ok C" "length seed = 32" "length plain = plaintextSize" "take 4 plain = MagicV3"
    and "rn_nonce R = Inr nonce" "length nonce = 24"
    and "encryptPlain E C R (x_Public C (recipient_scalar C seed)) plain = Inr payload"
  shows "wf_payload payload" "tryDecrypt E C (ed_key (cr_ed C) seed) payload = accept_plain C plain"
proof -
  obtain eph shared noise where eph: "rn_ephemeral R = Inr eph"
    and sh: "ECDH C eph (x_Public C (recipient_scalar C seed)) = Some shared" and noise: "rn_noise R = Inr noise"
    using assms(8) by (auto simp: encryptPlain_def Let_def split: sum.splits option.splits)
  let ?pub = "x_Public C eph" and ?key = "sha256 E shared"
  let ?head = "?pub[31 := (?pub ! 31 AND 0x7f) OR (noise AND 0x80)]"
  have pl: "payload = ?head @ nonce @ cr_Seal C ?key nonce plain"
    using assms(6,8) eph sh noise by (simp add: encryptPlain_def Let_def)
  have lp: "length ?pub = 32" using assms(2) by simp
  then have lh: "length ?head = 32" by simp
  show "wf_payload payload"
    using pl lh assms(4,7) crypto_okD(7) [OF assms(2)] by (simp add: wf_payload_def)
  have "cr_X25519 C (recipient_scalar C seed) ?head = cr_X25519 C (recipient_scalar C seed) ?pub"
    using crypto_okD(5) [OF assms(2) lh] crypto_okD(5) [OF assms(2) lp] mask_noise [OF lp] by metis
  also have "\<dots> = cr_X25519 C eph (x_Public C (recipient_scalar C seed))"
    by (rule crypto_okD(4) [OF assms(2)])
  finally have e: "ECDH C (recipient_scalar C seed) ?head = Some shared"
    using sh by (simp add: ECDH_def)
  have k: "length ?key = 32" using env_okD(1) [OF assms(1)] by simp
  have parts: "take pubKeySize payload = ?head" "slice pubKeySize ciphertextOffset payload = nonce"
    "drop ciphertextOffset payload = cr_Seal C ?key nonce plain"
    using lh assms(7) unfolding pl by (simp_all add: slice_append_right slice_append_left slice_all)
  have "aead_Open C ?key nonce (cr_Seal C ?key nonce plain) = Returns plain"
    using k assms(7) crypto_okD(8) [OF assms(2)] by (simp add: aead_Open_def)
  then show "tryDecrypt E C (ed_key (cr_ed C) seed) payload = accept_plain C plain"
    unfolding tryDecrypt_def edPriv_of_seed [OF assms(2,3)] parts
    using e assms(4,5) by (simp add: Let_def)
qed

lemma tryDecryptChannel_encrypt:
  assumes "env_ok E" "crypto_ok C" "length plain = plaintextSize"
    and "rsalt = Inr salt" "length salt = 32" "rnonce = Inr nonce" "length nonce = 24"
    and "encryptChannelPlain E C rsalt rnonce key plain = Inr payload"
  shows "wf_payload payload" "tryDecryptChannel E C key payload = accept_plain C plain"
proof -
  let ?k = "sha256 E (key @ salt)"
  have pl: "payload = salt @ nonce @ cr_Seal C ?k nonce plain"
    using assms(4,6,8) by (simp add: encryptChannelPlain_def Let_def)
  show "wf_payload payload"
    using pl assms(3,5,7) crypto_okD(7) [OF assms(2)] by (simp add: wf_payload_def)
  have parts: "take channelSaltSize payload = salt" "slice channelSaltSize ciphertextOffset payload = nonce"
    "drop ciphertextOffset payload = cr_Seal C ?k nonce plain"
    using assms(5,7) unfolding pl by (simp_all add: slice_append_right slice_append_left slice_all)
  have "aead_Open C ?k nonce (cr_Seal C ?k nonce plain) = Returns plain"
    using env_okD(1) [OF assms(1)] assms(7) crypto_okD(8) [OF assms(2)] by (simp add: aead_Open_def)
  then show "tryDecryptChannel E C key payload = accept_plain C plain"
    unfolding tryDecryptChannel_def parts using assms(3) by (simp add: Let_def)
qed

lemma accept_anonymous:
  assumes "wf_mp mp" "EncodePayload mp = Inr plain" "IsAnonymous mp"
  shows "accept_plain C plain = Returns (wire mp)"
  using Decode_Encode [OF assms(1,2)] assms(3) by (simp add: accept_plain_def wire_def IsAnonymous_def)

lemma accept_signed:
  assumes "crypto_ok C" "wf_mp mp" "EncodePayload mp = Inr plain" "length seed = 32"
    "mp_SenderPub mp = ed_Public (cr_ed C) seed" "\<not> IsAnonymous mp"
  shows "\<exists>sig. accept_plain C (SignPayload (cr_ed C) (ed_key (cr_ed C) seed) plain) =
    Returns (wire (mp\<lparr>mp_Signature := sig\<rparr>))"
proof -
  note ed = crypto_okD(1) [OF assms(1)]
  have "VerifySignature (cr_ed C) (SignPayload (cr_ed C) (ed_key (cr_ed C) seed) plain)"
    using Verify_Sign [OF ed EncodePayload_fields(1) [OF assms(2,3)] assms(4)]
      EncodePayload_fields(6) [OF assms(2,3)] assms(5,6) by (simp add: IsAnonymous_def)
  then show ?thesis using Decode_Sign [OF assms(2,3) ed] by (auto simp: accept_plain_def)
qed

lemma take4_slice: "take 4 xs = slice 0 4 xs"
  by (simp add: slice_def)

lemma Seal_lengths:
  assumes "crypto_ok C" "wf_payload payload" "cr_Open C k n (drop ciphertextOffset payload) = Some plain"
  shows "length plain = plaintextSize"
  using crypto_okD(7) [OF assms(1), of k n plain] crypto_okD(9) [OF assms(1,3)] assms(2)
  by (simp add: wf_payload_def flip: crypto_okD(9) [OF assms(1,3)])

lemma accept_plain_ReturnsD:
  assumes "length plain = plaintextSize" "accept_plain C plain = Returns mp"
  shows "DecodePayload plain = Inr mp" "wf_mp mp" "IsAnonymous mp \<or> VerifySignature (cr_ed C) plain"
  using assms DecodePayload_wf(1) [OF assms(1)] by (auto simp: accept_plain_def split: sum.splits if_splits)

lemma aead_Open_Returns: "aead_Open C k n c = Returns p \<Longrightarrow> cr_Open C k n c = Some p"
  by (auto simp: aead_Open_def split: if_splits option.splits)

lemma slice_nonce: "wf_payload payload \<Longrightarrow> length (slice 32 56 payload) = 24"
  by (simp add: wf_payload_def)

lemma decrypt_Encrypt:
  assumes "env_ok E" "crypto_ok C" "length seed = 32" "wf_mp mp" "rn_nonce R = Inr nonce" "length nonce = 24"
    and "Encrypt E C R (ed_Public (cr_ed C) seed) mp = Inr payload" "IsAnonymous mp"
  shows "wf_payload payload" "tryDecrypt E C (ed_key (cr_ed C) seed) payload = Returns (wire mp)"
proof -
  obtain plain where pl: "EncodePayload mp = Inr plain"
    "encryptPlain E C R (x_Public C (recipient_scalar C seed)) plain = Inr payload"
    using EdPub_of_seed [OF assms(2,3)] assms(7) by (auto simp: Encrypt_def split: sum.splits)
  note f = EncodePayload_fields [OF assms(4) pl(1)]
  show "wf_payload payload" "tryDecrypt E C (ed_key (cr_ed C) seed) payload = Returns (wire mp)"
    using tryDecrypt_encryptPlain [OF assms(1,2,3) f(1) _ assms(5,6) pl(2)] f(2)
      accept_anonymous [OF assms(4) pl(1), of C] assms(8)
    by (simp_all add: take4_slice)
qed

lemma decrypt_EncryptSigned:
  assumes "env_ok E" "crypto_ok C" "length seed = 32" "wf_mp mp" "rn_nonce R = Inr nonce" "length nonce = 24"
    and "EncryptSigned E C R (ed_Public (cr_ed C) seed) mp (ed_key (cr_ed C) sender) = Inr payload"
    and "length sender = 32" "mp_SenderPub mp = ed_Public (cr_ed C) sender" "\<not> IsAnonymous mp"
  shows "wf_payload payload"
    "\<exists>sig. tryDecrypt E C (ed_key (cr_ed C) seed) payload = Returns (wire (mp\<lparr>mp_Signature := sig\<rparr>))"
proof -
  let ?sp = "SignPayload (cr_ed C) (ed_key (cr_ed C) sender)"
  obtain plain where pl: "EncodePayload mp = Inr plain"
    "encryptPlain E C R (x_Public C (recipient_scalar C seed)) (?sp plain) = Inr payload"
    using EdPub_of_seed [OF assms(2,3)] assms(7) by (auto simp: EncryptSigned_def split: sum.splits)
  note f = EncodePayload_fields [OF assms(4) pl(1)]
  note g = SignPayload_fields [OF crypto_okD(1) [OF assms(2)] f(1), where k = "ed_key (cr_ed C) sender"]
  show "wf_payload payload"
    "\<exists>sig. tryDecrypt E C (ed_key (cr_ed C) seed) payload = Returns (wire (mp\<lparr>mp_Signature := sig\<rparr>))"
    using tryDecrypt_encryptPlain [OF assms(1,2,3) g(1) _ assms(5,6) pl(2)] f(2) g(2)
      accept_signed [OF assms(2,4) pl(1) _ assms(9)] assms(8-10)
    by (simp_all add: take4_slice)
qed

section \<open>Properties\<close>

text \<open>C23: what is encrypted for a recipient is one full block that the recipient's key
  opens to the same message: anonymous messages as they are, signed ones with the
  signature filled in.\<close>

theorem encrypt_decrypt:
  assumes "env_ok E" "crypto_ok C" "length seed = 32" "wf_mp mp" "rn_nonce R = Inr nonce" "length nonce = 24"
  shows "(Encrypt E C R (ed_Public (cr_ed C) seed) mp = Inr payload \<and> IsAnonymous mp \<longrightarrow>
       wf_payload payload \<and> tryDecrypt E C (ed_key (cr_ed C) seed) payload = Returns (wire mp)) \<and>
    (EncryptSigned E C R (ed_Public (cr_ed C) seed) mp (ed_key (cr_ed C) sender) = Inr payload \<and>
       length sender = 32 \<and> mp_SenderPub mp = ed_Public (cr_ed C) sender \<and> \<not> IsAnonymous mp \<longrightarrow>
       wf_payload payload \<and>
       (\<exists>sig. tryDecrypt E C (ed_key (cr_ed C) seed) payload = Returns (wire (mp\<lparr>mp_Signature := sig\<rparr>))))"
  using decrypt_Encrypt [OF assms] decrypt_EncryptSigned [OF assms] by blast

text \<open>Primitives for instances: encryption appends a constant tag and the shared secret is
  constant.\<close>

definition crypto0 :: crypto where
  "crypto0 = \<lparr>cr_ed = ed0, cr_Montgomery = (\<lambda>p. Some (replicate 32 5)), cr_sha512 = pad_to 64 0,
     cr_X25519 = (\<lambda>a u. replicate 32 5), cr_Seal = (\<lambda>k n p. p @ replicate 16 0),
     cr_Open = (\<lambda>k n c. if 16 \<le> length c \<and> drop (length c - 16) c = replicate 16 0
                        then Some (take (length c - 16) c) else None)\<rparr>"

lemma crypto_ok_crypto0: "crypto_ok crypto0"
proof -
  have "c = take (length c - 16) c @ replicate 16 0"
    if "drop (length c - 16) c = replicate 16 0" for c :: bytes
    using that by (metis append_take_drop_id)
  then show ?thesis by (auto simp: crypto_ok_def crypto0_def x_Public_def ed_ok_ed0 split: if_splits)
qed

definition rand0 :: enc_rand where
  "rand0 = \<lparr>rn_ephemeral = Inr (replicate 32 3), rn_nonce = Inr (replicate 24 2), rn_noise = Inr 0xff\<rparr>"

lemma wf_zero_mp: "wf_mp zero_mp" "IsAnonymous zero_mp"
  by (simp_all add: wf_mp_def zero_mp_def in_int64_def list_all_iff IsAnonymous_def)

theorem encrypt_decrypt_witness:
  "case Encrypt env0 crypto0 rand0 (ed_Public ed0 (replicate 32 9)) zero_mp of
     Inl _ \<Rightarrow> False
   | Inr payload \<Rightarrow> tryDecrypt env0 crypto0 (ed_key ed0 (replicate 32 9)) payload = Returns (wire zero_mp)"
proof -
  have d: "cr_ed crypto0 = ed0" by (simp add: crypto0_def)
  obtain buf where b: "EncodePayload zero_mp = Inr buf"
    by (auto simp: EncodePayload_def Let_def zero_mp_def)
  obtain payload where p: "Encrypt env0 crypto0 rand0 (ed_Public ed0 (replicate 32 9)) zero_mp = Inr payload"
    by (simp add: Encrypt_def EdPubToX25519_def b encryptPlain_def ECDH_def Let_def rand0_def crypto0_def)
  have l: "length (replicate 32 (9::byte)) = 32" by simp
  have "rn_nonce rand0 = Inr (replicate 24 2)" by (simp add: rand0_def)
  from encrypt_decrypt [OF env_ok_env0 crypto_ok_crypto0 l wf_zero_mp(1) this] p wf_zero_mp(2) d
  show ?thesis by simp
qed

text \<open>A channel message that fits is encrypted into one full block, which opens under
  the channel key to the same message (signature filled in when signed).\<close>

theorem channel_roundtrip:
  assumes "env_ok E" "crypto_ok C" "wf_mp mp" "length (mp_Content mp) \<le> V3MaxContent"
    and "length salt = 32" "length nonce = 24"
  shows "(IsAnonymous mp \<longrightarrow>
      (\<exists>payload. EncryptChannel E C (Inr salt) (Inr nonce) key mp = Inr payload \<and> wf_payload payload \<and>
         tryDecryptChannel E C key payload = Returns (wire mp))) \<and>
    (length sender = 32 \<and> mp_SenderPub mp = ed_Public (cr_ed C) sender \<and> \<not> IsAnonymous mp \<longrightarrow>
      (\<exists>payload sig. EncryptChannelSigned E C (Inr salt) (Inr nonce) key mp (ed_key (cr_ed C) sender) = Inr payload \<and>
         wf_payload payload \<and> tryDecryptChannel E C key payload = Returns (wire (mp\<lparr>mp_Signature := sig\<rparr>))))"
proof -
  obtain plain where pl: "EncodePayload mp = Inr plain"
    using assms(4) by (auto simp: EncodePayload_def Let_def)
  note f = EncodePayload_fields [OF assms(3) pl]
  note g = SignPayload_fields(1) [OF crypto_okD(1) [OF assms(2)] f(1), where k = "ed_key (cr_ed C) sender"]
  have enc: "\<exists>payload. encryptChannelPlain E C (Inr salt) (Inr nonce) key q = Inr payload \<and> wf_payload payload \<and>
      tryDecryptChannel E C key payload = accept_plain C q" if "length q = plaintextSize" for q
    using tryDecryptChannel_encrypt [OF assms(1,2) that refl assms(5) refl assms(6)]
    by (auto simp: encryptChannelPlain_def Let_def)
  show ?thesis
    using enc [OF f(1)] enc [OF g] accept_anonymous [OF assms(3) pl, of C] accept_signed [OF assms(2,3) pl, of sender]
    by (auto simp: EncryptChannel_def EncryptChannelSigned_def pl)
qed

theorem channel_roundtrip_witness:
  "\<exists>payload. EncryptChannel env0 crypto0 (Inr (replicate 32 1)) (Inr (replicate 24 2)) [7] zero_mp = Inr payload \<and>
     tryDecryptChannel env0 crypto0 [7] payload = Returns (wire zero_mp)"
  using channel_roundtrip [OF env_ok_env0 crypto_ok_crypto0 wf_zero_mp(1), of "replicate 32 1" "replicate 24 2"]
    wf_zero_mp(2) by (auto simp: zero_mp_def)



end
