(* ===== verification/IdPow.thy ===== *)
theory IdPow
  imports Pow GoStrings
begin

text \<open>
  \<^verbatim>\<open>client/idpow.go\<close>: proof of work for identities, the gift message that carries a
  stamp to its owner, the stamp in the first line of a message, and the mining loop.  The
  loop asks \<open>ev\<close> before each draw what the \<^verbatim>\<open>select\<close> found (when both channels are
  ready Go picks either) and draws from \<open>rnd\<close>.
\<close>

definition idPowArgonTime :: u32 where "idPowArgonTime = 1"
definition idPowArgonMemory :: u32 where "idPowArgonMemory = 64 * 1024"
definition idPowArgonThreads :: byte where "idPowArgonThreads = 1"
definition idPowArgonKeyLen :: u32 where "idPowArgonKeyLen = 32"
definition idPowStampSize :: nat where "idPowStampSize = 16"

definition idPowSalt :: bytes where
  "idPowSalt = bytes_of_string ''sneakernet-idpow-v1''"

definition PowGiftPrefix :: string where
  "PowGiftPrefix = ''snk-pow-gift:''"

definition FormatPowGift :: "bytes \<Rightarrow> string" where
  "FormatPowGift stamp = PowGiftPrefix @ b64_EncodeToString stamp"

definition ParsePowGift :: "bytes \<Rightarrow> bytes option" where
  "ParsePowGift content =
     (let s = TrimSpace (string_of_bytes content)
      in if \<not> prefix PowGiftPrefix s then None
         else case b64_DecodeString (TrimSpace (drop (length PowGiftPrefix) s)) of
                None \<Rightarrow> None
              | Some stamp \<Rightarrow> if stamp = [] then None else Some stamp)"

definition idPowLeadingZeroBits :: "bytes \<Rightarrow> nat" where
  "idPowLeadingZeroBits b = lzb_loop 0 b"

definition IdentityWorkFactor :: "env \<Rightarrow> bytes \<Rightarrow> bytes \<Rightarrow> int" where
  "IdentityWorkFactor E stamp pubkey =
     int (idPowLeadingZeroBits
       (argon2_IDKey E (stamp @ pubkey) idPowSalt idPowArgonTime idPowArgonMemory idPowArgonThreads
          idPowArgonKeyLen))"

definition ParseSnkStamp :: "env \<Rightarrow> bytes \<Rightarrow> bytes \<Rightarrow> bytes \<times> int" where
  "ParseSnkStamp E content senderPub =
     (let line = (case indexOf 10 content of Some nl \<Rightarrow> take nl content | None \<Rightarrow> content)
      in case indexOf 32 line of
           None \<Rightarrow> ([], 0)
         | Some spaceIdx \<Rightarrow>
             (let snkPart = string_of_bytes (take spaceIdx line);
                  stampStr = TrimSpace (string_of_bytes (drop (spaceIdx + 1) line))
              in case lastIndexOf (CHR ''/'') snkPart of
                   None \<Rightarrow> ([], 0)
                 | Some slashIdx \<Rightarrow>
                     if \<not> prefix ''snk:'' snkPart then ([], 0)
                     else case b64_DecodeString (drop (slashIdx + 1) snkPart) of
                            None \<Rightarrow> ([], 0)
                          | Some pubBytes \<Rightarrow>
                              if length pubBytes \<noteq> 32 \<or> pubBytes \<noteq> senderPub then ([], 0)
                              else case b64_DecodeString stampStr of
                                     None \<Rightarrow> ([], 0)
                                   | Some stamp \<Rightarrow>
                                       if stamp = [] then ([], 0)
                                       else (stamp, IdentityWorkFactor E stamp senderPub)))"

section \<open>Mining\<close>

datatype select_case = CtxDone string | DeadlineHit | Default

partial_function (option) idmine_loop ::
  "env \<Rightarrow> (nat \<Rightarrow> select_case) \<Rightarrow> (nat \<Rightarrow> string + bytes) \<Rightarrow> bytes \<Rightarrow> nat \<Rightarrow> bytes \<Rightarrow> int
     \<Rightarrow> (bytes \<times> int \<times> string option) option" where
  "idmine_loop E ev rnd pubkey k best bestBits =
     (case ev k of
        CtxDone e \<Rightarrow> Some (best, bestBits, Some e)
      | DeadlineHit \<Rightarrow> Some (best, bestBits, None)
      | Default \<Rightarrow>
          (case rnd k of
             Inl e \<Rightarrow> Some (best, bestBits, Some e)
           | Inr stamp \<Rightarrow>
               (let wf = IdentityWorkFactor E stamp pubkey
                in if wf > bestBits then idmine_loop E ev rnd pubkey (Suc k) stamp wf
                   else idmine_loop E ev rnd pubkey (Suc k) best bestBits)))"

definition MineIdentityPoW ::
  "env \<Rightarrow> (nat \<Rightarrow> select_case) \<Rightarrow> string + bytes \<Rightarrow> (nat \<Rightarrow> string + bytes) \<Rightarrow> bytes \<Rightarrow> bytes
     \<Rightarrow> (bytes \<times> int \<times> string option) option" where
  "MineIdentityPoW E ev first rnd pubkey seed =
     (if length seed = idPowStampSize
      then idmine_loop E ev rnd pubkey 0 seed (IdentityWorkFactor E seed pubkey)
      else case first of
             Inl e \<Rightarrow> Some ([], 0, Some e)
           | Inr best \<Rightarrow> idmine_loop E ev rnd pubkey 0 best (IdentityWorkFactor E best pubkey))"

section \<open>Lemmas\<close>

lemma b64Char_visible: "n < 64 \<Longrightarrow> visible (b64Char True n)"
  by (auto simp: b64Char_def visible_def)

lemma b64_enc_all:
  assumes "\<And>n. n < 64 \<Longrightarrow> P (b64Char True n)"
  shows "list_all P (b64_enc True [] bs)"
proof -
  have q: "list_all P (map (b64Char True) (take m (quad a b c)))" for m a b c
    using assms list_all_take [OF quad_lt, of m a b c] by (auto simp: list_all_iff)
  have q4: "list_all P (map (b64Char True) (quad a b c))" for a b c using q [of 4 a b c] by (simp add: quad_def Let_def)
  show ?thesis
    by (induction True "[] :: string" bs rule: b64_enc.induct) (simp_all add: q q4)
qed

lemma b64_visible: "list_all visible (b64_EncodeToString bs)"
  unfolding b64_EncodeToString_def by (rule b64_enc_all) (rule b64Char_visible)

lemma b64_no_slash: "CHR ''/'' \<notin> set (b64_EncodeToString bs)"
proof -
  have "list_all (\<lambda>c. c \<noteq> CHR ''/'') (b64_EncodeToString bs)"
    unfolding b64_EncodeToString_def
  proof (rule b64_enc_all)
    fix n :: nat assume "n < 64"
    then have "fromB64Char True (b64Char True n) = Some n" by simp
    moreover have "fromB64Char True (CHR ''/'') = None" by (simp add: fromB64Char_def)
    ultimately show "b64Char True n \<noteq> CHR ''/''" by auto
  qed
  then show ?thesis by (auto simp: list_all_iff)
qed

lemma visible_TrimSpace: "list_all visible s \<Longrightarrow> TrimSpace s = s"
  by (rule TrimSpace_visible) (cases "s = []"; auto simp: list_all_iff)

lemma visible_bytes:
  "list_all visible s \<Longrightarrow> b \<in> set (bytes_of_string s) \<Longrightarrow> 33 \<le> unat b"
  by (auto simp: bytes_of_string_def list_all_iff visible_def unat_of_nat)

lemma visible_not_space:
  assumes "list_all visible s"
  shows "(32 :: byte) \<notin> set (bytes_of_string s)" "(10 :: byte) \<notin> set (bytes_of_string s)"
  using visible_bytes [OF assms, of 32] visible_bytes [OF assms, of 10] by auto

lemma bytes_of_string_append: "bytes_of_string (a @ b) = bytes_of_string a @ bytes_of_string b"
  by (simp add: bytes_of_string_def)

text \<open>The loop keeps the best stamp with its work factor.\<close>

definition idmine_stops :: "(nat \<Rightarrow> select_case) \<Rightarrow> (nat \<Rightarrow> string + bytes) \<Rightarrow> nat \<Rightarrow> bool" where
  "idmine_stops ev rnd k \<longleftrightarrow> ev k \<noteq> Default \<or> (\<exists>e. rnd k = Inl e)"

lemma idmine_loop_result:
  assumes "idmine_stops ev rnd (k + d)" "bits = IdentityWorkFactor E best pubkey"
  shows "\<exists>s w err. idmine_loop E ev rnd pubkey k best bits = Some (s, w, err) \<and>
    w = IdentityWorkFactor E s pubkey \<and> bits \<le> w \<and>
    (\<forall>j. (\<forall>i. k \<le> i \<and> i \<le> j \<longrightarrow> \<not> idmine_stops ev rnd i) \<and> k \<le> j \<longrightarrow>
       (\<forall>x. rnd j = Inr x \<longrightarrow> IdentityWorkFactor E x pubkey \<le> w))"
  using assms
proof (induction d arbitrary: k best bits)
  case 0
  then show ?case
    by (subst idmine_loop.simps)
      (auto simp: idmine_stops_def split: select_case.splits sum.splits)
next
  case (Suc d)
  show ?case
  proof (cases "idmine_stops ev rnd k")
    case True
    then show ?thesis using Suc.prems(2)
      by (subst idmine_loop.simps) (auto simp: idmine_stops_def split: select_case.splits sum.splits)
  next
    case False
    then obtain stamp where d: "ev k = Default" and r: "rnd k = Inr stamp"
      by (auto simp: idmine_stops_def) (metis sum.exhaust)
    define bw where "bw = (if IdentityWorkFactor E stamp pubkey > bits then (stamp, IdentityWorkFactor E stamp pubkey) else (best, bits))"
    have step: "idmine_loop E ev rnd pubkey k best bits = idmine_loop E ev rnd pubkey (Suc k) (fst bw) (snd bw)"
      by (subst idmine_loop.simps) (simp add: d r bw_def Let_def)
    have b: "snd bw = IdentityWorkFactor E (fst bw) pubkey" "bits \<le> snd bw" "IdentityWorkFactor E stamp pubkey \<le> snd bw"
      using Suc.prems(2) by (auto simp: bw_def)
    have "idmine_stops ev rnd (Suc k + d)" using Suc.prems(1) by simp
    from Suc.IH [OF this b(1)] obtain s w err where
      s: "idmine_loop E ev rnd pubkey (Suc k) (fst bw) (snd bw) = Some (s, w, err)"
        "w = IdentityWorkFactor E s pubkey" "snd bw \<le> w"
        "\<And>j x. \<forall>i. Suc k \<le> i \<and> i \<le> j \<longrightarrow> \<not> idmine_stops ev rnd i \<Longrightarrow> Suc k \<le> j \<Longrightarrow> rnd j = Inr x \<Longrightarrow>
           IdentityWorkFactor E x pubkey \<le> w"
      by blast
    have "IdentityWorkFactor E x pubkey \<le> w"
      if "\<forall>i. k \<le> i \<and> i \<le> j \<longrightarrow> \<not> idmine_stops ev rnd i" "k \<le> j" "rnd j = Inr x" for j x
    proof (cases "j = k")
      case True
      then show ?thesis using that(3) r b(3) s(3) by simp
    next
      case False
      then show ?thesis using that s(4) [of j x] by simp
    qed
    then show ?thesis using s(1-3) b(2) step by auto
  qed
qed

section \<open>Properties\<close>

text \<open>A gift message round trips, and nothing without the prefix is taken for one.\<close>

theorem gift_roundtrip:
  assumes "stamp \<noteq> []"
  shows "ParsePowGift (bytes_of_string (FormatPowGift stamp)) = Some stamp \<and>
    (\<forall>content. \<not> prefix PowGiftPrefix (TrimSpace (string_of_bytes content)) \<longrightarrow> ParsePowGift content = None)"
proof -
  have "list_all visible PowGiftPrefix" by (simp add: PowGiftPrefix_def visible_def)
  then have v: "list_all visible (FormatPowGift stamp)" using b64_visible by (simp add: FormatPowGift_def)
  then show ?thesis using assms visible_TrimSpace [OF v] visible_TrimSpace [OF b64_visible [of stamp]]
    by (simp add: ParsePowGift_def Let_def) (simp add: FormatPowGift_def)
qed

theorem gift_roundtrip_witness:
  "ParsePowGift (bytes_of_string (FormatPowGift (replicate 16 7))) = Some (replicate 16 7)"
  using gift_roundtrip [of "replicate 16 7"] by simp

text \<open>The stamp in the first line of a message is found, with its work factor, when the
  line names the sender's key and the name has no space or line break.\<close>

theorem snk_stamp_found:
  assumes "length pub = 32" "stamp \<noteq> []" "CHR '' '' \<notin> set name" "CHR ''\<newline>'' \<notin> set name"
  shows "ParseSnkStamp E (bytes_of_string (''snk:'' @ name @ ''/'' @ b64_EncodeToString pub @ '' '' @
      b64_EncodeToString stamp @ ''\<newline>'') @ rest) pub = (stamp, IdentityWorkFactor E stamp pub)"
proof -
  define snk where "snk = ''snk:'' @ name @ ''/'' @ b64_EncodeToString pub"
  define ln where "ln = snk @ '' '' @ b64_EncodeToString stamp"
  have inj: "c = d" if "(of_nat (of_char c) :: byte) = of_nat (of_char d)" for c d :: char
    using that by (metis string_of_bytes_of_string bytes_of_string_def list.inject list.simps(8,9))
  have k32: "c = CHR '' ''" if "(of_nat (of_char c) :: byte) = 32" for c by (rule inj) (simp add: that)
  have k10: "c = CHR ''\<newline>''" if "(of_nat (of_char c) :: byte) = 10" for c by (rule inj) (simp add: that)
  have n: "(32 :: byte) \<notin> set (bytes_of_string name)" "(10 :: byte) \<notin> set (bytes_of_string name)"
    using assms(3,4) k32 k10 unfolding bytes_of_string_def by auto
  have s: "(32 :: byte) \<notin> set (bytes_of_string snk)" "(10 :: byte) \<notin> set (bytes_of_string ln)"
    using n visible_not_space [OF b64_visible [of pub]] visible_not_space [OF b64_visible [of stamp]]
    by (simp_all add: snk_def ln_def bytes_of_string_append) (simp_all add: bytes_of_string_def)
  have nl: "bytes_of_string (ln @ ''\<newline>'') @ rest = bytes_of_string ln @ 10 # rest"
    by (simp add: bytes_of_string_def)
  have li: "bytes_of_string ln = bytes_of_string snk @ 32 # bytes_of_string (b64_EncodeToString stamp)"
    by (simp add: ln_def bytes_of_string_def)
  have sl: "lastIndexOf (CHR ''/'') snk = Some (length (''snk:'' @ name))"
    using lastIndexOf_append [OF b64_no_slash, of "''snk:'' @ name" pub] by (simp add: snk_def)
  have dr: "drop (length (''snk:'' @ name) + 1) snk = b64_EncodeToString pub" by (simp add: snk_def)
  have pf: "prefix ''snk:'' snk" by (simp add: snk_def)
  have "ParseSnkStamp E (bytes_of_string ln @ 10 # rest) pub = (stamp, IdentityWorkFactor E stamp pub)"
    unfolding ParseSnkStamp_def Let_def indexOf_append [OF s(2)] option.case
    unfolding take_append [of "length _"] append_eq_conv_conj
    using indexOf_append [OF s(1), of "bytes_of_string (b64_EncodeToString stamp)"] sl dr pf assms(1,2)
      visible_TrimSpace [OF b64_visible [of stamp]]
    by (simp add: li)
  then show ?thesis using nl by (simp add: ln_def snk_def)
qed

theorem snk_stamp_found_witness:
  "ParseSnkStamp env0 (bytes_of_string (''snk:'' @ ''al'' @ ''/'' @ b64_EncodeToString (replicate 32 1) @ '' '' @
      b64_EncodeToString [5] @ ''\<newline>'') @ []) (replicate 32 1) = ([5], IdentityWorkFactor env0 [5] (replicate 32 1))"
  by (rule snk_stamp_found) simp_all

text \<open>Identity mining returns at the first \<^verbatim>\<open>select\<close> that finds the context done or
  the deadline passed (or a failing random source), with a stamp whose reported work
  factor is its own, is no less than that of a valid seed, and no less than that of every
  stamp drawn before.\<close>

theorem MineIdentityPoW_best:
  assumes "idmine_stops ev rnd n" "length seed = 16 \<or> (\<exists>b. first = Inr b)"
  shows "\<exists>s w err. MineIdentityPoW E ev first rnd pubkey seed = Some (s, w, err) \<and>
    w = IdentityWorkFactor E s pubkey \<and> (length seed = 16 \<longrightarrow> IdentityWorkFactor E seed pubkey \<le> w) \<and>
    (\<forall>j x. (\<forall>i \<le> j. \<not> idmine_stops ev rnd i) \<and> rnd j = Inr x \<longrightarrow> IdentityWorkFactor E x pubkey \<le> w)"
proof -
  define best where "best = (if length seed = 16 then seed else (case first of Inr b \<Rightarrow> b | Inl _ \<Rightarrow> []))"
  have "MineIdentityPoW E ev first rnd pubkey seed =
      idmine_loop E ev rnd pubkey 0 best (IdentityWorkFactor E best pubkey)"
    using assms(2) by (auto simp: MineIdentityPoW_def best_def idPowStampSize_def)
  then show ?thesis
    using idmine_loop_result [of ev rnd 0 n _ E best pubkey, OF _ refl] assms(1) by (fastforce simp: best_def)
qed

theorem MineIdentityPoW_best_witness:
  "\<exists>s w err. MineIdentityPoW env0 (\<lambda>k. if k = 2 then DeadlineHit else Default) (Inl []) (\<lambda>k. Inr [3]) (replicate 32 1)
      (replicate 16 1) = Some (s, w, err) \<and> IdentityWorkFactor env0 (replicate 16 1) (replicate 32 1) \<le> w"
  using MineIdentityPoW_best [of "\<lambda>k. if k = 2 then DeadlineHit else Default" "\<lambda>k. Inr [3]" 2 "replicate 16 1"
      "Inl []" env0 "replicate 32 1"]
  by (auto simp: idmine_stops_def)

end
