(* ===== verification/Keystore.thy ===== *)
theory Keystore
  imports Crypto IdPow FlatFile
begin

text \<open>
  \<^verbatim>\<open>client/keystore.go\<close>: the password-protected collection of identities, channels and
  contacts, its file, and the portable export of one identity.  Lists of pointers are lists
  of records.  The JSON encoder and decoder are a record of functions; the draws of \<^verbatim>\<open>crypto/rand\<close> are a
  stream of which every operation states the draws it uses.  A panic is \<open>None\<close>.
\<close>

section \<open>Data\<close>

record Identity =
  id_Name :: string
  id_SignKey :: bytes
  id_IDPowStamp :: bytes

record Channel =
  ch_Name :: string
  ch_Key :: bytes

record Contact =
  ct_Name :: string
  ct_PublicKey :: bytes

record identityRecord =
  ir_Name :: string
  ir_Nonce :: bytes
  ir_Ciphertext :: bytes
  ir_SignNonce :: bytes
  ir_SignCiphertext :: bytes
  ir_IDPowStamp :: bytes

record channelRecord =
  cr_Name :: string
  cr_Nonce :: bytes
  cr_Ciphertext :: bytes

record contactRecord =
  kr_Name :: string
  kr_PublicKey :: bytes
  kr_SigningPublicKey :: bytes

record keystoreFile =
  kf_Version :: int
  kf_Salt :: bytes
  kf_KDFTime :: u32
  kf_KDFMemory :: u32
  kf_KDFThreads :: byte
  kf_Verify :: bytes
  kf_Identities :: "identityRecord list"
  kf_Channels :: "channelRecord list"
  kf_Contacts :: "contactRecord list"

record IdentityExport =
  ie_Version :: int
  ie_Name :: string
  ie_Salt :: bytes
  ie_KDFTime :: u32
  ie_KDFMemory :: u32
  ie_KDFThreads :: byte
  ie_Nonce :: bytes
  ie_Ciphertext :: bytes

record Keystore =
  ks_masterKey :: bytes
  ks_salt :: bytes
  ks_kdfTime :: u32
  ks_kdfMemory :: u32
  ks_kdfThreads :: byte
  ks_identities :: "Identity list"
  ks_channels :: "Channel list"
  ks_contacts :: "Contact list"

record ks_json =
  kj_Marshal :: "keystoreFile \<Rightarrow> bytes"
  kj_Unmarshal :: "bytes \<Rightarrow> keystoreFile option"
  kj_MarshalExport :: "IdentityExport \<Rightarrow> bytes"
  kj_UnmarshalExport :: "bytes \<Rightarrow> IdentityExport option"

text \<open>The text of a value reads back as the value.  (The encoder of the package keeps every
  field; it replaces bytes of a name that are not valid UTF-8, so this is a condition on the
  value.)\<close>

definition json_reads :: "ks_json \<Rightarrow> keystoreFile \<Rightarrow> bool" where
  "json_reads J f \<longleftrightarrow> kj_Unmarshal J (kj_Marshal J f) = Some f"

definition json_reads_export :: "ks_json \<Rightarrow> IdentityExport \<Rightarrow> bool" where
  "json_reads_export J b \<longleftrightarrow> kj_UnmarshalExport J (kj_MarshalExport J b) = Some b"

datatype ks_err =
    KsEmptyName | KsLongName | KsBadChar | KsRand string | KsIO io_err | KsJSON | KsVersion int | KsVerify
  | KsPassword | KsChannel string | KsChannelLen string | KsExists | KsNotFound | KsKeyLen

definition kdfSaltSize :: nat where "kdfSaltSize = 32"
definition kdfTime :: u32 where "kdfTime = 2"
definition kdfMemory :: u32 where "kdfMemory = 64 * 1024"
definition kdfThreads :: byte where "kdfThreads = 4"
definition kdfKeyLen :: u32 where "kdfKeyLen = 32"
definition keystoreVersion :: int where "keystoreVersion = 2"

definition keystoreCanary :: bytes where
  "keystoreCanary = bytes_of_string ''sneakernet-keystore-v1''"

section \<open>Cryptographic helpers\<close>

definition deriveKey :: "env \<Rightarrow> bytes \<Rightarrow> bytes \<Rightarrow> u32 \<Rightarrow> u32 \<Rightarrow> byte \<Rightarrow> bytes" where
  "deriveKey E password salt t m p = argon2_IDKey E password salt t m p kdfKeyLen"

text \<open>\<^verbatim>\<open>argon2.IDKey\<close> panics on a pass or lane count of zero.\<close>

definition kdf_panics :: "u32 \<Rightarrow> byte \<Rightarrow> bool" where
  "kdf_panics t p \<longleftrightarrow> t < 1 \<or> p < 1"

definition ksEncrypt :: "crypto \<Rightarrow> string + bytes \<Rightarrow> bytes \<Rightarrow> bytes \<Rightarrow> ks_err + (bytes \<times> bytes)" where
  "ksEncrypt C draw masterKey plaintext =
     (case draw of
        Inl e \<Rightarrow> Inl (KsRand e)
      | Inr n \<Rightarrow> Inr (n, cr_Seal C masterKey n plaintext))"

definition ksDecrypt :: "crypto \<Rightarrow> bytes \<Rightarrow> bytes \<Rightarrow> bytes \<Rightarrow> bytes call" where
  "ksDecrypt C masterKey nonce ciphertext = aead_Open C masterKey nonce ciphertext"

definition validateName :: "string \<Rightarrow> ks_err option" where
  "validateName name =
     (let rs = runes name
      in if rs = [] then Some KsEmptyName
         else if length rs > 64 then Some KsLongName
         else if list_ex (\<lambda>r. r = 0x2F \<or> IsControl r) rs then Some KsBadChar
         else None)"

section \<open>Operations in memory\<close>

definition NewKeystore :: "env \<Rightarrow> string + bytes \<Rightarrow> bytes \<Rightarrow> ks_err + Keystore" where
  "NewKeystore E draw password =
     (case draw of
        Inl e \<Rightarrow> Inl (KsRand e)
      | Inr salt \<Rightarrow>
          Inr \<lparr>ks_masterKey = deriveKey E password salt kdfTime kdfMemory kdfThreads, ks_salt = salt,
               ks_kdfTime = kdfTime, ks_kdfMemory = kdfMemory, ks_kdfThreads = kdfThreads,
               ks_identities = [], ks_channels = [], ks_contacts = []\<rparr>)"

definition ks_get :: "string \<Rightarrow> Keystore \<Rightarrow> Identity option" where
  "ks_get name k = find (\<lambda>i. id_Name i = name) (ks_identities k)"

definition Add :: "ed25519 \<Rightarrow> string + bytes \<Rightarrow> string \<Rightarrow> Keystore \<Rightarrow> (ks_err + Identity) \<times> Keystore" where
  "Add D draw name k =
     (case validateName name of
        Some e \<Rightarrow> (Inl e, k)
      | None \<Rightarrow>
          if ks_get name k \<noteq> None then (Inl KsExists, k)
          else case draw of
                 Inl e \<Rightarrow> (Inl (KsRand e), k)
               | Inr seed \<Rightarrow>
                   (let i = \<lparr>id_Name = name, id_SignKey = ed_key D seed, id_IDPowStamp = []\<rparr>
                    in (Inr i, k\<lparr>ks_identities := ks_identities k @ [i]\<rparr>)))"

text \<open>The identity is updated through the pointer that the first match gives.\<close>

fun update_first :: "('a \<Rightarrow> bool) \<Rightarrow> ('a \<Rightarrow> 'a) \<Rightarrow> 'a list \<Rightarrow> 'a list" where
  "update_first P f [] = []"
| "update_first P f (x # xs) = (if P x then f x # xs else x # update_first P f xs)"

fun remove_first :: "('a \<Rightarrow> bool) \<Rightarrow> 'a list \<Rightarrow> 'a list" where
  "remove_first P [] = []"
| "remove_first P (x # xs) = (if P x then xs else x # remove_first P xs)"

definition SetIdentityPoW :: "string \<Rightarrow> bytes \<Rightarrow> Keystore \<Rightarrow> ks_err option \<times> Keystore" where
  "SetIdentityPoW name stamp k =
     (case ks_get name k of
        None \<Rightarrow> (Some KsNotFound, k)
      | Some _ \<Rightarrow>
          (None, k\<lparr>ks_identities := update_first (\<lambda>i. id_Name i = name) (\<lambda>i. i\<lparr>id_IDPowStamp := stamp\<rparr>)
                                       (ks_identities k)\<rparr>))"

definition Remove :: "string \<Rightarrow> Keystore \<Rightarrow> bool \<times> Keystore" where
  "Remove name k =
     (if list_ex (\<lambda>i. id_Name i = name) (ks_identities k)
      then (True, k\<lparr>ks_identities := remove_first (\<lambda>i. id_Name i = name) (ks_identities k)\<rparr>)
      else (False, k))"

definition ks_List :: "Keystore \<Rightarrow> Identity list" where "ks_List k = ks_identities k"
definition GetIdentity :: "string \<Rightarrow> Keystore \<Rightarrow> Identity option" where "GetIdentity name k = ks_get name k"
definition Identities :: "Keystore \<Rightarrow> Identity list" where "Identities k = ks_identities k"

definition getChannel :: "string \<Rightarrow> Keystore \<Rightarrow> Channel option" where
  "getChannel name k = find (\<lambda>c. ch_Name c = name) (ks_channels k)"

definition AddChannel :: "env \<Rightarrow> string \<Rightarrow> string \<Rightarrow> Keystore \<Rightarrow> (ks_err + Channel) \<times> Keystore" where
  "AddChannel E name passphrase k =
     (if getChannel name k \<noteq> None then (Inl KsExists, k)
      else
        let ch = \<lparr>ch_Name = name, ch_Key = sha256 E (bytes_of_string passphrase)\<rparr>
        in (Inr ch, k\<lparr>ks_channels := ks_channels k @ [ch]\<rparr>))"

definition RemoveChannel :: "string \<Rightarrow> Keystore \<Rightarrow> bool \<times> Keystore" where
  "RemoveChannel name k =
     (if list_ex (\<lambda>c. ch_Name c = name) (ks_channels k)
      then (True, k\<lparr>ks_channels := remove_first (\<lambda>c. ch_Name c = name) (ks_channels k)\<rparr>)
      else (False, k))"

definition ListChannels :: "Keystore \<Rightarrow> Channel list" where "ListChannels k = ks_channels k"
definition Channels :: "Keystore \<Rightarrow> Channel list" where "Channels k = map (\<lambda>c. c) (ks_channels k)"

definition AddContact :: "string \<Rightarrow> bytes \<Rightarrow> Keystore \<Rightarrow> (ks_err + Contact) \<times> Keystore" where
  "AddContact name pubKey k =
     (case validateName name of
        Some e \<Rightarrow> (Inl e, k)
      | None \<Rightarrow>
          if length pubKey \<noteq> 32 then (Inl KsKeyLen, k)
          else if list_ex (\<lambda>c. ct_PublicKey c = pubKey) (ks_contacts k) then (Inl KsExists, k)
          else
            let c = \<lparr>ct_Name = name, ct_PublicKey = pubKey\<rparr>
            in (Inr c, k\<lparr>ks_contacts := ks_contacts k @ [c]\<rparr>))"

definition RemoveContact :: "bytes \<Rightarrow> Keystore \<Rightarrow> bool \<times> Keystore" where
  "RemoveContact pubKey k =
     (if list_ex (\<lambda>c. ct_PublicKey c = pubKey) (ks_contacts k)
      then (True, k\<lparr>ks_contacts := remove_first (\<lambda>c. ct_PublicKey c = pubKey) (ks_contacts k)\<rparr>)
      else (False, k))"

definition RenameContact :: "bytes \<Rightarrow> string \<Rightarrow> Keystore \<Rightarrow> (ks_err + bool) \<times> Keystore" where
  "RenameContact pubKey newName k =
     (case validateName newName of
        Some e \<Rightarrow> (Inl e, k)
      | None \<Rightarrow>
          if list_ex (\<lambda>c. ct_PublicKey c = pubKey) (ks_contacts k)
          then (Inr True, k\<lparr>ks_contacts := update_first (\<lambda>c. ct_PublicKey c = pubKey)
                                             (\<lambda>c. c\<lparr>ct_Name := newName\<rparr>) (ks_contacts k)\<rparr>)
          else (Inr False, k))"

definition ListContacts :: "Keystore \<Rightarrow> Contact list" where "ListContacts k = ks_contacts k"

definition ChangePassword :: "env \<Rightarrow> string + bytes \<Rightarrow> bytes \<Rightarrow> Keystore \<Rightarrow> ks_err option \<times> Keystore" where
  "ChangePassword E draw newPassword k =
     (case draw of
        Inl e \<Rightarrow> (Some (KsRand e), k)
      | Inr salt \<Rightarrow>
          (None, k\<lparr>ks_salt := salt,
                   ks_masterKey := deriveKey E newPassword salt (ks_kdfTime k) (ks_kdfMemory k) (ks_kdfThreads k)\<rparr>))"

definition VerifyPassword :: "env \<Rightarrow> bytes \<Rightarrow> Keystore \<Rightarrow> bool" where
  "VerifyPassword E password k \<longleftrightarrow>
     deriveKey E password (ks_salt k) (ks_kdfTime k) (ks_kdfMemory k) (ks_kdfThreads k) = ks_masterKey k"

section \<open>Export and import of one identity\<close>

definition ExportIdentity ::
  "env \<Rightarrow> crypto \<Rightarrow> ks_json \<Rightarrow> string + bytes \<Rightarrow> string + bytes \<Rightarrow> string \<Rightarrow> bytes \<Rightarrow> Keystore \<Rightarrow> ks_err + bytes" where
  "ExportIdentity E C J rsalt rnonce name exportPassword k =
     (case ks_get name k of
        None \<Rightarrow> Inl KsNotFound
      | Some i \<Rightarrow>
          (case rsalt of
             Inl e \<Rightarrow> Inl (KsRand e)
           | Inr salt \<Rightarrow>
               (let exportKey = deriveKey E exportPassword salt kdfTime kdfMemory kdfThreads
                in case ksEncrypt C rnonce exportKey (id_SignKey i) of
                     Inl e \<Rightarrow> Inl e
                   | Inr (nonce, ct) \<Rightarrow>
                       Inr (kj_MarshalExport J
                         \<lparr>ie_Version = 1, ie_Name = id_Name i, ie_Salt = salt, ie_KDFTime = kdfTime,
                          ie_KDFMemory = kdfMemory, ie_KDFThreads = kdfThreads, ie_Nonce = nonce,
                          ie_Ciphertext = ct\<rparr>))))"

definition ImportIdentity ::
  "env \<Rightarrow> crypto \<Rightarrow> ks_json \<Rightarrow> bytes \<Rightarrow> bytes \<Rightarrow> Keystore \<Rightarrow> (ks_err + Identity) option \<times> Keystore" where
  "ImportIdentity E C J data exportPassword k =
     (case kj_UnmarshalExport J data of
        None \<Rightarrow> (Some (Inl KsJSON), k)
      | Some b \<Rightarrow>
          if ie_Version b \<noteq> 1 then (Some (Inl (KsVersion (ie_Version b))), k)
          else if kdf_panics (ie_KDFTime b) (ie_KDFThreads b) then (None, k)
          else
            let exportKey = deriveKey E exportPassword (ie_Salt b) (ie_KDFTime b) (ie_KDFMemory b) (ie_KDFThreads b)
            in case ksDecrypt C exportKey (ie_Nonce b) (ie_Ciphertext b) of
                 Panics \<Rightarrow> (None, k)
               | Fails \<Rightarrow> (Some (Inl KsPassword), k)
               | Returns privBytes \<Rightarrow>
                   if length privBytes \<noteq> 64 then (Some (Inl KsKeyLen), k)
                   else case validateName (ie_Name b) of
                          Some e \<Rightarrow> (Some (Inl e), k)
                        | None \<Rightarrow>
                            if ks_get (ie_Name b) k \<noteq> None then (Some (Inl KsExists), k)
                            else
                              let i = \<lparr>id_Name = ie_Name b, id_SignKey = privBytes, id_IDPowStamp = []\<rparr>
                              in (Some (Inr i), k\<lparr>ks_identities := ks_identities k @ [i]\<rparr>))"

section \<open>The file\<close>

text \<open>\<^verbatim>\<open>Save\<close> draws one nonce for the canary, then one per identity and one per channel.\<close>

fun save_identities ::
  "crypto \<Rightarrow> (nat \<Rightarrow> string + bytes) \<Rightarrow> nat \<Rightarrow> bytes \<Rightarrow> Identity list \<Rightarrow> ks_err + identityRecord list" where
  "save_identities C rnd n key [] = Inr []"
| "save_identities C rnd n key (i # is) =
     (case ksEncrypt C (rnd n) key (id_SignKey i) of
        Inl e \<Rightarrow> Inl e
      | Inr (sNonce, sCT) \<Rightarrow>
          sum_bind (save_identities C rnd (Suc n) key is) (\<lambda>rs.
            Inr (\<lparr>ir_Name = id_Name i, ir_Nonce = [], ir_Ciphertext = [], ir_SignNonce = sNonce,
                  ir_SignCiphertext = sCT, ir_IDPowStamp = id_IDPowStamp i\<rparr> # rs)))"

fun save_channels ::
  "crypto \<Rightarrow> (nat \<Rightarrow> string + bytes) \<Rightarrow> nat \<Rightarrow> bytes \<Rightarrow> Channel list \<Rightarrow> ks_err + channelRecord list" where
  "save_channels C rnd n key [] = Inr []"
| "save_channels C rnd n key (c # cs) =
     (case ksEncrypt C (rnd n) key (ch_Key c) of
        Inl e \<Rightarrow> Inl e
      | Inr (nonce, ct) \<Rightarrow>
          sum_bind (save_channels C rnd (Suc n) key cs) (\<lambda>rs.
            Inr (\<lparr>cr_Name = ch_Name c, cr_Nonce = nonce, cr_Ciphertext = ct\<rparr> # rs)))"

definition keystore_file :: "crypto \<Rightarrow> (nat \<Rightarrow> string + bytes) \<Rightarrow> Keystore \<Rightarrow> ks_err + keystoreFile" where
  "keystore_file C rnd k =
     (case ksEncrypt C (rnd 0) (ks_masterKey k) keystoreCanary of
        Inl e \<Rightarrow> Inl e
      | Inr (vNonce, vCT) \<Rightarrow>
          sum_bind (save_identities C rnd 1 (ks_masterKey k) (ks_identities k)) (\<lambda>ids.
          sum_bind (save_channels C rnd (1 + length (ks_identities k)) (ks_masterKey k) (ks_channels k)) (\<lambda>chs.
            Inr \<lparr>kf_Version = keystoreVersion, kf_Salt = ks_salt k, kf_KDFTime = ks_kdfTime k,
                 kf_KDFMemory = ks_kdfMemory k, kf_KDFThreads = ks_kdfThreads k, kf_Verify = vNonce @ vCT,
                 kf_Identities = ids, kf_Channels = chs,
                 kf_Contacts = map (\<lambda>c. \<lparr>kr_Name = ct_Name c, kr_PublicKey = ct_PublicKey c,
                                        kr_SigningPublicKey = []\<rparr>) (ks_contacts k)\<rparr>)))"

definition Save ::
  "crypto \<Rightarrow> ks_json \<Rightarrow> (nat \<Rightarrow> string + bytes) \<Rightarrow> path \<Rightarrow> Keystore \<Rightarrow> fsys \<Rightarrow> ks_err option \<times> fsys" where
  "Save C J rnd p k fs =
     (case keystore_file C rnd k of
        Inl e \<Rightarrow> (Some e, fs)
      | Inr f \<Rightarrow>
          (let tmp = tmpPath p
           in case fs_write tmp (kj_Marshal J f) fs of
                (Some e, fs') \<Rightarrow> (Some (KsIO e), fs')
              | (None, fs') \<Rightarrow>
                  (case fs_rename tmp p fs' of
                     (Some e, fs'') \<Rightarrow> (Some (KsIO e), snd (fs_remove tmp fs''))
                   | (None, fs'') \<Rightarrow> (None, fs''))))"

text \<open>Loading: a record without a signing key gets a fresh one (from the \<open>n\<close>-th draw); the
  flag says that the file must be rewritten.\<close>

fun load_identities ::
  "crypto \<Rightarrow> (nat \<Rightarrow> string + bytes) \<Rightarrow> nat \<Rightarrow> bytes \<Rightarrow> identityRecord list
     \<Rightarrow> (ks_err + (Identity list \<times> bool \<times> nat)) option" where
  "load_identities C rnd n key [] = Some (Inr ([], False, n))"
| "load_identities C rnd n key (r # rs) =
     (if ir_SignNonce r \<noteq> [] \<and> ir_SignCiphertext r \<noteq> [] then
        (case ksDecrypt C key (ir_SignNonce r) (ir_SignCiphertext r) of
           Panics \<Rightarrow> None
         | Fails \<Rightarrow> Some (Inl KsPassword)
         | Returns signBytes \<Rightarrow>
             map_option (\<lambda>res. sum_bind res (\<lambda>(is, fresh, n').
               Inr (\<lparr>id_Name = ir_Name r, id_SignKey = signBytes, id_IDPowStamp = ir_IDPowStamp r\<rparr> # is, fresh, n')))
               (load_identities C rnd n key rs))
      else
        (case rnd n of
           Inl e \<Rightarrow> Some (Inl (KsRand e))
         | Inr seed \<Rightarrow>
             map_option (\<lambda>res. sum_bind res (\<lambda>(is, fresh, n').
               Inr (\<lparr>id_Name = ir_Name r, id_SignKey = ed_key (cr_ed C) seed, id_IDPowStamp = ir_IDPowStamp r\<rparr> # is,
                    True, n')))
               (load_identities C rnd (Suc n) key rs)))"

fun load_channels :: "crypto \<Rightarrow> bytes \<Rightarrow> channelRecord list \<Rightarrow> (ks_err + Channel list) option" where
  "load_channels C key [] = Some (Inr [])"
| "load_channels C key (r # rs) =
     (case ksDecrypt C key (cr_Nonce r) (cr_Ciphertext r) of
        Panics \<Rightarrow> None
      | Fails \<Rightarrow> Some (Inl (KsChannel (cr_Name r)))
      | Returns keyBytes \<Rightarrow>
          if length keyBytes \<noteq> 32 then Some (Inl (KsChannelLen (cr_Name r)))
          else map_option (\<lambda>res. sum_bind res (\<lambda>cs. Inr (\<lparr>ch_Name = cr_Name r, ch_Key = keyBytes\<rparr> # cs)))
                 (load_channels C key rs))"

definition contact_pub :: "contactRecord \<Rightarrow> bytes" where
  "contact_pub r = (if length (kr_SigningPublicKey r) = 32 then kr_SigningPublicKey r else kr_PublicKey r)"

definition load_contacts :: "contactRecord list \<Rightarrow> Contact list" where
  "load_contacts rs =
     map (\<lambda>r. \<lparr>ct_Name = kr_Name r, ct_PublicKey = contact_pub r\<rparr>)
       (filter (\<lambda>r. length (contact_pub r) = 32) rs)"

definition LoadKeystore ::
  "env \<Rightarrow> crypto \<Rightarrow> ks_json \<Rightarrow> (nat \<Rightarrow> string + bytes) \<Rightarrow> path \<Rightarrow> bytes \<Rightarrow> fsys
     \<Rightarrow> (ks_err + Keystore) option \<times> fsys" where
  "LoadKeystore E C J rnd p password fs =
     (case fs_read fs p of
        Inl e \<Rightarrow> (Some (Inl (KsIO e)), fs)
      | Inr data \<Rightarrow>
          (case kj_Unmarshal J data of
             None \<Rightarrow> (Some (Inl KsJSON), fs)
           | Some f \<Rightarrow>
               if kf_Version f \<noteq> 1 \<and> kf_Version f \<noteq> keystoreVersion
               then (Some (Inl (KsVersion (kf_Version f))), fs)
               else if kdf_panics (kf_KDFTime f) (kf_KDFThreads f) then (None, fs)
               else
                 let masterKey = deriveKey E password (kf_Salt f) (kf_KDFTime f) (kf_KDFMemory f) (kf_KDFThreads f)
                 in if length (kf_Verify f) \<le> nonceSize then (Some (Inl KsVerify), fs)
                    else case ksDecrypt C masterKey (take nonceSize (kf_Verify f)) (drop nonceSize (kf_Verify f)) of
                      Panics \<Rightarrow> (None, fs)
                    | Fails \<Rightarrow> (Some (Inl KsPassword), fs)
                    | Returns canary \<Rightarrow>
                        if canary \<noteq> keystoreCanary then (Some (Inl KsPassword), fs)
                        else case load_identities C rnd 0 masterKey (kf_Identities f) of
                          None \<Rightarrow> (None, fs)
                        | Some (Inl e) \<Rightarrow> (Some (Inl e), fs)
                        | Some (Inr (is, fresh, n)) \<Rightarrow>
                            (let k = \<lparr>ks_masterKey = masterKey, ks_salt = kf_Salt f, ks_kdfTime = kf_KDFTime f,
                                      ks_kdfMemory = kf_KDFMemory f, ks_kdfThreads = kf_KDFThreads f,
                                      ks_identities = is, ks_channels = [], ks_contacts = []\<rparr>;
                                 (serr, fs') = (if kf_Version f < keystoreVersion \<or> fresh
                                                then Save C J (\<lambda>m. rnd (n + m)) p k fs else (None, fs))
                             in case serr of
                                  Some e \<Rightarrow> (Some (Inl e), fs')
                                | None \<Rightarrow>
                                    (case load_channels C masterKey (kf_Channels f) of
                                       None \<Rightarrow> (None, fs')
                                     | Some (Inl e) \<Rightarrow> (Some (Inl e), fs')
                                     | Some (Inr chs) \<Rightarrow>
                                         (Some (Inr (k\<lparr>ks_channels := chs,
                                                      ks_contacts := load_contacts (kf_Contacts f)\<rparr>)), fs')))))"

end
