(* ===== verification/KeystoreProps.thy ===== *)
theory KeystoreProps
  imports Keystore
begin

text \<open>
  Properties of the keystore: the invariant of every reachable keystore, the round trips
  through the file and through an export, the atomicity of \<^verbatim>\<open>Save\<close> under faults, and
  what the migration of an old file leaves on disk.
\<close>

section \<open>Reachable keystores\<close>

inductive ks_reach :: "env \<Rightarrow> crypto \<Rightarrow> ks_json \<Rightarrow> Keystore \<Rightarrow> bool" for E C J where
  New: "NewKeystore E draw pw = Inr k \<Longrightarrow> ks_reach E C J k"
| Add: "ks_reach E C J k \<Longrightarrow> Add (cr_ed C) draw name k = (r, k') \<Longrightarrow> ks_reach E C J k'"
| SetPoW: "ks_reach E C J k \<Longrightarrow> SetIdentityPoW name stamp k = (e, k') \<Longrightarrow> ks_reach E C J k'"
| Remove: "ks_reach E C J k \<Longrightarrow> Remove name k = (b, k') \<Longrightarrow> ks_reach E C J k'"
| AddChannel: "ks_reach E C J k \<Longrightarrow> AddChannel E name phrase k = (rc, k') \<Longrightarrow> ks_reach E C J k'"
| RemoveChannel: "ks_reach E C J k \<Longrightarrow> RemoveChannel name k = (b, k') \<Longrightarrow> ks_reach E C J k'"
| AddContact: "ks_reach E C J k \<Longrightarrow> AddContact name pub k = (rk, k') \<Longrightarrow> ks_reach E C J k'"
| RemoveContact: "ks_reach E C J k \<Longrightarrow> RemoveContact pub k = (b, k') \<Longrightarrow> ks_reach E C J k'"
| RenameContact: "ks_reach E C J k \<Longrightarrow> RenameContact pub name k = (rb, k') \<Longrightarrow> ks_reach E C J k'"
| ChangePassword: "ks_reach E C J k \<Longrightarrow> ChangePassword E draw pw k = (e, k') \<Longrightarrow> ks_reach E C J k'"
| Import: "ks_reach E C J k \<Longrightarrow> ImportIdentity E C J data pw k = (ri, k') \<Longrightarrow> ks_reach E C J k'"

definition ks_inv :: "Keystore \<Rightarrow> bool" where
  "ks_inv k \<longleftrightarrow>
     distinct (map id_Name (ks_identities k)) \<and> list_all (\<lambda>i. validateName (id_Name i) = None) (ks_identities k) \<and>
     distinct (map ch_Name (ks_channels k)) \<and> list_all (\<lambda>c. length (ch_Key c) = 32) (ks_channels k) \<and>
     distinct (map ct_PublicKey (ks_contacts k)) \<and>
     list_all (\<lambda>c. length (ct_PublicKey c) = 32 \<and> validateName (ct_Name c) = None) (ks_contacts k) \<and>
     length (ks_masterKey k) = 32 \<and> \<not> kdf_panics (ks_kdfTime k) (ks_kdfThreads k)"

lemma set_remove_first: "set (remove_first P xs) \<subseteq> set xs"
  by (induction xs) auto

lemma distinct_remove_first: "distinct (map f xs) \<Longrightarrow> distinct (map f (remove_first P xs))"
  using set_remove_first by (induction xs) (auto, fast)

lemma list_all_remove_first: "list_all Q xs \<Longrightarrow> list_all Q (remove_first P xs)"
  by (induction xs) auto

lemma map_update_first: "(\<And>x. g (f x) = g x) \<Longrightarrow> map g (update_first P f xs) = map g xs"
  by (induction xs) auto

lemma list_all_update_first:
  "list_all Q xs \<Longrightarrow> (\<And>x. Q x \<Longrightarrow> Q (f x)) \<Longrightarrow> list_all Q (update_first P f xs)"
  by (induction xs) auto

lemma find_None_names: "find (\<lambda>x. f x = n) xs = None \<longleftrightarrow> n \<notin> set (map f xs)"
  by (auto simp: find_None_iff)

lemma length_deriveKey: "env_ok E \<Longrightarrow> length (deriveKey E pw s t m p) = 32"
  by (simp add: deriveKey_def env_okD kdfKeyLen_def)

lemma kdf_defaults [simp]: "\<not> kdf_panics kdfTime kdfThreads"
  by (simp add: kdf_panics_def kdfTime_def kdfThreads_def)

lemmas ks_inv_intros = distinct_remove_first list_all_remove_first map_update_first list_all_update_first

lemma ks_reach_inv:
  assumes "ks_reach E C J k" "env_ok E"
  shows "ks_inv k"
  using assms(1)
proof (induction rule: ks_reach.induct)
  case (New draw pw k)
  then show ?case using length_deriveKey [OF assms(2)]
    by (auto simp: NewKeystore_def ks_inv_def split: sum.splits)
next
  case (Add k draw name r k')
  then show ?case
    by (auto simp: Add_def ks_inv_def ks_get_def find_None_names Let_def split: option.splits if_splits sum.splits)
next
  case (SetPoW k name stamp e k')
  then show ?case
    by (auto simp: SetIdentityPoW_def ks_inv_def map_update_first list_all_update_first split: option.splits)
next
  case (Remove k name b k')
  then show ?case by (auto simp: Remove_def ks_inv_def ks_inv_intros split: if_splits)
next
  case (AddChannel k name phrase rc k')
  then show ?case using env_okD(1) [OF assms(2)]
    by (auto simp: AddChannel_def ks_inv_def getChannel_def find_None_names Let_def split: if_splits)
next
  case (RemoveChannel k name b k')
  then show ?case by (auto simp: RemoveChannel_def ks_inv_def ks_inv_intros split: if_splits)
next
  case (AddContact k name pub rk k')
  then show ?case
    by (auto simp: AddContact_def ks_inv_def list_ex_iff Let_def split: option.splits if_splits)
next
  case (RemoveContact k pub b k')
  then show ?case by (auto simp: RemoveContact_def ks_inv_def ks_inv_intros split: if_splits)
next
  case (RenameContact k pub name rb k')
  then show ?case
    by (auto simp: RenameContact_def ks_inv_def map_update_first intro!: list_all_update_first
        split: option.splits if_splits)
next
  case (ChangePassword k draw pw e k')
  then show ?case using length_deriveKey [OF assms(2)]
    by (auto simp: ChangePassword_def ks_inv_def split: sum.splits)
next
  case (Import k data pw ri k')
  then show ?case
    by (auto simp: ImportIdentity_def ks_inv_def ks_get_def find_None_names Let_def
        split: option.splits if_splits call.splits)
qed

section \<open>Through the file\<close>

lemma ksDecrypt_Seal:
  "crypto_ok C \<Longrightarrow> length key = 32 \<Longrightarrow> length n = 24 \<Longrightarrow> ksDecrypt C key n (cr_Seal C key n p) = Returns p"
  by (simp add: ksDecrypt_def aead_Open_def crypto_okD)

definition draws_ok :: "(nat \<Rightarrow> string + bytes) \<Rightarrow> bool" where
  "draws_ok rnd \<longleftrightarrow> (\<forall>n. \<exists>b. rnd n = Inr b \<and> length b = 24)"

lemma draws_okE:
  assumes "draws_ok rnd"
  obtains b where "rnd n = Inr b" "length b = 24"
  using assms unfolding draws_ok_def by blast

lemma Seal_nonempty: "crypto_ok C \<Longrightarrow> cr_Seal C k n p \<noteq> []"
  using crypto_okD(7) [of C k n p] by auto

lemma save_load_identities:
  assumes "crypto_ok C" "draws_ok rnd" "length key = 32"
  shows "\<exists>rs. save_identities C rnd n key is = Inr rs \<and> map ir_Name rs = map id_Name is \<and>
    (\<forall>rnd' m. load_identities C rnd' m key rs = Some (Inr (is, False, m)))"
proof (induction "is" arbitrary: n)
  case (Cons i "is")
  obtain b where b: "rnd n = Inr b" "length b = 24" using draws_okE [OF assms(2)] .
  obtain rs where rs: "save_identities C rnd (Suc n) key is = Inr rs" "map ir_Name rs = map id_Name is"
    "\<And>rnd' m. load_identities C rnd' m key rs = Some (Inr (is, False, m))"
    using Cons.IH by blast
  have "b \<noteq> []" using b(2) by auto
  then show ?case using rs b Seal_nonempty [OF assms(1)] ksDecrypt_Seal [OF assms(1,3) b(2)]
    by (simp add: ksEncrypt_def)
qed simp

lemma save_load_channels:
  assumes "crypto_ok C" "draws_ok rnd" "length key = 32" "list_all (\<lambda>c. length (ch_Key c) = 32) cs"
  shows "\<exists>rs. save_channels C rnd n key cs = Inr rs \<and> map cr_Name rs = map ch_Name cs \<and>
    load_channels C key rs = Some (Inr cs)"
  using assms(4)
proof (induction cs arbitrary: n)
  case (Cons c cs)
  obtain b where b: "rnd n = Inr b" "length b = 24" using draws_okE [OF assms(2)] .
  obtain rs where rs: "save_channels C rnd (Suc n) key cs = Inr rs" "map cr_Name rs = map ch_Name cs"
    "load_channels C key rs = Some (Inr cs)" using Cons by auto
  then show ?case using b Cons.prems ksDecrypt_Seal [OF assms(1,3) b(2)] by (simp add: ksEncrypt_def)
qed simp

lemma load_saved_contacts:
  assumes "list_all (\<lambda>c. length (ct_PublicKey c) = 32) cs"
  shows "load_contacts (map (\<lambda>c. \<lparr>kr_Name = ct_Name c, kr_PublicKey = ct_PublicKey c,
    kr_SigningPublicKey = []\<rparr>) cs) = cs"
  using assms by (induction cs) (auto simp: load_contacts_def contact_pub_def)

lemma keystore_file_ok:
  assumes "crypto_ok C" "draws_ok rnd" "ks_inv k"
  obtains f b where "keystore_file C rnd k = Inr f" "kf_Version f = 2"
    "kf_Salt f = ks_salt k" "kf_KDFTime f = ks_kdfTime k" "kf_KDFMemory f = ks_kdfMemory k"
    "kf_KDFThreads f = ks_kdfThreads k"
    "length b = 24" "kf_Verify f = b @ cr_Seal C (ks_masterKey k) b keystoreCanary"
    "\<And>rnd' m. load_identities C rnd' m (ks_masterKey k) (kf_Identities f) = Some (Inr (ks_identities k, False, m))"
    "load_channels C (ks_masterKey k) (kf_Channels f) = Some (Inr (ks_channels k))"
    "load_contacts (kf_Contacts f) = ks_contacts k"
    "map cr_Name (kf_Channels f) = map ch_Name (ks_channels k)" "map kr_Name (kf_Contacts f) = map ct_Name (ks_contacts k)"
proof -
  have inv: "length (ks_masterKey k) = 32" "list_all (\<lambda>c. length (ch_Key c) = 32) (ks_channels k)"
    "list_all (\<lambda>c. length (ct_PublicKey c) = 32) (ks_contacts k)"
    using assms(3) by (auto simp: ks_inv_def list_all_iff)
  obtain b where b: "rnd 0 = Inr b" "length b = 24" using draws_okE [OF assms(2)] .
  obtain rs where rs: "save_identities C rnd 1 (ks_masterKey k) (ks_identities k) = Inr rs"
    "map ir_Name rs = map id_Name (ks_identities k)"
    "\<And>rnd' m. load_identities C rnd' m (ks_masterKey k) rs = Some (Inr (ks_identities k, False, m))"
    using save_load_identities [OF assms(1,2) inv(1), of 1 "ks_identities k"] by blast
  obtain cs where cs: "save_channels C rnd (1 + length (ks_identities k)) (ks_masterKey k) (ks_channels k) = Inr cs"
    "map cr_Name cs = map ch_Name (ks_channels k)"
    "load_channels C (ks_masterKey k) cs = Some (Inr (ks_channels k))"
    using save_load_channels [OF assms(1,2) inv(1,2)] by blast
  define f where "f = \<lparr>kf_Version = keystoreVersion, kf_Salt = ks_salt k, kf_KDFTime = ks_kdfTime k,
    kf_KDFMemory = ks_kdfMemory k, kf_KDFThreads = ks_kdfThreads k,
    kf_Verify = b @ cr_Seal C (ks_masterKey k) b keystoreCanary, kf_Identities = rs, kf_Channels = cs,
    kf_Contacts = map (\<lambda>c. \<lparr>kr_Name = ct_Name c, kr_PublicKey = ct_PublicKey c, kr_SigningPublicKey = []\<rparr>)
      (ks_contacts k)\<rparr>"
  have f: "keystore_file C rnd k = Inr f"
    using b rs(1) cs(1) by (simp add: keystore_file_def ksEncrypt_def f_def)
  show thesis
    by (rule that [OF f _ _ _ _ _ b(2)])
      (use rs(3) cs(2,3) load_saved_contacts [OF inv(3)] in \<open>simp_all add: f_def keystoreVersion_def comp_def\<close>)
qed

lemma Save_ok:
  assumes "keystore_file C rnd k = Inr f" "fs_ok fs" "p \<noteq> []" "butlast p \<in> set (fs_dirs fs)"
  obtains fs' where "Save C J rnd p k fs = (None, fs')" "fs_ok fs'" "fs_map fs' p = Some (kj_Marshal J f)"
    "fs_dirs fs' = fs_dirs fs"
proof -
  obtain fs1 fs2 where "fs_write (tmpPath p) (kj_Marshal J f) fs = (None, fs1)" "fs_rename (tmpPath p) p fs1 = (None, fs2)"
    "fs_ok fs2" "fs_dirs fs2 = fs_dirs fs" "fs_map fs2 p = Some (kj_Marshal J f)"
    using replace_file_ok [OF assms(2-4)] .
  then show thesis using that [of fs2] assms(1) by (simp add: Save_def Let_def)
qed

text \<open>Loading what was saved.\<close>

lemma save_load_keystore:
  assumes "crypto_ok C" "draws_ok rnd" "ks_inv k" "VerifyPassword E pw k"
    and "fs_ok fs" "p \<noteq> []" "butlast p \<in> set (fs_dirs fs)"
    and "\<And>f. keystore_file C rnd k = Inr f \<Longrightarrow> json_reads J f"
  shows "case Save C J rnd p k fs of (e, fs') \<Rightarrow>
    e = None \<and> LoadKeystore E C J rnd' p pw fs' = (Some (Inr k), fs')"
proof -
  obtain f b where f: "keystore_file C rnd k = Inr f" "kf_Version f = 2"
    "kf_Salt f = ks_salt k" "kf_KDFTime f = ks_kdfTime k" "kf_KDFMemory f = ks_kdfMemory k"
    "kf_KDFThreads f = ks_kdfThreads k"
    "length b = 24" "kf_Verify f = b @ cr_Seal C (ks_masterKey k) b keystoreCanary"
    "\<And>rnd' m. load_identities C rnd' m (ks_masterKey k) (kf_Identities f) = Some (Inr (ks_identities k, False, m))"
    "load_channels C (ks_masterKey k) (kf_Channels f) = Some (Inr (ks_channels k))"
    "load_contacts (kf_Contacts f) = ks_contacts k"
    using keystore_file_ok [OF assms(1-3)] by metis
  obtain fs' where s: "Save C J rnd p k fs = (None, fs')" "fs_ok fs'" "fs_map fs' p = Some (kj_Marshal J f)"
    using Save_ok [OF f(1) assms(5-7)] by metis
  have key: "deriveKey E pw (ks_salt k) (ks_kdfTime k) (ks_kdfMemory k) (ks_kdfThreads k) = ks_masterKey k"
    using assms(4) by (simp add: VerifyPassword_def)
  have l: "length (ks_masterKey k) = 32" "\<not> kdf_panics (ks_kdfTime k) (ks_kdfThreads k)"
    using assms(3) by (simp_all add: ks_inv_def)
  have "fs_read fs' p = Inr (kj_Marshal J f)" using fs_read_ok [OF s(2)] s(3) by simp
  moreover have "kj_Unmarshal J (kj_Marshal J f) = Some f" using assms(8) [OF f(1)] by (simp add: json_reads_def)
  moreover have "ksDecrypt C (ks_masterKey k) b (cr_Seal C (ks_masterKey k) b keystoreCanary) = Returns keystoreCanary"
    by (rule ksDecrypt_Seal [OF assms(1) l(1) f(7)])
  moreover have "length (kf_Verify f) > 24" using crypto_okD(7) [OF assms(1)] by (simp add: f(7,8))
  ultimately have "LoadKeystore E C J rnd' p pw fs' = (Some (Inr k), fs')"
    unfolding LoadKeystore_def using f key l(2) by (simp add: keystoreVersion_def Let_def)
  then show ?thesis by (simp add: s(1))
qed

section \<open>Properties\<close>


definition ks0 :: Keystore where
  "ks0 = \<lparr>ks_masterKey = deriveKey env0 [1] (replicate 32 0) kdfTime kdfMemory kdfThreads, ks_salt = replicate 32 0,
     ks_kdfTime = kdfTime, ks_kdfMemory = kdfMemory, ks_kdfThreads = kdfThreads,
     ks_identities = [\<lparr>id_Name = ''al'', id_SignKey = ed_key ed0 (replicate 32 4), id_IDPowStamp = []\<rparr>],
     ks_channels = [\<lparr>ch_Name = ''dev'', ch_Key = sha256 env0 []\<rparr>], ks_contacts = []\<rparr>"

lemma al_valid: "validateName ''al'' = None"
  by (simp add: validateName_def runes_ascii IsControl_def)

lemma ks0_reach: "ks_reach env0 crypto0 J ks0"
proof -
  let ?k1 = "\<lparr>ks_masterKey = deriveKey env0 [1] (replicate 32 0) kdfTime kdfMemory kdfThreads, ks_salt = replicate 32 0,
     ks_kdfTime = kdfTime, ks_kdfMemory = kdfMemory, ks_kdfThreads = kdfThreads,
     ks_identities = [], ks_channels = [], ks_contacts = []\<rparr>"
  have "ks_reach env0 crypto0 J ?k1"
    by (rule ks_reach.New [of env0 "Inr (replicate 32 0)" "[1]"]) (simp add: NewKeystore_def)
  from ks_reach.Add [OF this, of "Inr (replicate 32 4)" "''al''"]
  have "ks_reach env0 crypto0 J (?k1\<lparr>ks_identities := [\<lparr>id_Name = ''al'', id_SignKey = ed_key ed0 (replicate 32 4), id_IDPowStamp = []\<rparr>]\<rparr>)"
    by (simp add: Add_def al_valid ks_get_def Let_def crypto0_def)
  from ks_reach.AddChannel [OF this, of "''dev''" "[]"]
  show ?thesis by (simp add: AddChannel_def getChannel_def Let_def ks0_def bytes_of_string_def)
qed


text \<open>C16: what \<^verbatim>\<open>Save\<close> writes, \<^verbatim>\<open>LoadKeystore\<close> reads back under the same
  password: the same identities, channels, contacts and key parameters, without touching
  the file again.\<close>

theorem save_load_roundtrip:
  assumes "crypto_ok C" "draws_ok rnd" "ks_inv k" "VerifyPassword E pw k"
    and "fs_ok fs" "p \<noteq> []" "butlast p \<in> set (fs_dirs fs)"
    and "\<And>f. keystore_file C rnd k = Inr f \<Longrightarrow> json_reads J f"
  shows "case Save C J rnd p k fs of (e, fs') \<Rightarrow>
    e = None \<and> LoadKeystore E C J rnd' p pw fs' = (Some (Inr k), fs')"
  by (rule save_load_keystore [OF assms])

definition draws0 :: "nat \<Rightarrow> string + bytes" where
  "draws0 n = Inr (replicate 24 2)"

lemma draws0_ok: "draws_ok draws0"
  by (simp add: draws_ok_def draws0_def)

text \<open>A decoder that knows one file.\<close>

definition json_for :: "keystoreFile \<Rightarrow> IdentityExport \<Rightarrow> ks_json" where
  "json_for f b = \<lparr>kj_Marshal = (\<lambda>_. [1]), kj_Unmarshal = (\<lambda>_. Some f), kj_MarshalExport = (\<lambda>_. [2]),
     kj_UnmarshalExport = (\<lambda>_. Some b)\<rparr>"

definition export0 :: IdentityExport where
  "export0 = \<lparr>ie_Version = 1, ie_Name = ''al'', ie_Salt = replicate 32 0, ie_KDFTime = kdfTime,
     ie_KDFMemory = kdfMemory, ie_KDFThreads = kdfThreads, ie_Nonce = replicate 24 2,
     ie_Ciphertext = cr_Seal crypto0 (deriveKey env0 [9] (replicate 32 0) kdfTime kdfMemory kdfThreads)
       (replicate 24 2) (ed_key ed0 (replicate 32 4))\<rparr>"

definition file0 :: keystoreFile where
  "file0 = (case keystore_file crypto0 draws0 ks0 of Inr f \<Rightarrow> f)"

lemma json_for_simps [simp]: "kj_Marshal (json_for f b) x = [1]" "kj_Unmarshal (json_for f b) d = Some f"
  "kj_MarshalExport (json_for f b) y = [2]" "kj_UnmarshalExport (json_for f b) d = Some b"
  by (simp_all add: json_for_def)

lemma ks0_inv: "ks_inv ks0" "VerifyPassword env0 [1] ks0"
  using ks_reach_inv [OF ks0_reach env_ok_env0] by (simp_all add: VerifyPassword_def ks0_def)

theorem save_load_roundtrip_witness:
  "case Save crypto0 (json_for file0 export0) draws0 [''keys''] ks0 fs_empty of (e, fs') \<Rightarrow>
    e = None \<and> LoadKeystore env0 crypto0 (json_for file0 export0) draws0 [''keys''] [1] fs' = (Some (Inr ks0), fs')"
  by (rule save_load_roundtrip [OF crypto_ok_crypto0 draws0_ok ks0_inv fs_ok_empty(1)])
    (simp_all add: fs_empty_def json_reads_def file0_def)

text \<open>C17: whatever the file system does, after \<^verbatim>\<open>Save\<close> the keystore file is either what it
  was or the complete new file; without an error it is the new file.\<close>

theorem Save_atomic:
  assumes "p \<noteq> []" "Save C J rnd p k fs = (e, fs')"
  shows "(map_of (fs_files fs') p = map_of (fs_files fs) p \<or>
      (\<exists>f. keystore_file C rnd k = Inr f \<and> map_of (fs_files fs') p = Some (kj_Marshal J f))) \<and>
    (e = None \<longrightarrow> (\<exists>f. keystore_file C rnd k = Inr f \<and> map_of (fs_files fs') p = Some (kj_Marshal J f)))"
proof (cases "keystore_file C rnd k")
  case (Inl x)
  then show ?thesis using assms(2) by (auto simp: Save_def)
next
  case (Inr f)
  note t = tmpPath_neq(1) [OF assms(1)]
  obtain w fs1 where w: "fs_write (tmpPath p) (kj_Marshal J f) fs = (w, fs1)"
    by (cases "fs_write (tmpPath p) (kj_Marshal J f) fs")
  have m1: "map_of (fs_files fs1) p = map_of (fs_files fs) p"
    using w t by (auto simp: fs_write_def split: option.splits prod.splits if_splits)
  have w1: "w = None \<Longrightarrow> map_of (fs_files fs1) (tmpPath p) = Some (kj_Marshal J f)"
    using w by (auto simp: fs_write_def split: option.splits prod.splits if_splits)
  obtain r fs2 where r: "fs_rename (tmpPath p) p fs1 = (r, fs2)" by (cases "fs_rename (tmpPath p) p fs1")
  have m2: "map_of (fs_files (snd (fs_remove (tmpPath p) x))) p = map_of (fs_files x) p" for x
    using t by (auto simp: fs_remove_def split: option.split)
  show ?thesis
  proof (cases w)
    case (Some err)
    then show ?thesis using assms(2) Inr w m1 by (auto simp: Save_def Let_def)
  next
    case None
    have r1: "r = None \<Longrightarrow> map_of (fs_files fs2) p = Some (kj_Marshal J f)"
      "r \<noteq> None \<Longrightarrow> fs2 = fs1"
      using r w1 [OF None] by (auto simp: fs_rename_def split: option.splits prod.splits)
    show ?thesis using assms(2) Inr w None r r1 m1 m2
      by (cases r) (auto simp: Save_def Let_def)
  qed
qed

theorem Save_atomic_witness:
  "case Save crypto0 (json_for file0 export0) draws0 [''keys''] ks0
      (fs_empty\<lparr>fs_files := [([''keys''], [7])], fs_fault := (\<lambda>op p. if op = OpRename then Some (''disk'', 0) else None)\<rparr>) of
    (e, fs') \<Rightarrow> map_of (fs_files fs') [''keys''] = Some [7] \<or> map_of (fs_files fs') [''keys''] = Some [1]"
proof -
  let ?fs = "fs_empty\<lparr>fs_files := [([''keys''], [7])], fs_fault := (\<lambda>op p. if op = OpRename then Some (''disk'', 0) else None)\<rparr>"
  obtain e fs' where s: "Save crypto0 (json_for file0 export0) draws0 [''keys''] ks0 ?fs = (e, fs')"
    by (cases "Save crypto0 (json_for file0 export0) draws0 [''keys''] ks0 ?fs")
  have "map_of (fs_files fs') [''keys''] = map_of (fs_files ?fs) [''keys''] \<or>
      map_of (fs_files fs') [''keys''] = Some [1]"
    using Save_atomic [OF _ s] unfolding json_for_simps by blast
  then show ?thesis unfolding s by auto
qed

text \<open>Loading a version 1 file rewrites it before the channels and contacts have been
  read: the keystore in memory has them, the file on disk has none.\<close>

theorem migration_drops_channels:
  assumes "crypto_ok C" "env_ok E" "draws_ok rnd" "fs_ok fs" "p \<noteq> []" "butlast p \<in> set (fs_dirs fs)"
    and "fs_map fs p = Some data" "kj_Unmarshal J data = Some f" "kf_Version f = 1"
    and "LoadKeystore E C J rnd p pw fs = (Some (Inr k), fs')"
  shows "length (ks_channels k) = length (kf_Channels f) \<and>
    (\<exists>f'. fs_map fs' p = Some (kj_Marshal J f') \<and> kf_Channels f' = [] \<and> kf_Contacts f' = [])"
proof -
  let ?mk = "deriveKey E pw (kf_Salt f) (kf_KDFTime f) (kf_KDFMemory f) (kf_KDFThreads f)"
  have rd: "fs_read fs p = Inr data" using fs_read_ok [OF assms(4)] assms(7) by simp
  have len: "load_channels C key rs = Some (Inr cs) \<Longrightarrow> length cs = length rs" for key rs cs
    by (induction rs arbitrary: cs) (auto simp: sum_bind_Inr_iff split: call.splits if_splits)
  obtain "is" fresh n chs where ld: "load_identities C rnd 0 ?mk (kf_Identities f) = Some (Inr (is, fresh, n))"
    and sv: "Save C J (\<lambda>m. rnd (n + m)) p \<lparr>ks_masterKey = ?mk, ks_salt = kf_Salt f, ks_kdfTime = kf_KDFTime f,
        ks_kdfMemory = kf_KDFMemory f, ks_kdfThreads = kf_KDFThreads f, ks_identities = is, ks_channels = [],
        ks_contacts = []\<rparr> fs = (None, fs')" (is "Save _ _ ?rnd _ ?k0 _ = _")
    and ch: "load_channels C ?mk (kf_Channels f) = Some (Inr chs)" "ks_channels k = chs"
    using assms(10) unfolding LoadKeystore_def rd
    by (auto simp: assms(8,9) keystoreVersion_def Let_def split: if_splits call.splits option.splits sum.splits prod.splits)
  obtain f' where f': "keystore_file C ?rnd ?k0 = Inr f'"
    using sv by (cases "keystore_file C ?rnd ?k0") (auto simp: Save_def)
  then have e: "kf_Channels f' = []" "kf_Contacts f' = []"
    by (auto simp: keystore_file_def sum_bind_Inr_iff split: sum.splits)
  obtain fs2 where "Save C J ?rnd p ?k0 fs = (None, fs2)" "fs_map fs2 p = Some (kj_Marshal J f')"
    using Save_ok [OF f' assms(4-6)] by metis
  then show ?thesis using sv e ch len [OF ch(1)] by auto
qed

text \<open>The file of \<open>ks0\<close> as version 1.\<close>

definition fileV1 :: keystoreFile where
  "fileV1 = file0\<lparr>kf_Version := 1\<rparr>"

theorem migration_drops_channels_witness:
  "case LoadKeystore env0 crypto0 (json_for fileV1 export0) draws0 [''keys''] [1]
      (fs_empty\<lparr>fs_files := [([''keys''], [5])]\<rparr>) of
    (r, fs') \<Rightarrow> (case r of Some (Inr k) \<Rightarrow> length (ks_channels k) = 1 \<and>
      (\<exists>f'. fs_map fs' [''keys''] = Some (kj_Marshal (json_for fileV1 export0) f') \<and> kf_Channels f' = []) | _ \<Rightarrow> False)"
proof -
  let ?J = "json_for fileV1 export0" and ?fs = "fs_empty\<lparr>fs_files := [([''keys''], [5])]\<rparr>"
  have inv: "length (ks_masterKey ks0) = 32" "\<not> kdf_panics (ks_kdfTime ks0) (ks_kdfThreads ks0)"
    using ks0_inv(1) by (simp_all add: ks_inv_def)
  have key: "deriveKey env0 [1] (ks_salt ks0) (ks_kdfTime ks0) (ks_kdfMemory ks0) (ks_kdfThreads ks0) = ks_masterKey ks0"
    using ks0_inv(2) by (simp add: VerifyPassword_def)
  have fs: "fs_ok ?fs" "[] \<in> set (fs_dirs ?fs)" "fs_map ?fs [''keys''] = Some [5]"
    by (simp_all add: fs_ok_def fs_map_def fs_empty_def faultless_def)
  obtain f b where f: "keystore_file crypto0 draws0 ks0 = Inr f" "kf_Version f = 2"
    "kf_Salt f = ks_salt ks0" "kf_KDFTime f = ks_kdfTime ks0" "kf_KDFMemory f = ks_kdfMemory ks0"
    "kf_KDFThreads f = ks_kdfThreads ks0"
    "length b = 24" "kf_Verify f = b @ cr_Seal crypto0 (ks_masterKey ks0) b keystoreCanary"
    "\<And>rnd' m. load_identities crypto0 rnd' m (ks_masterKey ks0) (kf_Identities f) = Some (Inr (ks_identities ks0, False, m))"
    "load_channels crypto0 (ks_masterKey ks0) (kf_Channels f) = Some (Inr (ks_channels ks0))"
    "map cr_Name (kf_Channels f) = map ch_Name (ks_channels ks0)"
    using keystore_file_ok [OF crypto_ok_crypto0 draws0_ok ks0_inv(1)] by metis
  have v1: "fileV1 = f\<lparr>kf_Version := 1\<rparr>" by (simp add: fileV1_def file0_def f(1))
  let ?k = "ks0\<lparr>ks_channels := [], ks_contacts := []\<rparr>"
  have "ks_inv ?k" using ks0_inv(1) by (simp add: ks_inv_def)
  then obtain g where g: "keystore_file crypto0 draws0 ?k = Inr g"
    using keystore_file_ok [OF crypto_ok_crypto0 draws0_ok] by metis
  obtain fs' where sv: "Save crypto0 ?J (\<lambda>m. draws0 m) [''keys''] ?k ?fs = (None, fs')"
  proof (rule Save_ok [OF g fs(1), of "[''keys'']" ?J])
    show "butlast [''keys''] \<in> set (fs_dirs ?fs)" using fs(2) by simp
  qed (use that in auto)
  have k0: "\<lparr>ks_masterKey = ks_masterKey ks0, ks_salt = ks_salt ks0, ks_kdfTime = ks_kdfTime ks0,
     ks_kdfMemory = ks_kdfMemory ks0, ks_kdfThreads = ks_kdfThreads ks0, ks_identities = ks_identities ks0,
     ks_channels = [], ks_contacts = []\<rparr> = ?k" by simp
  have rd: "fs_read ?fs [''keys''] = Inr [5]" using fs_read_ok [OF fs(1)] fs(3) by simp
  have dec: "ksDecrypt crypto0 (ks_masterKey ks0) b (cr_Seal crypto0 (ks_masterKey ks0) b keystoreCanary) = Returns keystoreCanary"
    by (rule ksDecrypt_Seal [OF crypto_ok_crypto0 inv(1) f(7)])
  have gt: "length (cr_Seal crypto0 (ks_masterKey ks0) b keystoreCanary) > 0"
    using crypto_okD(7) [OF crypto_ok_crypto0] by (simp add: f(7))
  obtain k where ld: "LoadKeystore env0 crypto0 ?J draws0 [''keys''] [1] ?fs = (Some (Inr k), fs')"
    unfolding LoadKeystore_def rd using key inv(2) f(2-10) dec gt sv
    by (auto simp: v1 keystoreVersion_def Let_def k0)
  have "length (kf_Channels fileV1) = length (ks_channels ks0)"
    using arg_cong [OF f(11), of length] by (simp add: v1)
  then have "length (kf_Channels fileV1) = 1" by (simp add: ks0_def)
  moreover have "kf_Version fileV1 = 1" "[''keys''] \<noteq> []" "butlast [''keys''] \<in> set (fs_dirs ?fs)"
    "kj_Unmarshal ?J [5] = Some fileV1" using fs(2) by (simp_all add: v1)
  ultimately have "length (ks_channels k) = 1" "\<exists>f'. fs_map fs' [''keys''] = Some (kj_Marshal ?J f') \<and> kf_Channels f' = []"
    using migration_drops_channels [OF crypto_ok_crypto0 env_ok_env0 draws0_ok fs(1) _ _ fs(3) _ _ ld, of fileV1] by auto
  then show ?thesis unfolding ld by simp
qed

text \<open>An identity exported under a password can be imported into any keystore that has no
  identity of that name: the keystore gains exactly that name and signing key (without the
  proof-of-work stamp), and a second import is refused.\<close>

theorem export_import:
  assumes "crypto_ok C" "env_ok E" "ks_get name k = Some i" "length (id_SignKey i) = 64"
    and "validateName name = None" "ks_get name k2 = None" "length nonce = 24"
    and "json_reads_export J \<lparr>ie_Version = 1, ie_Name = name, ie_Salt = salt, ie_KDFTime = kdfTime,
      ie_KDFMemory = kdfMemory, ie_KDFThreads = kdfThreads, ie_Nonce = nonce,
      ie_Ciphertext = cr_Seal C (deriveKey E pw salt kdfTime kdfMemory kdfThreads) nonce (id_SignKey i)\<rparr>"
  shows "\<exists>data. ExportIdentity E C J (Inr salt) (Inr nonce) name pw k = Inr data \<and>
    (case ImportIdentity E C J data pw k2 of (r, k3) \<Rightarrow>
       r = Some (Inr (i\<lparr>id_IDPowStamp := []\<rparr>)) \<and>
       k3 = k2\<lparr>ks_identities := ks_identities k2 @ [i\<lparr>id_IDPowStamp := []\<rparr>]\<rparr> \<and>
       ImportIdentity E C J data pw k3 = (Some (Inl KsExists), k3))"
proof -
  let ?key = "deriveKey E pw salt kdfTime kdfMemory kdfThreads"
  have n: "id_Name i = name" using assms(3) by (auto simp: ks_get_def find_Some_iff)
  have "ksDecrypt C ?key nonce (cr_Seal C ?key nonce (id_SignKey i)) = Returns (id_SignKey i)"
    by (rule ksDecrypt_Seal [OF assms(1) length_deriveKey [OF assms(2)] assms(7)])
  moreover have "\<lparr>id_Name = name, id_SignKey = id_SignKey i, id_IDPowStamp = []\<rparr> = i\<lparr>id_IDPowStamp := []\<rparr>"
    using n by simp
  moreover have "\<exists>y. find (\<lambda>i. id_Name i = name) (ks_identities k2 @
      [\<lparr>id_Name = name, id_SignKey = id_SignKey i, id_IDPowStamp = []\<rparr>]) = Some y"
    unfolding not_None_eq [symmetric] by (auto simp: find_None_iff)
  ultimately show ?thesis using assms(3-6,8) n
    by (simp add: ExportIdentity_def ImportIdentity_def ksEncrypt_def Let_def ks_get_def json_reads_export_def
        split: option.splits)
qed

theorem export_import_witness:
  "\<exists>data. ExportIdentity env0 crypto0 (json_for file0 export0) (Inr (replicate 32 0)) (Inr (replicate 24 2)) ''al'' [9] ks0
      = Inr data \<and>
    fst (ImportIdentity env0 crypto0 (json_for file0 export0) data [9] (ks0\<lparr>ks_identities := []\<rparr>)) =
      Some (Inr \<lparr>id_Name = ''al'', id_SignKey = ed_key ed0 (replicate 32 4), id_IDPowStamp = []\<rparr>)"
proof -
  let ?i = "\<lparr>id_Name = ''al'', id_SignKey = ed_key ed0 (replicate 32 4), id_IDPowStamp = []\<rparr>"
  have "length (ed_key ed0 (replicate 32 4)) = 64" by (simp add: ed0_def ed_key_def)
  then have "\<exists>data. ExportIdentity env0 crypto0 (json_for file0 export0) (Inr (replicate 32 0)) (Inr (replicate 24 2)) ''al'' [9] ks0
      = Inr data \<and>
    (case ImportIdentity env0 crypto0 (json_for file0 export0) data [9] (ks0\<lparr>ks_identities := []\<rparr>) of (r, k3) \<Rightarrow>
       r = Some (Inr (?i\<lparr>id_IDPowStamp := []\<rparr>)) \<and>
       k3 = ks0\<lparr>ks_identities := []\<rparr>\<lparr>ks_identities := ks_identities (ks0\<lparr>ks_identities := []\<rparr>) @ [?i\<lparr>id_IDPowStamp := []\<rparr>]\<rparr> \<and>
       ImportIdentity env0 crypto0 (json_for file0 export0) data [9] k3 = (Some (Inl KsExists), k3))"
    by (intro export_import [OF crypto_ok_crypto0 env_ok_env0])
      (simp_all add: al_valid ks_get_def ks0_def json_reads_export_def export0_def)
  then obtain data where d: "ExportIdentity env0 crypto0 (json_for file0 export0) (Inr (replicate 32 0)) (Inr (replicate 24 2)) ''al'' [9] ks0
      = Inr data" "fst (ImportIdentity env0 crypto0 (json_for file0 export0) data [9] (ks0\<lparr>ks_identities := []\<rparr>)) = Some (Inr ?i)"
    unfolding case_prod_beta by (elim exE conjE) simp
  show ?thesis by (intro exI conjI) (rule d)+
qed

end
