(* ===== verification/MessageStore.thy ===== *)
theory MessageStore
  imports MessageFormat
begin

text \<open>
  \<^verbatim>\<open>client/store.go\<close>: the message table and the scrape checkpoint.  The SQL engine is
  third-party code; the statements of the source are modelled on the table: rows in the
  order of insertion, \<^verbatim>\<open>INSERT OR IGNORE\<close> under the uniqueness of \<^verbatim>\<open>block_id\<close>,
  the autoincremented row id, NULL as \<open>None\<close>.  A statement that the engine refuses to run
  is a fault of the store (\<open>ms_fault\<close>); the order of rows that agree on the sort key is
  the one that the sorter of the environment gives.
\<close>

datatype sql_op = SqlSchema | SqlGetCheckpoint | SqlSetCheckpoint | SqlInsert | SqlSelect

record row =
  rw_id :: int
  rw_block_id :: bytes
  rw_content :: bytes
  rw_received_at :: int
  rw_sender_pub :: "bytes option"
  rw_thread_refs :: "bytes option"
  rw_sent_at :: "int option"
  rw_msg_type :: int
  rw_channel :: string
  rw_sent_to :: "bytes option"
  rw_decrypted_by :: string

record MessageStore =
  ms_created :: bool
  ms_columns :: "string list"
  ms_rows :: "row list"
  ms_lastID :: int
  ms_checkpoint :: int
  ms_fault :: "sql_op \<Rightarrow> string option"

record Message =
  m_ID :: int
  m_BlockID :: ID
  m_SenderPub :: bytes
  m_ThreadRefs :: "bytes list"
  m_SentAt :: time
  m_MsgType :: byte
  m_Content :: bytes
  m_Channel :: string
  m_ReceivedAt :: time
  m_SentTo :: "bytes option"
  m_DecryptedBy :: string

section \<open>Schema\<close>

definition baseCols :: "string list" where
  "baseCols = [''id'', ''block_id'', ''content'', ''received_at'']"

definition addCols :: "string list" where
  "addCols = [''sender_pub'', ''thread_refs'', ''sent_at'', ''msg_type'', ''channel'', ''sent_to'', ''decrypted_by'']"

definition migrate :: "MessageStore \<Rightarrow> string option \<times> MessageStore" where
  "migrate s =
     (case ms_fault s SqlSchema of
        Some e \<Rightarrow> (Some e, s)
      | None \<Rightarrow>
          (let s1 = (if ms_created s then s
                     else s\<lparr>ms_created := True, ms_columns := baseCols, ms_rows := [], ms_lastID := 0,
                            ms_checkpoint := 0\<rparr>)
           in (None, s1\<lparr>ms_columns := fold (\<lambda>col cols. if col \<notin> set cols then cols @ [col] else cols)
                                         addCols (ms_columns s1)\<rparr>)))"

definition OpenMessageStore :: "string + MessageStore \<Rightarrow> string + MessageStore" where
  "OpenMessageStore opened =
     (case opened of
        Inl e \<Rightarrow> Inl e
      | Inr db \<Rightarrow> (case migrate db of (Some e, _) \<Rightarrow> Inl e | (None, s) \<Rightarrow> Inr s))"

section \<open>Checkpoint\<close>

definition GetCheckpoint :: "MessageStore \<Rightarrow> string + time" where
  "GetCheckpoint s =
     (case ms_fault s SqlGetCheckpoint of
        Some e \<Rightarrow> Inl e
      | None \<Rightarrow> if ms_checkpoint s = 0 then Inr zeroTime else Inr (timeUnix (ms_checkpoint s)))"

definition SetCheckpoint :: "time \<Rightarrow> MessageStore \<Rightarrow> string option \<times> MessageStore" where
  "SetCheckpoint t s =
     (case ms_fault s SqlSetCheckpoint of
        Some e \<Rightarrow> (Some e, s)
      | None \<Rightarrow> (None, s\<lparr>ms_checkpoint := Unix t\<rparr>))"

section \<open>Messages\<close>

definition zeroToNil :: "bytes \<Rightarrow> bytes option" where
  "zeroToNil b = (if list_ex (\<lambda>v. v \<noteq> 0) b then Some b else None)"

definition zeroInt64 :: "int \<Rightarrow> int option" where
  "zeroInt64 v = (if v = 0 then None else Some v)"

definition encodeThreadRefs :: "bytes list \<Rightarrow> bytes option" where
  "encodeThreadRefs refs =
     (if refs = replicate 8 (replicate 32 0) then None
      else Some (fold (\<lambda>i buf. poke (i * 32) (refs ! i) buf) [0..<length refs] (replicate 256 0)))"

definition decodeThreadRefs :: "bytes option \<Rightarrow> bytes list" where
  "decodeThreadRefs b =
     (case b of
        None \<Rightarrow> replicate 8 (replicate 32 0)
      | Some bs \<Rightarrow>
          if length bs < 256 then replicate 8 (replicate 32 0)
          else map (\<lambda>i. slice (i * 32) ((i + 1) * 32) bs) [0..<8])"

definition SaveMessage ::
  "time \<Rightarrow> ID \<Rightarrow> MessagePayload \<Rightarrow> MessageStore \<Rightarrow> (string + bool) \<times> MessageStore" where
  "SaveMessage now blockID mp s =
     (case ms_fault s SqlInsert of
        Some e \<Rightarrow> (Inl e, s)
      | None \<Rightarrow>
          if list_ex (\<lambda>r. rw_block_id r = blockID) (ms_rows s) then (Inr False, s)
          else
            let r = \<lparr>rw_id = ms_lastID s + 1, rw_block_id = blockID, rw_content = mp_Content mp,
                     rw_received_at = Unix now, rw_sender_pub = zeroToNil (mp_SenderPub mp),
                     rw_thread_refs = encodeThreadRefs (mp_ThreadRefs mp),
                     rw_sent_at = zeroInt64 (mp_Timestamp mp), rw_msg_type = uint (mp_MsgType mp),
                     rw_channel = mp_Channel mp, rw_sent_to = zeroToNil (mp_SentTo mp),
                     rw_decrypted_by = mp_DecryptedBy mp\<rparr>
            in (Inr True, s\<lparr>ms_rows := ms_rows s @ [r], ms_lastID := ms_lastID s + 1\<rparr>))"

text \<open>\<^verbatim>\<open>copy\<close> into a zeroed array of 32 bytes.\<close>

definition copy32 :: "bytes \<Rightarrow> bytes" where
  "copy32 b = take 32 b @ replicate (32 - length b) 0"

definition scanMessage :: "row \<Rightarrow> Message" where
  "scanMessage r =
     \<lparr>m_ID = rw_id r, m_BlockID = copy32 (rw_block_id r),
      m_SenderPub = copy32 (case rw_sender_pub r of None \<Rightarrow> [] | Some b \<Rightarrow> b),
      m_ThreadRefs = decodeThreadRefs (rw_thread_refs r),
      m_SentAt = (case rw_sent_at r of None \<Rightarrow> zeroTime | Some u \<Rightarrow> timeUnix u),
      m_MsgType = word_of_int (rw_msg_type r), m_Content = rw_content r, m_Channel = rw_channel r,
      m_ReceivedAt = timeUnix (rw_received_at r), m_SentTo = rw_sent_to r,
      m_DecryptedBy = rw_decrypted_by r\<rparr>"

definition GetMessage :: "ID \<Rightarrow> MessageStore \<Rightarrow> string + Message option" where
  "GetMessage blockID s =
     (case ms_fault s SqlSelect of
        Some e \<Rightarrow> Inl e
      | None \<Rightarrow> Inr (map_option scanMessage (find (\<lambda>r. rw_block_id r = blockID) (ms_rows s))))"

definition ListMessagesAfter :: "env \<Rightarrow> int \<Rightarrow> MessageStore \<Rightarrow> string + Message list" where
  "ListMessagesAfter E afterID s =
     (case ms_fault s SqlSelect of
        Some e \<Rightarrow> Inl e
      | None \<Rightarrow>
          Inr (map scanMessage
            (sort_Slice (sorter E) (\<lambda>x y. rw_received_at x < rw_received_at y)
               (filter (\<lambda>r. rw_id r > afterID) (ms_rows s)))))"

definition ListMessages :: "env \<Rightarrow> MessageStore \<Rightarrow> string + Message list" where
  "ListMessages E s = ListMessagesAfter E 0 s"

section \<open>Invariant\<close>

text \<open>Block IDs are unique and row ids are positive, distinct and below the counter.\<close>

definition ms_inv :: "MessageStore \<Rightarrow> bool" where
  "ms_inv s \<longleftrightarrow> distinct (map rw_block_id (ms_rows s)) \<and> distinct (map rw_id (ms_rows s)) \<and>
     (\<forall>r \<in> set (ms_rows s). 0 < rw_id r \<and> rw_id r \<le> ms_lastID s) \<and> 0 \<le> ms_lastID s"

definition saved :: "MessageStore \<Rightarrow> ID set" where
  "saved s = set (map rw_block_id (ms_rows s))"

lemma SaveMessage_cases:
  assumes "ms_fault s SqlInsert = None" "SaveMessage now i mp s = (r, s')"
  shows "r = Inr (i \<notin> saved s)" "saved s' = insert i (saved s)"
    "ms_fault s' = ms_fault s" "ms_checkpoint s' = ms_checkpoint s"
  using assms
  by (auto simp: SaveMessage_def Let_def saved_def list_ex_iff split: if_splits)

lemma SaveMessage_inv:
  assumes "ms_inv s" "SaveMessage now i mp s = (r, s')"
  shows "ms_inv s'"
proof -
  have "ms_lastID s + 1 \<notin> rw_id ` set (ms_rows s)" "\<forall>x \<in> set (ms_rows s). rw_id x \<le> ms_lastID s + 1"
    using assms(1) by (fastforce simp: ms_inv_def)+
  then show ?thesis using assms
    by (auto simp: SaveMessage_def Let_def ms_inv_def list_ex_iff simp del: image_iff split: if_splits option.splits)
qed

lemma SaveMessage_fault: "ms_fault s SqlInsert = Some e \<Longrightarrow> SaveMessage now i mp s = (Inl e, s)"
  by (simp add: SaveMessage_def)

text \<open>Reading back the columns.\<close>

lemma zeroToNil_None: "zeroToNil b = None \<longleftrightarrow> b = replicate (length b) 0"
  by (auto simp: zeroToNil_def list_ex_iff replicate_eqI split: if_splits) (metis in_set_replicate)

lemma copy32_id: "length b = 32 \<Longrightarrow> copy32 b = b"
  by (simp add: copy32_def)

lemma copy32_zeroToNil:
  "length b = 32 \<Longrightarrow> copy32 (case zeroToNil b of None \<Rightarrow> [] | Some x \<Rightarrow> x) = b"
proof (cases "zeroToNil b")
  case None
  assume "length b = 32"
  with None show ?thesis using zeroToNil_None [of b] by (simp add: copy32_def)
next
  case (Some x)
  assume "length b = 32"
  with Some show ?thesis by (auto simp: zeroToNil_def copy32_id split: if_splits)
qed

lemma length_concat_refs: "\<forall>r \<in> set refs. length r = 32 \<Longrightarrow> length (concat refs) = length refs * 32"
  by (induction refs) auto

lemma poke_refs:
  assumes "n \<le> length refs" "\<forall>r \<in> set refs. length r = 32"
  shows "fold (\<lambda>i buf. poke (i * 32) (refs ! i) buf) [0..<n] (replicate (length refs * 32) 0) =
    concat (take n refs) @ replicate ((length refs - n) * 32) 0"
  using assms(1)
proof (induction n)
  case (Suc n)
  have "length (concat (take n refs)) = length (take n refs) * 32"
    using assms(2) by (intro length_concat_refs) (auto dest: in_set_takeD)
  then have l: "length (concat (take n refs)) = n * 32" using Suc.prems by simp
  have r: "length (refs ! n) = 32" using assms(2) Suc.prems by simp
  have "(length refs - n) * 32 = 32 + (length refs - Suc n) * 32" using Suc.prems by (simp add: algebra_simps)
  then show ?case using Suc l r by (simp add: poke_def take_Suc_conv_app_nth replicate_add)
qed simp

lemma slice_concat_refs:
  "\<forall>r \<in> set refs. length r = 32 \<Longrightarrow> i < length refs \<Longrightarrow> slice (i * 32) ((i + 1) * 32) (concat refs) = refs ! i"
proof (induction refs arbitrary: i)
  case (Cons x refs)
  show ?case
  proof (cases i)
    case 0
    then show ?thesis using Cons.prems by (simp add: slice_append_left slice_all)
  next
    case (Suc j)
    then show ?thesis using Cons by (simp add: slice_append_right)
  qed
qed simp

lemma decode_encodeThreadRefs:
  assumes "length refs = 8" "\<forall>r \<in> set refs. length r = 32"
  shows "decodeThreadRefs (encodeThreadRefs refs) = refs"
proof (cases "refs = replicate 8 (replicate 32 0)")
  case False
  have "fold (\<lambda>i buf. poke (i * 32) (refs ! i) buf) [0..<length refs] (replicate 256 0) = concat refs"
    using poke_refs [OF order_refl assms(2)] assms(1) by simp
  moreover have "map (\<lambda>i. slice (i * 32) ((i + 1) * 32) (concat refs)) [0..<8] = refs"
    using slice_concat_refs [OF assms(2)] assms(1) by (intro nth_equalityI) auto
  ultimately show ?thesis using False length_concat_refs [OF assms(2)] assms(1)
    by (simp add: encodeThreadRefs_def decodeThreadRefs_def)
qed (simp add: encodeThreadRefs_def decodeThreadRefs_def)

section \<open>Properties\<close>

text \<open>What a message read back must say.\<close>

definition message_of :: "int \<Rightarrow> ID \<Rightarrow> time \<Rightarrow> MessagePayload \<Rightarrow> Message \<Rightarrow> bool" where
  "message_of n i now mp m \<longleftrightarrow>
     m_ID m = n \<and> m_BlockID m = i \<and> m_SenderPub m = mp_SenderPub mp \<and> m_ThreadRefs m = mp_ThreadRefs mp \<and>
     m_MsgType m = mp_MsgType mp \<and> m_Content m = mp_Content mp \<and> m_Channel m = mp_Channel mp \<and>
     m_DecryptedBy m = mp_DecryptedBy mp \<and> Unix (m_ReceivedAt m) = Unix now \<and>
     (mp_Timestamp mp \<noteq> 0 \<longrightarrow> Unix (m_SentAt m) = mp_Timestamp mp) \<and>
     (mp_Timestamp mp = 0 \<longrightarrow> m_SentAt m = zeroTime) \<and>
     (m_SentTo m = None \<longleftrightarrow> list_all (\<lambda>v. v = 0) (mp_SentTo mp)) \<and>
     (\<forall>b. m_SentTo m = Some b \<longrightarrow> b = mp_SentTo mp)"

text \<open>A message saved under a new block ID is read back by that ID with every stored
  field, under the next row id; the invariant of the table holds afterwards and every
  other message stays as it was.\<close>

theorem save_then_get:
  assumes "ms_inv s" "\<And>op. ms_fault s op = None" "wf_mp mp" "wf_id i" "i \<notin> saved s"
  shows "case SaveMessage now i mp s of (r, s') \<Rightarrow>
    r = Inr True \<and> ms_inv s' \<and>
    (case GetMessage i s' of Inr (Some m) \<Rightarrow> message_of (ms_lastID s + 1) i now mp m | _ \<Rightarrow> False) \<and>
    (\<forall>j. j \<noteq> i \<longrightarrow> GetMessage j s' = GetMessage j s)"
proof -
  obtain r s' where sv: "SaveMessage now i mp s = (r, s')" by (cases "SaveMessage now i mp s")
  note c = SaveMessage_cases [OF assms(2) sv]
  have new: "\<not> list_ex (\<lambda>r. rw_block_id r = i) (ms_rows s)" using assms(5) by (auto simp: saved_def list_ex_iff)
  then have f: "find (\<lambda>r. rw_block_id r = i) (ms_rows s) = None" by (auto simp: find_None_iff list_ex_iff)
  have app: "find P (xs @ [x]) = (case find P xs of None \<Rightarrow> if P x then Some x else None | Some y \<Rightarrow> Some y)"
    for P and x :: row and xs by (induction xs) auto
  have refs: "decodeThreadRefs (encodeThreadRefs (mp_ThreadRefs mp)) = mp_ThreadRefs mp"
    using assms(3) by (intro decode_encodeThreadRefs) (auto simp: wf_mp_def list_all_iff)
  have pub: "copy32 (case zeroToNil (mp_SenderPub mp) of None \<Rightarrow> [] | Some x \<Rightarrow> x) = mp_SenderPub mp"
    using assms(3) by (intro copy32_zeroToNil) (simp add: wf_mp_def)
  have ii: "copy32 i = i" using assms(4) by (simp add: copy32_id wf_id_def)
  have st: "(zeroToNil b = None) = list_all (\<lambda>v. v = 0) b" "zeroToNil b = Some b' \<Longrightarrow> b' = b" for b b'
    by (auto simp: zeroToNil_def list_all_iff list_ex_iff split: if_splits)
  have g: "case GetMessage i s' of Inr (Some m) \<Rightarrow> message_of (ms_lastID s + 1) i now mp m | _ \<Rightarrow> False"
    using sv new f assms(2) refs pub ii st
    by (auto simp: SaveMessage_def GetMessage_def app message_of_def scanMessage_def Let_def zeroInt64_def)
  have "GetMessage j s' = GetMessage j s" if "j \<noteq> i" for j
    using sv new assms(2) that by (auto simp: SaveMessage_def GetMessage_def app Let_def split: option.split)
  then show ?thesis using c(1) SaveMessage_inv [OF assms(1) sv] g assms(5) by (simp add: sv)
qed

text \<open>The store that \<^verbatim>\<open>OpenMessageStore\<close> makes of a fresh file.\<close>

definition fresh_db :: MessageStore where
  "fresh_db = \<lparr>ms_created = False, ms_columns = [], ms_rows = [], ms_lastID = 0, ms_checkpoint = 0,
     ms_fault = (\<lambda>_. None)\<rparr>"

definition empty_ms :: MessageStore where
  "empty_ms = snd (migrate fresh_db)"

lemma empty_ms_simps: "ms_rows empty_ms = []" "ms_lastID empty_ms = 0" "ms_checkpoint empty_ms = 0"
  "ms_fault empty_ms = (\<lambda>_. None)" "ms_inv empty_ms" "saved empty_ms = {}"
  by (simp_all add: empty_ms_def migrate_def fresh_db_def ms_inv_def saved_def Let_def)

theorem save_then_get_witness:
  "case SaveMessage 5 (replicate 32 1) zero_mp empty_ms of (r, s') \<Rightarrow>
    r = Inr True \<and> ms_inv s' \<and>
    (case GetMessage (replicate 32 1) s' of
       Inr (Some m) \<Rightarrow> message_of 1 (replicate 32 1) 5 zero_mp m | _ \<Rightarrow> False)"
proof -
  have "wf_mp zero_mp" by (simp add: wf_mp_def zero_mp_def in_int64_def list_all_iff)
  from save_then_get [OF empty_ms_simps(5) _ this, of "replicate 32 1" 5, unfolded empty_ms_simps(2,4,6) add_0]
  show ?thesis by (auto simp: wf_id_def)
qed

text \<open>Opening is idempotent: after a migration every column is there once, a second
  migration changes nothing, and rows and checkpoint of an existing store survive.\<close>

theorem migrate_idempotent:
  assumes "ms_fault s SqlSchema = None" "migrate s = (r, s')"
  shows "r = None \<and> migrate s' = (None, s') \<and> set addCols \<subseteq> set (ms_columns s') \<and>
    (ms_created s \<longrightarrow> ms_rows s' = ms_rows s \<and> ms_checkpoint s' = ms_checkpoint s \<and> ms_lastID s' = ms_lastID s)"
proof -
  let ?f = "\<lambda>col cols. if col \<notin> set cols then cols @ [col] else cols"
  have keep: "set cols \<subseteq> set (fold ?f cs cols)" for cs cols
  proof (induction cs arbitrary: cols)
    case (Cons c cs)
    have "set cols \<subseteq> set (?f c cols)" by auto
    then show ?case using Cons.IH [of "?f c cols"] by simp
  qed simp
  have all: "set cs \<subseteq> set (fold ?f cs cols)" for cs cols
  proof (induction cs arbitrary: cols)
    case (Cons c cs)
    have "c \<in> set (?f c cols)" by simp
    then have "c \<in> set (fold ?f cs (?f c cols))" using keep [of "?f c cols" cs] by (rule rev_subsetD)
    then show ?case using Cons.IH [of "?f c cols"] by simp
  qed simp
  have same: "fold ?f cs cols = cols" if "set cs \<subseteq> set cols" for cs cols
    using that by (induction cs) simp_all
  define s1 where "s1 = (if ms_created s then s else s\<lparr>ms_created := True, ms_columns := baseCols, ms_rows := [],
      ms_lastID := 0, ms_checkpoint := 0\<rparr>)"
  have s': "r = None" "s' = s1\<lparr>ms_columns := fold ?f addCols (ms_columns s1)\<rparr>"
    using assms unfolding migrate_def s1_def by (simp_all add: Let_def)
  have c: "ms_columns s' = fold ?f addCols (ms_columns s1)" "ms_created s'" "ms_fault s' = ms_fault s"
    unfolding s' by (simp_all add: s1_def)
  have "fold ?f addCols (ms_columns s') = ms_columns s'" using all c(1) by (intro same) simp
  then have "migrate s' = (None, s')" using c(2,3) assms(1) by (simp add: migrate_def Let_def)
  moreover have "set addCols \<subseteq> set (ms_columns s')" using all c(1) by simp
  ultimately show ?thesis using s' by (simp add: s1_def)
qed

theorem migrate_idempotent_witness:
  "migrate empty_ms = (None, empty_ms) \<and> set addCols \<subseteq> set (ms_columns empty_ms)"
  using migrate_idempotent [of fresh_db "fst (migrate fresh_db)" "snd (migrate fresh_db)"]
  by (simp add: empty_ms_def fresh_db_def)

text \<open>A listing contains exactly the messages after the given row id, each once, ordered
  by the time of receipt.\<close>

theorem list_after_sorted:
  assumes "env_ok E" "ms_inv s" "ms_fault s SqlSelect = None"
  shows "case ListMessagesAfter E n s of Inl _ \<Rightarrow> False | Inr ms \<Rightarrow>
    sorted (map (\<lambda>m. Unix (m_ReceivedAt m)) ms) \<and>
    mset ms = image_mset scanMessage (mset (filter (\<lambda>r. rw_id r > n) (ms_rows s))) \<and> distinct (map m_ID ms)"
proof -
  let ?rs = "filter (\<lambda>r. rw_id r > n) (ms_rows s)"
  let ?ss = "sort_Slice (sorter E) (\<lambda>x y. rw_received_at x < rw_received_at y) ?rs"
  have k: "mset ?ss = mset ?rs" "sorted (map rw_received_at ?ss)"
    by (rule sort_Slice_key [OF env_okD(4) [OF assms(1)]]; simp)+
  have ids: "map m_ID (map scanMessage xs) = map rw_id xs" for xs by (simp add: scanMessage_def)
  have d: "distinct (map rw_id ?rs)" using assms(2) by (simp add: ms_inv_def distinct_map_filter)
  have "mset (map rw_id ?ss) = mset (map rw_id ?rs)" unfolding mset_map k(1) ..
  then have "distinct (map rw_id ?ss)" using d mset_eq_imp_distinct_iff by blast
  moreover have "map (\<lambda>m. Unix (m_ReceivedAt m)) (map scanMessage ?ss) = map rw_received_at ?ss"
    by (simp add: scanMessage_def)
  ultimately show ?thesis
    using k assms(3) ids [of ?ss] by (simp add: ListMessagesAfter_def del: map_map)
qed

theorem list_after_sorted_witness:
  "case ListMessagesAfter env0 0 empty_ms of Inl _ \<Rightarrow> False | Inr ms \<Rightarrow> distinct (map m_ID ms)"
  using list_after_sorted [OF env_ok_env0 empty_ms_simps(5), of 0] by (auto simp: empty_ms_simps split: sum.splits)

end
