(* ===== verification/Scraper.thy ===== *)
theory Scraper
  imports KeystoreProps MessageStore FlatProofs BadgerProps
begin

text \<open>
  \<^verbatim>\<open>client/client.go\<close>: the scraper that goes through the blocks added since the last
  checkpoint, tries every key of the client on each and saves what it can read.  The
  callback for proof-of-work gifts acts on a state of its own (\<open>'g\<close>); the answers of
  \<^verbatim>\<open>ctx.Err\<close> are a parameter.  The lemmas hold for every block store; the
  properties are stated for the Badger and the flat-file store.
\<close>

section \<open>The client\<close>

definition scrapePageSize :: nat where "scrapePageSize = 100"

record ('s, 'g) Client =
  c_blocks :: "'s Store"
  c_identities :: "Identity list"
  c_channels :: "Channel list"
  c_OnPowGift :: "(string \<Rightarrow> bytes \<Rightarrow> 'g \<Rightarrow> 'g) option"

definition New :: "'s Store \<Rightarrow> Identity list \<Rightarrow> Channel list \<Rightarrow> ('s, 'g) Client" where
  "New blocks identities channels =
     \<lparr>c_blocks = blocks, c_identities = identities, c_channels = channels, c_OnPowGift = None\<rparr>"

fun try_identities :: "env \<Rightarrow> crypto \<Rightarrow> Payload \<Rightarrow> Identity list \<Rightarrow> (MessagePayload \<times> string) call" where
  "try_identities E C payload [] = Fails"
| "try_identities E C payload (i # is) =
     (case tryDecrypt E C (id_SignKey i) payload of
        Panics \<Rightarrow> Panics
      | Fails \<Rightarrow> try_identities E C payload is
      | Returns mp \<Rightarrow> Returns (mp, id_Name i))"

fun try_channels :: "env \<Rightarrow> crypto \<Rightarrow> Payload \<Rightarrow> Channel list \<Rightarrow> (MessagePayload \<times> string) call" where
  "try_channels E C payload [] = Fails"
| "try_channels E C payload (c # cs) =
     (case tryDecryptChannel E C (ch_Key c) payload of
        Panics \<Rightarrow> Panics
      | Fails \<Rightarrow> try_channels E C payload cs
      | Returns mp \<Rightarrow> Returns (mp\<lparr>mp_Channel := ch_Name c\<rparr>, []))"

definition tryAllKeys :: "env \<Rightarrow> crypto \<Rightarrow> ('s, 'g) Client \<Rightarrow> Payload \<Rightarrow> (MessagePayload \<times> string) call" where
  "tryAllKeys E C c payload =
     (case try_identities E C payload (c_identities c) of
        Panics \<Rightarrow> Panics
      | Fails \<Rightarrow> try_channels E C payload (c_channels c)
      | Returns r \<Rightarrow> Returns r)"

section \<open>The scan\<close>

datatype scrape_err = ScCtx string | ScBlocks store_err | ScSql string

text \<open>The state of a scan: messages found so far, message store, state of the callback.
  A scan stops early with the results of the function (\<open>None\<close>: a panic) and the state.\<close>

type_synonym 'g scan = "int \<times> MessageStore \<times> 'g"
type_synonym 'g stop = "(int \<times> scrape_err option) option \<times> MessageStore \<times> 'g"

definition scrape_ref ::
  "env \<Rightarrow> crypto \<Rightarrow> ('s, 'g) Client \<Rightarrow> time \<Rightarrow> 's \<Rightarrow> ID \<Rightarrow> 'g scan \<Rightarrow> 'g stop + 'g scan" where
  "scrape_ref E C c t s i acc =
     (case acc of (found, ms, g) \<Rightarrow>
        case st_Get (c_blocks c) t s i of
          Inl _ \<Rightarrow> Inr acc
        | Inr (_, payload) \<Rightarrow>
            (case tryAllKeys E C c payload of
               Panics \<Rightarrow> Inl (None, ms, g)
             | Fails \<Rightarrow> Inr acc
             | Returns (mp, identityName) \<Rightarrow>
                 (let mp = mp\<lparr>mp_DecryptedBy := identityName\<rparr>
                  in case (if identityName \<noteq> [] \<and> mp_Channel mp = [] then ParsePowGift (mp_Content mp) else None) of
                       Some stamp \<Rightarrow>
                         Inr (found, ms, case c_OnPowGift c of None \<Rightarrow> g | Some f \<Rightarrow> f identityName stamp g)
                     | None \<Rightarrow>
                         (case SaveMessage t i mp ms of
                            (Inl e, ms') \<Rightarrow> Inl (Some (found, Some (ScSql e)), ms', g)
                          | (Inr inserted, ms') \<Rightarrow> Inr (if inserted then found + 1 else found, ms', g)))))"

definition scrape_body ::
  "env \<Rightarrow> crypto \<Rightarrow> (string \<Rightarrow> string option) \<Rightarrow> ('s, 'g) Client \<Rightarrow> time \<Rightarrow> 's \<Rightarrow> time
     \<Rightarrow> string \<Rightarrow> 'g scan \<Rightarrow> 'g stop + (string \<times> 'g scan)" where
  "scrape_body E C ctxErr c t s since pageToken acc =
     (case acc of (found, ms, g) \<Rightarrow>
        case ctxErr pageToken of
          Some e \<Rightarrow> Inl (Some (found, Some (ScCtx e)), ms, g)
        | None \<Rightarrow>
            (case st_ListBlocks (c_blocks c) t s pageToken (int scrapePageSize) 0 since of
               Inl e \<Rightarrow> Inl (Some (found, Some (ScBlocks e)), ms, g)
             | Inr (nextToken, refs) \<Rightarrow>
                 sum_bind (efold (\<lambda>ref. scrape_ref E C c t s (refID ref)) refs acc) (\<lambda>acc'. Inr (nextToken, acc'))))"

definition Scrape ::
  "env \<Rightarrow> crypto \<Rightarrow> (string \<Rightarrow> string option) \<Rightarrow> ('s, 'g) Client \<Rightarrow> time \<Rightarrow> 's \<Rightarrow> MessageStore \<Rightarrow> 'g
     \<Rightarrow> 'g stop option" where
  "Scrape E C ctxErr c t s ms g =
     (case GetCheckpoint ms of
        Inl e \<Rightarrow> Some (Some (0, Some (ScSql e)), ms, g)
      | Inr since \<Rightarrow>
          map_option (\<lambda>r. case r of
              Inl stop \<Rightarrow> stop
            | Inr (found, ms', g') \<Rightarrow>
                (case SetCheckpoint t ms' of (e, ms'') \<Rightarrow> (Some (found, map_option ScSql e), ms'', g')))
            (page_loop (scrape_body E C ctxErr c t s since) [] (0, ms, g)))"


section \<open>What the scan must find\<close>

text \<open>The message that a block has for the client: the first key that opens it decides;
  a proof-of-work gift is not a message.\<close>

definition message_for :: "env \<Rightarrow> crypto \<Rightarrow> ('s, 'g) Client \<Rightarrow> Payload \<Rightarrow> MessagePayload option" where
  "message_for E C c payload =
     (case tryAllKeys E C c payload of
        Returns (mp, name) \<Rightarrow>
          if name \<noteq> [] \<and> mp_Channel mp = [] \<and> ParsePowGift (mp_Content mp) \<noteq> None then None
          else Some (mp\<lparr>mp_DecryptedBy := name\<rparr>)
      | _ \<Rightarrow> None)"

definition row_says :: "time \<Rightarrow> MessagePayload \<Rightarrow> row \<Rightarrow> bool" where
  "row_says t mp r \<longleftrightarrow> rw_content r = mp_Content mp \<and> rw_sender_pub r = zeroToNil (mp_SenderPub mp) \<and>
     rw_channel r = mp_Channel mp \<and> rw_decrypted_by r = mp_DecryptedBy mp \<and> rw_received_at r = Unix t"

definition keys_ok :: "('s, 'g) Client \<Rightarrow> bool" where
  "keys_ok c \<longleftrightarrow> list_all (\<lambda>i. 32 \<le> length (id_SignKey i)) (c_identities c)"

lemma tryDecrypt_no_panic:
  assumes "crypto_ok C" "wf_payload p" "32 \<le> length k"
  shows "tryDecrypt E C k p \<noteq> Panics"
proof -
  have n: "length (slice pubKeySize ciphertextOffset p) = 24" using assms(2) by (simp add: wf_payload_def)
  have l: "length plain = plaintextSize" if "cr_Open C key x (drop ciphertextOffset p) = Some plain" for key x plain
    using crypto_okD(9) [OF assms(1) that] crypto_okD(7) [OF assms(1), of key x plain] assms(2)
    by (auto simp: wf_payload_def dest!: arg_cong [of _ _ length])
  have d: "decode_v1 x \<noteq> Panics" for x by (simp add: decode_v1_def Let_def)
  have a: "accept_plain C x \<noteq> Panics" for x by (simp add: accept_plain_def split: sum.split)
  show ?thesis using n l d a assms(3)
    by (auto simp: tryDecrypt_def edPrivToX25519_def aead_Open_def Let_def split: option.splits if_splits call.splits)
qed

lemma tryDecryptChannel_no_panic:
  assumes "wf_payload p"
  shows "tryDecryptChannel E C k p \<noteq> Panics"
proof -
  have n: "length (slice channelSaltSize ciphertextOffset p) = 24" using assms by (simp add: wf_payload_def)
  have a: "accept_plain C x \<noteq> Panics" for x by (simp add: accept_plain_def split: sum.split)
  show ?thesis using n a by (auto simp: tryDecryptChannel_def aead_Open_def Let_def split: option.splits if_splits)
qed

lemma tryAllKeys_no_panic:
  assumes "crypto_ok C" "wf_payload p" "keys_ok c"
  shows "tryAllKeys E C c p \<noteq> Panics"
proof -
  have "list_all (\<lambda>i. 32 \<le> length (id_SignKey i)) is \<Longrightarrow> try_identities E C p is \<noteq> Panics" for "is"
    using tryDecrypt_no_panic [OF assms(1,2)] by (induction "is") (auto split: call.split)
  moreover have "try_channels E C p cs \<noteq> Panics" for cs
    using tryDecryptChannel_no_panic [OF assms(2)] by (induction cs) (auto split: call.split)
  ultimately show ?thesis using assms(3) by (simp add: tryAllKeys_def keys_ok_def split: call.split)
qed

text \<open>What the scan of a list of blocks does to the message store.\<close>

definition scanned ::
  "env \<Rightarrow> crypto \<Rightarrow> ('s, 'g) Client \<Rightarrow> time \<Rightarrow> (ID \<rightharpoonup> stored) \<Rightarrow> ID set \<Rightarrow> MessageStore \<Rightarrow> MessageStore \<Rightarrow> bool" where
  "scanned E C c t m is ms ms' \<longleftrightarrow>
     ms_inv ms' \<and> ms_fault ms' = ms_fault ms \<and> ms_checkpoint ms' = ms_checkpoint ms \<and>
     (\<exists>rs. ms_rows ms' = ms_rows ms @ rs \<and>
        set (map rw_block_id rs) = {i \<in> is. \<exists>b. m i = Some b \<and> message_for E C c (sb_payload b) \<noteq> None} - saved ms \<and>
        (\<forall>r \<in> set rs. \<exists>b mp. m (rw_block_id r) = Some b \<and> message_for E C c (sb_payload b) = Some mp \<and> row_says t mp r))"

lemma SaveMessage_rows:
  assumes "ms_fault ms SqlInsert = None" "SaveMessage t i mp ms = (r, ms')"
  shows "\<exists>rs. ms_rows ms' = ms_rows ms @ rs \<and> map rw_block_id rs = (if i \<notin> saved ms then [i] else []) \<and>
    (\<forall>x \<in> set rs. rw_block_id x = i \<and> row_says t mp x)"
proof (cases "list_ex (\<lambda>r. rw_block_id r = i) (ms_rows ms)")
  case True
  then have "i \<in> saved ms" by (auto simp: saved_def list_ex_iff)
  then show ?thesis using assms True by (auto simp: SaveMessage_def)
next
  case False
  then have "i \<notin> saved ms" by (auto simp: saved_def list_ex_iff)
  then show ?thesis using assms False by (auto simp: SaveMessage_def Let_def row_says_def)
qed

lemma scanned_trans:
  assumes "scanned E C c t m is ms ms'" "scanned E C c t m js ms' ms''"
  shows "scanned E C c t m (is \<union> js) ms ms''"
proof -
  let ?A = "\<lambda>is. {i \<in> is. \<exists>b. m i = Some b \<and> message_for E C c (sb_payload b) \<noteq> None}"
  obtain rs where rs: "ms_rows ms' = ms_rows ms @ rs" "set (map rw_block_id rs) = ?A is - saved ms"
    "\<forall>r \<in> set rs. \<exists>b mp. m (rw_block_id r) = Some b \<and> message_for E C c (sb_payload b) = Some mp \<and> row_says t mp r"
    using assms(1) unfolding scanned_def by blast
  obtain qs where qs: "ms_rows ms'' = ms_rows ms' @ qs" "set (map rw_block_id qs) = ?A js - saved ms'"
    "\<forall>r \<in> set qs. \<exists>b mp. m (rw_block_id r) = Some b \<and> message_for E C c (sb_payload b) = Some mp \<and> row_says t mp r"
    using assms(2) unfolding scanned_def by blast
  have "saved ms' = saved ms \<union> set (map rw_block_id rs)" by (simp add: saved_def rs(1))
  then have "set (map rw_block_id (rs @ qs)) = ?A (is \<union> js) - saved ms" using rs(2) qs(2) by auto
  moreover have "ms_rows ms'' = ms_rows ms @ rs @ qs" by (simp add: rs(1) qs(1))
  moreover have "ms_inv ms''" "ms_fault ms'' = ms_fault ms" "ms_checkpoint ms'' = ms_checkpoint ms"
    using assms by (auto simp: scanned_def)
  ultimately show ?thesis unfolding scanned_def using rs(3) qs(3)
    by (intro conjI exI [of _ "rs @ qs"]) (simp_all only: set_append ball_Un)
qed

context block_store
begin

lemma scrape_ref_step:
  assumes "inv t s" "c_blocks c = S" "crypto_ok C" "keys_ok c" "ms_inv ms" "ms_fault ms SqlInsert = None" "wf_id i"
  shows "\<exists>ms' g'. scrape_ref E C c t s i (n, ms, g) = Inr (n + int (length (ms_rows ms')) - int (length (ms_rows ms)), ms', g') \<and>
    scanned E C c t (blk t s) {i} ms ms'"
proof -
  have same: "scanned E C c t (blk t s) {i} ms ms"
    if "\<not> (\<exists>b. blk t s i = Some b \<and> message_for E C c (sb_payload b) \<noteq> None)"
    using that assms(5) by (auto simp: scanned_def)
  show ?thesis
  proof (cases "blk t s i")
    case None
    then show ?thesis using same Get_law [OF assms(1,7)] by (auto simp: scrape_ref_def assms(2))
  next
    case (Some b)
    then have get: "st_Get S t s i = Inr (sb_stamp b, sb_payload b)" using Get_law [OF assms(1,7)] by simp
    have "wf_payload (sb_payload b)" using stored_wf [OF assms(1) Some] by (simp add: wf_stored_def)
    note np = tryAllKeys_no_panic [OF assms(3) this assms(4), where E = E]
    show ?thesis
    proof (cases "message_for E C c (sb_payload b)")
      case None
      then show ?thesis using same Some np get
        by (auto simp: scrape_ref_def assms(2) message_for_def Let_def split: call.splits if_splits option.splits)
    next
      case msg: (Some mp)
      obtain r ms' where sv: "SaveMessage t i mp ms = (r, ms')" by (cases "SaveMessage t i mp ms")
      note c = SaveMessage_cases [OF assms(6) sv] and i = SaveMessage_inv [OF assms(5) sv]
      have ref: "scrape_ref E C c t s i (n, ms, g) = Inr (if i \<notin> saved ms then n + 1 else n, ms', g)"
        using get msg np sv c(1) assms(6)
        by (auto simp: scrape_ref_def assms(2) message_for_def Let_def split: call.splits if_splits option.splits)
      obtain rs where rs: "ms_rows ms' = ms_rows ms @ rs" "map rw_block_id rs = (if i \<notin> saved ms then [i] else [])"
        "\<And>x. x \<in> set rs \<Longrightarrow> rw_block_id x = i \<and> row_says t mp x"
        using SaveMessage_rows [OF assms(6) sv] by blast
      have num: "n + int (length (ms_rows ms')) - int (length (ms_rows ms)) = (if i \<notin> saved ms then n + 1 else n)"
        using rs(1) arg_cong [OF rs(2), of length] by simp
      have ids: "set (map rw_block_id rs) = {j \<in> {i}. \<exists>b. blk t s j = Some b \<and> message_for E C c (sb_payload b) \<noteq> None} - saved ms"
        unfolding rs(2) using Some msg by auto
      have says: "\<forall>r \<in> set rs. \<exists>b mp. blk t s (rw_block_id r) = Some b \<and> message_for E C c (sb_payload b) = Some mp \<and> row_says t mp r"
        using rs(3) Some msg by auto
      have "scanned E C c t (blk t s) {i} ms ms'"
        unfolding scanned_def by (intro conjI exI [of _ rs]) (rule i c(3,4) rs(1) ids says)+
      with ref [folded num] show ?thesis by blast
    qed
  qed
qed

lemma scrape_refs_scan:
  assumes "inv t s" "c_blocks c = S" "crypto_ok C" "keys_ok c" "list_all wf_id is" "ms_inv ms" "ms_fault ms SqlInsert = None"
  shows "\<exists>ms' g'. efold (scrape_ref E C c t s) is (n, ms, g) =
      Inr (n + int (length (ms_rows ms')) - int (length (ms_rows ms)), ms', g') \<and>
    scanned E C c t (blk t s) (set is) ms ms'"
  using assms(5-7)
proof (induction "is" arbitrary: n ms g)
  case Nil
  then show ?case by (auto simp: scanned_def)
next
  case (Cons i "is")
  obtain ms1 g1 where 1: "scrape_ref E C c t s i (n, ms, g) = Inr (n + int (length (ms_rows ms1)) - int (length (ms_rows ms)), ms1, g1)"
    "scanned E C c t (blk t s) {i} ms ms1"
    using scrape_ref_step [OF assms(1-4) Cons.prems(2,3)] Cons.prems(1) by fastforce
  have "list_all wf_id is" "ms_inv ms1" "ms_fault ms1 SqlInsert = None"
    using 1(2) Cons.prems by (auto simp: scanned_def)
  from Cons.IH [OF this, of "n + int (length (ms_rows ms1)) - int (length (ms_rows ms))" g1] obtain ms2 g2 where 2:
    "efold (scrape_ref E C c t s) is (n + int (length (ms_rows ms1)) - int (length (ms_rows ms)), ms1, g1) =
       Inr (n + int (length (ms_rows ms1)) - int (length (ms_rows ms)) + int (length (ms_rows ms2)) - int (length (ms_rows ms1)), ms2, g2)"
    "scanned E C c t (blk t s) (set is) ms1 ms2" by blast
  show ?case using 1(1) 2(1) scanned_trans [OF 1(2) 2(2)] by simp
qed

text \<open>The blocks added since the checkpoint.\<close>

definition added_since :: "time \<Rightarrow> 's \<Rightarrow> time \<Rightarrow> ID set" where
  "added_since t s since = {i. \<exists>b. blk t s i = Some b \<and> Unix since \<le> sb_createdAt b}"

lemma Scrape_scan:
  assumes "inv t s" "c_blocks c = S" "crypto_ok C" "keys_ok c" "ms_inv ms" "\<And>op. ms_fault ms op = None"
    and "in_int64 (ms_checkpoint ms)" "\<And>tok. ctxErr tok = None"
  shows "\<exists>since ms' g'. GetCheckpoint ms = Inr since \<and>
    Scrape E C ctxErr c t s ms g =
      Some (Some (int (length (ms_rows ms')) - int (length (ms_rows ms)), None), ms'\<lparr>ms_checkpoint := Unix t\<rparr>, g') \<and>
    scanned E C c t (blk t s) (added_since t s since) ms ms'"
proof -
  obtain since where since: "GetCheckpoint ms = Inr since" "in_int64 (Unix since)"
  proof
    show "GetCheckpoint ms = Inr (if ms_checkpoint ms = 0 then zeroTime else timeUnix (ms_checkpoint ms))"
      by (simp add: GetCheckpoint_def assms(6))
    show "in_int64 (Unix (if ms_checkpoint ms = 0 then zeroTime else timeUnix (ms_checkpoint ms)))"
      using assms(7) by (simp add: in_int64_def)
  qed
  let ?ks = "sel_keys (blk t s) 0 (Unix since)"
  have set_ks: "set ?ks = sel_set (blk t s) 0 (Unix since)" by (rule set_sel_keys) (rule finite_blk [OF assms(1)])
  have wfs: "0 \<le> sb_wf b" if "blk t s i = Some b" for i b
    using stored_wf [OF assms(1) that] by (simp add: wf_stored_def WorkFactor_def)
  have ids: "set (map snd ?ks) = added_since t s since"
    using wfs by (force simp: set_ks sel_set_def added_since_def image_iff)
  have wf: "list_all wf_id (map snd ?ks)"
    unfolding list_all_iff ids by (auto simp: added_since_def dest: wf_dom [OF assms(1)])
  have "page_loop (scrape_body E C ctxErr c t s since) [] (0, ms, g) =
      Some (efold (\<lambda>(i, w). scrape_ref E C c t s i) (map (key_pair (blk t s)) ?ks) (0, ms, g))"
    by (rule page_loop_efold [OF assms(1) _ since(2), where lim = scrapePageSize
          and err = "\<lambda>e acc. (Some (fst acc, Some (ScBlocks e)), snd acc)"])
      (auto simp: scrape_body_def assms(2,8) scrapePageSize_def split: sum.split)
  also have "efold (\<lambda>(i, w). scrape_ref E C c t s i) (map (key_pair (blk t s)) ?ks) (0, ms, g) =
      efold (scrape_ref E C c t s) (map snd ?ks) (0, ms, g)"
    unfolding efold_map by (simp add: key_pair_def)
  finally have loop: "page_loop (scrape_body E C ctxErr c t s since) [] (0, ms, g) =
      Some (efold (scrape_ref E C c t s) (map snd ?ks) (0, ms, g))" .
  obtain ms' g' where r: "efold (scrape_ref E C c t s) (map snd ?ks) (0, ms, g) =
      Inr (0 + int (length (ms_rows ms')) - int (length (ms_rows ms)), ms', g')"
    "scanned E C c t (blk t s) (added_since t s since) ms ms'"
    using scrape_refs_scan [OF assms(1-4) wf assms(5,6), of 0 g] unfolding ids by blast
  have "SetCheckpoint t ms' = (None, ms'\<lparr>ms_checkpoint := Unix t\<rparr>)"
    using r(2) assms(6) by (simp add: SetCheckpoint_def scanned_def)
  then have "Scrape E C ctxErr c t s ms g =
      Some (Some (int (length (ms_rows ms')) - int (length (ms_rows ms)), None), ms'\<lparr>ms_checkpoint := Unix t\<rparr>, g')"
    by (simp add: Scrape_def since(1) loop r(1))
  then show ?thesis using since(1) r(2) by blast
qed

end

text \<open>The rows of a successful scan.\<close>

definition scan_result ::
  "env \<Rightarrow> crypto \<Rightarrow> ('s, 'g) Client \<Rightarrow> time \<Rightarrow> (ID \<rightharpoonup> stored) \<Rightarrow> MessageStore \<Rightarrow> int \<Rightarrow> MessageStore \<Rightarrow> bool" where
  "scan_result E C c t m ms n ms' \<longleftrightarrow>
     ms_inv ms' \<and> ms_checkpoint ms' = Unix t \<and>
     (\<exists>rs. ms_rows ms' = ms_rows ms @ rs \<and> n = int (length rs) \<and>
        set (map rw_block_id rs) =
          {i. \<exists>b. m i = Some b \<and> (ms_checkpoint ms = 0 \<or> ms_checkpoint ms \<le> sb_createdAt b) \<and>
                  message_for E C c (sb_payload b) \<noteq> None} - saved ms \<and>
        (\<forall>r \<in> set rs. \<exists>b mp. m (rw_block_id r) = Some b \<and> message_for E C c (sb_payload b) = Some mp \<and> row_says t mp r))"

definition ready :: "('s, 'g) Client \<Rightarrow> crypto \<Rightarrow> MessageStore \<Rightarrow> bool" where
  "ready c C ms \<longleftrightarrow> crypto_ok C \<and> keys_ok c \<and> ms_inv ms \<and> ms_fault ms = (\<lambda>_. None) \<and> in_int64 (ms_checkpoint ms)"

context block_store
begin

lemma Scrape_result:
  assumes "inv t s" "c_blocks c = S" "ready c C ms"
  shows "\<exists>n ms' g'. Scrape E C (\<lambda>_. None) c t s ms g = Some (Some (n, None), ms', g') \<and>
    scan_result E C c t (blk t s) ms n ms'"
proof -
  obtain since ms' g' where r: "GetCheckpoint ms = Inr since"
    "Scrape E C (\<lambda>_. None) c t s ms g =
      Some (Some (int (length (ms_rows ms')) - int (length (ms_rows ms)), None), ms'\<lparr>ms_checkpoint := Unix t\<rparr>, g')"
    "scanned E C c t (blk t s) (added_since t s since) ms ms'"
    using Scrape_scan [OF assms(1,2), of C ms "\<lambda>_. None" g] assms(3) by (auto simp: ready_def)
  have since: "Unix since \<le> sb_createdAt b \<longleftrightarrow> ms_checkpoint ms = 0 \<or> ms_checkpoint ms \<le> sb_createdAt b"
    if "blk t s i = Some b" for i b
    using r(1) assms(3) stored_wf [OF assms(1) that]
    by (auto simp: GetCheckpoint_def ready_def wf_stored_def split: if_splits)
  obtain rs where rs: "ms_rows ms' = ms_rows ms @ rs"
    "set (map rw_block_id rs) = {i \<in> added_since t s since. \<exists>b. blk t s i = Some b \<and>
       message_for E C c (sb_payload b) \<noteq> None} - saved ms"
    "\<forall>r \<in> set rs. \<exists>b mp. blk t s (rw_block_id r) = Some b \<and> message_for E C c (sb_payload b) = Some mp \<and> row_says t mp r"
    using r(3) unfolding scanned_def by blast
  have "{i \<in> added_since t s since. \<exists>b. blk t s i = Some b \<and> message_for E C c (sb_payload b) \<noteq> None} =
      {i. \<exists>b. blk t s i = Some b \<and> (ms_checkpoint ms = 0 \<or> ms_checkpoint ms \<le> sb_createdAt b) \<and>
        message_for E C c (sb_payload b) \<noteq> None}"
    unfolding added_since_def using since by auto
  note ids = rs(2) [unfolded this]
  have "ms_inv (ms'\<lparr>ms_checkpoint := Unix t\<rparr>)" using r(3) by (simp add: scanned_def ms_inv_def)
  then have "scan_result E C c t (blk t s) ms (int (length (ms_rows ms')) - int (length (ms_rows ms)))
      (ms'\<lparr>ms_checkpoint := Unix t\<rparr>)"
    unfolding scan_result_def using rs(1) by (intro conjI exI [of _ rs]) (simp, simp, simp, simp, rule ids, rule rs(3))
  then show ?thesis using r(2) by blast
qed

end

context keeping_store
begin

text \<open>A block stored after the last checkpoint is found by the next scan, and read as the
  first key that opens it says.\<close>

lemma Put_then_Scrape:
  assumes "inv t s" "unlimited s" "wf_stamp st" "wf_payload p" "st_Put S t st p tag s = (r, s')"
    and "blk t s (ComputeID E p) = None" "\<not> refuses t s (ComputeID E p)" "t \<le> t2" "clock_ok t2"
    and "c_blocks c = S" "ready c C ms" "ms_checkpoint ms \<le> Unix t"
    and "message_for E C c p = Some mp" "ComputeID E p \<notin> saved ms"
  shows "\<exists>n ms' g'. Scrape E C (\<lambda>_. None) c t2 s' ms g = Some (Some (n, None), ms', g') \<and>
    scan_result E C c t2 (blk t2 s') ms n ms' \<and>
    (\<exists>x \<in> set (ms_rows ms'). rw_block_id x = ComputeID E p \<and> row_says t2 mp x)"
proof -
  have "inv t s'" using Put_law [OF assms(1,3,4,5)] by blast
  from later [OF this assms(8,9)] have s': "inv t2 s'" "blk t2 s' = blk t s'" by auto
  have b: "blk t2 s' (ComputeID E p) = Some (new_stored E t st p)"
    using Put_keeps [OF assms(1-5)] assms(6,7) by (simp add: s'(2) put_effect_def Let_def)
  obtain n ms' g' where r: "Scrape E C (\<lambda>_. None) c t2 s' ms g = Some (Some (n, None), ms', g')"
    "scan_result E C c t2 (blk t2 s') ms n ms'"
    using Scrape_result [OF s'(1) assms(10,11), of g] by blast
  obtain rs where rs: "ms_rows ms' = ms_rows ms @ rs"
    "set (map rw_block_id rs) = {i. \<exists>b. blk t2 s' i = Some b \<and> (ms_checkpoint ms = 0 \<or> ms_checkpoint ms \<le> sb_createdAt b) \<and>
                  message_for E C c (sb_payload b) \<noteq> None} - saved ms"
    "\<forall>r \<in> set rs. \<exists>b mp. blk t2 s' (rw_block_id r) = Some b \<and> message_for E C c (sb_payload b) = Some mp \<and> row_says t2 mp r"
    using r(2) unfolding scan_result_def by blast
  have "ComputeID E p \<in> set (map rw_block_id rs)"
    unfolding rs(2) using b assms(12-14) by (auto simp: new_stored_def)
  then obtain x where x: "ComputeID E p = rw_block_id x" "x \<in> set rs" unfolding set_map by (rule imageE)
  from rs(3) [rule_format, OF x(2)] have "row_says t2 mp x"
    unfolding x(1) [symmetric] b using assms(13) by (auto simp: new_stored_def)
  then have "\<exists>x \<in> set (ms_rows ms'). rw_block_id x = ComputeID E p \<and> row_says t2 mp x"
    using x(1) by (intro bexI [of _ x]) (simp_all add: rs(1) x(2))
  then show ?thesis using r by blast
qed

end

section \<open>Errors\<close>

text \<open>Whatever stops a scan, messages are only added and the checkpoint does not move.\<close>

definition kept :: "MessageStore \<Rightarrow> MessageStore \<Rightarrow> bool" where
  "kept ms ms' \<longleftrightarrow> prefix (ms_rows ms) (ms_rows ms') \<and> ms_checkpoint ms' = ms_checkpoint ms"

lemma kept_SaveMessage: "kept ms ms1 \<Longrightarrow> SaveMessage t i mp ms1 = (r, ms') \<Longrightarrow> kept ms ms'"
  by (auto simp: kept_def SaveMessage_def Let_def split: option.splits if_splits)

lemma kept_scrape_ref:
  assumes "kept ms (fst (snd acc))"
  shows "case scrape_ref E C c t s i acc of
    Inl (r, ms', g') \<Rightarrow> kept ms ms' \<and> (\<forall>n. r \<noteq> Some (n, None)) | Inr acc' \<Rightarrow> kept ms (fst (snd acc'))"
  using assms kept_SaveMessage
  by (auto simp: scrape_ref_def Let_def split: sum.splits call.splits option.splits prod.splits if_splits)

lemma kept_scrape_body:
  assumes "kept ms (fst (snd acc))"
  shows "case scrape_body E C ctxErr c t s since tok acc of
    Inl (r, ms', g') \<Rightarrow> kept ms ms' \<and> (\<forall>n. r \<noteq> Some (n, None)) | Inr (nxt, acc') \<Rightarrow> kept ms (fst (snd acc'))"
proof -
  have "case efold (\<lambda>ref. scrape_ref E C c t s (refID ref)) refs acc of
      Inl r \<Rightarrow> (case r of (r, ms', g') \<Rightarrow> kept ms ms' \<and> (\<forall>n. r \<noteq> Some (n, None))) | Inr acc' \<Rightarrow> kept ms (fst (snd acc'))" for refs
    by (rule efold_keeps [where P = "\<lambda>acc. kept ms (fst (snd acc))"]) (rule kept_scrape_ref, assumption, rule assms)
  note fold = this
  show ?thesis
  proof (cases "ctxErr tok = None \<and> (\<exists>x. st_ListBlocks (c_blocks c) t s tok (int scrapePageSize) 0 since = Inr x)")
    case False
    then show ?thesis using assms
      by (auto simp: scrape_body_def split: option.splits sum.splits prod.splits)
  next
    case True
    then obtain nxt refs where "st_ListBlocks (c_blocks c) t s tok (int scrapePageSize) 0 since = Inr (nxt, refs)" by auto
    with True have "scrape_body E C ctxErr c t s since tok acc =
        sum_bind (efold (\<lambda>ref. scrape_ref E C c t s (refID ref)) refs acc) (\<lambda>acc'. Inr (nxt, acc'))"
      by (simp add: scrape_body_def case_prod_unfold)
    then show ?thesis using fold [of refs]
      by (cases "efold (\<lambda>ref. scrape_ref E C c t s (refID ref)) refs acc") simp_all
  qed
qed

section \<open>Properties\<close>

text \<open>A scan that does not succeed (an error of the context, of the block store or of the
  message store, or a panic) leaves the checkpoint where it was, so that the next scan
  goes through the same blocks again; messages already saved stay.\<close>

theorem failed_scrape_keeps_checkpoint:
  assumes "Scrape E C ctxErr c t s ms g = Some (r, ms', g')" "\<And>n. r \<noteq> Some (n, None)"
  shows "ms_checkpoint ms' = ms_checkpoint ms \<and> prefix (ms_rows ms) (ms_rows ms')"
proof (cases "GetCheckpoint ms")
  case (Inl e)
  then show ?thesis using assms(1) by (auto simp: Scrape_def)
next
  case (Inr since)
  from assms(1) obtain res where l: "page_loop (scrape_body E C ctxErr c t s since) [] (0, ms, g) = Some res"
    by (auto simp: Scrape_def Inr)
  from page_loop_keeps [OF l, where P = "\<lambda>acc. kept ms (fst (snd acc))"
      and Q = "\<lambda>x. case x of (r, ms', g') \<Rightarrow> kept ms ms' \<and> (\<forall>n. r \<noteq> Some (n, None))", OF _ kept_scrape_body]
  have k: "case res of Inl r \<Rightarrow> case r of (r, ms', g') \<Rightarrow> kept ms ms' \<and> (\<forall>n. r \<noteq> Some (n, None)) | Inr acc' \<Rightarrow> kept ms (fst (snd acc'))"
    by (simp add: kept_def)
  show ?thesis
  proof (cases res)
    case Inl': (Inl x)
    then show ?thesis using k assms(1) by (auto simp: Scrape_def Inr l kept_def)
  next
    case Inr': (Inr x)
    then show ?thesis using k assms
      by (auto simp: Scrape_def Inr l kept_def SetCheckpoint_def split: option.splits prod.splits)
  qed
qed

theorem failed_scrape_keeps_checkpoint_witness:
  "case Scrape env0 crypto0 (\<lambda>_. Some ''deadline'') (New (badger_store env0 mem_badger) [] [] :: (mem_db BadgerStore, unit) Client)
      5 one_block (empty_ms\<lparr>ms_checkpoint := 3\<rparr>) () of
    None \<Rightarrow> False | Some (r, ms', g') \<Rightarrow> ms_checkpoint ms' = 3 \<and> prefix (ms_rows empty_ms) (ms_rows ms')"
proof -
  let ?c = "New (badger_store env0 mem_badger) [] [] :: (mem_db BadgerStore, unit) Client"
  let ?ms = "empty_ms\<lparr>ms_checkpoint := 3\<rparr>"
  have s: "Scrape env0 crypto0 (\<lambda>_. Some ''deadline'') ?c 5 one_block ?ms () =
      Some (Some (0, Some (ScCtx ''deadline'')), ?ms, ())"
    by (simp add: Scrape_def GetCheckpoint_def empty_ms_simps page_loop.simps scrape_body_def)
  from failed_scrape_keeps_checkpoint [OF s] show ?thesis by (simp add: s)
qed

text \<open>C13: a scan without faults ends, saves exactly the messages that the blocks added since
  the checkpoint have for the client and that were not saved before, each with its content,
  sender, channel and the identity that read it, returns their number, and moves the
  checkpoint to its own start.\<close>

theorem Scrape_complete:
  assumes "badger_inv E B t s" "c_blocks c = badger_store E B" "ready c C ms"
  shows "\<exists>n ms' g'. Scrape E C (\<lambda>_. None) c t s ms g = Some (Some (n, None), ms', g') \<and>
    ms_inv ms' \<and> ms_checkpoint ms' = Unix t \<and>
     (\<exists>rs. ms_rows ms' = ms_rows ms @ rs \<and> n = int (length rs) \<and>
        set (map rw_block_id rs) =
          {i. \<exists>b. badger_blk B t s i = Some b \<and> (ms_checkpoint ms = 0 \<or> ms_checkpoint ms \<le> sb_createdAt b) \<and>
                  message_for E C c (sb_payload b) \<noteq> None} - saved ms \<and>
        (\<forall>r \<in> set rs. \<exists>b mp. badger_blk B t s (rw_block_id r) = Some b \<and>
           message_for E C c (sb_payload b) = Some mp \<and> row_says t mp r))"
  using badger.Scrape_result [OF assms, of g] unfolding scan_result_def .

lemma ready_New: "keys_ok c \<Longrightarrow> ready c crypto0 empty_ms"
  by (simp add: ready_def crypto_ok_crypto0 empty_ms_simps in_int64_def)

theorem Scrape_complete_witness:
  "\<exists>n ms' g'. Scrape env0 crypto0 (\<lambda>_. None) (New (badger_store env0 mem_badger) [] [] :: (mem_db BadgerStore, unit) Client)
      0 one_block empty_ms () = Some (Some (n, None), ms', g') \<and> ms_inv ms' \<and> ms_checkpoint ms' = 0"
proof -
  let ?c = "New (badger_store env0 mem_badger) [] [] :: (mem_db BadgerStore, unit) Client"
  have "c_blocks ?c = badger_store env0 mem_badger" "keys_ok ?c" by (simp_all add: New_def keys_ok_def)
  from Scrape_complete [OF one_block_inv(1) this(1) ready_New [OF this(2)], of "()"]
  obtain n ms' g' where "Scrape env0 crypto0 (\<lambda>_. None) ?c 0 one_block empty_ms () = Some (Some (n, None), ms', g')"
    "ms_inv ms'" "ms_checkpoint ms' = Unix 0" by (elim exE conjE) (rule that)
  moreover have "Unix 0 = 0" by (simp add: Unix_def)
  ultimately show ?thesis by metis
qed


text \<open>A signed message with an empty text.\<close>

definition hello_mp :: MessagePayload where
  "hello_mp = zero_mp\<lparr>mp_SenderPub := ed_Public ed0 (replicate 32 8)\<rparr>"

definition bob :: Identity where
  "bob = \<lparr>id_Name = ''bob'', id_SignKey = ed_key ed0 (replicate 32 9), id_IDPowStamp = []\<rparr>"


end
