(* ===== verification/MassStorage.thy ===== *)
theory MassStorage
  imports BadgerProps FlatProofs BlockIndex "HOL-Library.Char_ord"
begin

text \<open>
  Copying between stores in \<^verbatim>\<open>cmd/snk/main.go\<close>: \<^verbatim>\<open>syncStores\<close>, one tick of
  \<^verbatim>\<open>usbSyncLoop\<close> and the command \<^verbatim>\<open>mass-storage\<close>.  What is only logged is left out.
  The locale \<open>store_copy\<close> is the contract of a source and a target; it is interpreted on the
  pairs of backends that the program copies between.
\<close>

section \<open>syncStores\<close>

definition sync_ref :: "'s Store \<Rightarrow> 'd Store \<Rightarrow> time \<Rightarrow> 's \<Rightarrow> ID \<Rightarrow> int \<Rightarrow> 'd \<Rightarrow> 'd" where
  "sync_ref S D t s i w d =
     (case st_Get S t s i of
        Inl _ \<Rightarrow> d
      | Inr (stamp, payload) \<Rightarrow>
          (case st_Has D t d i of
             Inl _ \<Rightarrow> d
           | Inr already \<Rightarrow>
               if already \<and> (case st_GetWorkFactor D t d i of Inl _ \<Rightarrow> True | Inr dstWF \<Rightarrow> w \<le> dstWF) then d
               else snd (st_Put D t stamp payload TagPhysical d)))"

definition sync_body ::
  "'s Store \<Rightarrow> 'd Store \<Rightarrow> time \<Rightarrow> 's \<Rightarrow> string \<Rightarrow> 'd \<Rightarrow> (store_err \<times> 'd) + (string \<times> 'd)" where
  "sync_body S D t s token d =
     (case st_ListBlocks S t s token 500 0 zeroTime of
        Inl e \<Rightarrow> Inl (e, d)
      | Inr (nxt, refs) \<Rightarrow> Inr (nxt, fold (\<lambda>r. sync_ref S D t s (refID r) (refWF r)) refs d))"

definition syncStores :: "'s Store \<Rightarrow> 'd Store \<Rightarrow> time \<Rightarrow> 's \<Rightarrow> 'd \<Rightarrow> (store_err option \<times> 'd) option" where
  "syncStores S D t s d =
     map_option (\<lambda>r. case r of Inl (e, d') \<Rightarrow> (Some e, d') | Inr d' \<Rightarrow> (None, d')) (page_loop (sync_body S D t s) [] d)"

section \<open>USB volumes and the command\<close>

text \<open>\<^verbatim>\<open>os.ReadDir\<close> restricted to directories: their names in order.\<close>

definition fs_subdirs :: "fsys \<Rightarrow> path \<Rightarrow> io_err + string list" where
  "fs_subdirs fs dir =
     (case fs_fault fs OpWalk dir of
        Some (e, _) \<Rightarrow> Inl (IOErr e)
      | None \<Rightarrow>
          if dir \<in> set (fs_dirs fs)
          then Inr (sort (remdups (map last (filter (\<lambda>d. d \<noteq> [] \<and> butlast d = dir) (fs_dirs fs)))))
          else Inl NotExist)"

definition usbMarker :: string where "usbMarker = ''.sneakernet''"

text \<open>One volume: the local store first takes what the volume has, then gives what it has.\<close>

definition usb_volume ::
  "env \<Rightarrow> 's Store \<Rightarrow> time \<Rightarrow> path \<Rightarrow> string \<Rightarrow> 's \<times> fsys \<Rightarrow> ('s \<times> fsys) option" where
  "usb_volume E S t dir name acc =
     (case acc of (s, fs) \<Rightarrow>
        let volDir = dir @ [name]
        in if \<not> fs_stat fs (volDir @ [usbMarker]) then Some (s, fs)
           else case OpenFlatFile volDir fs of
                  Inl _ \<Rightarrow> Some (s, fs)
                | Inr usb \<Rightarrow>
                    (case syncStores (flat_store E) S t usb s of
                       None \<Rightarrow> None
                     | Some (_, s') \<Rightarrow>
                         (case syncStores S (flat_store E) t s' usb of
                            None \<Rightarrow> None
                          | Some (_, usb') \<Rightarrow> Some (s', ff_fs usb'))))"

fun usb_volumes ::
  "env \<Rightarrow> 's Store \<Rightarrow> time \<Rightarrow> path \<Rightarrow> string list \<Rightarrow> 's \<times> fsys \<Rightarrow> ('s \<times> fsys) option" where
  "usb_volumes E S t dir [] acc = Some acc"
| "usb_volumes E S t dir (name # names) acc =
     (case usb_volume E S t dir name acc of None \<Rightarrow> None | Some acc' \<Rightarrow> usb_volumes E S t dir names acc')"

definition usbSync_tick :: "env \<Rightarrow> 's Store \<Rightarrow> time \<Rightarrow> path \<Rightarrow> 's \<Rightarrow> fsys \<Rightarrow> ('s \<times> fsys) option" where
  "usbSync_tick E S t dir s fs =
     (case fs_subdirs fs dir of
        Inl _ \<Rightarrow> Some (s, fs)
      | Inr names \<Rightarrow> usb_volumes E S t dir names (s, fs))"

datatype mass_err = MassNoTarget | MassNoSource | MassOpen store_err | MassSync store_err | MassIndex io_err

text \<open>\<^verbatim>\<open>mass-storage\<close>: \<open>src\<close> is the opened source store, or why it could not be opened.\<close>

definition cmdMassStorage ::
  "env \<Rightarrow> zlib \<Rightarrow> 's Store \<Rightarrow> time \<Rightarrow> (store_err + 's) option \<Rightarrow> path \<Rightarrow> bool \<Rightarrow> fsys \<Rightarrow> (mass_err option \<times> fsys) option" where
  "cmdMassStorage E Z S t srcBadger targetDir reindex fs =
     (if targetDir = [] then Some (Some MassNoTarget, fs)
      else
        case OpenFlatFile targetDir fs of
          Inl e \<Rightarrow> Some (Some (MassOpen e), fs)
        | Inr target \<Rightarrow>
            (let finish = (\<lambda>fs'. case BuildIndex E Z t targetDir fs' of
                               (Some e, fs'') \<Rightarrow> (Some (MassIndex e), fs'')
                             | (None, fs'') \<Rightarrow> (None, fs''))
             in if reindex then Some (finish (ff_fs target))
                else case srcBadger of
                       None \<Rightarrow> Some (Some MassNoSource, ff_fs target)
                     | Some (Inl e) \<Rightarrow> Some (Some (MassOpen e), ff_fs target)
                     | Some (Inr src) \<Rightarrow>
                         map_option (\<lambda>r. case r of
                             (Some e, target') \<Rightarrow> (Some (MassSync e), ff_fs target')
                           | (None, target') \<Rightarrow> finish (ff_fs target'))
                           (syncStores S (flat_store E) t src target)))"

section \<open>A source and a target\<close>

locale store_copy =
  src: block_store S E inv blk +
  dst: keeping_store D E invD blkD unlimited refuses
  for S :: "'s Store" and E :: env and inv :: "time \<Rightarrow> 's \<Rightarrow> bool"
    and blk :: "time \<Rightarrow> 's \<Rightarrow> ID \<Rightarrow> stored option"
    and D :: "'d Store" and invD :: "time \<Rightarrow> 'd \<Rightarrow> bool" and blkD :: "time \<Rightarrow> 'd \<Rightarrow> ID \<Rightarrow> stored option"
    and unlimited :: "'d \<Rightarrow> bool" and refuses :: "time \<Rightarrow> 'd \<Rightarrow> ID \<Rightarrow> bool"
begin

text \<open>What copying may do to the target: it takes copies of blocks of the source.\<close>

definition copy_step :: "time \<Rightarrow> 's \<Rightarrow> 'd \<Rightarrow> 'd \<Rightarrow> bool" where
  "copy_step t s d d' \<longleftrightarrow>
     invD t d' \<and> unlimited d' \<and> refuses t d' = refuses t d \<and>
     (\<forall>i w. dst.at_least t d i w \<longrightarrow> dst.at_least t d' i w) \<and>
     (\<forall>i b. blkD t d' i = Some b \<longrightarrow> blkD t d i = Some b \<or>
        (\<exists>b0. blk t s i = Some b0 \<and> b = new_stored E t (sb_stamp b0) (sb_payload b0)))"

lemma copy_refl: "invD t d \<Longrightarrow> unlimited d \<Longrightarrow> copy_step t s d d"
  by (simp add: copy_step_def)

lemma copy_trans: "copy_step t s d d' \<Longrightarrow> copy_step t s d' d'' \<Longrightarrow> copy_step t s d d''"
  unfolding copy_step_def by metis

lemma copy_Put:
  assumes "inv t s" "invD t d" "unlimited d" "blk t s i = Some b"
  shows "copy_step t s d (snd (st_Put D t (sb_stamp b) (sb_payload b) tag d))"
    "\<not> refuses t d i \<Longrightarrow> dst.at_least t (snd (st_Put D t (sb_stamp b) (sb_payload b) tag d)) i (sb_wf b)"
proof -
  obtain r d' where p: "st_Put D t (sb_stamp b) (sb_payload b) tag d = (r, d')"
    by (cases "st_Put D t (sb_stamp b) (sb_payload b) tag d")
  have w: "wf_stamp (sb_stamp b)" "wf_payload (sb_payload b)" "i = ComputeID E (sb_payload b)"
    "sb_wf b = WorkFactor E (sb_stamp b) (sb_payload b)"
    using src.stored_wf [OF assms(1,4)] by (simp_all add: wf_stored_def)
  note a = dst.Put_at_least [OF assms(2,3) w(1,2) p] and k = dst.Put_keeps [OF assms(2,3) w(1,2) p]
    and l = dst.Put_law [OF assms(2) w(1,2) p]
  show "copy_step t s d (snd (st_Put D t (sb_stamp b) (sb_payload b) tag d))"
    unfolding p snd_conv copy_step_def using a(1) k l assms(4) w(3) by blast
  show "\<not> refuses t d i \<Longrightarrow> dst.at_least t (snd (st_Put D t (sb_stamp b) (sb_payload b) tag d)) i (sb_wf b)"
    using a(2) by (simp add: p w(3,4))
qed

lemma sync_ref_copies:
  assumes "inv t s" "invD t d" "unlimited d" "blk t s i = Some b"
  shows "copy_step t s d (sync_ref S D t s i (sb_wf b) d)"
    "\<not> refuses t d i \<Longrightarrow> dst.at_least t (sync_ref S D t s i (sb_wf b) d) i (sb_wf b)"
proof -
  have i: "wf_id i" by (rule src.wf_dom [OF assms(1,4)])
  have get: "st_Get S t s i = Inr (sb_stamp b, sb_payload b)" using src.Get_law [OF assms(1) i] assms(4) by simp
  note has = dst.Has_keeps [OF assms(2) i] and wf = dst.GetWorkFactor_law [OF assms(2) i]
  show "copy_step t s d (sync_ref S D t s i (sb_wf b) d)"
    using copy_Put(1) [OF assms] copy_refl [OF assms(2,3)] by (simp add: sync_ref_def get has)
  show "\<not> refuses t d i \<Longrightarrow> dst.at_least t (sync_ref S D t s i (sb_wf b) d) i (sb_wf b)"
    using copy_Put(2) [OF assms] by (auto simp: sync_ref_def get has wf dst.at_least_def split: option.splits)
qed

lemma sync_fold_copies:
  assumes "inv t s" "invD t d" "unlimited d" "\<forall>i \<in> set is. blk t s i \<noteq> None"
  shows "copy_step t s d (fold (\<lambda>i. sync_ref S D t s i (sb_wf (the (blk t s i)))) is d) \<and>
    (\<forall>i b. i \<in> set is \<and> blk t s i = Some b \<and> \<not> refuses t d i \<longrightarrow>
       dst.at_least t (fold (\<lambda>i. sync_ref S D t s i (sb_wf (the (blk t s i)))) is d) i (sb_wf b))"
  using assms(2-4)
proof (induction "is" arbitrary: d)
  case Nil
  then show ?case using copy_refl by simp
next
  case (Cons j "is")
  let ?f = "\<lambda>i. sync_ref S D t s i (sb_wf (the (blk t s i)))"
  obtain b where b: "blk t s j = Some b" using Cons.prems(3) by auto
  have 1: "copy_step t s d (?f j d)" "\<not> refuses t d j \<Longrightarrow> dst.at_least t (?f j d) j (sb_wf b)"
    using sync_ref_copies [OF assms(1) Cons.prems(1,2) b] by (simp_all add: b)
  then have d1: "invD t (?f j d)" "unlimited (?f j d)" "refuses t (?f j d) = refuses t d"
    by (simp_all add: copy_step_def)
  have 2: "copy_step t s (?f j d) (fold ?f is (?f j d))"
    "\<And>i b. i \<in> set is \<Longrightarrow> blk t s i = Some b \<Longrightarrow> \<not> refuses t d i \<Longrightarrow> dst.at_least t (fold ?f is (?f j d)) i (sb_wf b)"
    using Cons.IH [OF d1(1,2)] Cons.prems(3) d1(3) by auto
  have "dst.at_least t (fold ?f is (?f j d)) j (sb_wf b)" if "\<not> refuses t d j"
    using 1(2) [OF that] 2(1) by (simp add: copy_step_def)
  then show ?case using copy_trans [OF 1(1) 2(1)] 2(2) b by auto
qed

lemma syncStores_copies:
  assumes "inv t s" "invD t d" "unlimited d"
  shows "\<exists>d'. syncStores S D t s d = Some (None, d') \<and> copy_step t s d d' \<and>
    (\<forall>i b. blk t s i = Some b \<and> \<not> refuses t d i \<longrightarrow> dst.at_least t d' i (sb_wf b))"
proof -
  let ?ks = "sel_keys (blk t s) 0 (Unix zeroTime)"
  let ?f = "\<lambda>i. sync_ref S D t s i (sb_wf (the (blk t s i)))"
  have z: "in_int64 (Unix zeroTime)" by (simp add: in_int64_def)
  have loop: "page_loop (sync_body S D t s) [] d =
      Some (Inr (fold (\<lambda>(i, w). sync_ref S D t s i w) (map (key_pair (blk t s)) ?ks) d))"
    by (rule src.page_loop_all [OF assms(1) _ z, where lim = 500 and err = "\<lambda>e acc. (e, acc)"])
      (simp_all add: sync_body_def)
  have "fold (\<lambda>(i, w). sync_ref S D t s i w) (map (key_pair (blk t s)) ?ks) d = fold ?f (map snd ?ks) d"
    by (simp add: fold_map comp_def key_pair_def)
  note loop = loop [unfolded this]
  have ks: "set ?ks = sel_set (blk t s) 0 (Unix zeroTime)" by (rule set_sel_keys) (rule src.finite_blk [OF assms(1)])
  have "\<forall>i \<in> set (map snd ?ks). blk t s i \<noteq> None" using ks by (auto simp: sel_set_def)
  note c = sync_fold_copies [OF assms this]
  have mem: "i \<in> set (map snd ?ks)" if "blk t s i = Some b" for i b
  proof -
    have "(sb_createdAt b, i) \<in> set ?ks"
      using that src.stored_wf [OF assms(1) that] unfolding ks by (auto simp: sel_set_def wf_stored_def WorkFactor_def)
    then show ?thesis unfolding set_map by (rule rev_image_eqI) simp
  qed
  show ?thesis using c mem loop by (intro exI [of _ "fold ?f (map snd ?ks) d"]) (simp add: syncStores_def)
qed

end

interpretation badger_flat: store_copy "badger_store E B" E "badger_inv E B" "badger_blk B"
  "flat_store E" "flat_inv E" flat_blk "\<lambda>s. ff_storageLimit s \<le> 0" "\<lambda>t s i. False" for E B
  by unfold_locales

interpretation flat_badger: store_copy "flat_store E" E "flat_inv E" flat_blk
  "badger_store E B" "badger_inv E B" "badger_blk B" "\<lambda>s. bs_storageLimit s \<le> 0" "tombstoned B" for E B
  by unfold_locales

interpretation badger_badger: store_copy "badger_store E B" E "badger_inv E B" "badger_blk B"
  "badger_store E B'" "badger_inv E B'" "badger_blk B'" "\<lambda>s. bs_storageLimit s \<le> 0" "tombstoned B'" for E B B'
  by unfold_locales

text \<open>Copying changes nothing of a flat-file store but its files.\<close>

lemma Evict_only_files: "\<exists>fs'. snd (FlatFile_Evict E t n s) = s\<lparr>ff_fs := fs'\<rparr>"
  by (auto simp: FlatFile_Evict_def Let_def intro: exI [of _ "ff_fs s"] split: sum.split prod.split)

lemma Put_only_files: "\<exists>fs'. snd (FlatFile_Put E t st p tag s) = s\<lparr>ff_fs := fs'\<rparr>"
proof -
  have "\<exists>fs1. flat_make_room E t s = s\<lparr>ff_fs := fs1\<rparr>"
    using Evict_only_files [of E t _ s]
    by (auto simp: flat_make_room_def Let_def intro: exI [of _ "ff_fs s"] split: sum.split)
  then obtain fs1 where r: "flat_make_room E t s = s\<lparr>ff_fs := fs1\<rparr>" by blast
  show ?thesis
    by (auto simp: FlatFile_Put_def Let_def r intro: exI [of _ "ff_fs s"] split: prod.split option.split sum.split)
qed

lemma sync_only_files:
  assumes "syncStores S (flat_store E) t s d = Some (e, d')"
  shows "d' = d\<lparr>ff_fs := ff_fs d'\<rparr>"
proof -
  let ?P = "\<lambda>x. \<exists>fs'. x = d\<lparr>ff_fs := fs'\<rparr>"
  have ref: "?P (sync_ref S (flat_store E) t s i w x)" if px: "?P x" for i w x
  proof -
    from px obtain fs1 where x: "x = d\<lparr>ff_fs := fs1\<rparr>" by blast
    have "?P (snd (FlatFile_Put E t st p TagPhysical x))" for st p
      using Put_only_files [of E t st p TagPhysical x] by (auto simp: x)
    then show ?thesis using px by (auto simp: sync_ref_def flat_store_def split: sum.split)
  qed
  have fold: "?P x \<Longrightarrow> ?P (fold (\<lambda>r. sync_ref S (flat_store E) t s (refID r) (refWF r)) refs x)" for refs x
  proof (induction refs arbitrary: x)
    case (Cons r refs)
    show ?case using Cons.IH [OF ref [OF Cons.prems, of "refID r" "refWF r"]] by simp
  qed simp
  obtain res where l: "page_loop (sync_body S (flat_store E) t s) [] d = Some res"
    "(e, d') = (case res of Inl (e, d') \<Rightarrow> (Some e, d') | Inr d' \<Rightarrow> (None, d'))"
    using assms by (auto simp: syncStores_def)
  have "case res of Inl r \<Rightarrow> (case r of (e, x) \<Rightarrow> ?P x) | Inr x \<Rightarrow> ?P x"
  proof (rule page_loop_keeps [OF l(1), where P = ?P])
    show "?P d" by (rule exI [of _ "ff_fs d"]) simp
    show "case sync_body S (flat_store E) t s tok x of Inl r \<Rightarrow> (case r of (e, x) \<Rightarrow> ?P x) | Inr (nxt, x) \<Rightarrow> ?P x"
      if "?P x" for tok x
      using that fold [OF that] by (auto simp: sync_body_def split: sum.split)
  qed
  then obtain fs' where "d' = d\<lparr>ff_fs := fs'\<rparr>" using l(2) by (auto split: sum.splits)
  then show ?thesis by simp
qed

section \<open>Properties\<close>


text \<open>A volume with nothing but its marker.\<close>

definition usb_fs :: fsys where
  "usb_fs = \<lparr>fs_files = [([''usb'', ''v'', usbMarker], [])], fs_dirs = [[], [''usb''], [''usb'', ''v'']],
     fs_fault = (\<lambda>_ _. None)\<rparr>"

definition usb_vol :: FlatFileStore where
  "usb_vol = \<lparr>ff_root = [''usb'', ''v''], ff_storageLimit = 0, ff_fs = snd (fs_mkdirAll [''usb'', ''v''] usb_fs)\<rparr>"

lemma usb_vol: "OpenFlatFile ([''usb''] @ [''v'']) usb_fs = Inr usb_vol" "flat_inv env0 0 usb_vol"
  "fs_stat usb_fs ([''usb''] @ [''v'', usbMarker])"
proof -
  show "OpenFlatFile ([''usb''] @ [''v'']) usb_fs = Inr usb_vol"
    by (simp add: OpenFlatFile_def usb_vol_def fs_mkdirAll_def usb_fs_def)
  show "fs_stat usb_fs ([''usb''] @ [''v'', usbMarker])" by (simp add: fs_stat_def usb_fs_def)
  have m: "length (last p) = 64 \<Longrightarrow> fs_map (ff_fs usb_vol) p = None" for p
    by (auto simp: usb_vol_def fs_mkdirAll_def usb_fs_def fs_map_def usbMarker_def)
  have "flat_abs usb_vol = Map.empty"
    using m by (simp add: flat_abs_def blockPath_def wf_id_def fun_eq_iff Let_def)
  then have "flat_rep env0 (ff_root usb_vol) (fs_map (ff_fs usb_vol)) (flat_abs usb_vol)"
    using m by (auto simp: flat_rep_def split: option.split)
  then show "flat_inv env0 0 usb_vol"
    by (simp add: flat_inv_def env0_clock) (simp add: usb_vol_def fs_mkdirAll_def usb_fs_def fs_ok_def faultless_def)
qed


text \<open>The command \<^verbatim>\<open>mass-storage\<close> succeeds on a working file system, and then the
  target holds every block of the source, its index opens and lists exactly its blocks
  that have not expired.\<close>

theorem mass_storage_complete:
  assumes "badger_inv E B t s" "dir \<noteq> []" "OpenFlatFile dir fs = Inr tgt" "flat_inv E t tgt" "zlib_ok Z"
    and "card (dom (badger_blk B t s)) + card (dom (flat_blk t tgt)) < shardThreshold"
  shows "\<exists>fs' rs. cmdMassStorage E Z (badger_store E B) t (Some (Inr s)) dir False fs = Some (None, fs') \<and>
    flat_inv E t (tgt\<lparr>ff_fs := fs'\<rparr>) \<and>
    (\<forall>i b. badger_blk B t s i = Some b \<longrightarrow>
       (\<exists>b'. flat_blk t (tgt\<lparr>ff_fs := fs'\<rparr>) i = Some b' \<and> sb_wf b \<le> sb_wf b')) \<and>
    OpenIndex Z fs' (dir @ [''index.bin'']) = Inr \<lparr>ix_records = rs\<rparr> \<and>
    index_of t (flat_abs (tgt\<lparr>ff_fs := fs'\<rparr>)) rs"
proof -
  have tgt: "ff_storageLimit tgt \<le> 0" "ff_root tgt = dir"
    using assms(3) by (auto simp: OpenFlatFile_def split: prod.splits option.splits)
  obtain d where d: "syncStores (badger_store E B) (flat_store E) t s tgt = Some (None, d)"
    "badger_flat.copy_step E B t s tgt d" "\<And>i b. badger_blk B t s i = Some b \<Longrightarrow> flat_keep.at_least t d i (sb_wf b)"
    using badger_flat.syncStores_copies [OF assms(1,4) tgt(1)] by blast
  note c = d(2) [unfolded badger_flat.copy_step_def]
  have only: "d = tgt\<lparr>ff_fs := ff_fs d\<rparr>" by (rule sync_only_files [OF d(1)])
  then have root: "ff_root d = dir" using tgt(2) by (metis FlatFileStore.select_convs(1) FlatFileStore.surjective FlatFileStore.update_convs(3))
  have fin: "finite (dom (badger_blk B t s))" "finite (dom (flat_blk t tgt))"
    using badger.finite_blk [OF assms(1)] flat.finite_blk [OF assms(4)] .
  have "dom (flat_blk t d) \<subseteq> dom (flat_blk t tgt) \<union> dom (badger_blk B t s)" using c by blast
  then have "card (dom (flat_blk t d)) \<le> card (dom (flat_blk t tgt) \<union> dom (badger_blk B t s))"
    using fin by (intro card_mono) auto
  also have "\<dots> \<le> card (dom (flat_blk t tgt)) + card (dom (badger_blk B t s))" by (rule card_Un_le)
  finally have "card (dom (flat_blk t d)) < shardThreshold" using assms(6) by simp
  moreover have "dom (flat_blk t d) = dom (flat_abs d)" by (auto simp: flat_blk_def dom_def)
  ultimately have "card (dom (flat_abs d)) < shardThreshold" by simp
  moreover have "flat_inv E t d" using c by blast
  ultimately obtain fs' rs where b: "BuildIndex E Z t dir (ff_fs d) = (None, fs')"
    "OpenIndex Z fs' (dir @ [''index.bin'']) = Inr \<lparr>ix_records = rs\<rparr>" "index_of t (flat_abs d) rs"
    "flat_inv E t (d\<lparr>ff_fs := fs'\<rparr>)" "flat_abs (d\<lparr>ff_fs := fs'\<rparr>) = flat_abs d"
    using BuildIndex_ok [OF _ _ assms(5), of E t d] unfolding root by metis
  have e: "d\<lparr>ff_fs := fs'\<rparr> = tgt\<lparr>ff_fs := fs'\<rparr>" using only by (metis FlatFileStore.update_convs(3) FlatFileStore.surjective)
  have "cmdMassStorage E Z (badger_store E B) t (Some (Inr s)) dir False fs = Some (None, fs')"
    using assms(2,3) d(1) b(1) by (simp add: cmdMassStorage_def Let_def)
  moreover have "\<exists>b'. flat_blk t (tgt\<lparr>ff_fs := fs'\<rparr>) i = Some b' \<and> sb_wf b \<le> sb_wf b'" if "badger_blk B t s i = Some b" for i b
    using d(3) [OF that] b(5) e by (auto simp: flat_keep.at_least_def flat_blk_def)
  ultimately show ?thesis using b(2-5) unfolding e by auto
qed

theorem mass_storage_complete_witness:
  "\<exists>fs'. cmdMassStorage env0 zlib0 (badger_store env0 mem_badger) 0 (Some (Inr one_block)) [''usb'', ''v''] False usb_fs =
      Some (None, fs') \<and>
    (\<exists>b'. flat_blk 0 (usb_vol\<lparr>ff_fs := fs'\<rparr>) (ComputeID env0 (replicate 4096 0)) = Some b')"
proof -
  have blk: "badger_blk mem_badger 0 one_block =
      [ComputeID env0 (replicate 4096 0) \<mapsto> new_stored env0 0 (replicate 4 255) (replicate 4096 0)]"
    by (auto simp: badger_blk_def one_block_inv(2) new_block_def fun_eq_iff)
  have "flat_abs usb_vol i = None" for i
    by (auto simp: flat_abs_def usb_vol_def fs_mkdirAll_def usb_fs_def fs_map_def usbMarker_def blockPath_def wf_id_def Let_def)
  then have "dom (flat_blk 0 usb_vol) = {}" by (simp add: flat_blk_def fun_eq_iff)
  then have c: "card (dom (badger_blk mem_badger 0 one_block)) + card (dom (flat_blk 0 usb_vol)) < shardThreshold"
    by (simp add: blk shardThreshold_def)
  have z: "zlib_ok zlib0" by (simp add: zlib_ok_def zlib0_def)
  have o: "OpenFlatFile [''usb'', ''v''] usb_fs = Inr usb_vol" using usb_vol(1) by simp
  obtain fs' where "cmdMassStorage env0 zlib0 (badger_store env0 mem_badger) 0 (Some (Inr one_block)) [''usb'', ''v''] False usb_fs =
      Some (None, fs')"
    "\<forall>i b. badger_blk mem_badger 0 one_block i = Some b \<longrightarrow>
       (\<exists>b'. flat_blk 0 (usb_vol\<lparr>ff_fs := fs'\<rparr>) i = Some b' \<and> sb_wf b \<le> sb_wf b')"
    using mass_storage_complete [OF one_block_inv(1) _ o usb_vol(2) z c] by blast
  then show ?thesis unfolding blk by (metis (no_types, lifting) map_upd_Some_unfold)
qed

end
