(* ===== verification/Decimal.thy ===== *)
theory Decimal
  imports GoStrings
begin

text \<open>
  Decimal numbers as the packages \<^verbatim>\<open>fmt\<close> and \<^verbatim>\<open>strconv\<close> print and read them.
\<close>

definition isDigit :: "char \<Rightarrow> bool" where
  "isDigit c \<longleftrightarrow> 48 \<le> (of_char c :: nat) \<and> (of_char c :: nat) < 58"

function decimal :: "nat \<Rightarrow> string" where
  "decimal n = (if n < 10 then [char_of (48 + n)] else decimal (n div 10) @ [char_of (48 + n mod 10)])"
  by pat_completeness auto
termination by (relation "measure id") auto

declare decimal.simps [simp del]

lemma decimal_digits: "c \<in> set (decimal n) \<Longrightarrow> c \<in> char_of ` {48..<58 :: nat}"
proof (induction n rule: decimal.induct)
  case (1 n)
  show ?case
  proof (cases "n < 10")
    case True
    then have "c = char_of (48 + n)" using "1.prems" by (simp add: decimal.simps [of n])
    moreover have "48 + n \<in> {48..<58}" using True by simp
    ultimately show ?thesis by blast
  next
    case False
    then have "c \<in> set (decimal (n div 10)) \<or> c = char_of (48 + n mod 10)"
      using "1.prems" by (auto simp: decimal.simps [of n])
    moreover have "48 + n mod 10 \<in> {48..<58}" by simp
    ultimately show ?thesis using "1.IH" [OF False] by blast
  qed
qed

lemma decimal_no_dot: "CHR ''.'' \<notin> set (decimal n)" "CHR '':'' \<notin> set (decimal n)"
proof -
  have "c \<notin> char_of ` {48..<58 :: nat}" if "of_char c \<notin> {48..<58 :: nat}" for c
    using that by (auto simp: of_char_of)
  from this [of "CHR ''.''"] this [of "CHR '':''"] decimal_digits [of _ n]
  show "CHR ''.'' \<notin> set (decimal n)" "CHR '':'' \<notin> set (decimal n)" by auto
qed

fun undecimal :: "string \<Rightarrow> nat \<Rightarrow> nat" where
  "undecimal [] acc = acc"
| "undecimal (c # cs) acc = undecimal cs (10 * acc + (of_char c - 48))"

lemma undecimal_append: "undecimal (xs @ ys) acc = undecimal ys (undecimal xs acc)"
  by (induction xs arbitrary: acc) simp_all

lemma undecimal_decimal: "undecimal (decimal n) 0 = n"
proof (induction n rule: decimal.induct)
  case (1 n)
  show ?case
  proof (cases "n < 10")
    case True
    then show ?thesis by (simp add: decimal.simps [of n] of_char_of)
  next
    case False
    have "48 + n mod 10 < 256" using mod_less_divisor [of 10 n] by linarith
    then show ?thesis using False "1.IH" [OF False] by (simp add: decimal.simps [of n] undecimal_append of_char_of)
  qed
qed

lemma decimal_inj: "decimal m = decimal n \<longleftrightarrow> m = n"
  by (metis undecimal_decimal)

lemma decimal_not_Nil [simp]: "decimal n \<noteq> []"
  by (subst decimal.simps) simp

lemma decimal_isDigit: "c \<in> set (decimal n) \<Longrightarrow> isDigit c"
  using decimal_digits [of c n] by (auto simp: isDigit_def of_char_of)

lemma decimal_visible: "c \<in> set (decimal n) \<Longrightarrow> visible c"
  using decimal_isDigit [of c n] by (auto simp: visible_def isDigit_def)

lemma decimal_zero: "decimal n @ junk = ''0'' \<Longrightarrow> n = 0 \<and> junk = []"
  using undecimal_decimal [of n] by (cases "decimal n") auto

text \<open>The first result of \<^verbatim>\<open>strconv.ParseInt(s, 10, 64)\<close>: 0 for what is not a number, the
  nearest bound for a number out of range.\<close>

definition ParseInt64 :: "string \<Rightarrow> int" where
  "ParseInt64 s =
     (let neg = (s \<noteq> [] \<and> hd s = CHR ''-'');
          ds = (if s \<noteq> [] \<and> hd s \<in> {CHR ''-'', CHR ''+''} then tl s else s);
          v = (if neg then - int (undecimal ds 0) else int (undecimal ds 0))
      in if ds = [] \<or> \<not> list_all isDigit ds then 0 else max (- (2 ^ 63)) (min (2 ^ 63 - 1) v))"

lemma ParseInt64_decimal: "int n < 2 ^ 63 \<Longrightarrow> ParseInt64 (decimal n) = int n"
proof -
  assume n: "int n < 2 ^ 63"
  have "isDigit (hd (decimal n))" by (rule decimal_isDigit [OF hd_in_set]) simp
  then have "hd (decimal n) \<notin> {CHR ''-'', CHR ''+''}" by (auto simp: isDigit_def)
  moreover have "list_all isDigit (decimal n)" using decimal_isDigit by (auto simp: list_all_iff)
  ultimately show ?thesis using n by (simp add: ParseInt64_def Let_def undecimal_decimal)
qed

end
