(* ===== verification/Lan.thy ===== *)
theory Lan
  imports NetTags Decimal "HOL-Library.Multiset"
begin

text \<open>
  \<^verbatim>\<open>transport/lan/lan.go\<close>: the scan of the local networks for other nodes.  The
  interfaces of the machine, which addresses accept a connection and the order in which the concurrent
  probes finish are arguments.
\<close>

section \<open>Addresses\<close>

definition Port :: nat where "Port = 14786"

definition IP_String :: "bytes \<Rightarrow> string" where
  "IP_String ip =
     decimal (unat (ip ! 0)) @ ''.'' @ decimal (unat (ip ! 1)) @ ''.'' @ decimal (unat (ip ! 2)) @ ''.'' @ decimal (unat (ip ! 3))"

definition v4Prefix :: bytes where
  "v4Prefix = replicate 10 0 @ [255, 255]"

definition IP_Equal :: "bytes \<Rightarrow> bytes \<Rightarrow> bool" where
  "IP_Equal ip x =
     (if length ip = length x then ip = x
      else if length ip = 4 \<and> length x = 16 then take 12 x = v4Prefix \<and> ip = drop 12 x
      else if length ip = 16 \<and> length x = 4 then take 12 ip = v4Prefix \<and> drop 12 ip = x
      else False)"

section \<open>Local networks\<close>

datatype ifaddr = IPNet bytes | IPAddr bytes | OtherAddr

record iface =
  if_Loopback :: bool
  if_Up :: bool
  if_Addrs :: "string + ifaddr list"

definition addr_ip :: "ifaddr \<Rightarrow> bytes option" where
  "addr_ip a = (case a of IPNet ip \<Rightarrow> To4 ip | IPAddr ip \<Rightarrow> To4 ip | OtherAddr \<Rightarrow> None)"

text \<open>The local addresses, the networks and the keys of the networks that were seen.\<close>

type_synonym subnets = "bytes list \<times> bytes list \<times> bytes list"

definition subnet_addr :: "ifaddr \<Rightarrow> subnets \<Rightarrow> subnets" where
  "subnet_addr a = (\<lambda>(localIPs, subnets, seen).
     case addr_ip a of
       None \<Rightarrow> (localIPs, subnets, seen)
     | Some ip \<Rightarrow>
         let key = [ip ! 0, ip ! 1, ip ! 2]
         in if key \<in> set seen then (localIPs @ [ip], subnets, seen)
            else (localIPs @ [ip], subnets @ [[ip ! 0, ip ! 1, ip ! 2, 0]], key # seen))"

definition subnet_iface :: "iface \<Rightarrow> subnets \<Rightarrow> subnets" where
  "subnet_iface i acc =
     (if if_Loopback i \<or> \<not> if_Up i then acc
      else case if_Addrs i of Inl _ \<Rightarrow> acc | Inr addrs \<Rightarrow> fold subnet_addr addrs acc)"

definition localSubnets :: "string + iface list \<Rightarrow> string + (bytes list \<times> bytes list)" where
  "localSubnets ifaces =
     (case ifaces of
        Inl e \<Rightarrow> Inl e
      | Inr ifs \<Rightarrow> (case fold subnet_iface ifs ([], [], []) of (localIPs, subnets, seen) \<Rightarrow> Inr (localIPs, subnets)))"

definition isLocal :: "bytes \<Rightarrow> bytes list \<Rightarrow> bool" where
  "isLocal ip localIPs \<longleftrightarrow> (\<exists>l \<in> set localIPs. IP_Equal l ip)"

section \<open>The scan\<close>

definition subnet_hosts :: "bytes list \<Rightarrow> bytes \<Rightarrow> bytes list" where
  "subnet_hosts localIPs subnet =
     filter (\<lambda>ip. \<not> isLocal ip localIPs)
       (map (\<lambda>i. [subnet ! 0, subnet ! 1, subnet ! 2, word_of_nat i]) [1..<255])"

definition target_addr :: "bytes \<Rightarrow> string" where
  "target_addr ip = IP_String ip @ '':'' @ decimal Port"

definition targets :: "bytes list \<Rightarrow> bytes list \<Rightarrow> string list" where
  "targets localIPs subnets = map target_addr (concat (map (subnet_hosts localIPs) subnets))"

text \<open>\<open>ctxDone\<close> is polled before each address; \<open>dial\<close> says which addresses accept a connection;
  \<open>arrival\<close> is the order in which the concurrent probes append to the result.\<close>

definition probeAddrs :: "(string \<Rightarrow> bool) \<Rightarrow> (string \<Rightarrow> bool) \<Rightarrow> (string list \<Rightarrow> string list) \<Rightarrow> string list \<Rightarrow> string list" where
  "probeAddrs ctxDone dial arrival addrs = arrival (filter dial (takeWhile (\<lambda>a. \<not> ctxDone a) addrs))"

definition Scan ::
  "(string \<Rightarrow> bool) \<Rightarrow> string option \<Rightarrow> (string \<Rightarrow> bool) \<Rightarrow> (string list \<Rightarrow> string list) \<Rightarrow> string + iface list
     \<Rightarrow> string list \<times> string option" where
  "Scan ctxDone ctxErr dial arrival ifaces =
     (case localSubnets ifaces of
        Inl e \<Rightarrow> ([], Some e)
      | Inr (localIPs, subnets) \<Rightarrow> (probeAddrs ctxDone dial arrival (targets localIPs subnets), ctxErr))"

text \<open>One scan of \<^verbatim>\<open>Discover\<close>: the addresses that reach the channel before the context is done.\<close>

definition discover_scan ::
  "(string \<Rightarrow> bool) \<Rightarrow> string option \<Rightarrow> (string \<Rightarrow> bool) \<Rightarrow> (string list \<Rightarrow> string list) \<Rightarrow> (string \<Rightarrow> bool)
     \<Rightarrow> string + iface list \<Rightarrow> string list" where
  "discover_scan ctxDone ctxErr dial arrival stop ifaces =
     (case Scan ctxDone ctxErr dial arrival ifaces of
        (addrs, err) \<Rightarrow> if err \<noteq> None \<or> ctxErr \<noteq> None then [] else takeWhile (\<lambda>a. \<not> stop a) addrs)"

section \<open>Lemmas\<close>

text \<open>The IPv4 addresses of the interfaces that are up.\<close>

definition local_ips :: "iface list \<Rightarrow> bytes list" where
  "local_ips ifs =
     concat (map (\<lambda>i. if if_Loopback i \<or> \<not> if_Up i then []
                      else case if_Addrs i of Inl _ \<Rightarrow> [] | Inr addrs \<Rightarrow> List.map_filter addr_ip addrs) ifs)"

lemma To4_length: "To4 ip = Some ip4 \<Longrightarrow> length ip4 = 4"
  by (auto simp: To4_def split: if_splits)

lemma addr_ip_length: "addr_ip a = Some ip \<Longrightarrow> length ip = 4"
  by (auto simp: addr_ip_def To4_length split: ifaddr.splits)

lemma ip4_cases: "length (ip :: bytes) = 4 \<Longrightarrow> ip = [ip ! 0, ip ! 1, ip ! 2, ip ! 3]"
  by (auto simp: list_eq_iff_nth_eq less_Suc_eq numeral_eq_Suc)

definition subnets_inv :: "bytes list \<Rightarrow> subnets \<Rightarrow> bool" where
  "subnets_inv ips acc \<longleftrightarrow>
     fst acc = ips \<and> distinct (fst (snd acc)) \<and>
     set (fst (snd acc)) = (\<lambda>ip. [ip ! 0, ip ! 1, ip ! 2, 0]) ` set ips \<and>
     set (snd (snd acc)) = (\<lambda>ip. [ip ! 0, ip ! 1, ip ! 2]) ` set ips"

lemma subnet_addr_inv:
  assumes "subnets_inv ips acc"
  shows "subnets_inv (ips @ (case addr_ip a of None \<Rightarrow> [] | Some ip \<Rightarrow> [ip])) (subnet_addr a acc)"
proof (cases "addr_ip a")
  case None
  then show ?thesis using assms by (simp add: subnet_addr_def case_prod_beta)
next
  case (Some ip)
  obtain l ns seen where acc: "acc = (l, ns, seen)" by (metis prod_cases3)
  have new: "[ip ! 0, ip ! 1, ip ! 2, 0] \<notin> set ns" if "[ip ! 0, ip ! 1, ip ! 2] \<notin> set seen"
    using that assms by (auto simp: subnets_inv_def acc)
  have old: "[ip ! 0, ip ! 1, ip ! 2, 0] \<in> set ns" if "[ip ! 0, ip ! 1, ip ! 2] \<in> set seen"
    using that assms by (auto simp: subnets_inv_def acc)
  show ?thesis using assms new old Some
    by (auto simp: subnets_inv_def acc subnet_addr_def Let_def)
qed

lemma subnet_addrs_inv:
  "subnets_inv ips acc \<Longrightarrow> subnets_inv (ips @ List.map_filter addr_ip as) (fold subnet_addr as acc)"
proof (induction as arbitrary: ips acc)
  case (Cons a as)
  have "subnets_inv (ips @ (case addr_ip a of None \<Rightarrow> [] | Some ip \<Rightarrow> [ip])) (subnet_addr a acc)"
    using Cons.prems by (rule subnet_addr_inv)
  from Cons.IH [OF this] show ?case by (cases "addr_ip a") (simp_all add: map_filter_simps)
qed (simp add: map_filter_simps)

lemma subnet_ifaces_inv:
  "subnets_inv ips acc \<Longrightarrow> subnets_inv (ips @ local_ips ifs) (fold subnet_iface ifs acc)"
proof (induction ifs arbitrary: ips acc)
  case (Cons i ifs)
  have "subnets_inv (ips @ local_ips [i]) (subnet_iface i acc)"
    using Cons.prems subnet_addrs_inv by (auto simp: local_ips_def subnet_iface_def split: sum.split)
  from Cons.IH [OF this] show ?case by (simp add: local_ips_def)
qed (simp add: local_ips_def)

lemma local_ips_length: "ip \<in> set (local_ips ifs) \<Longrightarrow> length ip = 4"
  by (auto simp: local_ips_def map_filter_def addr_ip_length split: if_splits sum.splits)

text \<open>The networks of the machine, each once.\<close>

lemma localSubnets_spec:
  obtains subnets where "localSubnets (Inr ifs) = Inr (local_ips ifs, subnets)" "distinct subnets"
    "set subnets = (\<lambda>ip. [ip ! 0, ip ! 1, ip ! 2, 0]) ` set (local_ips ifs)"
proof -
  have "subnets_inv [] ([], [], [])" by (simp add: subnets_inv_def)
  from subnet_ifaces_inv [OF this, of ifs] show ?thesis
    by (intro that [of "fst (snd (fold subnet_iface ifs ([], [], [])))"])
      (auto simp: subnets_inv_def localSubnets_def case_prod_beta)
qed

lemma isLocal_iff:
  assumes "length ip = 4" "\<forall>l \<in> set ls. length l = 4"
  shows "isLocal ip ls \<longleftrightarrow> ip \<in> set ls"
  using assms by (auto simp: isLocal_def IP_Equal_def)

lemma unat_numeral_255: "unat (255 :: byte) = 255"
  by simp

lemma host_bytes: "(\<exists>i. i \<in> set [1..<255] \<and> b = (word_of_nat i :: byte)) \<longleftrightarrow> b \<noteq> 0 \<and> b \<noteq> 255"
proof
  assume "\<exists>i. i \<in> set [1..<255] \<and> b = (word_of_nat i :: byte)"
  then obtain i where i: "1 \<le> i" "i < 255" "b = word_of_nat i" by auto
  then have "unat b = i" by (simp add: unat_of_nat)
  then show "b \<noteq> 0 \<and> b \<noteq> 255" using i by auto
next
  assume b: "b \<noteq> 0 \<and> b \<noteq> 255"
  have "unat b < 256" by (rule order_less_le_trans [OF unsigned_less]) simp
  moreover have "unat b \<noteq> 0" using b by (simp add: unat_eq_0)
  moreover have "unat b \<noteq> 255" using b by (metis unat_numeral_255 word_unat_eq_iff)
  ultimately have "1 \<le> unat b \<and> unat b < 255" by linarith
  then show "\<exists>i. i \<in> set [1..<255] \<and> b = (word_of_nat i :: byte)"
    by (intro exI [of _ "unat b"]) simp
qed

lemma set_subnet_hosts:
  assumes "\<forall>l \<in> set ls. length l = 4"
  shows "set (subnet_hosts ls [a, b, c, 0]) = {ip. \<exists>d. ip = [a, b, c, d] \<and> d \<noteq> 0 \<and> d \<noteq> 255 \<and> ip \<notin> set ls}"
proof -
  have "ip \<in> set (subnet_hosts ls [a, b, c, 0]) \<longleftrightarrow> (\<exists>d. (\<exists>i. i \<in> set [1..<255] \<and> d = word_of_nat i) \<and> ip = [a, b, c, d] \<and> ip \<notin> set ls)" for ip
    using isLocal_iff [OF _ assms, of ip] by (auto simp: subnet_hosts_def)
  then show ?thesis unfolding host_bytes by auto
qed

lemma distinct_subnet_hosts: "distinct (subnet_hosts ls n)"
proof -
  have "unat (word_of_nat i :: byte) = i" if "i < 255" for i
    using that by (simp add: unat_of_nat)
  then have "inj_on (\<lambda>i. word_of_nat i :: byte) {1..<255}"
    by (intro inj_onI) (metis atLeastLessThan_iff)
  then show ?thesis by (simp add: subnet_hosts_def distinct_map inj_on_def)
qed

lemma distinct_concat_map:
  "distinct ns \<Longrightarrow> (\<And>n. distinct (f n)) \<Longrightarrow>
    (\<And>m n. m \<in> set ns \<Longrightarrow> n \<in> set ns \<Longrightarrow> m \<noteq> n \<Longrightarrow> set (f m) \<inter> set (f n) = {}) \<Longrightarrow> distinct (concat (map f ns))"
proof (induction ns)
  case (Cons n ns)
  have "set (f n) \<inter> set (f m) = {}" if "m \<in> set ns" for m using that Cons.prems(1,3) by auto
  then show ?case using Cons by auto
qed simp

text \<open>Addresses print injectively.\<close>

lemma split_at_eq:
  "x \<notin> set xs \<Longrightarrow> x \<notin> set ys \<Longrightarrow> xs @ x # as = ys @ x # bs \<longleftrightarrow> xs = ys \<and> as = bs"
proof (induction xs arbitrary: ys)
  case Nil
  then show ?case by (cases ys) auto
next
  case (Cons a xs)
  then show ?case by (cases ys) auto
qed

lemma target_addr_inj: "inj_on target_addr {ip. length ip = 4}"
proof (rule inj_onI)
  fix x y :: bytes
  assume xy: "x \<in> {ip. length ip = 4}" "y \<in> {ip. length ip = 4}" "target_addr x = target_addr y"
  have "IP_String x = IP_String y" using xy(3) by (simp add: target_addr_def)
  then have "x ! 0 = y ! 0 \<and> x ! 1 = y ! 1 \<and> x ! 2 = y ! 2 \<and> x ! 3 = y ! 3"
    by (simp add: IP_String_def split_at_eq decimal_no_dot decimal_inj word_unat_eq_iff)
  then show "x = y" using xy(1,2) ip4_cases [of x] ip4_cases [of y] by simp
qed

text \<open>The hosts that a machine with these interfaces looks for.\<close>

definition neighbours :: "iface list \<Rightarrow> bytes set" where
  "neighbours ifs =
     {ip. length ip = 4 \<and> ip ! 3 \<noteq> 0 \<and> ip ! 3 \<noteq> 255 \<and> ip \<notin> set (local_ips ifs) \<and>
          (\<exists>l \<in> set (local_ips ifs). take 3 l = take 3 ip)}"

lemma take3: "length (ip :: bytes) = 4 \<Longrightarrow> take 3 ip = [ip ! 0, ip ! 1, ip ! 2]"
  by (subst ip4_cases [of ip]) simp_all

lemma targets_spec:
  assumes "distinct subnets" "set subnets = (\<lambda>ip. [ip ! 0, ip ! 1, ip ! 2, 0]) ` set (local_ips ifs)"
  shows "distinct (targets (local_ips ifs) subnets)" "set (targets (local_ips ifs) subnets) = target_addr ` neighbours ifs"
proof -
  let ?ls = "local_ips ifs" and ?hosts = "concat (map (subnet_hosts (local_ips ifs)) subnets)"
  have l4: "\<forall>l \<in> set ?ls. length l = 4" using local_ips_length by blast
  have h: "set (subnet_hosts ?ls n) = {ip. \<exists>d. ip = [n ! 0, n ! 1, n ! 2, d] \<and> d \<noteq> 0 \<and> d \<noteq> 255 \<and> ip \<notin> set ?ls}"
    if "n \<in> set subnets" for n
    using that set_subnet_hosts [OF l4] assms(2) by auto
  have s: "set ?hosts = neighbours ifs"
  proof (rule set_eqI)
    fix ip
    have "ip \<in> set ?hosts \<longleftrightarrow>
        (\<exists>l \<in> set ?ls. \<exists>d. ip = [l ! 0, l ! 1, l ! 2, d] \<and> d \<noteq> 0 \<and> d \<noteq> 255 \<and> ip \<notin> set ?ls)"
      using h unfolding set_concat set_map assms(2) by auto
    also have "\<dots> \<longleftrightarrow> ip \<in> neighbours ifs"
    proof
      assume "\<exists>l \<in> set ?ls. \<exists>d. ip = [l ! 0, l ! 1, l ! 2, d] \<and> d \<noteq> 0 \<and> d \<noteq> 255 \<and> ip \<notin> set ?ls"
      then show "ip \<in> neighbours ifs" using l4 by (fastforce simp: neighbours_def take3)
    next
      assume "ip \<in> neighbours ifs"
      then obtain l where l: "l \<in> set ?ls" "take 3 l = take 3 ip" "length ip = 4" "ip ! 3 \<noteq> 0" "ip ! 3 \<noteq> 255" "ip \<notin> set ?ls"
        unfolding neighbours_def by blast
      then have "ip = [l ! 0, l ! 1, l ! 2, ip ! 3]" using l4 ip4_cases [of ip] by (simp add: take3)
      then show "\<exists>l \<in> set ?ls. \<exists>d. ip = [l ! 0, l ! 1, l ! 2, d] \<and> d \<noteq> 0 \<and> d \<noteq> 255 \<and> ip \<notin> set ?ls"
        using l by blast
    qed
    finally show "ip \<in> set ?hosts \<longleftrightarrow> ip \<in> neighbours ifs" .
  qed
  have disj: "set (subnet_hosts ?ls m) \<inter> set (subnet_hosts ?ls n) = {}"
    if mn: "m \<in> set subnets" "n \<in> set subnets" "m \<noteq> n" for m n
  proof -
    have "m = [m ! 0, m ! 1, m ! 2, 0]" "n = [n ! 0, n ! 1, n ! 2, 0]" using mn(1,2) assms(2) by auto
    then have "[m ! 0, m ! 1, m ! 2] \<noteq> [n ! 0, n ! 1, n ! 2]" using mn(3) by auto
    then show ?thesis unfolding h [OF mn(1)] h [OF mn(2)] by auto
  qed
  have "distinct ?hosts"
    by (rule distinct_concat_map [OF assms(1) distinct_subnet_hosts disj])
  moreover have "inj_on target_addr (set ?hosts)"
    unfolding s by (rule inj_on_subset [OF target_addr_inj]) (auto simp: neighbours_def)
  ultimately show "distinct (targets ?ls subnets)" by (simp add: targets_def distinct_map)
  show "set (targets ?ls subnets) = target_addr ` neighbours ifs" by (simp only: targets_def set_map s)
qed

lemma probeAddrs_never: "probeAddrs (\<lambda>_. False) dial arrival addrs = arrival (filter dial addrs)"
proof -
  have "takeWhile (\<lambda>a. \<not> False) addrs = addrs" by (rule takeWhile_eq_all_conv [THEN iffD2]) simp
  then show ?thesis by (simp only: probeAddrs_def)
qed

section \<open>Properties\<close>

text \<open>C39: a scan that is not cancelled finds exactly the hosts 1 to 254 of the /24 networks
  of the machine's interfaces that are up, other than the machine itself, that accept a connection on
  the port, each once, in whatever order the probes finish.\<close>

theorem Scan_finds:
  assumes "\<And>xs. mset (arrival xs) = mset xs"
  shows "distinct (fst (Scan (\<lambda>_. False) None dial arrival (Inr ifs))) \<and>
    set (fst (Scan (\<lambda>_. False) None dial arrival (Inr ifs))) = {a \<in> target_addr ` neighbours ifs. dial a}"
proof -
  obtain subnets where s: "localSubnets (Inr ifs) = Inr (local_ips ifs, subnets)" "distinct subnets"
    "set subnets = (\<lambda>ip. [ip ! 0, ip ! 1, ip ! 2, 0]) ` set (local_ips ifs)"
    by (rule localSubnets_spec)
  note t = targets_spec [OF s(2,3)]
  have "distinct (arrival xs) \<longleftrightarrow> distinct xs" "set (arrival xs) = set xs" for xs
    using assms [of xs] by (metis mset_eq_imp_distinct_iff, metis mset_eq_setD)
  then have "distinct (fst (Scan (\<lambda>_. False) None dial arrival (Inr ifs)))"
    "set (fst (Scan (\<lambda>_. False) None dial arrival (Inr ifs))) = {a \<in> set (targets (local_ips ifs) subnets). dial a}"
    using t(1) by (simp_all add: Scan_def s(1) probeAddrs_never)
  then show ?thesis unfolding t(2) by blast
qed

theorem Scan_finds_witness:
  "set (fst (Scan (\<lambda>_. False) None (\<lambda>a. a = ''10.0.0.7:14786'') rev
     (Inr [\<lparr>if_Loopback = False, if_Up = True, if_Addrs = Inr [IPNet [10, 0, 0, 5]]\<rparr>]))) = {''10.0.0.7:14786''}"
proof -
  let ?ifs = "[\<lparr>if_Loopback = False, if_Up = True, if_Addrs = Inr [IPNet [10, 0, 0, 5]]\<rparr>]"
  have l: "local_ips ?ifs = [[10, 0, 0, 5]]"
    by (simp add: local_ips_def map_filter_simps addr_ip_def To4_def)
  have "target_addr [10, 0, 0, 7] = ''10.0.0.7:14786''"
    by (simp add: target_addr_def IP_String_def Port_def decimal.simps) code_simp
  moreover have "[10, 0, 0, 7] \<in> neighbours ?ifs" unfolding neighbours_def l by simp
  ultimately have "''10.0.0.7:14786'' \<in> target_addr ` neighbours ?ifs" by (metis imageI)
  then show ?thesis using Scan_finds [of rev "\<lambda>a. a = ''10.0.0.7:14786''" ?ifs] by auto
qed

end
