(* ===== verification/Bloom.thy ===== *)
theory Bloom
  imports Blockstore
begin

text \<open>
  \<^verbatim>\<open>transport/relay/bloom.go\<close>: the filter with which peers tell each other what they
  hold.  The filter never gives a false negative, and the filter of a store contains
  every block of the store at every level up to its work factor, for any store that
  satisfies the contract \<open>block_store\<close>.
\<close>

definition bloomBits :: nat where "bloomBits = 65536"
definition bloomBytes :: nat where "bloomBytes = bloomBits div 8"
definition maxBloomPow :: int where "maxBloomPow = 16"

lemmas bloom_sizes [simp, size_simps] = bloomBits_def bloomBytes_def maxBloomPow_def

record Bloom =
  bl_bits :: bytes

definition bloom_zero :: Bloom where
  "bloom_zero = \<lparr>bl_bits = replicate bloomBytes 0\<rparr>"

definition slot :: "ID \<Rightarrow> nat \<Rightarrow> int \<Rightarrow> u32" where
  "slot i byteOffset level =
     (let v = Uint32 (slice byteOffset (byteOffset + 4) i);
          v' = v XOR (word_of_int level * 2654435761)
      in v' AND (word_of_nat bloomBits - 1))"

definition set_slot :: "bytes \<Rightarrow> u32 \<Rightarrow> bytes" where
  "set_slot bits s =
     (let k = unat (drop_bit 3 s)
      in bits[k := bits ! k OR push_bit (unat (s AND 7)) 1])"

definition slot_is_set :: "bytes \<Rightarrow> u32 \<Rightarrow> bool" where
  "slot_is_set bits s \<longleftrightarrow> bits ! unat (drop_bit 3 s) AND push_bit (unat (s AND 7)) 1 \<noteq> 0"

definition clamp_pow :: "int \<Rightarrow> int" where
  "clamp_pow w = (if w > maxBloomPow then maxBloomPow else w)"

definition slot_offsets :: "nat list" where
  "slot_offsets = [0, 8, 16]"

definition Bloom_Add :: "ID \<Rightarrow> int \<Rightarrow> Bloom \<Rightarrow> Bloom" where
  "Bloom_Add i w b =
     b\<lparr>bl_bits :=
         fold (\<lambda>level bits. fold (\<lambda>off bits. set_slot bits (slot i off level)) slot_offsets bits)
           [0..clamp_pow w] (bl_bits b)\<rparr>"

definition Bloom_Has :: "Bloom \<Rightarrow> ID \<Rightarrow> int \<Rightarrow> bool" where
  "Bloom_Has b i w \<longleftrightarrow>
     list_all (\<lambda>off. slot_is_set (bl_bits b) (slot i off (clamp_pow w))) slot_offsets"

definition Bloom_Bytes :: "Bloom \<Rightarrow> bytes" where
  "Bloom_Bytes b = bl_bits b"

definition BloomFromBytes :: "bytes \<Rightarrow> string + Bloom" where
  "BloomFromBytes data =
     (if length data \<noteq> bloomBytes then Inl ''relay: bloom: wrong length'' else Inr \<lparr>bl_bits = data\<rparr>)"

definition bloom_body :: "'s Store \<Rightarrow> time \<Rightarrow> 's \<Rightarrow> string \<Rightarrow> Bloom \<Rightarrow> store_err + (string \<times> Bloom)" where
  "bloom_body S t s pageToken b =
     (case st_ListBlocks S t s pageToken 500 0 zeroTime of
        Inl e \<Rightarrow> Inl e
      | Inr (nxt, refs) \<Rightarrow> Inr (nxt, fold (\<lambda>r. Bloom_Add (refID r) (refWF r)) refs b))"

definition BloomOfStore :: "'s Store \<Rightarrow> time \<Rightarrow> 's \<Rightarrow> (store_err + Bloom) option" where
  "BloomOfStore S t s = page_loop (bloom_body S t s) [] bloom_zero"

section \<open>No false negatives\<close>

definition wf_bloom :: "Bloom \<Rightarrow> bool" where
  "wf_bloom b \<longleftrightarrow> length (bl_bits b) = bloomBytes"

lemma slot_lt: "unat (slot i off level) < 65536"
proof -
  define v where "v = Uint32 (slice off (off + 4) i) XOR (word_of_int level * 2654435761)"
  have "slot i off level = take_bit 16 v"
    by (simp add: slot_def Let_def take_bit_eq_mask mask_eq_exp_minus_1 flip: v_def)
  then have "unat (slot i off level) = take_bit 16 (unat v)" by (simp add: unsigned_take_bit_eq)
  then show ?thesis using take_bit_nat_less_exp [of 16 "unat v"] by simp
qed

lemma slot_index_lt: "unat (drop_bit 3 (slot i off level)) < bloomBytes"
proof -
  have "unat (slot i off level) div 8 < 8192" using slot_lt [of i off level] by simp
  moreover have "unat (drop_bit 3 (slot i off level)) = unat (slot i off level) div 8"
    by (simp add: drop_bit_eq_div unat_div)
  ultimately show ?thesis by simp
qed

lemma slot_bit_lt: "unat (s AND 7 :: u32) < 8"
proof -
  have "s AND 7 = take_bit 3 s" by (simp add: take_bit_eq_mask mask_eq_exp_minus_1)
  then have "unat (s AND 7) = take_bit 3 (unat s)" by (simp add: unsigned_take_bit_eq)
  then show ?thesis using take_bit_nat_less_exp [of 3 "unat s"] by simp
qed

lemma slot_is_set_bit: "slot_is_set bits s \<longleftrightarrow> bit (bits ! unat (drop_bit 3 s)) (unat (s AND 7))"
  by (simp add: slot_is_set_def push_bit_eq_mult and_exp_eq_0_iff_not_bit)

lemma length_set_slot [simp]: "length (set_slot bits s) = length bits"
  by (simp add: set_slot_def Let_def)

lemma set_slot_sets:
  "unat (drop_bit 3 s) < length bits \<Longrightarrow> slot_is_set (set_slot bits s) s"
  using slot_bit_lt [of s]
  by (simp add: slot_is_set_bit set_slot_def Let_def bit_or_iff bit_exp_iff)

lemma set_slot_mono: "slot_is_set bits s' \<Longrightarrow> slot_is_set (set_slot bits s) s'"
  by (cases "unat (drop_bit 3 s) < length bits"; cases "unat (drop_bit 3 s) = unat (drop_bit 3 s')")
    (auto simp: slot_is_set_bit set_slot_def Let_def bit_or_iff list_update_beyond not_less)

definition add_level :: "ID \<Rightarrow> int \<Rightarrow> bytes \<Rightarrow> bytes" where
  "add_level i level bits = fold (\<lambda>off bits. set_slot bits (slot i off level)) slot_offsets bits"

lemma Bloom_Add_levels: "Bloom_Add i w b = b\<lparr>bl_bits := fold (add_level i) [0..clamp_pow w] (bl_bits b)\<rparr>"
  by (simp add: Bloom_Add_def add_level_def [abs_def])

lemma add_level_facts:
  "length (add_level i l bits) = length bits"
  "slot_is_set bits s \<Longrightarrow> slot_is_set (add_level i l bits) s"
  "length bits = bloomBytes \<Longrightarrow> off \<in> set slot_offsets \<Longrightarrow> slot_is_set (add_level i l bits) (slot i off l)"
proof -
  have s: "slot_is_set (set_slot b (slot i o' l)) (slot i o' l)" if "length b = bloomBytes" for b o'
    using set_slot_sets slot_index_lt that by simp
  show "length bits = bloomBytes \<Longrightarrow> off \<in> set slot_offsets \<Longrightarrow>
      slot_is_set (add_level i l bits) (slot i off l)"
    using s by (auto simp: add_level_def slot_offsets_def set_slot_mono)
qed (simp_all add: add_level_def slot_offsets_def set_slot_mono)

lemma fold_levels:
  "length (fold (add_level i) ls bits) = length bits"
  "slot_is_set bits s \<Longrightarrow> slot_is_set (fold (add_level i) ls bits) s"
  "length bits = bloomBytes \<Longrightarrow> l \<in> set ls \<Longrightarrow> off \<in> set slot_offsets \<Longrightarrow>
     slot_is_set (fold (add_level i) ls bits) (slot i off l)"
proof -
  show len: "length (fold (add_level i) ls bits) = length bits" for ls bits
    by (induction ls arbitrary: bits) (simp_all add: add_level_facts)
  show mono: "slot_is_set (fold (add_level i) ls bits) s" if "slot_is_set bits s" for ls bits s
    using that by (induction ls arbitrary: bits) (simp_all add: add_level_facts)
  show "slot_is_set (fold (add_level i) ls bits) (slot i off l)"
    if "length bits = bloomBytes" "l \<in> set ls" "off \<in> set slot_offsets"
    using that
  proof (induction ls arbitrary: bits)
    case (Cons k ls)
    show ?case
    proof (cases "l = k")
      case True
      then show ?thesis using mono add_level_facts(3) [OF Cons.prems(1,3)] by simp
    next
      case False
      then show ?thesis using Cons add_level_facts(1) by simp
    qed
  qed simp
qed

lemma wf_Bloom_Add: "wf_bloom b \<Longrightarrow> wf_bloom (Bloom_Add i w b)"
  by (simp add: wf_bloom_def Bloom_Add_levels fold_levels)

lemma wf_bloom_zero: "wf_bloom bloom_zero"
  by (simp add: wf_bloom_def bloom_zero_def)

lemma Bloom_Add_has:
  assumes "wf_bloom b" "0 \<le> v" "v \<le> w"
  shows "Bloom_Has (Bloom_Add i w b) i v"
proof -
  have "clamp_pow v \<in> set [0..clamp_pow w]" using assms(2,3) by (auto simp: clamp_pow_def)
  then show ?thesis using fold_levels(3) assms(1)
    by (auto simp: Bloom_Has_def Bloom_Add_levels list_all_iff wf_bloom_def)
qed

lemma Bloom_Add_mono: "Bloom_Has b j v \<Longrightarrow> Bloom_Has (Bloom_Add i w b) j v"
  by (auto simp: Bloom_Has_def Bloom_Add_levels list_all_iff fold_levels(2))

lemma fold_Bloom_Add:
  assumes "wf_bloom b"
  shows "wf_bloom (fold (\<lambda>(i, w). Bloom_Add i w) xs b)"
    "Bloom_Has b j v \<Longrightarrow> Bloom_Has (fold (\<lambda>(i, w). Bloom_Add i w) xs b) j v"
    "(i, w) \<in> set xs \<Longrightarrow> 0 \<le> v \<Longrightarrow> v \<le> w \<Longrightarrow> Bloom_Has (fold (\<lambda>(i, w). Bloom_Add i w) xs b) i v"
proof -
  show mono: "Bloom_Has (fold (\<lambda>(i, w). Bloom_Add i w) xs b) j v" if "Bloom_Has b j v" for xs b j v
    using that by (induction xs arbitrary: b) (auto simp: Bloom_Add_mono)
  show wfb: "wf_bloom (fold (\<lambda>(i, w). Bloom_Add i w) xs b)"
    using assms by (induction xs arbitrary: b) (auto simp: wf_Bloom_Add)
  show "Bloom_Has (fold (\<lambda>(i, w). Bloom_Add i w) xs b) i v" if "(i, w) \<in> set xs" "0 \<le> v" "v \<le> w"
    using assms that
  proof (induction xs arbitrary: b)
    case (Cons x xs)
    obtain j u where x: "x = (j, u)" by (cases x)
    show ?case using Cons mono [OF Bloom_Add_has [OF Cons.prems(1,3,4)]] by (auto simp: x wf_Bloom_Add)
  qed simp
qed

section \<open>The filter of a store\<close>

context block_store
begin

lemma BloomOfStore_eq:
  assumes "inv t s"
  shows "BloomOfStore S t s = Some (Inr (fold (\<lambda>(i, w). Bloom_Add i w)
    (map (key_pair (blk t s)) (sel_keys (blk t s) 0 (Unix zeroTime))) bloom_zero))"
  unfolding BloomOfStore_def
  by (rule page_loop_all [OF assms, where lim = 500 and err = "\<lambda>e acc. e"])
    (simp_all add: bloom_body_def in_int64_def)

lemma BloomOfStore_complete:
  assumes "inv t s"
  obtains b where "BloomOfStore S t s = Some (Inr b)" "wf_bloom b"
    "\<And>i x v. blk t s i = Some x \<Longrightarrow> 0 \<le> v \<Longrightarrow> v \<le> sb_wf x \<Longrightarrow> Bloom_Has b i v"
proof -
  let ?ks = "sel_keys (blk t s) 0 (Unix zeroTime)"
  have "(i, sb_wf x) \<in> set (map (key_pair (blk t s)) ?ks)" if b: "blk t s i = Some x" for i x
  proof -
    have "0 \<le> sb_wf x" "Unix zeroTime \<le> sb_createdAt x"
      using stored_wf [OF assms b] by (auto simp: wf_stored_def)
    then have "(sb_createdAt x, i) \<in> set ?ks"
      using b set_sel_keys [OF finite_blk [OF assms], of 0 "Unix zeroTime"] by (force simp: sel_set_def)
    then have "key_pair (blk t s) (sb_createdAt x, i) \<in> set (map (key_pair (blk t s)) ?ks)" by simp
    then show ?thesis using b by (simp add: key_pair_def)
  qed
  then show thesis
    using that [OF BloomOfStore_eq [OF assms]] fold_Bloom_Add [OF wf_bloom_zero] by blast
qed

end

section \<open>Properties\<close>

text \<open>No false negatives: after \<^verbatim>\<open>Add(id, k)\<close>, and whatever is added before or
  after, \<^verbatim>\<open>Has(id, w)\<close> holds for every level \<open>w\<close> up to \<open>k\<close>.\<close>

theorem Bloom_no_false_negative:
  assumes "wf_bloom b" "0 \<le> w" "w \<le> k"
  shows "Bloom_Has (fold (\<lambda>(j, v). Bloom_Add j v) later (Bloom_Add i k
    (fold (\<lambda>(j, v). Bloom_Add j v) earlier b))) i w"
  using fold_Bloom_Add [OF assms(1)] fold_Bloom_Add(2) [OF wf_Bloom_Add]
    Bloom_Add_has [OF _ assms(2,3)] by blast

theorem Bloom_no_false_negative_witness:
  "Bloom_Has (fold (\<lambda>(j, v). Bloom_Add j v) [(replicate 32 1, 3)] (Bloom_Add (replicate 32 7) 40
    (fold (\<lambda>(j, v). Bloom_Add j v) [] bloom_zero))) (replicate 32 7) 20"
  by (rule Bloom_no_false_negative [OF wf_bloom_zero]) simp_all

text \<open>The wire form of a filter round trips, and nothing but 8192 bytes is accepted.\<close>

theorem Bloom_bytes_roundtrip:
  assumes "wf_bloom b"
  shows "BloomFromBytes (Bloom_Bytes b) = Inr b \<and>
    (\<forall>data b'. BloomFromBytes data = Inr b' \<longrightarrow> wf_bloom b' \<and> Bloom_Bytes b' = data)"
  using assms by (auto simp: BloomFromBytes_def Bloom_Bytes_def wf_bloom_def split: if_splits)

theorem Bloom_bytes_roundtrip_witness: "BloomFromBytes (Bloom_Bytes bloom_zero) = Inr bloom_zero"
  using Bloom_bytes_roundtrip [OF wf_bloom_zero] by blast

end
