(* ===== verification/RelayServer.thy ===== *)
theory RelayServer
  imports Bloom NetTags BadgerProps
begin

text \<open>
  \<^verbatim>\<open>transport/relay/server.go\<close> and \<^verbatim>\<open>webapp.go\<close>: the relay node.  A server is a
  record with the store it serves (the operations and their state), the static floor and
  the optional hooks.  A request is a value with the decoded parts of the HTTP request
  (\<^verbatim>\<open>None\<close> for a body that is not the expected JSON), a response the status and the
  structured body that is rendered as JSON or raw bytes.  A handler that would not
  return is \<open>None\<close>.
\<close>

section \<open>Requests and responses\<close>

record blockItem =
  bi_id :: string
  bi_workFactor :: int
  bi_createdAt :: int
  bi_stamp :: string
  bi_payload :: string

datatype resp_body =
    NoBody
  | Raw bytes
  | Asset string
  | Text string
  | JError string
  | JBlockID string int
  | JIDs "string list"
  | JPowFloor int
  | JPeers "string list"
  | JBlock string string string int
  | JBlocks "blockItem list" string string

record response =
  rsp_status :: int
  rsp_body :: resp_body

record deltaReq =
  dr_bloom :: string
  dr_powFloor :: int
  dr_since :: int

datatype request =
    ROptions
  | RIndex
  | RWebApp
  | RArgon2JS
  | RGet string
  | RPut "string + bytes" string
  | RDelta "deltaReq option"
  | RPowLimit
  | RPeers
  | RHello "string option"
  | RListBlocks string string string string
  | RGetBlock string
  | RSubmitBlock "(string \<times> string) option"

definition respond :: "int \<Rightarrow> resp_body \<Rightarrow> response" where
  "respond status body = \<lparr>rsp_status = status, rsp_body = body\<rparr>"

definition serverError :: "int \<Rightarrow> string \<Rightarrow> response" where
  "serverError status msg = respond status (JError msg)"

definition store_err_msg :: "store_err \<Rightarrow> string" where
  "store_err_msg e =
     (case e of
        ErrNotFound \<Rightarrow> ''blockstore: block not found''
      | ErrPageToken \<Rightarrow> ''blockstore: invalid page token''
      | ErrCorrupt \<Rightarrow> ''blockstore: corrupt block value''
      | ErrBackend m \<Rightarrow> m)"

section \<open>The server\<close>

record ('s, 'p) Server =
  sv_ops :: "'s Store"
  sv_median :: "('s \<Rightarrow> store_err + int) option"
  sv_store :: 's
  sv_powFloor :: int
  sv_peerSource :: "('p \<Rightarrow> string list) option"
  sv_peerAdder :: "(string \<Rightarrow> 'p \<Rightarrow> 'p) option"
  sv_peers :: 'p
  sv_geoip :: "GeoIP option"

definition NewServer :: "'s Store \<Rightarrow> ('s \<Rightarrow> store_err + int) option \<Rightarrow> 's \<Rightarrow> int \<Rightarrow> 'p \<Rightarrow> ('s, 'p) Server" where
  "NewServer ops med store powFloor peers =
     \<lparr>sv_ops = ops, sv_median = med, sv_store = store, sv_powFloor = powFloor,
      sv_peerSource = None, sv_peerAdder = None, sv_peers = peers, sv_geoip = None\<rparr>"

definition SetPeerSource :: "('p \<Rightarrow> string list) \<Rightarrow> ('s, 'p) Server \<Rightarrow> ('s, 'p) Server" where
  "SetPeerSource f s = s\<lparr>sv_peerSource := Some f\<rparr>"

definition SetPeerAdder :: "(string \<Rightarrow> 'p \<Rightarrow> 'p) \<Rightarrow> ('s, 'p) Server \<Rightarrow> ('s, 'p) Server" where
  "SetPeerAdder f s = s\<lparr>sv_peerAdder := Some f\<rparr>"

definition SetGeoIP :: "GeoIP \<Rightarrow> ('s, 'p) Server \<Rightarrow> ('s, 'p) Server" where
  "SetGeoIP g s = s\<lparr>sv_geoip := Some g\<rparr>"

definition parseID :: "string \<Rightarrow> ID option" where
  "parseID h =
     (case hex_Decode h of
        None \<Rightarrow> None
      | Some b \<Rightarrow> if length b \<noteq> IDSize then None else Some b)"

definition handleGet :: "time \<Rightarrow> string \<Rightarrow> ('s, 'p) Server \<Rightarrow> response" where
  "handleGet t h s =
     (case parseID h of
        None \<Rightarrow> respond 400 (Text ''invalid block id'')
      | Some i \<Rightarrow>
          (case st_Get (sv_ops s) t (sv_store s) i of
             Inl ErrNotFound \<Rightarrow> respond 404 (Text ''not found'')
           | Inl _ \<Rightarrow> respond 500 (Text ''internal error'')
           | Inr (stamp, payload) \<Rightarrow> respond 200 (Raw (stamp @ payload))))"

definition wireBlockSize :: nat where
  "wireBlockSize = StampSize + PayloadSize"

definition handlePut ::
  "env \<Rightarrow> net \<Rightarrow> time \<Rightarrow> string + bytes \<Rightarrow> string \<Rightarrow> ('s, 'p) Server \<Rightarrow> response \<times> ('s, 'p) Server" where
  "handlePut E N t rbody remoteAddr s =
     (case rbody of
        Inl _ \<Rightarrow> (respond 400 (Text ''read error''), s)
      | Inr full \<Rightarrow>
          (let body = take (wireBlockSize + 1) full
           in if length body \<noteq> wireBlockSize
              then (serverError 400 ''body must be exactly 2052 bytes (stamp+payload)'', s)
              else
                let stamp = take StampSize body; payload = drop StampSize body;
                    w = WorkFactor E stamp payload
                in if w < sv_powFloor s then (serverError 403 ''insufficient proof of work'', s)
                   else
                     let tag = (case sv_geoip s of
                                  Some g \<Rightarrow> GeoIP_Tag N g remoteAddr
                                | None \<Rightarrow> tagFromRemoteAddr N remoteAddr);
                         (r, st') = st_Put (sv_ops s) t stamp payload tag (sv_store s);
                         s' = s\<lparr>sv_store := st'\<rparr>
                     in case r of
                          Inl _ \<Rightarrow> (serverError 500 ''storage error'', s')
                        | Inr i \<Rightarrow> (respond 200 (JBlockID (hex_Encode i) w), s')))"

definition delta_body ::
  "'s Store \<Rightarrow> time \<Rightarrow> 's \<Rightarrow> Bloom \<Rightarrow> int \<Rightarrow> time \<Rightarrow> string \<Rightarrow> string list
     \<Rightarrow> response + (string \<times> string list)" where
  "delta_body S t s bloom powFloor since pageToken ids =
     (case st_ListBlocks S t s pageToken 500 powFloor since of
        Inl _ \<Rightarrow> Inl (serverError 500 ''store error'')
      | Inr (nxt, refs) \<Rightarrow>
          Inr (nxt, fold (\<lambda>r ids. if \<not> Bloom_Has bloom (refID r) (refWF r)
                                   then ids @ [hex_Encode (refID r)] else ids) refs ids))"

definition handleDelta :: "time \<Rightarrow> deltaReq option \<Rightarrow> ('s, 'p) Server \<Rightarrow> response option" where
  "handleDelta t req s =
     (case req of
        None \<Rightarrow> Some (serverError 400 ''invalid JSON'')
      | Some dr \<Rightarrow>
          (case b64s_DecodeString (dr_bloom dr) of
             None \<Rightarrow> Some (serverError 400 ''invalid bloom encoding'')
           | Some bloomData \<Rightarrow>
               (case BloomFromBytes bloomData of
                  Inl e \<Rightarrow> Some (serverError 400 e)
                | Inr bloom \<Rightarrow>
                    (let powFloor = (if dr_powFloor dr < sv_powFloor s then sv_powFloor s else dr_powFloor dr);
                         since = timeUnix (dr_since dr)
                     in map_option (\<lambda>r. case r of Inl resp \<Rightarrow> resp | Inr ids \<Rightarrow> respond 200 (JIDs ids))
                          (page_loop (delta_body (sv_ops s) t (sv_store s) bloom powFloor since) [] [])))))"

definition handlePowLimit :: "('s, 'p) Server \<Rightarrow> response" where
  "handlePowLimit s =
     (case sv_median s of
        Some med \<Rightarrow>
          (case med (sv_store s) of
             Inl _ \<Rightarrow> serverError 500 ''store error''
           | Inr median \<Rightarrow> respond 200 (JPowFloor (median - 1)))
      | None \<Rightarrow> respond 200 (JPowFloor (sv_powFloor s)))"

definition known_peers :: "('s, 'p) Server \<Rightarrow> string list" where
  "known_peers s = (case sv_peerSource s of None \<Rightarrow> [] | Some f \<Rightarrow> f (sv_peers s))"

definition handlePeers :: "('s, 'p) Server \<Rightarrow> response" where
  "handlePeers s = respond 200 (JPeers (known_peers s))"

definition handleHello :: "string option \<Rightarrow> ('s, 'p) Server \<Rightarrow> response \<times> ('s, 'p) Server" where
  "handleHello req s =
     (let u = (case req of None \<Rightarrow> [] | Some u \<Rightarrow> u);
          s' = (if u \<noteq> [] then
                  (case sv_peerAdder s of
                     None \<Rightarrow> s
                   | Some add \<Rightarrow> s\<lparr>sv_peers := add u (sv_peers s)\<rparr>)
                else s)
      in (respond 200 (JPeers (known_peers s')), s'))"

section \<open>The public block API\<close>

text \<open>The pages are files embedded in the binary, named by their source.\<close>

definition handleIndex :: response where
  "handleIndex = respond 200 (Asset ''ui/index.html'')"

definition handleWebApp :: response where
  "handleWebApp = respond 200 (Asset ''ui/app.html'')"

definition handleArgon2JS :: response where
  "handleArgon2JS = respond 200 (Asset ''ui/argon2.js'')"

text \<open>\<^verbatim>\<open>strconv.ParseInt(s, 10, 64)\<close> with its error ignored: 0 for a syntax error, the
  nearest bound when out of range.\<close>

definition digitVal :: "char \<Rightarrow> int option" where
  "digitVal c =
     (let n = of_char c :: int in if 48 \<le> n \<and> n \<le> 57 then Some (n - 48) else None)"

fun digitsVal :: "int \<Rightarrow> string \<Rightarrow> int option" where
  "digitsVal acc [] = Some acc"
| "digitsVal acc (c # cs) =
     (case digitVal c of None \<Rightarrow> None | Some d \<Rightarrow> digitsVal (10 * acc + d) cs)"

definition clamp64 :: "int \<Rightarrow> int" where
  "clamp64 i = (if i < - (2 ^ 63) then - (2 ^ 63) else if i \<ge> 2 ^ 63 then 2 ^ 63 - 1 else i)"

definition parseInt64 :: "string \<Rightarrow> int" where
  "parseInt64 s =
     (let (neg, ds) = (case s of
             [] \<Rightarrow> (False, [])
           | c # cs \<Rightarrow> if c = CHR ''-'' then (True, cs) else if c = CHR ''+'' then (False, cs) else (False, s))
      in if ds = [] then 0
         else case digitsVal 0 ds of
                None \<Rightarrow> 0
              | Some n \<Rightarrow> clamp64 (if neg then - n else n))"

fun list_items :: "'s Store \<Rightarrow> time \<Rightarrow> 's \<Rightarrow> BlockRef list \<Rightarrow> blockItem list \<times> string \<Rightarrow> blockItem list \<times> string" where
  "list_items S t s [] acc = acc"
| "list_items S t s (r # rs) (items, resumeToken) =
     (case st_Get S t s (refID r) of
        Inl _ \<Rightarrow> list_items S t s rs (items, resumeToken)
      | Inr (stamp, payload) \<Rightarrow>
          list_items S t s rs
            (items @ [\<lparr>bi_id = hex_Encode (refID r), bi_workFactor = refWF r, bi_createdAt = refCreatedAt r,
                       bi_stamp = b64s_EncodeToString stamp, bi_payload = b64s_EncodeToString payload\<rparr>],
             BlockRef_Token r))"

definition clamp_limit :: "int \<Rightarrow> int" where
  "clamp_limit l = (let l1 = (if l \<le> 0 then 200 else l) in if l1 > 500 then 500 else l1)"

definition handleListBlocks ::
  "time \<Rightarrow> string \<Rightarrow> string \<Rightarrow> string \<Rightarrow> string \<Rightarrow> ('s, 'p) Server \<Rightarrow> response" where
  "handleListBlocks t qSince qToken qPow qLimit s =
     (let since = timeUnix (parseInt64 qSince);
          powFloor0 = parseInt64 qPow;
          powFloor = (if powFloor0 < sv_powFloor s then sv_powFloor s else powFloor0);
          limit = clamp_limit (parseInt64 qLimit)
      in case st_ListBlocks (sv_ops s) t (sv_store s) qToken limit powFloor since of
           Inl e \<Rightarrow> serverError 500 (store_err_msg e)
         | Inr (nextToken, refs) \<Rightarrow>
             (let (items, resumeToken) = list_items (sv_ops s) t (sv_store s) refs ([], [])
              in respond 200 (JBlocks items nextToken resumeToken)))"

definition handleGetBlock :: "env \<Rightarrow> time \<Rightarrow> string \<Rightarrow> ('s, 'p) Server \<Rightarrow> response" where
  "handleGetBlock E t h s =
     (case parseID h of
        None \<Rightarrow> serverError 400 ''invalid block id''
      | Some i \<Rightarrow>
          (case st_Get (sv_ops s) t (sv_store s) i of
             Inl ErrNotFound \<Rightarrow> serverError 404 ''block not found''
           | Inl e \<Rightarrow> serverError 500 (store_err_msg e)
           | Inr (stamp, payload) \<Rightarrow>
               respond 200 (JBlock (hex_Encode i) (b64s_EncodeToString stamp)
                 (b64s_EncodeToString payload) (WorkFactor E stamp payload))))"

definition handleSubmitBlock ::
  "env \<Rightarrow> time \<Rightarrow> (string \<times> string) option \<Rightarrow> ('s, 'p) Server \<Rightarrow> response \<times> ('s, 'p) Server" where
  "handleSubmitBlock E t req s =
     (case req of
        None \<Rightarrow> (serverError 400 ''invalid JSON'', s)
      | Some (stampB64, payloadB64) \<Rightarrow>
          (case b64s_DecodeString stampB64 of
             None \<Rightarrow> (serverError 400 ''invalid stamp: must be base64-encoded 4 bytes'', s)
           | Some stamp \<Rightarrow>
               if length stamp \<noteq> StampSize
               then (serverError 400 ''invalid stamp: must be base64-encoded 4 bytes'', s)
               else
                 case b64s_DecodeString payloadB64 of
                   None \<Rightarrow> (serverError 400 ''invalid payload: must be base64-encoded 2048 bytes'', s)
                 | Some payload \<Rightarrow>
                     if length payload \<noteq> PayloadSize
                     then (serverError 400 ''invalid payload: must be base64-encoded 2048 bytes'', s)
                     else if WorkFactor E stamp payload < sv_powFloor s
                     then (serverError 403 ''insufficient proof of work'', s)
                     else
                       let (r, st') = st_Put (sv_ops s) t stamp payload TagPhysical (sv_store s);
                           s' = s\<lparr>sv_store := st'\<rparr>
                       in case r of
                            Inl e \<Rightarrow> (serverError 500 (store_err_msg e), s')
                          | Inr i \<Rightarrow> (respond 201 (JBlockID (hex_Encode i) (WorkFactor E stamp payload)), s')))"

definition ServeHTTP ::
  "env \<Rightarrow> net \<Rightarrow> time \<Rightarrow> request \<Rightarrow> ('s, 'p) Server \<Rightarrow> (response \<times> ('s, 'p) Server) option" where
  "ServeHTTP E N t req s =
     (case req of
        ROptions \<Rightarrow> Some (respond 204 NoBody, s)
      | RIndex \<Rightarrow> Some (handleIndex, s)
      | RWebApp \<Rightarrow> Some (handleWebApp, s)
      | RArgon2JS \<Rightarrow> Some (handleArgon2JS, s)
      | RGet h \<Rightarrow> Some (handleGet t h s, s)
      | RPut body addr \<Rightarrow> Some (handlePut E N t body addr s)
      | RDelta dr \<Rightarrow> map_option (\<lambda>r. (r, s)) (handleDelta t dr s)
      | RPowLimit \<Rightarrow> Some (handlePowLimit s, s)
      | RPeers \<Rightarrow> Some (handlePeers s, s)
      | RHello u \<Rightarrow> Some (handleHello u s)
      | RListBlocks since tok pow lim \<Rightarrow> Some (handleListBlocks t since tok pow lim s, s)
      | RGetBlock h \<Rightarrow> Some (handleGetBlock E t h s, s)
      | RSubmitBlock b \<Rightarrow> Some (handleSubmitBlock E t b s))"

section \<open>Lemmas\<close>

lemma parseID_hex [simp]: "wf_id i \<Longrightarrow> parseID (hex_Encode i) = Some i"
  by (simp add: parseID_def wf_id_def)

lemma parseID_wf: "parseID h = Some i \<Longrightarrow> wf_id i"
  by (auto simp: parseID_def wf_id_def split: option.splits if_splits)

lemma respond_simps [simp]:
  "rsp_status (respond c b) = c" "rsp_body (respond c b) = b"
  "rsp_status (serverError c m) = c" "rsp_body (serverError c m) = JError m"
  by (simp_all add: respond_def serverError_def)

text \<open>The IDs that a delta query asks for: the selected blocks that the filter misses.\<close>

definition missing_keys :: "(ID \<rightharpoonup> stored) \<Rightarrow> Bloom \<Rightarrow> int \<Rightarrow> int \<Rightarrow> ID list" where
  "missing_keys m bloom pf since =
     map snd (filter (\<lambda>k. \<not> Bloom_Has bloom (snd k) (snd (key_pair m k))) (sel_keys m pf since))"

lemma fold_filter_ids:
  "fold (\<lambda>(i, w) ids. if P i w then ids @ [f i] else ids) xs acc =
     acc @ map (\<lambda>x. f (fst x)) (filter (\<lambda>x. P (fst x) (snd x)) xs)"
  by (induction xs arbitrary: acc) auto

context block_store
begin

lemma delta_loop:
  assumes "inv t s" "in_int64 (Unix since)"
  shows "page_loop (delta_body S t s bloom pf since) [] [] =
    Some (Inr (map hex_Encode (missing_keys (blk t s) bloom pf (Unix since))))"
proof -
  let ?f = "\<lambda>i w ids. if \<not> Bloom_Has bloom i w then ids @ [hex_Encode i] else ids"
  have "page_loop (delta_body S t s bloom pf since) [] [] =
    Some (Inr (fold (\<lambda>(i, w). ?f i w) (map (key_pair (blk t s)) (sel_keys (blk t s) pf (Unix since))) []))"
    by (rule page_loop_all [OF assms(1) _ assms(2), where lim = 500 and err = "\<lambda>e acc. serverError 500 ''store error''"])
      (simp_all add: delta_body_def)
  also have "fold (\<lambda>(i, w). ?f i w) (map (key_pair (blk t s)) (sel_keys (blk t s) pf (Unix since))) [] =
      map hex_Encode (missing_keys (blk t s) bloom pf (Unix since))"
    by (simp add: fold_filter_ids missing_keys_def filter_map comp_def key_pair_def)
  finally show ?thesis .
qed

lemma handleDelta_ids:
  fixes srv :: "('s, 'p) Server"
  assumes "inv t (sv_store srv)" "sv_ops srv = S" "wf_bloom b" "in_int64 since"
  shows "handleDelta t (Some \<lparr>dr_bloom = b64s_EncodeToString (Bloom_Bytes b), dr_powFloor = pf, dr_since = since\<rparr>) srv =
    Some (respond 200 (JIDs (map hex_Encode
      (missing_keys (blk t (sv_store srv)) b (max pf (sv_powFloor srv)) since))))"
proof -
  have b: "BloomFromBytes (Bloom_Bytes b) = Inr b"
    using assms(3) by (simp add: BloomFromBytes_def Bloom_Bytes_def wf_bloom_def)
  have pf: "(if pf < sv_powFloor srv then sv_powFloor srv else pf) = max pf (sv_powFloor srv)" by auto
  show ?thesis using delta_loop [OF assms(1), of "timeUnix since"] assms(4)
    by (simp add: handleDelta_def assms(2) b Let_def pf)
qed

end

text \<open>The only change a request may make to the store: one well-formed block that meets
  the floor is put.\<close>

definition store_gate :: "env \<Rightarrow> time \<Rightarrow> ('s, 'p) Server \<Rightarrow> 's \<Rightarrow> bool" where
  "store_gate E t s st' \<longleftrightarrow>
     st' = sv_store s \<or>
     (\<exists>stamp payload tag. wf_stamp stamp \<and> wf_payload payload \<and>
        sv_powFloor s \<le> WorkFactor E stamp payload \<and>
        st' = snd (st_Put (sv_ops s) t stamp payload tag (sv_store s)))"

lemma handlePut_gate: "store_gate E t s (sv_store (snd (handlePut E N t body addr s)))"
proof (cases body)
  case (Inr full)
  define b where "b = take (wireBlockSize + 1) full"
  show ?thesis
  proof (cases "length b = wireBlockSize \<and> sv_powFloor s \<le> WorkFactor E (take StampSize b) (drop StampSize b)")
    case True
    then have "wf_stamp (take StampSize b)" "wf_payload (drop StampSize b)"
      by (simp_all add: wf_stamp_def wf_payload_def wireBlockSize_def)
    moreover have "\<exists>tag. sv_store (snd (handlePut E N t body addr s)) =
      snd (st_Put (sv_ops s) t (take StampSize b) (drop StampSize b) tag (sv_store s))"
      using True unfolding handlePut_def Inr sum.case b_def [symmetric] Let_def case_prod_beta
      by (simp split: sum.split) blast
    ultimately show ?thesis using True unfolding store_gate_def by blast
  next
    case False
    then show ?thesis unfolding handlePut_def Inr sum.case b_def [symmetric]
      by (auto simp: Let_def store_gate_def)
  qed
qed (simp add: handlePut_def store_gate_def)

lemma handleSubmitBlock_gate: "store_gate E t s (sv_store (snd (handleSubmitBlock E t b s)))"
  by (auto simp: handleSubmitBlock_def store_gate_def Let_def case_prod_beta wf_stamp_def wf_payload_def not_less
      split: option.split sum.split)

lemma store_gate_refl [simp]: "store_gate E t s (sv_store s)"
  by (simp add: store_gate_def)

section \<open>Properties\<close>

text \<open>C15: a request changes the relay's store only by storing one well-formed block whose
  work factor meets the relay's floor; every other request, and every rejected one, leaves
  the store as it is.\<close>

theorem ServeHTTP_store_gate:
  assumes "ServeHTTP E N t req s = Some (r, s')"
  shows "store_gate E t s (sv_store s')"
proof -
  have "\<forall>x \<in> set_option (ServeHTTP E N t req s). store_gate E t s (sv_store (snd x))"
    by (cases req) (auto simp: ServeHTTP_def handleHello_def Let_def handlePut_gate handleSubmitBlock_gate
        split: option.split)
  then show ?thesis using assms by simp
qed

theorem ServeHTTP_store_gate_witness:
  "store_gate env0 0 (NewServer (badger_store env0 mem_badger) None (OpenBadger []) 0 ())
     (sv_store (snd (handlePut env0 net0 0 (Inr (replicate 4100 0)) []
        (NewServer (badger_store env0 mem_badger) None (OpenBadger []) 0 ()))))"
  by (rule ServeHTTP_store_gate [where req = "RPut (Inr (replicate 4100 0)) []" and N = net0
      and r = "fst (handlePut env0 net0 0 (Inr (replicate 4100 0)) []
        (NewServer (badger_store env0 mem_badger) None (OpenBadger []) 0 ()))"])
    (simp add: ServeHTTP_def)

end
