(* ===== verification/RelayClient.thy ===== *)
theory RelayClient
  imports RelayServer FlatProofs
begin

text \<open>
  \<^verbatim>\<open>transport/relay/client.go\<close>: the HTTP client of a relay and the two halves of
  a synchronisation, \<^verbatim>\<open>Pull\<close> and \<^verbatim>\<open>Push\<close>.  The network is a function from a
  request and the state of the other side to a reply and its next state; the context is
  a predicate on that state.  \<open>serve_http\<close> connects the client to the relay server of
  \<open>RelayServer\<close>.  A body that is a JSON text is delivered as the structured value; an
  object without the wanted field leaves that field at its zero value.
\<close>

section \<open>The network\<close>

datatype http_err = BadRequest string | DoErr string

type_synonym 'w http = "request \<Rightarrow> 'w \<Rightarrow> (http_err + response) \<times> 'w"

datatype relay_err = RelayNotFound | RelayErr string

definition relayErr :: "string \<Rightarrow> http_err \<Rightarrow> relay_err" where
  "relayErr pfx e = (case e of BadRequest m \<Rightarrow> RelayErr m | DoErr m \<Rightarrow> RelayErr (pfx @ m))"

text \<open>The bytes of a body; \<open>jtext\<close> is the text of a structured one.\<close>

definition body_bytes :: "(resp_body \<Rightarrow> bytes) \<Rightarrow> resp_body \<Rightarrow> bytes" where
  "body_bytes jtext b = (case b of Raw bs \<Rightarrow> bs | NoBody \<Rightarrow> [] | _ \<Rightarrow> jtext b)"

definition is_json :: "resp_body \<Rightarrow> bool" where
  "is_json b = (case b of NoBody \<Rightarrow> False | Raw _ \<Rightarrow> False | Asset _ \<Rightarrow> False | Text _ \<Rightarrow> False | _ \<Rightarrow> True)"

definition json_error :: "resp_body \<Rightarrow> string" where
  "json_error b = (case b of JError m \<Rightarrow> m | _ \<Rightarrow> [])"

definition json_id :: "resp_body \<Rightarrow> string option" where
  "json_id b = (case b of JBlockID i _ \<Rightarrow> Some i | JBlock i _ _ _ \<Rightarrow> Some i | _ \<Rightarrow> if is_json b then Some [] else None)"

definition json_ids :: "resp_body \<Rightarrow> string list option" where
  "json_ids b = (case b of JIDs is \<Rightarrow> Some is | _ \<Rightarrow> if is_json b then Some [] else None)"

definition json_peers :: "resp_body \<Rightarrow> string list option" where
  "json_peers b = (case b of JPeers ps \<Rightarrow> Some ps | _ \<Rightarrow> if is_json b then Some [] else None)"

definition json_powFloor :: "resp_body \<Rightarrow> int option" where
  "json_powFloor b = (case b of JPowFloor n \<Rightarrow> Some n | _ \<Rightarrow> if is_json b then Some 0 else None)"

section \<open>The client\<close>

record Client =
  cl_baseURL :: string
  cl_tag :: Tag

definition NewClient :: "net \<Rightarrow> string \<Rightarrow> Client" where
  "NewClient N baseURL = \<lparr>cl_baseURL = baseURL, cl_tag = tagForURL N baseURL\<rparr>"

definition Client_Get ::
  "(resp_body \<Rightarrow> bytes) \<Rightarrow> 'w http \<Rightarrow> ID \<Rightarrow> 'w \<Rightarrow> (relay_err + (Stamp \<times> Payload)) \<times> 'w" where
  "Client_Get jtext http i w =
     (let (resp, w') = http (RGet (hex_Encode i)) w
      in case resp of
           Inl e \<Rightarrow> (Inl (relayErr ''relay get: '' e), w')
         | Inr r \<Rightarrow>
             if rsp_status r = 404 then (Inl RelayNotFound, w')
             else if rsp_status r \<noteq> 200 then (Inl (RelayErr ''relay get: status''), w')
             else
               let body = take (StampSize + PayloadSize) (body_bytes jtext (rsp_body r))
               in if length body \<noteq> StampSize + PayloadSize
                  then (Inl (RelayErr ''relay get: short response''), w')
                  else (Inr (take StampSize body, drop StampSize body), w'))"

definition Client_Put ::
  "'w http \<Rightarrow> Stamp \<Rightarrow> Payload \<Rightarrow> 'w \<Rightarrow> (relay_err + ID) \<times> 'w" where
  "Client_Put http stamp payload w =
     (let (resp, w') = http (RPut (Inr (stamp @ payload)) []) w
      in case resp of
           Inl e \<Rightarrow> (Inl (relayErr ''relay put: '' e), w')
         | Inr r \<Rightarrow>
             if rsp_status r \<noteq> 200 then (Inl (RelayErr (''relay put: status: '' @ json_error (rsp_body r))), w')
             else
               case json_id (rsp_body r) of
                 None \<Rightarrow> (Inl (RelayErr ''relay put: decode response''), w')
               | Some h \<Rightarrow>
                   (case parseID h of
                      None \<Rightarrow> (Inl (RelayErr ''relay put: invalid id in response''), w')
                    | Some i \<Rightarrow> (Inr i, w')))"

fun decode_ids :: "string list \<Rightarrow> ID list \<Rightarrow> relay_err + ID list" where
  "decode_ids [] ids = Inr ids"
| "decode_ids (h # hs) ids =
     (case parseID h of
        None \<Rightarrow> Inl (RelayErr (''relay delta: invalid id '' @ h))
      | Some i \<Rightarrow> decode_ids hs (ids @ [i]))"

definition Client_Delta ::
  "'w http \<Rightarrow> Bloom \<Rightarrow> int \<Rightarrow> time \<Rightarrow> 'w \<Rightarrow> (relay_err + ID list) \<times> 'w" where
  "Client_Delta http bloom powFloor since w =
     (let (resp, w') = http (RDelta (Some \<lparr>dr_bloom = b64s_EncodeToString (Bloom_Bytes bloom),
                                          dr_powFloor = powFloor, dr_since = Unix since\<rparr>)) w
      in case resp of
           Inl e \<Rightarrow> (Inl (relayErr ''relay delta: '' e), w')
         | Inr r \<Rightarrow>
             if rsp_status r \<noteq> 200 then (Inl (RelayErr ''relay delta: status''), w')
             else
               case json_ids (rsp_body r) of
                 None \<Rightarrow> (Inl (RelayErr ''relay delta: decode''), w')
               | Some hs \<Rightarrow> (decode_ids hs [], w'))"

definition Client_Hello :: "'w http \<Rightarrow> string \<Rightarrow> 'w \<Rightarrow> (relay_err + string list) \<times> 'w" where
  "Client_Hello http myURL w =
     (let (resp, w') = http (RHello (Some myURL)) w
      in case resp of
           Inl e \<Rightarrow> (Inl (relayErr ''relay hello: '' e), w')
         | Inr r \<Rightarrow>
             if rsp_status r \<noteq> 200 then (Inl (RelayErr ''relay hello: status''), w')
             else
               case json_peers (rsp_body r) of
                 None \<Rightarrow> (Inl (RelayErr ''relay hello: decode''), w')
               | Some ps \<Rightarrow> (Inr ps, w'))"

definition Client_GetPeers :: "'w http \<Rightarrow> 'w \<Rightarrow> (relay_err + string list) \<times> 'w" where
  "Client_GetPeers http w =
     (let (resp, w') = http RPeers w
      in case resp of
           Inl e \<Rightarrow> (Inl (relayErr ''relay peers: '' e), w')
         | Inr r \<Rightarrow>
             if rsp_status r \<noteq> 200 then (Inl (RelayErr ''relay peers: status''), w')
             else
               case json_peers (rsp_body r) of
                 None \<Rightarrow> (Inl (RelayErr ''relay peers: decode''), w')
               | Some ps \<Rightarrow> (Inr ps, w'))"

definition Client_GetPowLimit :: "'w http \<Rightarrow> 'w \<Rightarrow> (relay_err + int) \<times> 'w" where
  "Client_GetPowLimit http w =
     (let (resp, w') = http RPowLimit w
      in case resp of
           Inl e \<Rightarrow> (Inl (relayErr ''relay pow-limit: '' e), w')
         | Inr r \<Rightarrow>
             if rsp_status r \<noteq> 200 then (Inl (RelayErr ''relay pow-limit: status''), w')
             else
               case json_powFloor (rsp_body r) of
                 None \<Rightarrow> (Inl (RelayErr ''relay pow-limit: decode''), w')
               | Some n \<Rightarrow> (Inr n, w'))"

section \<open>Pull and Push\<close>

datatype sync_err = CtxErr string | RelayFail relay_err | StoreFail store_err

fun pull_loop ::
  "(resp_body \<Rightarrow> bytes) \<Rightarrow> 'w http \<Rightarrow> ('w \<Rightarrow> string option) \<Rightarrow> Client \<Rightarrow> 's Store \<Rightarrow> time \<Rightarrow> ID list
     \<Rightarrow> ID list \<Rightarrow> 's \<Rightarrow> 'w \<Rightarrow> (ID list \<times> sync_err option) \<times> 's \<times> 'w" where
  "pull_loop jtext http ctxErr c S t [] stored s w = ((stored, None), s, w)"
| "pull_loop jtext http ctxErr c S t (i # missing) stored s w =
     (case ctxErr w of
        Some e \<Rightarrow> ((stored, Some (CtxErr e)), s, w)
      | None \<Rightarrow>
          (let (got, w') = Client_Get jtext http i w
           in case got of
                Inl _ \<Rightarrow> pull_loop jtext http ctxErr c S t missing stored s w'
              | Inr (stamp, payload) \<Rightarrow>
                  (let (r, s') = st_Put S t stamp payload (cl_tag c) s
                   in case r of
                        Inl e \<Rightarrow> ((stored, Some (StoreFail e)), s', w')
                      | Inr storedID \<Rightarrow>
                          pull_loop jtext http ctxErr c S t missing (stored @ [storedID]) s' w')))"

definition Pull ::
  "(resp_body \<Rightarrow> bytes) \<Rightarrow> 'w http \<Rightarrow> ('w \<Rightarrow> string option) \<Rightarrow> Client \<Rightarrow> 's Store \<Rightarrow> time \<Rightarrow> int \<Rightarrow> time
     \<Rightarrow> 's \<Rightarrow> 'w \<Rightarrow> ((ID list \<times> sync_err option) \<times> 's \<times> 'w) option" where
  "Pull jtext http ctxErr c S t powFloor since s w =
     map_option
       (\<lambda>b. case b of
              Inl e \<Rightarrow> (([], Some (StoreFail e)), s, w)
            | Inr bloom \<Rightarrow>
                (let (d, w') = Client_Delta http bloom powFloor since w
                 in case d of
                      Inl e \<Rightarrow> (([], Some (RelayFail e)), s, w')
                    | Inr missing \<Rightarrow> pull_loop jtext http ctxErr c S t missing [] s w'))
       (BloomOfStore S t s)"

definition push_ref ::
  "'w http \<Rightarrow> 's Store \<Rightarrow> time \<Rightarrow> (ID \<Rightarrow> bool) \<Rightarrow> 's \<Rightarrow> ID \<Rightarrow> int \<times> 'w \<Rightarrow> int \<times> 'w" where
  "push_ref http S t skip s i acc =
     (let (uploaded, w) = acc
      in if skip i then (uploaded, w)
         else
           case st_Get S t s i of
             Inl _ \<Rightarrow> (uploaded, w)
           | Inr (stamp, payload) \<Rightarrow>
               (let (r, w') = Client_Put http stamp payload w
                in case r of Inl _ \<Rightarrow> (uploaded, w') | Inr _ \<Rightarrow> (uploaded + 1, w')))"

definition push_body ::
  "'w http \<Rightarrow> ('w \<Rightarrow> string option) \<Rightarrow> 's Store \<Rightarrow> time \<Rightarrow> int \<Rightarrow> time \<Rightarrow> (ID \<Rightarrow> bool) \<Rightarrow> 's
     \<Rightarrow> string \<Rightarrow> int \<times> 'w \<Rightarrow> ((int \<times> sync_err option) \<times> 'w) + (string \<times> int \<times> 'w)" where
  "push_body http ctxErr S t powFloor since skip s pageToken acc =
     (case ctxErr (snd acc) of
        Some e \<Rightarrow> Inl ((fst acc, Some (CtxErr e)), snd acc)
      | None \<Rightarrow>
          (case st_ListBlocks S t s pageToken 100 powFloor since of
             Inl e \<Rightarrow> Inl ((fst acc, Some (StoreFail e)), snd acc)
           | Inr (nxt, refs) \<Rightarrow> Inr (nxt, fold (\<lambda>r. push_ref http S t skip s (refID r)) refs acc)))"

definition Push ::
  "'w http \<Rightarrow> ('w \<Rightarrow> string option) \<Rightarrow> 's Store \<Rightarrow> time \<Rightarrow> int \<Rightarrow> time \<Rightarrow> (ID \<Rightarrow> bool) \<Rightarrow> 's \<Rightarrow> 'w
     \<Rightarrow> ((int \<times> sync_err option) \<times> 'w) option" where
  "Push http ctxErr S t powFloor since skip s w =
     (let (p, w') = Client_GetPowLimit http w
      in case p of
           Inl e \<Rightarrow> Some ((0, Some (RelayFail e)), w')
         | Inr relayPow \<Rightarrow>
             (let pf = (if relayPow > powFloor then relayPow else powFloor)
              in map_option (\<lambda>r. case r of Inl x \<Rightarrow> x | Inr (uploaded, w'') \<Rightarrow> ((uploaded, None), w''))
                   (page_loop (push_body http ctxErr S t pf since skip s) [] (0, w'))))"

section \<open>A relay on the other side\<close>

text \<open>The network that hands every request to a relay server; \<open>addr\<close> is the address that
  the server sees.  A handler that does not return ends in the client's timeout.\<close>

definition set_addr :: "string \<Rightarrow> request \<Rightarrow> request" where
  "set_addr addr req = (case req of RPut body _ \<Rightarrow> RPut body addr | _ \<Rightarrow> req)"

definition serve_http :: "env \<Rightarrow> net \<Rightarrow> time \<Rightarrow> string \<Rightarrow> ('r, 'p) Server http" where
  "serve_http E N t addr req w =
     (case ServeHTTP E N t (set_addr addr req) w of
        None \<Rightarrow> (Inl (DoErr ''timeout''), w)
      | Some (r, w') \<Rightarrow> (Inr r, w'))"

lemma decode_ids_hex: "\<forall>i \<in> set is. wf_id i \<Longrightarrow> decode_ids (map hex_Encode is) acc = Inr (acc @ is)"
  by (induction "is" arbitrary: acc) auto

text \<open>The contract of one synchronisation: the local store keeps what it is given, the
  remote one is any backend.\<close>

locale relay_sync =
  local: keeping_store S E inv blk unlimited refuses +
  remote: block_store R E invR blkR
  for S :: "'s Store" and E :: env and inv :: "time \<Rightarrow> 's \<Rightarrow> bool"
    and blk :: "time \<Rightarrow> 's \<Rightarrow> ID \<Rightarrow> stored option"
    and unlimited :: "'s \<Rightarrow> bool" and refuses :: "time \<Rightarrow> 's \<Rightarrow> ID \<Rightarrow> bool"
    and R :: "'r Store" and invR :: "time \<Rightarrow> 'r \<Rightarrow> bool" and blkR :: "time \<Rightarrow> 'r \<Rightarrow> ID \<Rightarrow> stored option"
begin

definition serves :: "time \<Rightarrow> ('r, 'p) Server \<Rightarrow> bool" where
  "serves t srv \<longleftrightarrow> sv_ops srv = R \<and> invR t (sv_store srv)"

abbreviation remote_blk :: "time \<Rightarrow> ('r, 'p) Server \<Rightarrow> ID \<Rightarrow> stored option" where
  "remote_blk t srv \<equiv> blkR t (sv_store srv)"

lemma Client_Get_serve:
  fixes srv :: "('r, 'p) Server"
  assumes "serves t srv" "wf_id i"
  shows "Client_Get jtext (serve_http E N t addr) i srv =
    (case remote_blk t srv i of
       None \<Rightarrow> (Inl RelayNotFound, srv)
     | Some b \<Rightarrow> (Inr (sb_stamp b, sb_payload b), srv))"
proof (cases "remote_blk t srv i")
  case None
  then show ?thesis using assms remote.Get_law [of t "sv_store srv" i]
    by (simp add: Client_Get_def serve_http_def set_addr_def ServeHTTP_def handleGet_def serves_def)
next
  case (Some b)
  then have "length (sb_stamp b) = 4" "length (sb_payload b) = 4096"
    using remote.stored_wf [of t "sv_store srv" i b] assms(1)
    by (auto simp: wf_stored_def serves_def wf_stamp_def wf_payload_def)
  then show ?thesis using Some assms remote.Get_law [of t "sv_store srv" i]
    by (simp add: Client_Get_def serve_http_def set_addr_def ServeHTTP_def handleGet_def serves_def
        body_bytes_def)
qed

definition missing :: "time \<Rightarrow> ('r, 'p) Server \<Rightarrow> Bloom \<Rightarrow> int \<Rightarrow> time \<Rightarrow> ID list" where
  "missing t srv bloom pf since =
     missing_keys (remote_blk t srv) bloom (max pf (sv_powFloor srv)) (Unix since)"

lemma set_missing:
  fixes srv :: "('r, 'p) Server"
  assumes "serves t srv"
  shows "i \<in> set (missing t srv bloom pf since) \<longleftrightarrow>
    (\<exists>b. remote_blk t srv i = Some b \<and> pf \<le> sb_wf b \<and> sv_powFloor srv \<le> sb_wf b \<and>
         Unix since \<le> sb_createdAt b \<and> \<not> Bloom_Has bloom i (sb_wf b))"
proof -
  have "set (sel_keys (remote_blk t srv) pf' ts) = sel_set (remote_blk t srv) pf' ts" for pf' ts
    using assms by (intro set_sel_keys remote.finite_blk) (simp add: serves_def)
  then have "i \<in> set (missing t srv bloom pf since) \<longleftrightarrow>
      (\<exists>k. snd k = i \<and> k \<in> sel_set (remote_blk t srv) (max pf (sv_powFloor srv)) (Unix since) \<and>
           \<not> Bloom_Has bloom i (sb_wf (the (remote_blk t srv i))))"
    by (auto simp: missing_def missing_keys_def key_pair_def image_iff)
  then show ?thesis by (auto simp: sel_set_def)
qed

lemma distinct_missing:
  fixes srv :: "('r, 'p) Server"
  assumes "serves t srv"
  shows "distinct (missing t srv bloom pf since)"
proof -
  let ?m = "remote_blk t srv" and ?ks = "sel_keys (remote_blk t srv) (max pf (sv_powFloor srv)) (Unix since)"
  have "set ?ks = sel_set ?m (max pf (sv_powFloor srv)) (Unix since)"
    using assms by (intro set_sel_keys remote.finite_blk) (simp add: serves_def)
  then have "inj_on snd (set ?ks)" by (auto simp: inj_on_def sel_set_def)
  moreover have "distinct ?ks" using sorted_sel_keys by (simp add: strict_sorted_iff)
  ultimately show ?thesis
    by (auto simp: missing_def missing_keys_def distinct_map inj_on_def)
qed

lemma Client_Delta_serve:
  fixes srv :: "('r, 'p) Server"
  assumes "serves t srv" "wf_bloom bloom" "in_int64 (Unix since)"
  shows "Client_Delta (serve_http E N t addr) bloom pf since srv =
    (Inr (missing t srv bloom pf since), srv)"
proof -
  have "\<forall>i \<in> set (missing t srv bloom pf since). wf_id i"
    using remote.wf_dom [of t "sv_store srv"] assms(1) by (auto simp: set_missing [OF assms(1)] serves_def)
  from decode_ids_hex [OF this, of "[]"] show ?thesis
    using remote.handleDelta_ids [of t srv bloom "Unix since" pf] assms
    by (simp add: Client_Delta_def serve_http_def set_addr_def ServeHTTP_def serves_def json_ids_def
        missing_def)
qed

definition keeps_all :: "time \<Rightarrow> 's \<Rightarrow> 's \<Rightarrow> bool" where
  "keeps_all t s s' \<longleftrightarrow> (\<forall>i w. local.at_least t s i w \<longrightarrow> local.at_least t s' i w)"

definition only_copies :: "time \<Rightarrow> ('r, 'p) Server \<Rightarrow> 's \<Rightarrow> 's \<Rightarrow> bool" where
  "only_copies t srv s s' \<longleftrightarrow>
     (\<forall>i b. blk t s' i = Some b \<longrightarrow> blk t s i = Some b \<or>
        (\<exists>rb. remote_blk t srv i = Some rb \<and> b = rb\<lparr>sb_createdAt := Unix t\<rparr>))"

lemma put_copy:
  fixes srv :: "('r, 'p) Server"
  assumes "serves t srv" "inv t s" "unlimited s" "remote_blk t srv i = Some rb"
    "st_Put S t (sb_stamp rb) (sb_payload rb) tag s = (r, s')"
  shows "r = Inr i" "inv t s'" "unlimited s'" "refuses t s' = refuses t s"
    "\<not> refuses t s i \<Longrightarrow> local.at_least t s' i (sb_wf rb)"
    "keeps_all t s s'" "only_copies t srv s s'"
proof -
  have rb: "wf_stamp (sb_stamp rb)" "wf_payload (sb_payload rb)" "i = ComputeID E (sb_payload rb)"
    "sb_wf rb = WorkFactor E (sb_stamp rb) (sb_payload rb)"
    using remote.stored_wf [OF _ assms(4)] assms(1) by (simp_all add: serves_def wf_stored_def)
  have new: "new_stored E t (sb_stamp rb) (sb_payload rb) = rb\<lparr>sb_createdAt := Unix t\<rparr>"
    using rb(4) by (simp add: new_stored_def)
  note put = local.Put_law [OF assms(2) rb(1,2) assms(5)]
  note keep = local.Put_keeps [OF assms(2,3) rb(1,2) assms(5)]
  note al = local.Put_at_least [OF assms(2,3) rb(1,2) assms(5)]
  show "r = Inr i" "inv t s'" using put rb(3) by auto
  show "unlimited s'" "refuses t s' = refuses t s" using keep by auto
  show "\<not> refuses t s i \<Longrightarrow> local.at_least t s' i (sb_wf rb)" using al(2) rb(3,4) by simp
  show "keeps_all t s s'" using al(1) by (simp add: keeps_all_def)
  show "only_copies t srv s s'"
    using put assms(4) rb(3) new unfolding only_copies_def by metis
qed

lemma keeps_all_trans: "keeps_all t s s' \<Longrightarrow> keeps_all t s' s'' \<Longrightarrow> keeps_all t s s''"
  by (simp add: keeps_all_def)

lemma only_copies_trans:
  fixes srv :: "('r, 'p) Server"
  shows "only_copies t srv s s' \<Longrightarrow> only_copies t srv s' s'' \<Longrightarrow> only_copies t srv s s''"
  unfolding only_copies_def by metis

lemma pull_loop_serve:
  fixes srv :: "('r, 'p) Server"
  assumes "serves t srv" "ctxErr srv = None" "inv t s" "unlimited s"
    "\<forall>i \<in> set ms. remote_blk t srv i \<noteq> None"
  shows "\<exists>s'. pull_loop jtext (serve_http E N t addr) ctxErr c S t ms stored s srv =
      ((stored @ ms, None), s', srv) \<and> inv t s' \<and> unlimited s' \<and> refuses t s' = refuses t s \<and>
    keeps_all t s s' \<and> only_copies t srv s s' \<and>
    (\<forall>i \<in> set ms. \<not> refuses t s i \<longrightarrow> local.at_least t s' i (sb_wf (the (remote_blk t srv i))))"
  using assms(3-5)
proof (induction ms arbitrary: s stored)
  case Nil
  then show ?case by (simp add: keeps_all_def only_copies_def)
next
  case (Cons i ms)
  obtain rb where rb: "remote_blk t srv i = Some rb" using Cons.prems(3) by auto
  have wi: "wf_id i" using remote.wf_dom [OF _ rb] assms(1) by (simp add: serves_def)
  obtain r s1 where p: "st_Put S t (sb_stamp rb) (sb_payload rb) (cl_tag c) s = (r, s1)"
    by (cases "st_Put S t (sb_stamp rb) (sb_payload rb) (cl_tag c) s")
  note f = put_copy [OF assms(1) Cons.prems(1,2) rb p]
  obtain s' where IH: "pull_loop jtext (serve_http E N t addr) ctxErr c S t ms (stored @ [i]) s1 srv =
      (((stored @ [i]) @ ms, None), s', srv)" "inv t s'" "unlimited s'" "refuses t s' = refuses t s1"
    "keeps_all t s1 s'" "only_copies t srv s1 s'"
    "\<forall>j \<in> set ms. \<not> refuses t s1 j \<longrightarrow> local.at_least t s' j (sb_wf (the (remote_blk t srv j)))"
    using Cons.IH [OF f(2,3), of "stored @ [i]"] Cons.prems(3) by auto
  have "pull_loop jtext (serve_http E N t addr) ctxErr c S t (i # ms) stored s srv =
      ((stored @ i # ms, None), s', srv)"
    using IH(1) by (simp add: assms(2) Client_Get_serve [OF assms(1) wi] rb p f(1))
  moreover have "\<forall>j \<in> set (i # ms). \<not> refuses t s j \<longrightarrow>
      local.at_least t s' j (sb_wf (the (remote_blk t srv j)))"
    using IH(5,7) f(4,5) rb by (auto simp: keeps_all_def)
  ultimately show ?case
    using IH(2,3,4) f(4) keeps_all_trans [OF f(6) IH(5)] only_copies_trans [OF f(7) IH(6)]
    by (intro exI [of _ s']) simp
qed

text \<open>\<^verbatim>\<open>Pull\<close> ends, reports the missing blocks, and afterwards the local store has every
  block of the relay that passes the filters, with at least the relay's work factor,
  except the refused ones and the false positives of the filter; it has lost nothing and
  gained only the relay's blocks.\<close>

lemma Pull_serve:
  fixes srv :: "('r, 'p) Server"
  assumes "serves t srv" "ctxErr srv = None" "inv t s" "unlimited s" "in_int64 (Unix since)"
  shows "\<exists>bloom s'. BloomOfStore S t s = Some (Inr bloom) \<and>
    Pull jtext (serve_http E N t addr) ctxErr c S t pf since s srv =
      Some ((missing t srv bloom pf since, None), s', srv) \<and>
    inv t s' \<and> keeps_all t s s' \<and> only_copies t srv s s' \<and>
    (\<forall>i rb. remote_blk t srv i = Some rb \<and> pf \<le> sb_wf rb \<and> sv_powFloor srv \<le> sb_wf rb \<and>
       Unix since \<le> sb_createdAt rb \<and> \<not> refuses t s i \<longrightarrow>
       local.at_least t s' i (sb_wf rb) \<or>
       \<not> local.at_least t s i (sb_wf rb) \<and> Bloom_Has bloom i (sb_wf rb))"
proof -
  obtain b where b: "BloomOfStore S t s = Some (Inr b)" "wf_bloom b"
    using local.BloomOfStore_complete [OF assms(3)] by metis
  have "\<forall>i \<in> set (missing t srv b pf since). remote_blk t srv i \<noteq> None"
    by (auto simp: set_missing [OF assms(1)])
  from pull_loop_serve [where ctxErr = ctxErr, OF assms(1,2,3,4) this, of jtext N addr c "[]"] obtain s' where
    s': "pull_loop jtext (serve_http E N t addr) ctxErr c S t (missing t srv b pf since) [] s srv =
      ((missing t srv b pf since, None), s', srv)" "inv t s'" "keeps_all t s s'" "only_copies t srv s s'"
      "\<forall>i \<in> set (missing t srv b pf since). \<not> refuses t s i \<longrightarrow>
         local.at_least t s' i (sb_wf (the (remote_blk t srv i)))"
    by auto
  have "local.at_least t s' i (sb_wf rb)"
    if "remote_blk t srv i = Some rb" "pf \<le> sb_wf rb" "sv_powFloor srv \<le> sb_wf rb"
      "Unix since \<le> sb_createdAt rb" "\<not> refuses t s i"
      "\<not> Bloom_Has b i (sb_wf rb) \<or> local.at_least t s i (sb_wf rb)" for i rb
  proof (cases "Bloom_Has b i (sb_wf rb)")
    case True
    then show ?thesis using that(6) s'(3) by (simp add: keeps_all_def)
  next
    case False
    then have "i \<in> set (missing t srv b pf since)" using that by (auto simp: set_missing [OF assms(1)])
    then show ?thesis using s'(5) that(1,5) by fastforce
  qed
  then show ?thesis using b s' Client_Delta_serve [OF assms(1) b(2) assms(5)]
    by (intro exI [of _ b] exI [of _ s']) (auto simp: Pull_def)
qed

end

text \<open>The floor that a relay announces.\<close>

definition announced :: "('r, 'p) Server \<Rightarrow> int option" where
  "announced srv =
     (case sv_median srv of
        None \<Rightarrow> Some (sv_powFloor srv)
      | Some med \<Rightarrow> (case med (sv_store srv) of Inl _ \<Rightarrow> None | Inr m \<Rightarrow> Some (m - 1)))"

text \<open>The other half: the local store is any backend, the remote one keeps what it is
  given.\<close>

locale relay_push =
  local: block_store S E inv blk +
  remote: keeping_store R E invR blkR unlimitedR refusesR
  for S :: "'s Store" and E :: env and inv :: "time \<Rightarrow> 's \<Rightarrow> bool"
    and blk :: "time \<Rightarrow> 's \<Rightarrow> ID \<Rightarrow> stored option"
    and R :: "'r Store" and invR :: "time \<Rightarrow> 'r \<Rightarrow> bool" and blkR :: "time \<Rightarrow> 'r \<Rightarrow> ID \<Rightarrow> stored option"
    and unlimitedR :: "'r \<Rightarrow> bool" and refusesR :: "time \<Rightarrow> 'r \<Rightarrow> ID \<Rightarrow> bool"
begin

definition accepts :: "time \<Rightarrow> ('r, 'p) Server \<Rightarrow> bool" where
  "accepts t srv \<longleftrightarrow> sv_ops srv = R \<and> invR t (sv_store srv) \<and> unlimitedR (sv_store srv)"

text \<open>What an upload may change of the relay.\<close>

definition upload_step :: "time \<Rightarrow> ('r, 'p) Server \<Rightarrow> ('r, 'p) Server \<Rightarrow> bool" where
  "upload_step t srv srv' \<longleftrightarrow>
     accepts t srv' \<and> srv' = srv\<lparr>sv_store := sv_store srv'\<rparr> \<and>
     refusesR t (sv_store srv') = refusesR t (sv_store srv) \<and>
     (\<forall>i w. remote.at_least t (sv_store srv) i w \<longrightarrow> remote.at_least t (sv_store srv') i w)"

lemma upload_refl: "accepts t srv \<Longrightarrow> upload_step t srv srv"
  by (simp add: upload_step_def)

lemma upload_trans: "upload_step t srv srv' \<Longrightarrow> upload_step t srv' srv'' \<Longrightarrow> upload_step t srv srv''"
  unfolding upload_step_def by (metis Server.surjective Server.update_convs(3))

lemma Client_Put_serve:
  fixes srv :: "('r, 'p) Server"
  assumes "accepts t srv" "wf_stamp st" "wf_payload p"
  obtains srv' where "upload_step t srv srv'"
    "Client_Put (serve_http E N t addr) st p srv =
       (if WorkFactor E st p < sv_powFloor srv
        then (Inl (RelayErr (''relay put: status: '' @ ''insufficient proof of work'')), srv')
        else (Inr (ComputeID E p), srv'))"
    "sv_powFloor srv \<le> WorkFactor E st p \<Longrightarrow> \<not> refusesR t (sv_store srv) (ComputeID E p) \<Longrightarrow>
       remote.at_least t (sv_store srv') (ComputeID E p) (WorkFactor E st p)"
proof -
  have a: "sv_ops srv = R" "invR t (sv_store srv)" "unlimitedR (sv_store srv)"
    using assms(1) by (simp_all add: accepts_def)
  define tag where "tag = (case sv_geoip srv of Some g \<Rightarrow> GeoIP_Tag N g addr | None \<Rightarrow> tagFromRemoteAddr N addr)"
  obtain r s1 where put: "st_Put R t st p tag (sv_store srv) = (r, s1)"
    by (cases "st_Put R t st p tag (sv_store srv)")
  note law = remote.Put_law [OF a(2) assms(2,3) put]
  note keep = remote.Put_keeps [OF a(2,3) assms(2,3) put]
  note al = remote.Put_at_least [OF a(2,3) assms(2,3) put]
  have wi: "wf_id (ComputeID E p)" using remote.env [OF a(2)] by simp
  have len: "length st = StampSize" "length p = PayloadSize" using assms(2,3) by (simp_all add: wf_stamp_def wf_payload_def)
  have body: "take (wireBlockSize + 1) (st @ p) = st @ p" "length (st @ p) = wireBlockSize"
    "take StampSize (st @ p) = st" "drop StampSize (st @ p) = p"
    using len by (simp_all add: wireBlockSize_def)
  let ?srv1 = "srv\<lparr>sv_store := s1\<rparr>"
  have h: "handlePut E N t (Inr (st @ p)) addr srv =
    (if WorkFactor E st p < sv_powFloor srv then (serverError 403 ''insufficient proof of work'', srv)
     else (respond 200 (JBlockID (hex_Encode (ComputeID E p)) (WorkFactor E st p)), ?srv1))"
    unfolding handlePut_def sum.case Let_def body tag_def [symmetric] a(1)
    using put law by simp
  have step: "upload_step t srv ?srv1"
    using a(1) law keep al(1) by (auto simp: upload_step_def accepts_def)
  show thesis
  proof (cases "WorkFactor E st p < sv_powFloor srv")
    case True
    then show thesis using that [OF upload_refl [OF assms(1)]] h
      by (simp add: Client_Put_def serve_http_def set_addr_def ServeHTTP_def json_error_def)
  next
    case False
    then show thesis using that [OF step] h al(2) wi
      by (simp add: Client_Put_def serve_http_def set_addr_def ServeHTTP_def json_id_def)
  qed
qed

lemma push_ref_serve:
  fixes srv :: "('r, 'p) Server"
  assumes "inv t s" "accepts t srv" "blk t s i = Some b"
  shows "\<exists>u' srv'. push_ref (serve_http E N t addr) S t skip s i (u, srv) = (u', srv') \<and>
    upload_step t srv srv' \<and>
    (\<not> skip i \<and> sv_powFloor srv \<le> sb_wf b \<and> \<not> refusesR t (sv_store srv) i \<longrightarrow>
       remote.at_least t (sv_store srv') i (sb_wf b))"
proof -
  have b: "wf_stamp (sb_stamp b)" "wf_payload (sb_payload b)" "i = ComputeID E (sb_payload b)"
    "sb_wf b = WorkFactor E (sb_stamp b) (sb_payload b)"
    using local.stored_wf [OF assms(1,3)] by (simp_all add: wf_stored_def)
  obtain srv' where p: "upload_step t srv srv'"
    "Client_Put (serve_http E N t addr) (sb_stamp b) (sb_payload b) srv =
       (if sb_wf b < sv_powFloor srv
        then (Inl (RelayErr (''relay put: status: '' @ ''insufficient proof of work'')), srv')
        else (Inr i, srv'))"
    "sv_powFloor srv \<le> sb_wf b \<Longrightarrow> \<not> refusesR t (sv_store srv) i \<Longrightarrow> remote.at_least t (sv_store srv') i (sb_wf b)"
    using Client_Put_serve [OF assms(2) b(1,2), of N addr] unfolding b(3,4) by metis
  have g: "st_Get S t s i = Inr (sb_stamp b, sb_payload b)"
    using local.Get_law [OF assms(1) local.wf_dom [OF assms(1,3)]] assms(3) by simp
  show ?thesis
  proof (cases "skip i")
    case True
    then show ?thesis using upload_refl [OF assms(2)] by (simp add: push_ref_def)
  next
    case False
    then show ?thesis using p g by (simp add: push_ref_def)
  qed
qed

lemma push_fold_serve:
  fixes srv :: "('r, 'p) Server"
  assumes "inv t s" "accepts t srv" "\<forall>i \<in> set is. blk t s i \<noteq> None"
  shows "\<exists>u' srv'. fold (push_ref (serve_http E N t addr) S t skip s) is (u, srv) = (u', srv') \<and>
    upload_step t srv srv' \<and>
    (\<forall>i b. i \<in> set is \<and> blk t s i = Some b \<and> \<not> skip i \<and> sv_powFloor srv \<le> sb_wf b \<and>
       \<not> refusesR t (sv_store srv) i \<longrightarrow> remote.at_least t (sv_store srv') i (sb_wf b))"
  using assms(2,3)
proof (induction "is" arbitrary: u srv)
  case Nil
  then show ?case using upload_refl by (intro exI [of _ u] exI [of _ srv]) simp
next
  case (Cons i "is")
  obtain b where b: "blk t s i = Some b" using Cons.prems(2) by auto
  obtain u1 srv1 where 1: "push_ref (serve_http E N t addr) S t skip s i (u, srv) = (u1, srv1)"
    "upload_step t srv srv1"
    "\<not> skip i \<and> sv_powFloor srv \<le> sb_wf b \<and> \<not> refusesR t (sv_store srv) i \<longrightarrow>
       remote.at_least t (sv_store srv1) i (sb_wf b)"
    using push_ref_serve [OF assms(1) Cons.prems(1) b, of N addr skip u] by blast
  have a1: "accepts t srv1" using 1(2) by (simp add: upload_step_def)
  obtain u' srv' where 2: "fold (push_ref (serve_http E N t addr) S t skip s) is (u1, srv1) = (u', srv')"
    "upload_step t srv1 srv'"
    "\<forall>j b. j \<in> set is \<and> blk t s j = Some b \<and> \<not> skip j \<and> sv_powFloor srv1 \<le> sb_wf b \<and>
       \<not> refusesR t (sv_store srv1) j \<longrightarrow> remote.at_least t (sv_store srv') j (sb_wf b)"
    using Cons.IH [OF a1, of u1] Cons.prems(2) by auto
  have eq: "sv_powFloor srv1 = sv_powFloor srv" "refusesR t (sv_store srv1) = refusesR t (sv_store srv)"
    using 1(2) by (auto simp: upload_step_def) (metis Server.select_convs(4) Server.surjective Server.update_convs(3))
  have "remote.at_least t (sv_store srv') j bw" if "remote.at_least t (sv_store srv1) j bw" for j bw
    using 2(2) that by (simp add: upload_step_def)
  then have "\<forall>j b. j \<in> set (i # is) \<and> blk t s j = Some b \<and> \<not> skip j \<and> sv_powFloor srv \<le> sb_wf b \<and>
       \<not> refusesR t (sv_store srv) j \<longrightarrow> remote.at_least t (sv_store srv') j (sb_wf b)"
    using 1(3) 2(3) b eq by auto
  then show ?case using 1(1) 2(1) upload_trans [OF 1(2) 2(2)]
    by (intro exI [of _ u'] exI [of _ srv']) simp
qed

text \<open>\<^verbatim>\<open>Push\<close> ends without an error, and every local block that passes the relay's
  announced floor, the filters and the relay's own floor, is not to be skipped and not
  refused is then on the relay with at least its work factor.\<close>

lemma Push_serve:
  fixes srv :: "('r, 'p) Server"
  assumes "inv t s" "accepts t srv" "\<And>w. ctxErr w = None" "in_int64 (Unix since)" "announced srv = Some lim"
  shows "\<exists>n srv'. Push (serve_http E N t addr) ctxErr S t pf since skip s srv = Some ((n, None), srv') \<and>
    upload_step t srv srv' \<and>
    (\<forall>i b. blk t s i = Some b \<and> pf \<le> sb_wf b \<and> sv_powFloor srv \<le> sb_wf b \<and> Unix since \<le> sb_createdAt b \<and>
       lim \<le> sb_wf b \<and> \<not> skip i \<and> \<not> refusesR t (sv_store srv) i \<longrightarrow> remote.at_least t (sv_store srv') i (sb_wf b))"
proof -
  define f where "f = (if lim > pf then lim else pf)"
  let ?ks = "sel_keys (blk t s) f (Unix since)"
  have pl: "Client_GetPowLimit (serve_http E N t addr) srv = (Inr lim, srv)"
    using assms(5) by (auto simp: Client_GetPowLimit_def serve_http_def set_addr_def ServeHTTP_def
        handlePowLimit_def json_powFloor_def announced_def split: option.splits sum.splits)
  have loop: "page_loop (push_body (serve_http E N t addr) ctxErr S t f since skip s) [] (0, srv) =
    Some (Inr (fold (\<lambda>(i, w). push_ref (serve_http E N t addr) S t skip s i) (map (key_pair (blk t s)) ?ks) (0, srv)))"
    by (rule local.page_loop_all [OF assms(1) _ assms(4), where lim = 100
          and err = "\<lambda>e acc. ((fst acc, Some (StoreFail e)), snd acc)"])
      (simp_all add: push_body_def assms(3))
  also have "fold (\<lambda>(i, w). push_ref (serve_http E N t addr) S t skip s i) (map (key_pair (blk t s)) ?ks) (0, srv) =
      fold (push_ref (serve_http E N t addr) S t skip s) (map snd ?ks) (0, srv)"
    by (simp add: fold_map comp_def key_pair_def)
  finally have loop': "page_loop (push_body (serve_http E N t addr) ctxErr S t f since skip s) [] (0, srv) =
    Some (Inr (fold (push_ref (serve_http E N t addr) S t skip s) (map snd ?ks) (0, srv)))" .
  have ks: "set ?ks = sel_set (blk t s) f (Unix since)"
    by (rule set_sel_keys) (rule local.finite_blk [OF assms(1)])
  have "\<forall>i \<in> set (map snd ?ks). blk t s i \<noteq> None" using ks by (auto simp: sel_set_def)
  from push_fold_serve [OF assms(1,2) this, of N addr skip 0] obtain n srv' where
    r: "fold (push_ref (serve_http E N t addr) S t skip s) (map snd ?ks) (0, srv) = (n, srv')"
      "upload_step t srv srv'"
      "\<And>i b. i \<in> set (map snd ?ks) \<Longrightarrow> blk t s i = Some b \<Longrightarrow> \<not> skip i \<Longrightarrow> sv_powFloor srv \<le> sb_wf b \<Longrightarrow>
       \<not> refusesR t (sv_store srv) i \<Longrightarrow> remote.at_least t (sv_store srv') i (sb_wf b)"
    by blast
  have mem: "i \<in> set (map snd ?ks)"
    if "blk t s i = Some b" "pf \<le> sb_wf b" "lim \<le> sb_wf b" "Unix since \<le> sb_createdAt b" for i b
  proof -
    have "(sb_createdAt b, i) \<in> set ?ks" using that unfolding ks by (simp add: sel_set_def f_def)
    then have "snd (sb_createdAt b, i) \<in> set (map snd ?ks)" unfolding set_map by (rule imageI)
    then show ?thesis by simp
  qed
  have "Push (serve_http E N t addr) ctxErr S t pf since skip s srv = Some ((n, None), srv')"
    using loop' r(1) by (simp add: Push_def pl f_def)
  then show ?thesis using r(2,3) mem by (intro exI [of _ n] exI [of _ srv']) blast
qed

end

section \<open>Interpretations\<close>

interpretation badger_pull: relay_sync "badger_store E B" E "badger_inv E B" "badger_blk B"
  "\<lambda>s. bs_storageLimit s \<le> 0" "tombstoned B" "badger_store E B'" "badger_inv E B'" "badger_blk B'" for E B B'
  by unfold_locales

interpretation flat_pull: relay_sync "flat_store E" E "flat_inv E" flat_blk
  "\<lambda>s. ff_storageLimit s \<le> 0" "\<lambda>t s i. False" "badger_store E B" "badger_inv E B" "badger_blk B" for E B
  by unfold_locales

interpretation flat_delta: relay_sync "flat_store E" E "flat_inv E" flat_blk
  "\<lambda>s. ff_storageLimit s \<le> 0" "\<lambda>t s i. False" "flat_store E" "flat_inv E" "flat_blk" for E
  by unfold_locales

interpretation badger_push: relay_push "badger_store E B" E "badger_inv E B" "badger_blk B"
  "badger_store E B'" "badger_inv E B'" "badger_blk B'" "\<lambda>s. bs_storageLimit s \<le> 0" "tombstoned B'" for E B B'
  by unfold_locales

section \<open>Properties\<close>

text \<open>The blocks of a map with at least a given work factor.\<close>

definition held :: "(ID \<rightharpoonup> stored) \<Rightarrow> ID \<Rightarrow> int \<Rightarrow> bool" where
  "held m i w \<longleftrightarrow> (\<exists>b. m i = Some b \<and> w \<le> sb_wf b)"

lemma held_at_least:
  "keeping_store.at_least (badger_blk B) t s i w = held (badger_blk B t s) i w"
  "keeping_store.at_least flat_blk t fs i w = held (flat_blk t fs) i w"
  by (simp_all add: badger_keep.at_least_def flat_keep.at_least_def held_def)

lemmas pull_defs = badger_pull.serves_def badger_pull.keeps_all_def badger_pull.only_copies_def
  flat_pull.serves_def flat_pull.keeps_all_def flat_pull.only_copies_def held_at_least

text \<open>C4: \<^verbatim>\<open>Client.Pull\<close> from a relay into an unlimited Badger store ends without an
  error and keeps the invariant; afterwards the store holds every block of the relay that
  meets both floors and the time bound, with at least the relay's work factor, unless the
  block is tombstoned or the filter of the local blocks gave a false positive for it; no
  local block is lost or loses work, and every new one is a copy of the relay's.\<close>

theorem Pull_complete:
  assumes "badger_inv E B t s" "bs_storageLimit s \<le> 0"
    and "sv_ops srv = badger_store E B'" "badger_inv E B' t (sv_store srv)" "in_int64 (Unix since)"
  shows "\<exists>bloom ids s'. BloomOfStore (badger_store E B) t s = Some (Inr bloom) \<and>
    Pull jtext (serve_http E N t addr) (\<lambda>_. None) c (badger_store E B) t pf since s srv =
      Some ((ids, None), s', srv) \<and> badger_inv E B t s' \<and>
    (\<forall>i rb. badger_blk B' t (sv_store srv) i = Some rb \<and> pf \<le> sb_wf rb \<and> sv_powFloor srv \<le> sb_wf rb \<and>
       Unix since \<le> sb_createdAt rb \<and> \<not> tombstoned B t s i \<longrightarrow>
       held (badger_blk B t s') i (sb_wf rb) \<or>
       \<not> held (badger_blk B t s) i (sb_wf rb) \<and> Bloom_Has bloom i (sb_wf rb)) \<and>
    (\<forall>i w. held (badger_blk B t s) i w \<longrightarrow> held (badger_blk B t s') i w) \<and>
    (\<forall>i b. badger_blk B t s' i = Some b \<longrightarrow> badger_blk B t s i = Some b \<or>
       (\<exists>rb. badger_blk B' t (sv_store srv) i = Some rb \<and> b = rb\<lparr>sb_createdAt := Unix t\<rparr>))"
proof -
  have "badger_pull.serves E B' t srv" using assms(3,4) by (simp add: pull_defs)
  from badger_pull.Pull_serve [OF this _ assms(1,2,5), where ctxErr = "\<lambda>_. None", OF refl, of jtext N addr c pf]
  show ?thesis unfolding pull_defs by blast
qed

text \<open>A relay over the store with one block, for instances.\<close>

definition one_relay :: "(mem_db BadgerStore, unit) Server" where
  "one_relay = NewServer (badger_store env0 mem_badger) None one_block 0 ()"

lemma one_relay_simps [simp]:
  "sv_ops one_relay = badger_store env0 mem_badger" "sv_store one_relay = one_block"
  "sv_powFloor one_relay = 0" "sv_median one_relay = None"
  by (simp_all add: one_relay_def NewServer_def)

lemma in_int64_Unix0: "in_int64 (Unix 0)"
  by (simp add: in_int64_def Unix_def nsPerSec_def)

lemma open_inv: "badger_inv env0 mem_badger 0 (OpenBadger [])"
  using badger_inv_open [OF env0_clock(1), of 0 0] by (simp add: env0_clock flip: open_no_limit)

theorem Pull_complete_witness:
  "\<exists>bloom ids s'. BloomOfStore (badger_store env0 mem_badger) 0 (OpenBadger []) = Some (Inr bloom) \<and>
    Pull (\<lambda>_. []) (serve_http env0 net0 0 []) (\<lambda>_. None) (NewClient net0 []) (badger_store env0 mem_badger) 0 0 0
      (OpenBadger []) one_relay = Some ((ids, None), s', one_relay) \<and> badger_inv env0 mem_badger 0 s'"
  using Pull_complete [OF open_inv _ one_relay_simps(1), where since = 0] one_block_inv(1) in_int64_Unix0
  by (fastforce simp: OpenBadger_def)



text \<open>A delta query over the wire answers with exactly the IDs of the relay's blocks
  that meet both floors and the time bound and that the caller's filter does not report,
  each once, and does not change the relay.\<close>

theorem Delta_exact:
  assumes "sv_ops srv = flat_store E" "flat_inv E t (sv_store srv)" "wf_bloom bloom" "in_int64 (Unix since)"
  shows "\<exists>ids. Client_Delta (serve_http E N t addr) bloom pf since srv = (Inr ids, srv) \<and> distinct ids \<and>
    set ids = {i. \<exists>b. flat_blk t (sv_store srv) i = Some b \<and> pf \<le> sb_wf b \<and> sv_powFloor srv \<le> sb_wf b \<and>
      Unix since \<le> sb_createdAt b \<and> \<not> Bloom_Has bloom i (sb_wf b)}"
proof -
  have s: "flat_delta.serves E t srv" using assms(1,2) by (simp add: flat_delta.serves_def)
  show ?thesis using flat_delta.Client_Delta_serve [OF s assms(3,4), of N addr pf]
    flat_delta.set_missing [OF s, of _ bloom pf since] flat_delta.distinct_missing [OF s, of bloom pf since]
    by (intro exI [of _ "flat_delta.missing t srv bloom pf since"]) auto
qed

theorem Delta_exact_witness:
  "\<exists>ids. Client_Delta (serve_http env0 net0 0 []) bloom_zero 0 0
      (NewServer (flat_store env0) None flat_one 0 ()) =
    (Inr ids, NewServer (flat_store env0) None flat_one 0 ()) \<and> distinct ids"
proof -
  let ?srv = "NewServer (flat_store env0) None flat_one 0 ()"
  have "sv_ops ?srv = flat_store env0" "flat_inv env0 0 (sv_store ?srv)"
    using flat_one_inv(1) by (simp_all add: NewServer_def)
  from Delta_exact [OF this wf_bloom_zero in_int64_Unix0, of net0 "[]" 0] show ?thesis by blast
qed

end
