(* ===== verification/RelaySync.thy ===== *)
theory RelaySync
  imports RelayClient
begin

text \<open>
  A synchronisation as the nodes run it: a download from a relay followed by an upload of the blocks that
  were not just downloaded, with the announcement between the two.  What it gives is the
  relation \<open>merged\<close> between the two stores before and after, used for the phone's engine and
  for the nodes of the command line.
\<close>

section \<open>The announcement\<close>

text \<open>A relay after \<^verbatim>\<open>Hello\<close> differs in its table of peers only.\<close>

definition same_relay :: "('s, 'p) Server \<Rightarrow> ('s, 'p) Server \<Rightarrow> bool" where
  "same_relay srv srv' \<longleftrightarrow> (\<exists>ps. srv' = srv\<lparr>sv_peers := ps\<rparr>)"

lemma same_relayD:
  assumes "same_relay srv srv'"
  shows "sv_store srv' = sv_store srv" "sv_ops srv' = sv_ops srv" "sv_powFloor srv' = sv_powFloor srv"
    "announced srv' = announced srv"
  using assms by (auto simp: same_relay_def announced_def split: option.split)

lemma same_relay_refl: "same_relay srv srv"
  by (auto simp: same_relay_def intro: exI [of _ "sv_peers srv"])

lemma Hello_serve:
  obtains urls srv' where "Client_Hello (serve_http E N t addr) me srv = (Inr urls, srv')" "same_relay srv srv'"
proof -
  have "same_relay srv (snd (handleHello (Some me) srv))"
    unfolding same_relay_def handleHello_def Let_def
    by (auto split: option.split intro: exI [of _ "sv_peers srv"])
  moreover have "fst (handleHello (Some me) srv) = respond 200 (JPeers (known_peers (snd (handleHello (Some me) srv))))"
    by (simp add: handleHello_def Let_def)
  ultimately show ?thesis
    by (intro that [of "known_peers (snd (handleHello (Some me) srv))" "snd (handleHello (Some me) srv)"])
      (simp_all add: Client_Hello_def serve_http_def set_addr_def ServeHTTP_def respond_def json_peers_def case_prod_beta)
qed

lemma Hello_nothing:
  "Client_Hello (serve_http E N t addr) [] srv = (Inr (known_peers srv), srv)"
  by (simp add: Client_Hello_def serve_http_def set_addr_def ServeHTTP_def handleHello_def Let_def respond_def json_peers_def)

section \<open>Download and upload\<close>

text \<open>What a download followed by an upload of what was not downloaded gives.\<close>

definition merged ::
  "'db badger \<Rightarrow> 'db badger \<Rightarrow> time \<Rightarrow> int \<Rightarrow> int \<Rightarrow> int \<Rightarrow> int \<Rightarrow> Bloom \<Rightarrow> 'db BadgerStore \<Rightarrow> ('db BadgerStore, 'p) Server
     \<Rightarrow> 'db BadgerStore \<Rightarrow> ('db BadgerStore, 'p) Server \<Rightarrow> bool" where
  "merged B B' t pf since since2 lim bloom s srv s' srv' \<longleftrightarrow>
     (\<forall>i rb. badger_blk B' t (sv_store srv) i = Some rb \<and> pf \<le> sb_wf rb \<and> sv_powFloor srv \<le> sb_wf rb \<and>
        since \<le> sb_createdAt rb \<and> \<not> tombstoned B t s i \<longrightarrow>
        held (badger_blk B t s') i (sb_wf rb) \<or>
        \<not> held (badger_blk B t s) i (sb_wf rb) \<and> Bloom_Has bloom i (sb_wf rb)) \<and>
     (\<forall>i b. badger_blk B t s i = Some b \<and> pf \<le> sb_wf b \<and> sv_powFloor srv \<le> sb_wf b \<and> lim \<le> sb_wf b \<and>
        since2 \<le> sb_createdAt b \<and> \<not> tombstoned B' t (sv_store srv) i \<longrightarrow>
        held (badger_blk B' t (sv_store srv')) i (sb_wf b)) \<and>
     (\<forall>i w. held (badger_blk B t s) i w \<longrightarrow> held (badger_blk B t s') i w) \<and>
     (\<forall>i w. held (badger_blk B' t (sv_store srv)) i w \<longrightarrow> held (badger_blk B' t (sv_store srv')) i w)"

lemma badger_blk_wf: "badger_inv E B t s \<Longrightarrow> badger_blk B t s i = Some b \<Longrightarrow> 0 \<le> sb_wf b"
  using badger.stored_wf [of E B t s i b] by (simp add: wf_stored_def)

text \<open>A block that was downloaded is on the relay with more work than the local copy had.\<close>

lemma missing_held:
  assumes "badger_pull.serves E B' t srv" "badger_inv E B t s" "BloomOfStore (badger_store E B) t s = Some (Inr bloom)"
    and "badger_blk B t s i = Some b" "i \<in> set (badger_pull.missing B' t srv bloom pf since)"
  shows "held (badger_blk B' t (sv_store srv)) i (sb_wf b)"
proof -
  obtain rb where rb: "badger_blk B' t (sv_store srv) i = Some rb" "\<not> Bloom_Has bloom i (sb_wf rb)"
    using assms(5) unfolding badger_pull.set_missing [OF assms(1)] by blast
  have "badger_inv E B' t (sv_store srv)" using assms(1) by (simp add: pull_defs)
  from badger_blk_wf [OF this rb(1)] have "0 \<le> sb_wf rb" .
  have "Bloom_Has bloom i v" if "0 \<le> v" "v \<le> sb_wf b" for v
    using block_store.BloomOfStore_complete [OF badger.block_store_axioms assms(2)] assms(3,4) that
    by (metis option.inject sum.inject(2))
  then have "sb_wf b < sb_wf rb" using rb(2) \<open>0 \<le> sb_wf rb\<close> by force
  then show ?thesis using rb(1) by (simp add: held_def)
qed

lemma pull_push_serve:
  fixes srv :: "('db BadgerStore, 'p) Server"
  assumes local: "badger_inv E B t s" "bs_storageLimit s \<le> 0" "in_int64 (Unix since)" "in_int64 (Unix since2)"
    and relay: "sv_ops srv = badger_store E B'" "badger_inv E B' t (sv_store srv)" "bs_storageLimit (sv_store srv) \<le> 0"
      "announced srv = Some lim" "same_relay srv srv1"
  shows "\<exists>bloom ids s' n srv'. BloomOfStore (badger_store E B) t s = Some (Inr bloom) \<and>
    Pull jtext (serve_http E N t addr) (\<lambda>_. None) c (badger_store E B) t pf since s srv = Some ((ids, None), s', srv) \<and>
    Push (serve_http E N t addr) (\<lambda>_. None) (badger_store E B) t pf since2 (\<lambda>i. i \<in> set ids) s' srv1 = Some ((n, None), srv') \<and>
    badger_inv E B t s' \<and> badger_inv E B' t (sv_store srv') \<and> merged B B' t pf (Unix since) (Unix since2) lim bloom s srv s' srv'"
proof -
  let ?S = "badger_store E B" and ?http = "serve_http E N t addr" and ?l = "badger_blk B t" and ?r = "badger_blk B' t"
  note same = same_relayD [OF relay(5)]
  have srv: "badger_pull.serves E B' t srv" "badger_push.accepts E B' t srv1" "announced srv1 = Some lim"
    using relay same by (simp_all add: pull_defs badger_push.accepts_def)
  obtain bloom s' where b: "BloomOfStore ?S t s = Some (Inr bloom)"
    and pull: "Pull jtext ?http (\<lambda>_. None) c ?S t pf since s srv = Some ((badger_pull.missing B' t srv bloom pf since, None), s', srv)"
    and s': "badger_inv E B t s'" "\<forall>i w. held (?l s) i w \<longrightarrow> held (?l s') i w"
    and copies: "\<forall>i b. ?l s' i = Some b \<longrightarrow> ?l s i = Some b \<or> (\<exists>rb. ?r (sv_store srv) i = Some rb \<and> b = rb\<lparr>sb_createdAt := Unix t\<rparr>)"
    and got: "\<forall>i rb. ?r (sv_store srv) i = Some rb \<and> pf \<le> sb_wf rb \<and> sv_powFloor srv \<le> sb_wf rb \<and>
       Unix since \<le> sb_createdAt rb \<and> \<not> tombstoned B t s i \<longrightarrow>
       held (?l s') i (sb_wf rb) \<or> \<not> held (?l s) i (sb_wf rb) \<and> Bloom_Has bloom i (sb_wf rb)"
    using badger_pull.Pull_serve [OF srv(1) _ local(1-3), where ctxErr = "\<lambda>_. None", OF refl, of jtext N addr c pf]
    unfolding pull_defs by blast
  define ids where "ids = badger_pull.missing B' t srv bloom pf since"
  obtain n srv' where push: "Push ?http (\<lambda>_. None) ?S t pf since2 (\<lambda>i. i \<in> set ids) s' srv1 = Some ((n, None), srv')"
    and up: "badger_inv E B' t (sv_store srv')" "\<forall>i w. held (?r (sv_store srv)) i w \<longrightarrow> held (?r (sv_store srv')) i w"
    and sent: "\<And>i b. ?l s' i = Some b \<Longrightarrow> pf \<le> sb_wf b \<Longrightarrow> sv_powFloor srv \<le> sb_wf b \<Longrightarrow> Unix since2 \<le> sb_createdAt b \<Longrightarrow>
       lim \<le> sb_wf b \<Longrightarrow> i \<notin> set ids \<Longrightarrow> \<not> tombstoned B' t (sv_store srv) i \<Longrightarrow> held (?r (sv_store srv')) i (sb_wf b)"
    using badger_push.Push_serve [OF s'(1) srv(2) _ local(4) srv(3), where ctxErr = "\<lambda>_. None", OF refl, of N addr pf "\<lambda>i. i \<in> set ids"]
    unfolding badger_push.upload_step_def badger_push.accepts_def held_at_least same by blast
  have sent': "held (?r (sv_store srv')) i (sb_wf b)"
    if h: "?l s i = Some b" "pf \<le> sb_wf b" "sv_powFloor srv \<le> sb_wf b" "lim \<le> sb_wf b" "Unix since2 \<le> sb_createdAt b"
      "\<not> tombstoned B' t (sv_store srv) i" for i b
  proof -
    obtain b' where b': "?l s' i = Some b'" "sb_wf b \<le> sb_wf b'" using s'(2) h(1) by (fastforce simp: held_def)
    consider "?l s' i = Some b" "i \<notin> set ids" | "i \<in> set ids" | rb where "?r (sv_store srv) i = Some rb" "sb_wf b \<le> sb_wf rb"
      using copies b' h(1) by force
    then have "held (?r (sv_store srv')) i (sb_wf b)"
    proof cases
      case 1
      then show ?thesis using sent h by blast
    next
      case 2
      then show ?thesis using missing_held [OF srv(1) local(1) b h(1)] up(2) unfolding ids_def by blast
    next
      case 3
      then have "held (?r (sv_store srv)) i (sb_wf b)" by (auto simp: held_def)
      then show ?thesis using up(2) by blast
    qed
    then show ?thesis .
  qed
  have "merged B B' t pf (Unix since) (Unix since2) lim bloom s srv s' srv'"
    unfolding merged_def using got sent' s'(2) up(2) by blast
  then show ?thesis using b pull push s'(1) up(1) unfolding ids_def by blast
qed


end
