(* ===== verification/PeerTracker.thy ===== *)
theory PeerTracker
  imports FlatFile NetTags "HOL-Library.AList"
begin

text \<open>
  \<^verbatim>\<open>mobile/peertracker.go\<close>: the table of known relays of a phone.  The map from URLs to entries
  is an association list with distinct keys; the order in which a \<^verbatim>\<open>range\<close> over it goes is
  the parameter \<open>ord\<close>, any permutation.  The JSON package is a pair of functions.  The lock is held for the
  whole of each operation.
\<close>

section \<open>URLs\<close>

definition TrimRightSlash :: "string \<Rightarrow> string" where
  "TrimRightSlash s = rev (dropWhile (\<lambda>c. c = CHR ''/'') (rev s))"

definition normalizeURL :: "net \<Rightarrow> string \<Rightarrow> string" where
  "normalizeURL N rawURL =
     (let u = TrimRightSlash (TrimSpace rawURL)
      in if u = [] then []
         else case url_Parse N u of
                None \<Rightarrow> []
              | Some (scheme, host) \<Rightarrow>
                  if scheme \<noteq> ''http'' \<and> scheme \<noteq> ''https'' \<or> host = [] then [] else u)"

section \<open>The table\<close>

definition maxTrackedPeers :: nat where "maxTrackedPeers = 200"

record peerEntry =
  pe_URL :: string
  pe_Source :: string
  pe_Blocked :: bool
  pe_AddedAt :: time
  pe_LastSync :: time
  pe_Failures :: int
  pe_LastPulled :: int
  pe_LastPushed :: int
  pe_LastError :: string

record peerTracker =
  pt_peers :: "(string \<times> peerEntry) list"
  pt_path :: path

type_synonym peer_order = "(string \<times> peerEntry) list \<Rightarrow> (string \<times> peerEntry) list"

definition order_ok :: "(('a \<times> 'b) list \<Rightarrow> ('a \<times> 'b) list) \<Rightarrow> bool" where
  "order_ok ord \<longleftrightarrow> (\<forall>xs. mset (ord xs) = mset xs)"

record peers_json =
  pj_Marshal :: "peerEntry list \<Rightarrow> bytes"
  pj_Unmarshal :: "bytes \<Rightarrow> peerEntry list option"

definition newEntry :: "string \<Rightarrow> string \<Rightarrow> bool \<Rightarrow> time \<Rightarrow> peerEntry" where
  "newEntry u source blocked now =
     \<lparr>pe_URL = u, pe_Source = source, pe_Blocked = blocked, pe_AddedAt = now, pe_LastSync = zeroTime,
      pe_Failures = 0, pe_LastPulled = 0, pe_LastPushed = 0, pe_LastError = []\<rparr>"

definition newPeerTracker :: "path \<Rightarrow> peerTracker" where
  "newPeerTracker p = \<lparr>pt_peers = [], pt_path = p\<rparr>"

definition pt_load :: "peers_json \<Rightarrow> fsys \<Rightarrow> peerTracker \<Rightarrow> peerTracker" where
  "pt_load J fs pt =
     (case fs_read fs (pt_path pt) of
        Inl _ \<Rightarrow> pt
      | Inr data \<Rightarrow>
          (case pj_Unmarshal J data of
             None \<Rightarrow> pt
           | Some es \<Rightarrow> pt\<lparr>pt_peers := fold (\<lambda>e. AList.update (pe_URL e) e) es (pt_peers pt)\<rparr>))"

definition pt_save :: "peers_json \<Rightarrow> peer_order \<Rightarrow> peerTracker \<Rightarrow> fsys \<Rightarrow> fsys" where
  "pt_save J ord pt fs =
     (let data = pj_Marshal J (map snd (ord (pt_peers pt))); tmp = tmpPath (pt_path pt)
      in case fs_write tmp data fs of
           (Some _, fs') \<Rightarrow> fs'
         | (None, fs') \<Rightarrow> snd (fs_rename tmp (pt_path pt) fs'))"

definition pt_add :: "net \<Rightarrow> time \<Rightarrow> string \<Rightarrow> string \<Rightarrow> peerTracker \<Rightarrow> bool \<times> peerTracker" where
  "pt_add N now rawURL source pt =
     (let u = normalizeURL N rawURL
      in if u = [] then (False, pt)
         else if map_of (pt_peers pt) u \<noteq> None then (False, pt)
         else if length (pt_peers pt) \<ge> maxTrackedPeers then (False, pt)
         else (True, pt\<lparr>pt_peers := AList.update u (newEntry u source False now) (pt_peers pt)\<rparr>))"

definition pt_remove :: "net \<Rightarrow> string \<Rightarrow> peerTracker \<Rightarrow> peerTracker" where
  "pt_remove N rawURL pt =
     (let u = normalizeURL N rawURL
      in if u = [] then pt else pt\<lparr>pt_peers := AList.delete u (pt_peers pt)\<rparr>)"

definition pt_block :: "net \<Rightarrow> time \<Rightarrow> string \<Rightarrow> peerTracker \<Rightarrow> peerTracker" where
  "pt_block N now rawURL pt =
     (let u = normalizeURL N rawURL
      in if u = [] then pt
         else case map_of (pt_peers pt) u of
                Some e \<Rightarrow> pt\<lparr>pt_peers := AList.update u (e\<lparr>pe_Blocked := True\<rparr>) (pt_peers pt)\<rparr>
              | None \<Rightarrow> pt\<lparr>pt_peers := AList.update u (newEntry u ''manual'' True now) (pt_peers pt)\<rparr>)"

definition pt_unblock :: "net \<Rightarrow> string \<Rightarrow> peerTracker \<Rightarrow> peerTracker" where
  "pt_unblock N rawURL pt =
     (let u = normalizeURL N rawURL
      in if u = [] then pt
         else case map_of (pt_peers pt) u of
                Some e \<Rightarrow> pt\<lparr>pt_peers := AList.update u (e\<lparr>pe_Blocked := False\<rparr>) (pt_peers pt)\<rparr>
              | None \<Rightarrow> pt)"

definition activeURLs :: "peer_order \<Rightarrow> peerTracker \<Rightarrow> string list" where
  "activeURLs ord pt = map fst (filter (\<lambda>(u, e). \<not> pe_Blocked e) (ord (pt_peers pt)))"

text \<open>The loop of \<^verbatim>\<open>pickPeer\<close>; \<open>None\<close> while \<^verbatim>\<open>first\<close> is true.\<close>

fun pick_loop_peer :: "(string \<times> peerEntry) list \<Rightarrow> (string \<times> time) option \<Rightarrow> (string \<times> time) option" where
  "pick_loop_peer [] pick = pick"
| "pick_loop_peer ((u, e) # ps) pick =
     (if pe_Blocked e then pick_loop_peer ps pick
      else case pick of
             None \<Rightarrow> pick_loop_peer ps (Some (u, pe_LastSync e))
           | Some (_, pickTime) \<Rightarrow>
               if pe_LastSync e < pickTime then pick_loop_peer ps (Some (u, pe_LastSync e))
               else pick_loop_peer ps pick)"

definition pickPeer :: "peer_order \<Rightarrow> peerTracker \<Rightarrow> string" where
  "pickPeer ord pt = (case pick_loop_peer (ord (pt_peers pt)) None of None \<Rightarrow> [] | Some (u, _) \<Rightarrow> u)"

definition lastSync :: "string \<Rightarrow> peerTracker \<Rightarrow> time" where
  "lastSync u pt = (case map_of (pt_peers pt) u of Some e \<Rightarrow> pe_LastSync e | None \<Rightarrow> zeroTime)"

definition recordSuccess :: "time \<Rightarrow> string \<Rightarrow> int \<Rightarrow> int \<Rightarrow> string \<Rightarrow> peerTracker \<Rightarrow> peerTracker" where
  "recordSuccess now u pulled pushed syncErr pt =
     (case map_of (pt_peers pt) u of
        Some e \<Rightarrow> pt\<lparr>pt_peers := AList.update u (e\<lparr>pe_Failures := 0, pe_LastSync := now, pe_LastPulled := pulled,
                                                  pe_LastPushed := pushed, pe_LastError := syncErr\<rparr>) (pt_peers pt)\<rparr>
      | None \<Rightarrow> pt)"

definition recordFailure :: "string \<Rightarrow> string \<Rightarrow> peerTracker \<Rightarrow> peerTracker" where
  "recordFailure u pullErr pt =
     (case map_of (pt_peers pt) u of
        Some e \<Rightarrow> pt\<lparr>pt_peers := AList.update u (e\<lparr>pe_Failures := wrap64 (pe_Failures e + 1), pe_LastError := pullErr\<rparr>)
                                  (pt_peers pt)\<rparr>
      | None \<Rightarrow> pt)"

section \<open>The interface of the API server\<close>

record PeerInfo =
  pi_URL :: string
  pi_Source :: string
  pi_Blocked :: bool
  pi_AddedAt :: time
  pi_LastSync :: "time option"
  pi_Failures :: int
  pi_LastPulled :: int
  pi_LastPushed :: int
  pi_LastError :: string

definition ListPeers :: "peer_order \<Rightarrow> peerTracker \<Rightarrow> PeerInfo list" where
  "ListPeers ord pt =
     map (\<lambda>(u, e). \<lparr>pi_URL = pe_URL e, pi_Source = pe_Source e, pi_Blocked = pe_Blocked e, pi_AddedAt = pe_AddedAt e,
            pi_LastSync = (if pe_LastSync e = zeroTime then None else Some (pe_LastSync e)),
            pi_Failures = pe_Failures e, pi_LastPulled = pe_LastPulled e, pi_LastPushed = pe_LastPushed e,
            pi_LastError = pe_LastError e\<rparr>) (ord (pt_peers pt))"

section \<open>Lemmas\<close>

lemma order_okD:
  assumes "order_ok ord"
  shows "set (ord xs) = set xs" "distinct (map fst (ord xs)) = distinct (map fst xs)" "length (ord xs) = length xs"
proof -
  have m: "mset (ord xs) = mset xs" using assms by (simp add: order_ok_def)
  then show "set (ord xs) = set xs" "length (ord xs) = length xs"
    using mset_eq_setD mset_eq_length by blast+
  from m have "mset (map fst (ord xs)) = mset (map fst xs)" by simp
  then show "distinct (map fst (ord xs)) = distinct (map fst xs)" by (rule mset_eq_imp_distinct_iff)
qed

text \<open>The loop returns an unblocked entry with the least time, or what it started with.\<close>

lemma pick_loop_peer_spec:
  "case pick_loop_peer ps pick of
     None \<Rightarrow> pick = None \<and> (\<forall>(u, e) \<in> set ps. pe_Blocked e)
   | Some (u, x) \<Rightarrow>
       ((\<exists>e. (u, e) \<in> set ps \<and> \<not> pe_Blocked e \<and> x = pe_LastSync e) \<or> pick = Some (u, x)) \<and>
       (\<forall>(v, e) \<in> set ps. pe_Blocked e \<or> x \<le> pe_LastSync e) \<and>
       (\<forall>v y. pick = Some (v, y) \<longrightarrow> x \<le> y)"
proof (induction ps pick rule: pick_loop_peer.induct)
  case (2 u e ps pick)
  show ?case
  proof (cases "pe_Blocked e")
    case True
    then show ?thesis using "2.IH"(1) by (auto split: option.splits)
  next
    case False
    show ?thesis
    proof (cases pick)
      case None
      then show ?thesis using False "2.IH"(2) by (fastforce split: option.splits)
    next
      case (Some p)
      obtain v y where p: "p = (v, y)" by (cases p)
      show ?thesis
      proof (cases "pe_LastSync e < y")
        case True
        then show ?thesis using False "2.IH"(3) [OF False Some p [symmetric] True] Some p
          by (fastforce split: option.splits)
      next
        case F: False
        then show ?thesis using False "2.IH"(4) [OF False Some p [symmetric] F] Some p
          by (fastforce split: option.splits)
      qed
    qed
  qed
qed (auto split: option.split)

text \<open>The operations and what they keep.\<close>

inductive pt_reach :: "net \<Rightarrow> path \<Rightarrow> peerTracker \<Rightarrow> bool" for N p where
  New: "pt_reach N p (newPeerTracker p)"
| Add: "pt_reach N p pt \<Longrightarrow> pt_add N now u source pt = (r, pt') \<Longrightarrow> pt_reach N p pt'"
| Remove: "pt_reach N p pt \<Longrightarrow> pt_reach N p (pt_remove N u pt)"
| Block: "pt_reach N p pt \<Longrightarrow> pt_reach N p (pt_block N now u pt)"
| Unblock: "pt_reach N p pt \<Longrightarrow> pt_reach N p (pt_unblock N u pt)"
| Success: "pt_reach N p pt \<Longrightarrow> pt_reach N p (recordSuccess now u pulled pushed err pt)"
| Failure: "pt_reach N p pt \<Longrightarrow> pt_reach N p (recordFailure u err pt)"

definition valid_key :: "net \<Rightarrow> string \<Rightarrow> bool" where
  "valid_key N u \<longleftrightarrow> u \<noteq> [] \<and> (\<exists>scheme host. url_Parse N u = Some (scheme, host) \<and>
     (scheme = ''http'' \<or> scheme = ''https'') \<and> host \<noteq> []) \<and> last u \<noteq> CHR ''/''"

definition pt_inv :: "net \<Rightarrow> peerTracker \<Rightarrow> bool" where
  "pt_inv N pt \<longleftrightarrow> distinct (map fst (pt_peers pt)) \<and> (\<forall>(u, e) \<in> set (pt_peers pt). pe_URL e = u \<and> valid_key N u)"

lemma last_TrimRightSlash: "TrimRightSlash s \<noteq> [] \<Longrightarrow> last (TrimRightSlash s) \<noteq> CHR ''/''"
  using hd_dropWhile [of "\<lambda>c. c = CHR ''/''" "rev s"] by (auto simp: TrimRightSlash_def last_rev)

lemma normalizeURL_valid: "normalizeURL N raw \<noteq> [] \<Longrightarrow> valid_key N (normalizeURL N raw)"
  using last_TrimRightSlash [of "TrimSpace raw"]
  by (auto simp: normalizeURL_def valid_key_def Let_def split: if_splits option.splits)

lemma update_inv:
  assumes "pt_inv N pt" "pe_URL e = u" "valid_key N u"
  shows "pt_inv N (pt\<lparr>pt_peers := AList.update u e (pt_peers pt)\<rparr>)"
proof -
  have "x \<in> set (AList.update u e xs) \<Longrightarrow> x = (u, e) \<or> x \<in> set xs" for x xs
    by (induction xs) (auto split: if_splits)
  then show ?thesis using assms unfolding pt_inv_def by (fastforce simp: distinct_update)
qed

lemma pt_inv_entry: "pt_inv N pt \<Longrightarrow> map_of (pt_peers pt) u = Some e \<Longrightarrow> pe_URL e = u \<and> valid_key N u"
  by (auto simp: pt_inv_def dest!: map_of_SomeD)

lemma pt_ops_inv:
  assumes "pt_inv N pt"
  shows "pt_inv N (snd (pt_add N now u source pt))" "pt_inv N (pt_remove N u pt)" "pt_inv N (pt_block N now u pt)" "pt_inv N (pt_unblock N u pt)"
proof -
  note k = normalizeURL_valid [of N u] and upd = update_inv [OF assms, of _ "normalizeURL N u"]
    and entry = pt_inv_entry [OF assms, of "normalizeURL N u"]
  show "pt_inv N (snd (pt_add N now u source pt))" using assms k upd by (simp add: pt_add_def Let_def newEntry_def)
  have "set (AList.delete k xs) \<subseteq> set xs" for k and xs :: "(string \<times> peerEntry) list"
    by (auto simp: AList.delete_eq)
  then show "pt_inv N (pt_remove N u pt)" using assms unfolding pt_remove_def Let_def pt_inv_def
    by (simp add: distinct_delete) blast
  show "pt_inv N (pt_block N now u pt)" using assms k upd entry by (auto simp: pt_block_def Let_def newEntry_def split: option.split)
  show "pt_inv N (pt_unblock N u pt)" using assms upd entry by (auto simp: pt_unblock_def Let_def split: option.split)
qed

lemma pt_ops_path: "pt_path (snd (pt_add N now u source pt)) = pt_path pt" "pt_path (pt_remove N u pt) = pt_path pt"
  "pt_path (pt_block N now u pt) = pt_path pt" "pt_path (pt_unblock N u pt) = pt_path pt"
  by (auto simp: pt_add_def pt_remove_def pt_block_def pt_unblock_def Let_def split: option.split)

lemma pt_reach_inv:
  assumes "pt_reach N p pt"
  shows "pt_inv N pt \<and> pt_path pt = p"
  using assms
proof (induction rule: pt_reach.induct)
  case New
  then show ?case by (simp add: newPeerTracker_def pt_inv_def)
next
  case (Add pt now u source r pt')
  then show ?case using pt_ops_inv(1) [of N pt now u source] pt_ops_path(1) [of N now u source pt] by simp
next
  case (Success pt now u pulled pushed err)
  then show ?case using update_inv [of N pt _ u] pt_inv_entry [of N pt u]
    by (auto simp: recordSuccess_def split: option.split)
next
  case (Failure pt u err)
  then show ?case using update_inv [of N pt _ u] pt_inv_entry [of N pt u]
    by (auto simp: recordFailure_def split: option.split)
qed (simp_all add: pt_ops_inv pt_ops_path)

text \<open>The peers that may be picked and were last synchronised before a given time.\<close>

definition stale :: "time \<Rightarrow> peerTracker \<Rightarrow> string set" where
  "stale T pt = {u. \<exists>e. map_of (pt_peers pt) u = Some e \<and> \<not> pe_Blocked e \<and> pe_LastSync e < T}"

lemma pickPeer_spec:
  assumes "order_ok ord" "pt_inv N pt"
  shows "(pickPeer ord pt = [] \<longleftrightarrow> (\<forall>u e. map_of (pt_peers pt) u = Some e \<longrightarrow> pe_Blocked e)) \<and>
    (pickPeer ord pt \<noteq> [] \<longrightarrow> (\<exists>e. map_of (pt_peers pt) (pickPeer ord pt) = Some e \<and> \<not> pe_Blocked e \<and>
       (\<forall>v e'. map_of (pt_peers pt) v = Some e' \<longrightarrow> pe_Blocked e' \<or> pe_LastSync e \<le> pe_LastSync e')))"
proof -
  have d: "distinct (map fst (pt_peers pt))" using assms(2) by (simp add: pt_inv_def)
  have iff: "map_of (pt_peers pt) u = Some e \<longleftrightarrow> (u, e) \<in> set (ord (pt_peers pt))" for u e
    using d order_okD(1) [OF assms(1)] by simp
  have ne: "(u, e) \<in> set (ord (pt_peers pt)) \<Longrightarrow> u \<noteq> []" for u e
    using assms(2) order_okD(1) [OF assms(1)] by (auto simp: pt_inv_def valid_key_def)
  note p = pick_loop_peer_spec [where ps = "ord (pt_peers pt)" and pick = None]
  show ?thesis unfolding iff
  proof (cases "pick_loop_peer (ord (pt_peers pt)) None")
    case None
    then show "(pickPeer ord pt = [] \<longleftrightarrow> (\<forall>u e. (u, e) \<in> set (ord (pt_peers pt)) \<longrightarrow> pe_Blocked e)) \<and>
    (pickPeer ord pt \<noteq> [] \<longrightarrow> (\<exists>e. (pickPeer ord pt, e) \<in> set (ord (pt_peers pt)) \<and> \<not> pe_Blocked e \<and>
       (\<forall>v e'. (v, e') \<in> set (ord (pt_peers pt)) \<longrightarrow> pe_Blocked e' \<or> pe_LastSync e \<le> pe_LastSync e')))"
      using p by (auto simp: pickPeer_def)
  next
    case (Some q)
    then show "(pickPeer ord pt = [] \<longleftrightarrow> (\<forall>u e. (u, e) \<in> set (ord (pt_peers pt)) \<longrightarrow> pe_Blocked e)) \<and>
    (pickPeer ord pt \<noteq> [] \<longrightarrow> (\<exists>e. (pickPeer ord pt, e) \<in> set (ord (pt_peers pt)) \<and> \<not> pe_Blocked e \<and>
       (\<forall>v e'. (v, e') \<in> set (ord (pt_peers pt)) \<longrightarrow> pe_Blocked e' \<or> pe_LastSync e \<le> pe_LastSync e')))"
      using p ne by (cases q) (fastforce simp: pickPeer_def)
  qed
qed

text \<open>A run of synchronisation rounds, each with a time and what it reports.\<close>

fun sync_rounds :: "peer_order \<Rightarrow> (time \<times> int \<times> int \<times> string) list \<Rightarrow> peerTracker \<Rightarrow> string list \<times> peerTracker" where
  "sync_rounds ord [] pt = ([], pt)"
| "sync_rounds ord ((now, pulled, pushed, err) # rs) pt =
     (let u = pickPeer ord pt; (us, pt') = sync_rounds ord rs (recordSuccess now u pulled pushed err pt)
      in (u # us, pt'))"

lemma recordSuccess_stale:
  assumes "T \<le> now" "u \<in> stale T pt"
  shows "stale T (recordSuccess now u pulled pushed err pt) = stale T pt - {u}"
  using assms by (auto simp: stale_def recordSuccess_def update_conv split: option.splits if_splits)

lemma recordSuccess_inv: "pt_inv N pt \<Longrightarrow> pt_inv N (recordSuccess now u pulled pushed err pt)"
  using update_inv [of N pt _ u] pt_inv_entry [of N pt u] by (auto simp: recordSuccess_def split: option.split)

lemma pick_stale:
  assumes "order_ok ord" "pt_inv N pt" "stale T pt \<noteq> {}"
  shows "pickPeer ord pt \<in> stale T pt"
proof -
  obtain v e' where v: "map_of (pt_peers pt) v = Some e'" "\<not> pe_Blocked e'" "pe_LastSync e' < T"
    using assms(3) by (auto simp: stale_def)
  note p = pickPeer_spec [OF assms(1,2)]
  then have "pickPeer ord pt \<noteq> []" using v by blast
  with p v show ?thesis by (fastforce simp: stale_def)
qed

lemma sync_rounds_stale:
  assumes "order_ok ord" "pt_inv N pt" "\<forall>r \<in> set rs. T \<le> fst r" "length rs \<le> card (stale T pt)"
  shows "distinct (fst (sync_rounds ord rs pt)) \<and> set (fst (sync_rounds ord rs pt)) \<subseteq> stale T pt \<and>
    length (fst (sync_rounds ord rs pt)) = length rs"
  using assms(2-4)
proof (induction rs arbitrary: pt)
  case (Cons r rs)
  obtain now pulled pushed err where r: "r = (now, pulled, pushed, err)" by (cases r)
  define u where "u = pickPeer ord pt"
  define pt1 where "pt1 = recordSuccess now u pulled pushed err pt"
  have ne: "stale T pt \<noteq> {}" using Cons.prems(3) by auto
  have u: "u \<in> stale T pt" using pick_stale [OF assms(1) Cons.prems(1) ne] by (simp add: u_def)
  have st: "stale T pt1 = stale T pt - {u}"
    using recordSuccess_stale [OF _ u] Cons.prems(2) by (simp add: pt1_def r)
  have fin: "finite (stale T pt)"
    by (rule finite_subset [of _ "dom (map_of (pt_peers pt))"]) (auto simp: stale_def finite_dom_map_of)
  have "length rs \<le> card (stale T pt1)" using Cons.prems(3) u fin by (simp add: st)
  moreover have "pt_inv N pt1" using recordSuccess_inv [OF Cons.prems(1)] by (simp add: pt1_def)
  ultimately have IH: "distinct (fst (sync_rounds ord rs pt1))" "set (fst (sync_rounds ord rs pt1)) \<subseteq> stale T pt1"
    "length (fst (sync_rounds ord rs pt1)) = length rs"
    using Cons.IH [of pt1] Cons.prems(2) by auto
  have "fst (sync_rounds ord (r # rs) pt) = u # fst (sync_rounds ord rs pt1)"
    by (simp add: r Let_def case_prod_beta flip: u_def pt1_def)
  then show ?case using IH u st by auto
qed simp

section \<open>Properties\<close>

text \<open>In every tracker that the operations produce the keys are distinct, equal to the entries' URLs and
  valid http(s) URLs without a trailing slash, and adding keeps the table within 200
  entries.\<close>

theorem peers_invariant:
  assumes "pt_reach N p pt"
  shows "distinct (map fst (pt_peers pt)) \<and>
    (\<forall>(u, e) \<in> set (pt_peers pt). pe_URL e = u \<and> valid_key N u) \<and>
    (\<forall>now u source. length (pt_peers (snd (pt_add N now u source pt))) \<le> max maxTrackedPeers (length (pt_peers pt)))"
proof -
  have "length (AList.update k v xs) \<le> Suc (length xs)" for k v and xs :: "(string \<times> peerEntry) list"
    by (induction xs) auto
  then have "length (AList.update k v xs) \<le> n" if "length xs < n" for k v n and xs :: "(string \<times> peerEntry) list"
    using that by (meson Suc_leI le_trans)
  then have "length (pt_peers (snd (pt_add N now u source pt))) \<le> max maxTrackedPeers (length (pt_peers pt))" for now u source
    by (simp add: pt_add_def Let_def le_max_iff_disj)
  then show ?thesis using pt_reach_inv [OF assms] by (simp add: pt_inv_def)
qed

text \<open>A tracker with two peers.\<close>

definition two_peers :: peerTracker where
  "two_peers = snd (pt_add net0 5 ''http://b'' ''lan'' (snd (pt_add net0 5 ''http://a/'' ''manual'' (newPeerTracker [''peers.json'']))))"

lemma two_peers: "pt_reach net0 [''peers.json''] two_peers"
  "pt_peers two_peers = [(''http://a'', newEntry ''http://a'' ''manual'' False 5), (''http://b'', newEntry ''http://b'' ''lan'' False 5)]"
proof -
  have n: "normalizeURL net0 ''http://a/'' = ''http://a''" "normalizeURL net0 ''http://b'' = ''http://b''"
    by (simp_all add: normalizeURL_def TrimSpace_visible visible_def TrimRightSlash_def net0_def)
  show "pt_peers two_peers = [(''http://a'', newEntry ''http://a'' ''manual'' False 5), (''http://b'', newEntry ''http://b'' ''lan'' False 5)]"
    by (simp add: two_peers_def pt_add_def n newPeerTracker_def maxTrackedPeers_def Let_def)
  show "pt_reach net0 [''peers.json''] two_peers"
    unfolding two_peers_def
    by (rule pt_reach.Add [OF pt_reach.Add [OF pt_reach.New prod.collapse [symmetric]] prod.collapse [symmetric]])
qed

theorem peers_invariant_witness:
  "distinct (map fst (pt_peers two_peers))"
  using peers_invariant [OF two_peers(1)] by blast



text \<open>What \<^verbatim>\<open>save\<close> wrote, \<^verbatim>\<open>load\<close> reads back into a new tracker.\<close>

theorem peers_save_load:
  assumes "pt_reach N p pt" "order_ok ord" "p \<noteq> []" "fs_ok fs" "butlast p \<in> set (fs_dirs fs)"
    and J: "pj_Unmarshal J (pj_Marshal J (map snd (ord (pt_peers pt)))) = Some (map snd (ord (pt_peers pt)))"
  shows "map_of (pt_peers (pt_load J (pt_save J ord pt fs) (newPeerTracker p))) = map_of (pt_peers pt)"
proof -
  have i: "pt_inv N pt" "pt_path pt = p" using pt_reach_inv [OF assms(1)] by blast+
  let ?ps = "ord (pt_peers pt)"
  let ?data = "pj_Marshal J (map snd ?ps)"
  obtain fs1 fs2 where f: "fs_write (tmpPath p) ?data fs = (None, fs1)" "fs_rename (tmpPath p) p fs1 = (None, fs2)"
    "fs_ok fs2" "fs_map fs2 p = Some ?data"
    using replace_file_ok [OF assms(4,3,5)] by metis
  have sv: "pt_save J ord pt fs = fs2" by (simp add: pt_save_def Let_def i(2) f(1,2))
  have "fs_read fs2 p = Inr ?data" using fs_read_ok [OF f(3)] f(4) by simp
  then have ld: "pt_peers (pt_load J fs2 (newPeerTracker p)) = fold (\<lambda>e. AList.update (pe_URL e) e) (map snd ?ps) []"
    by (simp add: pt_load_def newPeerTracker_def J)
  have "fold (\<lambda>e. AList.update (pe_URL e) e) (map snd ?ps) [] = fold (\<lambda>(u, e). AList.update u e) ?ps []"
  proof -
    have "pe_URL (snd x) = fst x" if "x \<in> set ?ps" for x
      using that i(1) order_okD(1) [OF assms(2)] by (auto simp: pt_inv_def)
    then show ?thesis unfolding fold_map comp_def by (intro fold_cong) (auto simp: case_prod_beta)
  qed
  moreover have d: "distinct (map fst ?ps)" using i(1) order_okD(2) [OF assms(2)] by (simp add: pt_inv_def)
  have "map_of (fold (\<lambda>(u, e). AList.update u e) xs acc) = map_of acc ++ map_of xs" if "distinct (map fst xs)"
    for xs acc :: "(string \<times> peerEntry) list"
    using that
  proof (induction xs arbitrary: acc)
    case (Cons x xs)
    obtain u e where x: "x = (u, e)" by (cases x)
    have "u \<notin> dom (map_of xs)" using Cons.prems by (simp add: x dom_map_of_conv_image_fst)
    then have "(map_of acc)(u \<mapsto> e) ++ map_of xs = map_of acc ++ (map_of xs)(u \<mapsto> e)"
      by (auto simp: fun_eq_iff map_add_def split: option.split)
    moreover have "map_of (fold (\<lambda>(u, e). AList.update u e) xs (AList.update u e acc)) = (map_of acc)(u \<mapsto> e) ++ map_of xs"
      using Cons by (simp only: update_conv' distinct.simps list.map)
    moreover have "map_of ((u, e) # xs) = (map_of xs)(u \<mapsto> e)" by auto
    ultimately show ?case by (simp only: x fold_simps prod.case)
  qed simp
  from this [OF d, of "[]"] have "map_of (fold (\<lambda>(u, e). AList.update u e) ?ps []) = map_of ?ps" by simp
  moreover have "map_of ?ps = map_of (pt_peers pt)"
    using d i(1) order_okD(1) [OF assms(2)] by (intro map_of_eqI) (auto simp: pt_inv_def fun_eq_iff)
  ultimately show ?thesis by (simp add: sv ld)
qed

definition json_peers0 :: peers_json where
  "json_peers0 = \<lparr>pj_Marshal = (\<lambda>_. [1]), pj_Unmarshal = (\<lambda>_. Some (map snd (rev (pt_peers two_peers))))\<rparr>"

theorem peers_save_load_witness:
  "map_of (pt_peers (pt_load json_peers0 (pt_save json_peers0 rev two_peers fs_empty) (newPeerTracker [''peers.json'']))) =
    map_of (pt_peers two_peers)"
  by (rule peers_save_load [OF two_peers(1)])
    (simp_all add: order_ok_def fs_ok_empty fs_empty_def [THEN arg_cong [where f = fs_dirs]] json_peers0_def)

end
