(* ===== verification/GeoRefresh.thy ===== *)
theory GeoRefresh
  imports NetTags FlatFile
begin

text \<open>
  The rest of \<^verbatim>\<open>transport/relay/geoip.go\<close>: the download of the database, the start of the classifier and one tick of its
  refresh.  What \<^verbatim>\<open>http.Get\<close> gives (an error, or the body that arrives and the error that its reading ends with) and the
  reader of the database are parameters; the code does not look at the status of the response.
\<close>

datatype geo_err = GeoHTTP string | GeoCreate string | GeoRead string | GeoIO io_err

type_synonym geo_get = "string + (bytes \<times> string option)"
type_synonym geo_reader = "bytes \<Rightarrow> (string \<times> string list) option"

text \<open>Writing the body and closing the file fail together (\<open>fs_write\<close>).\<close>

definition GeoIP_download :: "geo_get \<Rightarrow> string option \<Rightarrow> path \<Rightarrow> fsys \<Rightarrow> geo_err option \<times> fsys" where
  "GeoIP_download get createErr dbPath fs =
     (case get of
        Inl e \<Rightarrow> (Some (GeoHTTP e), fs)
      | Inr (body, readErr) \<Rightarrow>
          (let tmp = tmpPath dbPath
           in case createErr of
                Some e \<Rightarrow> (Some (GeoCreate e), fs)
              | None \<Rightarrow>
                  (case fs_write tmp body fs of
                     (Some e, fs') \<Rightarrow> (Some (GeoIO e), snd (fs_remove tmp fs'))
                   | (None, fs') \<Rightarrow>
                       (case readErr of
                          Some e \<Rightarrow> (Some (GeoRead e), snd (fs_remove tmp fs'))
                        | None \<Rightarrow> (case fs_rename tmp dbPath fs' of (e, fs'') \<Rightarrow> (map_option GeoIO e, fs''))))))"

definition GeoIP_ensureFresh ::
  "geo_get \<Rightarrow> string option \<Rightarrow> int \<Rightarrow> time \<Rightarrow> time \<Rightarrow> path \<Rightarrow> fsys \<Rightarrow> geo_err option \<times> fsys" where
  "GeoIP_ensureFresh get createErr refresh now modTime dbPath fs =
     (if fs_stat fs dbPath \<and> now - modTime < refresh then (None, fs) else GeoIP_download get createErr dbPath fs)"

text \<open>\<^verbatim>\<open>geoip2.Open\<close> on the file.\<close>

definition GeoIP_open :: "(bytes \<Rightarrow> string + geo_reader) \<Rightarrow> path \<Rightarrow> fsys \<Rightarrow> string + geo_reader" where
  "GeoIP_open opener dbPath fs = (case fs_read fs dbPath of Inl _ \<Rightarrow> Inl ''open'' | Inr b \<Rightarrow> opener b)"

definition GeoIP_Start ::
  "geo_get \<Rightarrow> string option \<Rightarrow> (bytes \<Rightarrow> string + geo_reader) \<Rightarrow> int \<Rightarrow> time \<Rightarrow> time \<Rightarrow> path \<Rightarrow> GeoIP \<times> fsys \<Rightarrow> GeoIP \<times> fsys" where
  "GeoIP_Start get createErr opener refresh now modTime dbPath = (\<lambda>(g, fs).
     case GeoIP_ensureFresh get createErr refresh now modTime dbPath fs of
       (_, fs') \<Rightarrow> (GeoIP_load (GeoIP_open opener dbPath fs') g, fs'))"

definition GeoIP_tick ::
  "geo_get \<Rightarrow> string option \<Rightarrow> (bytes \<Rightarrow> string + geo_reader) \<Rightarrow> path \<Rightarrow> GeoIP \<times> fsys \<Rightarrow> GeoIP \<times> fsys" where
  "GeoIP_tick get createErr opener dbPath = (\<lambda>(g, fs).
     case GeoIP_download get createErr dbPath fs of
       (Some _, fs') \<Rightarrow> (g, fs')
     | (None, fs') \<Rightarrow> (GeoIP_load (GeoIP_open opener dbPath fs') g, fs'))"

section \<open>Lemmas\<close>

lemma download_file:
  assumes "dbPath \<noteq> []" "GeoIP_download get createErr dbPath fs = (e, fs')"
  shows "map_of (fs_files fs') dbPath = map_of (fs_files fs) dbPath \<or>
    (\<exists>body. get = Inr (body, None) \<and> map_of (fs_files fs') dbPath = Some body)"
proof -
  have t: "tmpPath dbPath \<noteq> dbPath" by (rule tmpPath_neq(1) [OF assms(1)])
  then show ?thesis using assms(2)
    by (auto simp: GeoIP_download_def Let_def fs_write_def fs_rename_def fs_remove_def del_file_def map_of_filter_fst
        split: sum.splits option.splits prod.splits if_splits)
qed

lemma download_ok:
  assumes "fs_ok fs" "dbPath \<noteq> []" "butlast dbPath \<in> set (fs_dirs fs)"
  obtains fs' where "GeoIP_download (Inr (body, None)) None dbPath fs = (None, fs')" "fs_ok fs'" "fs_map fs' dbPath = Some body"
proof -
  obtain fs1 fs2 where "fs_write (tmpPath dbPath) body fs = (None, fs1)" "fs_rename (tmpPath dbPath) dbPath fs1 = (None, fs2)"
    "fs_ok fs2" "fs_map fs2 dbPath = Some body"
    using replace_file_ok [OF assms] by metis
  then show thesis using that [of fs2] by (simp add: GeoIP_download_def)
qed

section \<open>Properties\<close>

text \<open>Whatever the download and the file system do, a refresh leaves the file of the database as it was or
  complete, and unless the new file opens as a database, every address is classified as before.\<close>

theorem geo_refresh_safe:
  assumes "dbPath \<noteq> []" "GeoIP_tick get createErr opener dbPath (g, fs) = (g', fs')"
  shows "(map_of (fs_files fs') dbPath = map_of (fs_files fs) dbPath \<or>
      (\<exists>body. get = Inr (body, None) \<and> map_of (fs_files fs') dbPath = Some body)) \<and>
    (GeoIP_Tag N g' addr = GeoIP_Tag N g addr \<or> (\<exists>body r. map_of (fs_files fs') dbPath = Some body \<and> opener body = Inr r \<and> g_reader g' = Some r))"
proof -
  obtain e where d: "GeoIP_download get createErr dbPath fs = (e, fs')" and
    g': "g' = (if e = None then GeoIP_load (GeoIP_open opener dbPath fs') g else g)"
    using assms(2) by (auto simp: GeoIP_tick_def split: prod.splits option.splits)
  show ?thesis using download_file [OF assms(1) d] g'
    by (auto simp: GeoIP_load_def GeoIP_open_def fs_read_def split: sum.splits option.splits)
qed

text \<open>A response with an error page is stored as the database, because its status is not examined.  The running
  server keeps its reader, but one that starts before the next refresh takes the page for a fresh database
  and classifies no address as regional.\<close>

theorem geo_error_page:
  assumes "fs_ok fs" "dbPath \<noteq> []" "butlast dbPath \<in> set (fs_dirs fs)" "opener page = Inl e" "now - modTime < refresh"
    and "GeoIP_tick (Inr (page, None)) None opener dbPath (g, fs) = (g', fs')"
    and "GeoIP_Start get createErr opener refresh now modTime dbPath (NewGeoIP regions, fs') = (g2, fs2)"
  shows "g' = g \<and> fs_map fs' dbPath = Some page \<and> fs2 = fs' \<and> GeoIP_Tag N g2 addr = tagFromRemoteAddr N addr"
proof -
  obtain fs1 where d: "GeoIP_download (Inr (page, None)) None dbPath fs = (None, fs1)" "fs_ok fs1" "fs_map fs1 dbPath = Some page"
    by (rule download_ok [OF assms(1-3)])
  have o: "GeoIP_open opener dbPath fs1 = Inl e" using fs_read_ok [OF d(2)] d(3) assms(4) by (simp add: GeoIP_open_def)
  have 1: "g' = g" "fs' = fs1" using assms(6) by (simp_all add: GeoIP_tick_def d(1) o GeoIP_load_def)
  have "fs_stat fs1 dbPath" using fs_stat_ok [OF d(2)] d(3) by simp
  then have "g2 = NewGeoIP regions" "fs2 = fs1" using assms(5,7) o by (simp_all add: GeoIP_Start_def GeoIP_ensureFresh_def 1 GeoIP_load_def)
  then show ?thesis using d(3) 1 by (auto simp: GeoIP_Tag_def tagFromRemoteAddr_def isRegional_def NewGeoIP_def Let_def split: option.split)
qed

theorem geo_refresh_safe_witness:
  "map_of (fs_files (snd (GeoIP_tick (Inl ''refused'') None (\<lambda>_. Inl ''bad'') [''geo''] (NewGeoIP [''US''], fs_empty)))) [''geo''] = None"
  using geo_refresh_safe [of "[''geo'']" "Inl ''refused''" None "\<lambda>_. Inl ''bad''" "NewGeoIP [''US'']" fs_empty] prod.collapse
  by (simp add: GeoIP_tick_def GeoIP_download_def fs_empty_def)

theorem geo_error_page_witness:
  "\<exists>fs'. GeoIP_tick (Inr ([60], None)) None (\<lambda>_. Inl ''bad'') [''geo''] (NewGeoIP [''US''], fs_empty) = (NewGeoIP [''US''], fs') \<and>
    fs_map fs' [''geo''] = Some [60]"
proof -
  obtain g' fs' where t: "GeoIP_tick (Inr ([60], None)) None (\<lambda>_. Inl ''bad'') [''geo''] (NewGeoIP [''US''], fs_empty) = (g', fs')" by fastforce
  obtain g2 fs2 where s: "GeoIP_Start (Inl []) None (\<lambda>_. Inl ''bad'') 10 5 0 [''geo''] (NewGeoIP [''US''], fs') = (g2, fs2)" by fastforce
  have "butlast [''geo''] \<in> set (fs_dirs fs_empty)" by (simp add: fs_empty_def)
  from geo_error_page [OF fs_ok_empty(1) _ this _ _ t s] t show ?thesis by simp
qed

end
