(* ===== verification/Node.thy ===== *)
theory Node
  imports RelaySync MassStorage PeerTracker Lan GeoRefresh
begin

text \<open>
  \<^verbatim>\<open>cmd/snk/main.go\<close>: the nodes and relays of the command line: the sizes and
  addresses of the flags, the table of known peers with its backoff, one synchronisation
  with a peer, one tick of the loop that drives them and how the servers are set up.  Goroutines that
  the code starts are returned as the list of the peers to synchronise with.  The order of a
  map is an argument, as are the times at which the clock is read.
\<close>

section \<open>Flags\<close>

fun go_split :: "char \<Rightarrow> string \<Rightarrow> string list" where
  "go_split c [] = [[]]"
| "go_split c (x # xs) =
     (if x = c then [] # go_split c xs
      else case go_split c xs of [] \<Rightarrow> [[x]] | w # ws \<Rightarrow> (x # w) # ws)"

definition splitPeers :: "string \<Rightarrow> string list" where
  "splitPeers s = filter (\<lambda>p. p \<noteq> []) (map TrimSpace (go_split (CHR '','') s))"

text \<open>\<^verbatim>\<open>fmt.Sscanf(s, "%d", &n)\<close> on a text without leading white space: a sign and
  digits within 64 bits; what follows them is not looked at.\<close>

definition sscanf_d :: "string \<Rightarrow> int option" where
  "sscanf_d s =
     (let neg = (s \<noteq> [] \<and> hd s = CHR ''-'');
          rest = (if s \<noteq> [] \<and> hd s \<in> {CHR ''-'', CHR ''+''} then tl s else s);
          ds = takeWhile isDigit rest;
          v = (if neg then - int (undecimal ds 0) else int (undecimal ds 0))
      in if ds = [] \<or> \<not> in_int64 v then None else Some v)"

definition byteSuffixes :: "(string \<times> int) list" where
  "byteSuffixes = [(''TB'', 2 ^ 40), (''GB'', 2 ^ 30), (''MB'', 2 ^ 20), (''KB'', 2 ^ 10)]"

fun parse_suffixed :: "string \<Rightarrow> (string \<times> int) list \<Rightarrow> int option" where
  "parse_suffixed s [] = sscanf_d s"
| "parse_suffixed s ((sfx, unit_size) # sfs) =
     (if suffix sfx (ToUpper s)
      then map_option (\<lambda>n. wrap64 (n * unit_size)) (sscanf_d (TrimSpace (take (length s - length sfx) s)))
      else parse_suffixed s sfs)"

definition parseBytes :: "string \<Rightarrow> int option" where
  "parseBytes s =
     (let s = TrimSpace s in if s = [] \<or> s = ''0'' then Some 0 else parse_suffixed s byteSuffixes)"

definition peerURL :: "net \<Rightarrow> string \<Rightarrow> string" where
  "peerURL N hostport =
     (let other = (if net_Port N hostport = ''443'' then ''https://'' @ hostport else ''http://'' @ hostport)
      in if prefix ''http://'' hostport \<or> prefix ''https://'' hostport then
           (case url_Parse N hostport of
              Some (scheme, host) \<Rightarrow> if host \<noteq> [] then TrimRightSlash hostport else other
            | None \<Rightarrow> other)
         else other)"

section \<open>The table of peers\<close>

definition maxPeers :: nat where "maxPeers = 200"
definition maxBackoffRounds :: int where "maxBackoffRounds = 64"

record peerState =
  ps_skipRounds :: int
  ps_failures :: int
  ps_pullSince :: time
  ps_pushSince :: time

text \<open>\<open>np_syncPowFloor\<close> is set once \<^verbatim>\<open>run\<close> has stored the context and the store.\<close>

record nodePeers =
  np_known :: "(string \<times> peerState) list"
  np_advertiseURL :: string
  np_peersFile :: path
  np_syncPowFloor :: "int option"

type_synonym known_order = "(string \<times> peerState) list \<Rightarrow> (string \<times> peerState) list"

record urls_json =
  uj_Marshal :: "string list \<Rightarrow> bytes"
  uj_Unmarshal :: "bytes \<Rightarrow> string list option"

definition peerState0 :: peerState where
  "peerState0 = \<lparr>ps_skipRounds = 0, ps_failures = 0, ps_pullSince = zeroTime, ps_pushSince = zeroTime\<rparr>"

definition new_nodePeers :: "string \<Rightarrow> path \<Rightarrow> nodePeers" where
  "new_nodePeers advertiseURL peersFile =
     \<lparr>np_known = [], np_advertiseURL = advertiseURL, np_peersFile = peersFile, np_syncPowFloor = None\<rparr>"

definition addPeer :: "string \<Rightarrow> nodePeers \<Rightarrow> bool \<times> nodePeers" where
  "addPeer u pt =
     (if np_advertiseURL pt \<noteq> [] \<and> u = np_advertiseURL pt then (False, pt)
      else if map_of (np_known pt) u = None \<and> length (np_known pt) < maxPeers
      then (True, pt\<lparr>np_known := AList.update u peerState0 (np_known pt)\<rparr>)
      else (False, pt))"

definition isPublicURL :: "net \<Rightarrow> string \<Rightarrow> bool" where
  "isPublicURL N rawURL =
     (case url_Hostname N rawURL of
        None \<Rightarrow> False
      | Some host \<Rightarrow>
          (case net_ParseIP N host of
             None \<Rightarrow> True
           | Some ip \<Rightarrow> \<not> IsPrivate ip \<and> \<not> IsLoopback ip \<and> \<not> IsLinkLocalUnicast ip))"

definition nonPenalizedPeers :: "net \<Rightarrow> known_order \<Rightarrow> nodePeers \<Rightarrow> string list" where
  "nonPenalizedPeers N ord pt =
     map fst (filter (\<lambda>(u, st). ps_skipRounds st = 0 \<and> isPublicURL N u) (ord (np_known pt)))"

definition loadPeers :: "urls_json \<Rightarrow> fsys \<Rightarrow> nodePeers \<Rightarrow> nodePeers" where
  "loadPeers J fs pt =
     (if np_peersFile pt = [] then pt
      else case fs_read fs (np_peersFile pt) of
             Inl _ \<Rightarrow> pt
           | Inr data \<Rightarrow>
               (case uj_Unmarshal J data of None \<Rightarrow> pt | Some urls \<Rightarrow> fold (\<lambda>u pt. snd (addPeer u pt)) urls pt))"

definition savePeers :: "urls_json \<Rightarrow> known_order \<Rightarrow> nodePeers \<Rightarrow> fsys \<Rightarrow> fsys" where
  "savePeers J ord pt fs =
     (if np_peersFile pt = [] then fs
      else
        case fs_write (tmpPath (np_peersFile pt)) (uj_Marshal J (map fst (ord (np_known pt)))) fs of
          (Some _, fs') \<Rightarrow> fs'
        | (None, fs') \<Rightarrow> snd (fs_rename (tmpPath (np_peersFile pt)) (np_peersFile pt) fs'))"

section \<open>One synchronisation\<close>

definition backoffRounds :: "int \<Rightarrow> int" where
  "backoffRounds failures =
     (let rounds = wrap64 (2 ^ nat failures) in if rounds > maxBackoffRounds then maxBackoffRounds else rounds)"

definition pull_failed :: "peerState \<Rightarrow> peerState" where
  "pull_failed st =
     (let failures = wrap64 (ps_failures st + 1)
      in st\<lparr>ps_failures := failures, ps_skipRounds := backoffRounds failures\<rparr>)"

definition pull_succeeded :: "time \<Rightarrow> peerState \<Rightarrow> peerState" where
  "pull_succeeded pullStart st = st\<lparr>ps_failures := 0, ps_skipRounds := 0, ps_pullSince := pullStart\<rparr>"

definition update_peer :: "string \<Rightarrow> (peerState \<Rightarrow> peerState) \<Rightarrow> nodePeers \<Rightarrow> nodePeers" where
  "update_peer u f pt =
     (case map_of (np_known pt) u of
        None \<Rightarrow> pt
      | Some st \<Rightarrow> pt\<lparr>np_known := AList.update u (f st) (np_known pt)\<rparr>)"

text \<open>The peers of an announcement that were new.\<close>

definition gossip_peer :: "net \<Rightarrow> string \<Rightarrow> string list \<times> nodePeers \<Rightarrow> string list \<times> nodePeers" where
  "gossip_peer N p = (\<lambda>(added, pt).
     case addPeer (peerURL N p) pt of (new, pt') \<Rightarrow> (if new then added @ [peerURL N p] else added, pt'))"

definition syncOne ::
  "env \<Rightarrow> net \<Rightarrow> 's Store \<Rightarrow> (resp_body \<Rightarrow> bytes) \<Rightarrow> (string \<Rightarrow> 'w http) \<Rightarrow> ('w \<Rightarrow> string option)
     \<Rightarrow> urls_json \<Rightarrow> known_order \<Rightarrow> int \<Rightarrow> time \<Rightarrow> time \<Rightarrow> string \<Rightarrow> nodePeers \<times> fsys \<times> 's \<times> 'w
     \<Rightarrow> (string list \<times> nodePeers \<times> fsys \<times> 's \<times> 'w) option" where
  "syncOne E N S jtext http ctxErr J ord powFloor pullStart pushStart u = (\<lambda>(pt, fs, s, w).
     case map_of (np_known pt) u of
       None \<Rightarrow> Some ([], pt, fs, s, w)
     | Some st \<Rightarrow>
         (case Pull jtext (http u) ctxErr (NewClient N u) S pullStart powFloor (ps_pullSince st) s w of
            None \<Rightarrow> None
          | Some ((pulledIDs, Some err), s1, w1) \<Rightarrow> Some ([], update_peer u pull_failed pt, fs, s1, w1)
          | Some ((pulledIDs, None), s1, w1) \<Rightarrow>
              (let pt1 = update_peer u (pull_succeeded pullStart) pt
               in case Client_Hello (http u) (np_advertiseURL pt1) w1 of
                    (hello, w2) \<Rightarrow>
                      let (added, pt2) = (case hello of
                                            Inl _ \<Rightarrow> ([], pt1)
                                          | Inr gossipPeers \<Rightarrow> fold (gossip_peer N) gossipPeers ([], pt1));
                          fs2 = (if added \<noteq> [] then savePeers J ord pt2 fs else fs)
                      in case Push (http u) ctxErr S pushStart powFloor (ps_pushSince st) (\<lambda>i. i \<in> set pulledIDs) s1 w2 of
                           None \<Rightarrow> None
                         | Some ((n, Some err), w3) \<Rightarrow> Some (added, pt2, fs2, s1, w3)
                         | Some ((n, None), w3) \<Rightarrow>
                             Some (added, update_peer u (\<lambda>st. st\<lparr>ps_pushSince := pushStart\<rparr>) pt2, fs2, s1, w3))))"

section \<open>The loop\<close>

definition SyncNow :: "known_order \<Rightarrow> nodePeers \<Rightarrow> string list" where
  "SyncNow ord pt =
     (case np_syncPowFloor pt of
        None \<Rightarrow> []
      | Some _ \<Rightarrow> map fst (filter (\<lambda>(u, st). ps_skipRounds st = 0) (ord (np_known pt))))"

definition countdown :: "peerState \<Rightarrow> peerState" where
  "countdown st = (if ps_skipRounds st > 0 then st\<lparr>ps_skipRounds := ps_skipRounds st - 1\<rparr> else st)"

fun pick_oldest :: "(string \<Rightarrow> time) \<Rightarrow> string list \<Rightarrow> string \<Rightarrow> string" where
  "pick_oldest since [] pick = pick"
| "pick_oldest since (u # us) pick = pick_oldest since us (if since u < since pick then u else pick)"

definition pullSince :: "nodePeers \<Rightarrow> string \<Rightarrow> time" where
  "pullSince pt u = (case map_of (np_known pt) u of Some st \<Rightarrow> ps_pullSince st | None \<Rightarrow> zeroTime)"

text \<open>The peers of this tick and the table with the counters of the others counted down.\<close>

definition doSync_select :: "bool \<Rightarrow> known_order \<Rightarrow> nodePeers \<Rightarrow> string list \<times> nodePeers" where
  "doSync_select rotating ord pt =
     (let ready = map fst (filter (\<lambda>(u, st). \<not> ps_skipRounds st > 0) (ord (np_known pt)));
          pt' = pt\<lparr>np_known := map (\<lambda>(u, st). (u, countdown st)) (np_known pt)\<rparr>
      in (if rotating \<and> ready \<noteq> [] then [pick_oldest (pullSince pt) (tl ready) (hd ready)] else ready, pt'))"

text \<open>\<open>clock u\<close> gives the two times at which the clock is read for the peer \<open>u\<close>.\<close>

fun sync_all ::
  "env \<Rightarrow> net \<Rightarrow> 's Store \<Rightarrow> (resp_body \<Rightarrow> bytes) \<Rightarrow> (string \<Rightarrow> 'w http) \<Rightarrow> ('w \<Rightarrow> string option)
     \<Rightarrow> urls_json \<Rightarrow> known_order \<Rightarrow> int \<Rightarrow> (string \<Rightarrow> time \<times> time) \<Rightarrow> string list \<Rightarrow> nodePeers \<times> fsys \<times> 's \<times> 'w
     \<Rightarrow> (string list \<times> nodePeers \<times> fsys \<times> 's \<times> 'w) option" where
  "sync_all E N S jtext http ctxErr J ord powFloor clock [] (pt, fs, s, w) = Some ([], pt, fs, s, w)"
| "sync_all E N S jtext http ctxErr J ord powFloor clock (u # us) (pt, fs, s, w) =
     (if ctxErr w \<noteq> None then Some ([], pt, fs, s, w)
      else
        case syncOne E N S jtext http ctxErr J ord powFloor (fst (clock u)) (snd (clock u)) u (pt, fs, s, w) of
          None \<Rightarrow> None
        | Some (spawned, st) \<Rightarrow>
            map_option (\<lambda>(spawned', st'). (spawned @ spawned', st'))
              (sync_all E N S jtext http ctxErr J ord powFloor clock us st))"

definition doSync ::
  "env \<Rightarrow> net \<Rightarrow> 's Store \<Rightarrow> (resp_body \<Rightarrow> bytes) \<Rightarrow> (string \<Rightarrow> 'w http) \<Rightarrow> ('w \<Rightarrow> string option)
     \<Rightarrow> urls_json \<Rightarrow> known_order \<Rightarrow> int \<Rightarrow> (string \<Rightarrow> time \<times> time) \<Rightarrow> bool \<Rightarrow> nodePeers \<times> fsys \<times> 's \<times> 'w
     \<Rightarrow> (string list \<times> nodePeers \<times> fsys \<times> 's \<times> 'w) option" where
  "doSync E N S jtext http ctxErr J ord powFloor clock rotating = (\<lambda>(pt, fs, s, w).
     case doSync_select rotating ord pt of
       (toSync, pt') \<Rightarrow> sync_all E N S jtext http ctxErr J ord powFloor clock toSync (pt', fs, s, w))"

text \<open>The start of \<^verbatim>\<open>run\<close> and an address from the channel of discoveries.\<close>

definition run_start :: "net \<Rightarrow> urls_json \<Rightarrow> int \<Rightarrow> string list \<Rightarrow> fsys \<Rightarrow> nodePeers \<Rightarrow> string list \<times> nodePeers" where
  "run_start N J powFloor staticPeers fs pt =
     (let pt1 = loadPeers J fs (pt\<lparr>np_syncPowFloor := Some powFloor\<rparr>)
      in (map (peerURL N) staticPeers, fold (\<lambda>u pt. snd (addPeer (peerURL N u) pt)) staticPeers pt1))"

definition run_discovered :: "net \<Rightarrow> urls_json \<Rightarrow> known_order \<Rightarrow> string \<Rightarrow> nodePeers \<times> fsys \<Rightarrow> string list \<times> nodePeers \<times> fsys" where
  "run_discovered N J ord addr = (\<lambda>(pt, fs).
     case addPeer (peerURL N addr) pt of
       (False, pt') \<Rightarrow> ([], pt', fs)
     | (True, pt') \<Rightarrow> ([peerURL N addr], pt', savePeers J ord pt' fs))"

text \<open>The events of the loop: a discovered address, the end of the discoveries, a tick, and a synchronisation that runs in its
  own goroutine; the order of the map and the clock belong to the event.\<close>

datatype node_event =
    Discovered known_order string | NoMorePeers | Ticked known_order "string \<Rightarrow> time \<times> time" | Spawned known_order time time string

fun node_step ::
  "env \<Rightarrow> net \<Rightarrow> 's Store \<Rightarrow> (resp_body \<Rightarrow> bytes) \<Rightarrow> (string \<Rightarrow> 'w http) \<Rightarrow> ('w \<Rightarrow> string option)
     \<Rightarrow> urls_json \<Rightarrow> int \<Rightarrow> bool \<Rightarrow> node_event \<Rightarrow> nodePeers \<times> fsys \<times> 's \<times> 'w
     \<Rightarrow> (string list \<times> nodePeers \<times> fsys \<times> 's \<times> 'w) option" where
  "node_step E N S jtext http ctxErr J powFloor rotating (Discovered ord addr) (pt, fs, s, w) =
     (case run_discovered N J ord addr (pt, fs) of (spawned, pt', fs') \<Rightarrow> Some (spawned, pt', fs', s, w))"
| "node_step E N S jtext http ctxErr J powFloor rotating NoMorePeers (pt, fs, s, w) = Some ([], pt, fs, s, w)"
| "node_step E N S jtext http ctxErr J powFloor rotating (Ticked ord clock) (pt, fs, s, w) =
     doSync E N S jtext http ctxErr J ord powFloor clock rotating (pt, fs, s, w)"
| "node_step E N S jtext http ctxErr J powFloor rotating (Spawned ord t1 t2 u) (pt, fs, s, w) =
     syncOne E N S jtext http ctxErr J ord powFloor t1 t2 u (pt, fs, s, w)"

fun node_run ::
  "env \<Rightarrow> net \<Rightarrow> 's Store \<Rightarrow> (resp_body \<Rightarrow> bytes) \<Rightarrow> (string \<Rightarrow> 'w http) \<Rightarrow> ('w \<Rightarrow> string option)
     \<Rightarrow> urls_json \<Rightarrow> int \<Rightarrow> bool \<Rightarrow> node_event list \<Rightarrow> nodePeers \<times> fsys \<times> 's \<times> 'w
     \<Rightarrow> (nodePeers \<times> fsys \<times> 's \<times> 'w) option" where
  "node_run E N S jtext http ctxErr J powFloor rotating [] st = Some st"
| "node_run E N S jtext http ctxErr J powFloor rotating (ev # evs) (pt, fs, s, w) =
     (if ctxErr w \<noteq> None then Some (pt, fs, s, w)
      else case node_step E N S jtext http ctxErr J powFloor rotating ev (pt, fs, s, w) of
             None \<Rightarrow> None
           | Some (_, st) \<Rightarrow> node_run E N S jtext http ctxErr J powFloor rotating evs st)"

section \<open>Commands\<close>

datatype flag_err = BadStorageLimit | BadReservePhysical | BadReserveLan | BadReserveRegional | BadReserveGlobal

definition node_storage :: "string \<Rightarrow> string \<Rightarrow> string \<Rightarrow> 'db BadgerStore \<Rightarrow> flag_err + 'db BadgerStore" where
  "node_storage storageLimit reservePhysical reserveLan bs =
     (case parseBytes storageLimit of
        None \<Rightarrow> Inl BadStorageLimit
      | Some limit \<Rightarrow>
          if limit > 0 then
            (case parseBytes reservePhysical of
               None \<Rightarrow> Inl BadReservePhysical
             | Some physical \<Rightarrow>
                 (case parseBytes reserveLan of
                    None \<Rightarrow> Inl BadReserveLan
                  | Some lan \<Rightarrow>
                      Inr (WithReservations [TagPhysical \<mapsto> physical, TagLan \<mapsto> lan] (WithStorageLimit limit bs))))
          else Inr bs)"

definition relay_storage ::
  "string \<Rightarrow> string \<Rightarrow> string \<Rightarrow> string \<Rightarrow> string \<Rightarrow> 'db BadgerStore \<Rightarrow> flag_err + 'db BadgerStore" where
  "relay_storage storageLimit reservePhysical reserveLan reserveRegional reserveGlobal bs =
     (case parseBytes storageLimit of
        None \<Rightarrow> Inl BadStorageLimit
      | Some limit \<Rightarrow>
          if limit > 0 then
            (case (parseBytes reservePhysical, parseBytes reserveLan, parseBytes reserveRegional, parseBytes reserveGlobal) of
               (None, _, _, _) \<Rightarrow> Inl BadReservePhysical
             | (_, None, _, _) \<Rightarrow> Inl BadReserveLan
             | (_, _, None, _) \<Rightarrow> Inl BadReserveRegional
             | (_, _, _, None) \<Rightarrow> Inl BadReserveGlobal
             | (Some physical, Some lan, Some regional, Some global) \<Rightarrow>
                 Inr (WithReservations [TagPhysical \<mapsto> physical, TagLan \<mapsto> lan, TagRegional \<mapsto> regional, TagGlobal \<mapsto> global]
                   (WithStorageLimit limit bs)))
          else Inr bs)"

definition node_peers :: "net \<Rightarrow> string \<Rightarrow> path \<Rightarrow> nodePeers" where
  "node_peers N advertiseURL peerCache =
     new_nodePeers (if advertiseURL \<noteq> [] then peerURL N advertiseURL else []) peerCache"

text \<open>The server of a node on its LAN, and of a relay.\<close>

definition lan_relay :: "env \<Rightarrow> net \<Rightarrow> 'db badger \<Rightarrow> known_order \<Rightarrow> int \<Rightarrow> 'db BadgerStore \<Rightarrow> nodePeers \<Rightarrow> ('db BadgerStore, nodePeers) Server" where
  "lan_relay E N B ord powFloor bs pt =
     SetPeerAdder (\<lambda>u pt. snd (addPeer (peerURL N u) pt))
       (SetPeerSource (nonPenalizedPeers N ord)
         (NewServer (badger_store E B) (Some (\<lambda>s. Inr (MedianWorkFactor s))) bs powFloor pt))"

definition relay_server ::
  "env \<Rightarrow> net \<Rightarrow> 'db badger \<Rightarrow> known_order \<Rightarrow> int \<Rightarrow> string \<Rightarrow> path \<Rightarrow> path
     \<Rightarrow> geo_get \<Rightarrow> string option \<Rightarrow> (bytes \<Rightarrow> string + geo_reader) \<Rightarrow> int \<Rightarrow> time \<Rightarrow> time
     \<Rightarrow> 'db BadgerStore \<Rightarrow> nodePeers \<Rightarrow> fsys \<Rightarrow> ('db BadgerStore, nodePeers) Server \<times> fsys" where
  "relay_server E N B ord powFloor regionFlag geoipDB blocksDir get createErr opener geoipRefresh now modTime bs pt fs =
     (let srv = lan_relay E N B ord powFloor bs pt
      in if regionFlag \<noteq> [] then
           (let dbPath = (if geoipDB = [] then blocksDir @ [''geoip.mmdb''] else geoipDB);
                (g, fs') = GeoIP_Start get createErr opener geoipRefresh now modTime dbPath (NewGeoIP (splitPeers regionFlag), fs)
            in (SetGeoIP g srv, fs'))
         else (srv, fs))"

section \<open>Lemmas\<close>

lemma addPeer_lookup: "map_of (np_known pt) u = Some st \<Longrightarrow> map_of (np_known (snd (addPeer v pt))) u = Some st"
  by (auto simp: addPeer_def update_conv')

lemma gossip_peers_lookup:
  "map_of (np_known pt) u = Some st \<Longrightarrow> map_of (np_known (snd (fold (gossip_peer N) urls (added, pt)))) u = Some st"
proof (induction urls arbitrary: added pt)
  case (Cons p urls)
  obtain new pt' where a: "addPeer (peerURL N p) pt = (new, pt')" by fastforce
  then have "map_of (np_known pt') u = Some st" using addPeer_lookup [OF Cons.prems, of "peerURL N p"] by simp
  then show ?case using Cons.IH by (simp add: gossip_peer_def a)
qed simp

lemma update_peer_lookup:
  "map_of (np_known (update_peer v f pt)) u =
     (if u = v then map_option f (map_of (np_known pt) u) else map_of (np_known pt) u)"
  by (auto simp: update_peer_def update_conv' split: option.split)

lemma tick_lookup:
  "map_of (np_known (snd (doSync_select r ord pt))) u = map_option countdown (map_of (np_known pt) u)"
  by (simp add: doSync_select_def Let_def map_of_map)

lemma ticks_lookup:
  "map_of (np_known (((\<lambda>pt. snd (doSync_select r ord pt)) ^^ n) pt)) u = map_option (countdown ^^ n) (map_of (np_known pt) u)"
proof (induction n)
  case 0
  show ?case by (simp add: option.map_ident)
next
  case (Suc n)
  then show ?case by (simp add: tick_lookup option.map_comp comp_def)
qed

lemma countdown_iter:
  "ps_skipRounds ((countdown ^^ n) st) = (if 0 \<le> ps_skipRounds st then max 0 (ps_skipRounds st - int n) else ps_skipRounds st)"
  by (induction n) (auto simp: countdown_def)

lemma ready_iff:
  assumes "order_ok ord" "distinct (map fst (np_known pt))"
  shows "u \<in> set (fst (doSync_select False ord pt)) \<longleftrightarrow> (\<exists>st. map_of (np_known pt) u = Some st \<and> ps_skipRounds st \<le> 0)"
proof -
  have "u \<in> set (fst (doSync_select False ord pt)) \<longleftrightarrow> (\<exists>st. (u, st) \<in> set (np_known pt) \<and> ps_skipRounds st \<le> 0)"
    using order_okD(1) [OF assms(1)] by (force simp: doSync_select_def Let_def)
  then show ?thesis using assms(2) by simp
qed

text \<open>The table of peers stays within its limit and never holds the node itself.\<close>

definition np_inv :: "string \<Rightarrow> nodePeers \<Rightarrow> bool" where
  "np_inv adv pt \<longleftrightarrow>
     distinct (map fst (np_known pt)) \<and> length (np_known pt) \<le> maxPeers \<and> np_advertiseURL pt = adv \<and>
     (adv \<noteq> [] \<longrightarrow> adv \<notin> fst ` set (np_known pt))"

lemma update_new: "map_of xs k = None \<Longrightarrow> AList.update k v xs = xs @ [(k, v)]"
  by (induction xs) auto

lemma map_fst_update: "map_of xs k = Some x \<Longrightarrow> map fst (AList.update k v xs) = map fst xs"
  by (induction xs) auto

lemma addPeer_inv:
  assumes "np_inv adv pt"
  shows "np_inv adv (snd (addPeer u pt))"
proof (cases "fst (addPeer u pt)")
  case True
  then have "map_of (np_known pt) u = None" "length (np_known pt) < maxPeers" "adv \<noteq> [] \<longrightarrow> u \<noteq> adv"
    "np_known (snd (addPeer u pt)) = np_known pt @ [(u, peerState0)]" "np_advertiseURL (snd (addPeer u pt)) = np_advertiseURL pt"
    using assms by (auto simp: addPeer_def np_inv_def update_new split: if_splits)
  then show ?thesis using assms by (auto simp: np_inv_def map_of_eq_None_iff)
next
  case False
  then show ?thesis using assms by (auto simp: addPeer_def split: if_splits)
qed

lemma addPeers_inv: "np_inv adv pt \<Longrightarrow> np_inv adv (fold (\<lambda>u pt. snd (addPeer (f u) pt)) us pt)"
  by (induction us arbitrary: pt) (simp_all add: addPeer_inv)

lemma gossip_peers_inv: "np_inv adv pt \<Longrightarrow> np_inv adv (snd (fold (gossip_peer N) us (added, pt)))"
proof (induction us arbitrary: added pt)
  case (Cons p us)
  obtain new pt' where a: "addPeer (peerURL N p) pt = (new, pt')" by fastforce
  then show ?case using Cons.IH addPeer_inv [OF Cons.prems, of "peerURL N p"] by (simp add: gossip_peer_def)
qed simp

lemma known_keys_inv:
  assumes "np_inv adv pt" "map fst (np_known pt') = map fst (np_known pt)" "np_advertiseURL pt' = np_advertiseURL pt"
  shows "np_inv adv pt'"
proof -
  have "fst ` set (np_known pt') = fst ` set (np_known pt)" "length (np_known pt') = length (np_known pt)"
    using assms(2) by (metis set_map, metis length_map)
  then show ?thesis using assms by (simp add: np_inv_def)
qed

lemma update_peer_inv: "np_inv adv pt \<Longrightarrow> np_inv adv (update_peer u f pt)"
  by (erule known_keys_inv) (auto simp: update_peer_def map_fst_update split: option.split)

lemma doSync_select_inv: "np_inv adv pt \<Longrightarrow> np_inv adv (snd (doSync_select r ord pt))"
  by (erule known_keys_inv) (auto simp: doSync_select_def Let_def)

text \<open>What one synchronisation does to the peer's entry, and to the rest of the table.\<close>

lemma syncOne_cases:
  assumes "syncOne E N S jtext http ctxErr J ord pf t1 t2 u (pt, fs, s, w) = Some (sp, pt', fs', s', w')"
    and "map_of (np_known pt) u = Some st"
  obtains ids err s1 w1 where "Pull jtext (http u) ctxErr (NewClient N u) S t1 pf (ps_pullSince st) s w = Some ((ids, Some err), s1, w1)"
      "pt' = update_peer u pull_failed pt"
  | ids s1 w1 urls w2 n err w3 pt2 where
      "Pull jtext (http u) ctxErr (NewClient N u) S t1 pf (ps_pullSince st) s w = Some ((ids, None), s1, w1)"
      "Push (http u) ctxErr S t2 pf (ps_pushSince st) (\<lambda>i. i \<in> set ids) s1 w2 = Some ((n, err), w3)"
      "pt2 = snd (fold (gossip_peer N) urls ([], update_peer u (pull_succeeded t1) pt))"
      "pt' = (if err = None then update_peer u (\<lambda>st. st\<lparr>ps_pushSince := t2\<rparr>) pt2 else pt2)"
proof -
  obtain ids perr s1 w1 where p: "Pull jtext (http u) ctxErr (NewClient N u) S t1 pf (ps_pullSince st) s w = Some ((ids, perr), s1, w1)"
    using assms by (auto simp: syncOne_def split: option.splits)
  show thesis
  proof (cases perr)
    case (Some err)
    then show thesis using assms p by (intro that(1) [of ids err s1 w1]) (simp_all add: syncOne_def)
  next
    case None
    let ?pt1 = "update_peer u (pull_succeeded t1) pt"
    obtain hello w2 where h: "Client_Hello (http u) (np_advertiseURL ?pt1) w1 = (hello, w2)" by fastforce
    define urls where "urls = (case hello of Inl _ \<Rightarrow> [] | Inr us \<Rightarrow> us)"
    obtain added pt2 where g: "fold (gossip_peer N) urls ([], ?pt1) = (added, pt2)" by fastforce
    have g': "(case hello of Inl _ \<Rightarrow> ([], ?pt1) | Inr us \<Rightarrow> fold (gossip_peer N) us ([], ?pt1)) = (added, pt2)"
      using g by (cases hello) (simp_all add: urls_def)
    obtain n err w3 where q: "Push (http u) ctxErr S t2 pf (ps_pushSince st) (\<lambda>i. i \<in> set ids) s1 w2 = Some ((n, err), w3)"
      "pt' = (if err = None then update_peer u (\<lambda>st. st\<lparr>ps_pushSince := t2\<rparr>) pt2 else pt2)"
      using assms p None h g' by (auto simp: syncOne_def Let_def split: option.splits)
    show thesis using g by (intro that(2) [OF p [unfolded None] q(1) _ q(2), of urls]) simp
  qed
qed

lemma syncOne_unknown:
  "map_of (np_known pt) u = None \<Longrightarrow> syncOne E N S jtext http ctxErr J ord pf t1 t2 u (pt, fs, s, w) = Some ([], pt, fs, s, w)"
  by (simp add: syncOne_def)

lemma syncOne_inv:
  assumes "np_inv adv pt" "syncOne E N S jtext http ctxErr J ord pf t1 t2 u (pt, fs, s, w) = Some (sp, pt', fs', s', w')"
  shows "np_inv adv pt'"
proof (cases "map_of (np_known pt) u")
  case None
  then show ?thesis using assms syncOne_unknown [OF None, of E N S jtext http ctxErr J ord pf t1 t2 fs s w] by simp
next
  case (Some st)
  from assms(2) Some show ?thesis
    by (rule syncOne_cases) (simp_all add: update_peer_inv gossip_peers_inv assms(1))
qed

lemma sync_all_inv:
  "np_inv adv pt \<Longrightarrow> sync_all E N S jtext http ctxErr J ord pf clock us (pt, fs, s, w) = Some (sp, pt', fs', s', w') \<Longrightarrow> np_inv adv pt'"
proof (induction us arbitrary: pt fs s w sp)
  case (Cons u us)
  show ?case
  proof (cases "ctxErr w")
    case (Some e)
    then show ?thesis using Cons.prems by simp
  next
    case None
    then obtain sp1 pt1 fs1 s1 w1 sp2 where
      1: "syncOne E N S jtext http ctxErr J ord pf (fst (clock u)) (snd (clock u)) u (pt, fs, s, w) = Some (sp1, pt1, fs1, s1, w1)"
      "sync_all E N S jtext http ctxErr J ord pf clock us (pt1, fs1, s1, w1) = Some (sp2, pt', fs', s', w')"
      using Cons.prems(2) by (auto split: option.splits)
    show ?thesis using Cons.IH [OF syncOne_inv [OF Cons.prems(1) 1(1)] 1(2)] .
  qed
qed simp

section \<open>Properties\<close>

text \<open>The tables of peers that a node can have: its start, what other nodes announce and a
  scan discovers, synchronisations with one peer and ticks of the loop.\<close>

inductive np_reach ::
  "env \<Rightarrow> net \<Rightarrow> 's Store \<Rightarrow> (string \<Rightarrow> 'w http) \<Rightarrow> string \<Rightarrow> path \<Rightarrow> nodePeers \<Rightarrow> bool"
  for E N S http adv peersFile where
  New: "np_reach E N S http adv peersFile (new_nodePeers adv peersFile)"
| Start: "np_reach E N S http adv peersFile pt \<Longrightarrow>
    np_reach E N S http adv peersFile (snd (run_start N J powFloor staticPeers fs pt))"
| Discovered: "np_reach E N S http adv peersFile pt \<Longrightarrow> run_discovered N J ord addr (pt, fs) = (sp, pt', fs') \<Longrightarrow>
    np_reach E N S http adv peersFile pt'"
| Hello: "np_reach E N S http adv peersFile pt \<Longrightarrow> np_reach E N S http adv peersFile (snd (addPeer (peerURL N u) pt))"
| SyncOne: "np_reach E N S http adv peersFile pt \<Longrightarrow>
    syncOne E N S jtext http ctxErr J ord powFloor t1 t2 u (pt, fs, s, w) = Some (sp, pt', fs', s', w') \<Longrightarrow>
    np_reach E N S http adv peersFile pt'"
| Tick: "np_reach E N S http adv peersFile pt \<Longrightarrow>
    doSync E N S jtext http ctxErr J ord powFloor clock rotating (pt, fs, s, w) = Some (sp, pt', fs', s', w') \<Longrightarrow>
    np_reach E N S http adv peersFile pt'"

lemma np_reach_inv:
  assumes "np_reach E N S http adv peersFile pt"
  shows "np_inv adv pt"
  using assms
proof induction
  case New
  show ?case by (simp add: new_nodePeers_def np_inv_def)
next
  case (Start pt J powFloor staticPeers fs)
  have "np_inv adv (pt\<lparr>np_syncPowFloor := Some powFloor\<rparr>)" using Start.IH by (simp add: np_inv_def)
  then have "np_inv adv (loadPeers J fs (pt\<lparr>np_syncPowFloor := Some powFloor\<rparr>))"
    using addPeers_inv [where f = "\<lambda>u. u"] by (simp add: loadPeers_def split: sum.split option.split)
  then show ?case using addPeers_inv [where f = "peerURL N"] by (simp add: run_start_def Let_def)
next
  case (Discovered pt J ord addr fs sp pt' fs')
  then show ?case using addPeer_inv [OF Discovered.IH, of "peerURL N addr"]
    by (auto simp: run_discovered_def split: prod.splits bool.splits)
next
  case (Hello pt u)
  show ?case by (rule addPeer_inv [OF Hello.IH])
next
  case (SyncOne pt jtext ctxErr J ord powFloor t1 t2 u fs s w sp pt' fs' s' w')
  show ?case by (rule syncOne_inv [OF SyncOne.IH SyncOne.hyps(2)])
next
  case (Tick pt jtext ctxErr J ord powFloor clock rotating fs s w sp pt' fs' s' w')
  obtain us pt1 where "doSync_select rotating ord pt = (us, pt1)" by fastforce
  moreover from this have "np_inv adv pt1" using doSync_select_inv [OF Tick.IH, of rotating ord] by simp
  ultimately show ?case using Tick.hyps(2) sync_all_inv unfolding doSync_def by fastforce
qed

lemma node_step_reach:
  assumes "np_reach E N S http adv peersFile pt"
    and "node_step E N S jtext http ctxErr J powFloor rotating ev (pt, fs, s, w) = Some (sp, pt', st)"
  shows "np_reach E N S http adv peersFile pt'"
proof (cases ev)
  case (Discovered ord addr)
  then show ?thesis using assms(2) np_reach.Discovered [OF assms(1), of J ord addr fs] by (auto split: prod.splits)
next
  case NoMorePeers
  then show ?thesis using assms by simp
next
  case (Ticked ord clock)
  then show ?thesis using assms(2) np_reach.Tick [OF assms(1)] by (cases st) auto
next
  case (Spawned ord t1 t2 u)
  then show ?thesis using assms(2) np_reach.SyncOne [OF assms(1)] by (cases st) auto
qed

lemma node_run_reach:
  assumes "np_reach E N S http adv peersFile pt"
    and "node_run E N S jtext http ctxErr J powFloor rotating evs (pt, fs, s, w) = Some (pt', fs', s', w')"
  shows "np_reach E N S http adv peersFile pt'"
  using assms
proof (induction evs arbitrary: pt fs s w)
  case (Cons ev evs)
  show ?case
  proof (cases "ctxErr w")
    case None
    then obtain sp pt1 fs1 s1 w1 where st: "node_step E N S jtext http ctxErr J powFloor rotating ev (pt, fs, s, w) = Some (sp, pt1, fs1, s1, w1)"
      "node_run E N S jtext http ctxErr J powFloor rotating evs (pt1, fs1, s1, w1) = Some (pt', fs', s', w')"
      using Cons.prems(2) by (auto split: option.splits)
    show ?thesis by (rule Cons.IH [OF node_step_reach [OF Cons.prems(1) st(1)] st(2)])
  next
    case (Some e)
    then show ?thesis using Cons.prems by simp
  qed
qed simp

text \<open>In every table of peers that a node can have, at its start or after any run of the loop, the URLs are distinct, there are at
  most 200 of them and the node's own address is not among them; and what its server tells others
  about is a part of the table without addresses of private networks.\<close>

theorem node_peers_invariant:
  assumes "np_reach E N S http adv peersFile pt0" "order_ok ord"
    and "node_run E N S jtext http ctxErr J powFloor' rotating evs (pt0, fs, s, w) = Some (pt, fs', s', w')"
  shows "distinct (map fst (np_known pt)) \<and> length (np_known pt) \<le> maxPeers \<and>
    (adv \<noteq> [] \<longrightarrow> adv \<notin> set (nonPenalizedPeers N ord pt)) \<and>
    known_peers (lan_relay E N B ord powFloor bs pt) = nonPenalizedPeers N ord pt \<and>
    (\<forall>u \<in> set (nonPenalizedPeers N ord pt). \<forall>host ip. url_Hostname N u = Some host \<and> net_ParseIP N host = Some ip \<longrightarrow> \<not> isLanIP ip)"
proof -
  have i: "np_inv adv pt" by (rule np_reach_inv [OF node_run_reach [OF assms(1,3)]])
  have mem: "(\<exists>st. (u, st) \<in> set (np_known pt)) \<and> isPublicURL N u" if "u \<in> set (nonPenalizedPeers N ord pt)" for u
    using that order_okD(1) [OF assms(2)] by (auto simp: nonPenalizedPeers_def)
  have "adv \<notin> set (nonPenalizedPeers N ord pt)" if "adv \<noteq> []"
  proof
    assume "adv \<in> set (nonPenalizedPeers N ord pt)"
    then obtain st where "(adv, st) \<in> set (np_known pt)" using mem by blast
    then have "adv \<in> fst ` set (np_known pt)" by force
    then show False using i that by (simp add: np_inv_def)
  qed
  moreover have "known_peers (lan_relay E N B ord powFloor bs pt) = nonPenalizedPeers N ord pt"
    by (simp add: known_peers_def lan_relay_def SetPeerAdder_def SetPeerSource_def NewServer_def)
  moreover have "\<not> isLanIP ip" if "u \<in> set (nonPenalizedPeers N ord pt)" "url_Hostname N u = Some host" "net_ParseIP N host = Some ip" for u host ip
    using mem [OF that(1)] that(2,3) by (simp add: isPublicURL_def isLanIP_def)
  ultimately show ?thesis using i by (simp add: np_inv_def)
qed

text \<open>A peer that fails for the \<open>k\<close>-th time in a row, \<open>k < 63\<close>, is left out of exactly the next
  \<open>min (2 ^ k) 64\<close> ticks and is tried again in the one after them.\<close>

theorem backoff_rounds:
  assumes "order_ok ord" "np_inv adv pt" "map_of (np_known pt) u = Some st" "0 \<le> ps_failures st" "ps_failures st < 62"
  shows "u \<in> set (fst (doSync_select False ord (((\<lambda>pt. snd (doSync_select False ord pt)) ^^ n) (update_peer u pull_failed pt)))) \<longleftrightarrow>
    min (2 ^ (nat (ps_failures st) + 1)) 64 \<le> n"
proof -
  define k where "k = nat (ps_failures st) + 1"
  let ?tick = "\<lambda>pt. snd (doSync_select False ord pt)"
  have inv: "np_inv adv ((?tick ^^ m) (update_peer u pull_failed pt))" for m
    by (induction m) (simp_all add: doSync_select_inv update_peer_inv assms(2))
  have f: "wrap64 (ps_failures st + 1) = ps_failures st + 1" using assms(4,5) by (intro wrap64_id) (simp add: in_int64_def)
  have k: "nat (ps_failures st + 1) = k" using assms(4) by (simp add: k_def nat_add_distrib)
  have "(2 :: int) ^ k \<le> 2 ^ 62" using assms(5) by (intro power_increasing) (auto simp: k_def)
  moreover have "(0 :: int) \<le> 2 ^ k" by simp
  ultimately have "wrap64 (2 ^ k) = 2 ^ k" by (intro wrap64_id) (simp add: in_int64_def del: zero_le_power)
  then have sk: "ps_skipRounds (pull_failed st) = min (2 ^ k) 64"
    by (simp add: pull_failed_def backoffRounds_def Let_def maxBackoffRounds_def f k min_def)
  have "u \<in> set (fst (doSync_select False ord ((?tick ^^ n) (update_peer u pull_failed pt)))) \<longleftrightarrow> min (2 ^ k) 64 \<le> int n"
    using ready_iff [OF assms(1), of "(?tick ^^ n) (update_peer u pull_failed pt)" u] inv [of n] sk
    by (auto simp: np_inv_def ticks_lookup update_peer_lookup assms(3) countdown_iter)
  also have "\<dots> \<longleftrightarrow> min (2 ^ k) 64 \<le> n"
    by (metis (mono_tags, opaque_lifting) of_nat_le_iff of_nat_min of_nat_numeral of_nat_power)
  finally show ?thesis by (simp add: k_def)
qed

text \<open>From the 63rd failure in a row on the shift leaves the range of the integers:
  there is no backoff any more and the peer is tried in every tick.\<close>

theorem backoff_lost:
  assumes "order_ok ord" "np_inv adv pt" "map_of (np_known pt) u = Some st" "62 \<le> ps_failures st" "ps_failures st < 2 ^ 63 - 1"
  shows "u \<in> set (fst (doSync_select False ord (update_peer u pull_failed pt)))"
proof -
  have f: "wrap64 (ps_failures st + 1) = ps_failures st + 1" using assms(4,5) by (intro wrap64_id) (simp add: in_int64_def)
  define k where "k = nat (ps_failures st + 1)"
  have k: "63 \<le> k" using assms(4) by (simp add: k_def)
  have "wrap64 (2 ^ k) \<le> 0"
  proof (cases "k = 63")
    case True
    then show ?thesis by (simp add: wrap64_def)
  next
    case False
    then have z: "(2 :: u64) ^ k = 0" using k by (simp add: exp_eq_zero_iff)
    then show ?thesis unfolding wrap64_def of_int_power of_int_numeral z by simp
  qed
  then have "ps_skipRounds (pull_failed st) \<le> 0"
    by (simp add: pull_failed_def backoffRounds_def Let_def maxBackoffRounds_def f flip: k_def)
  then show ?thesis
    using ready_iff [OF assms(1), of "update_peer u pull_failed pt" u] update_peer_inv [OF assms(2), of u pull_failed]
    by (simp add: np_inv_def update_peer_lookup assms(3))
qed

text \<open>A node that knows one peer, with a number of failures.\<close>

definition one_peer :: "int \<Rightarrow> nodePeers" where
  "one_peer n = \<lparr>np_known = [(''http://a'', peerState0\<lparr>ps_failures := n\<rparr>)], np_advertiseURL = [], np_peersFile = [],
     np_syncPowFloor = None\<rparr>"

lemma one_peer: "np_inv [] (one_peer n)" "map_of (np_known (one_peer n)) ''http://a'' = Some (peerState0\<lparr>ps_failures := n\<rparr>)"
  by (simp_all add: one_peer_def np_inv_def maxPeers_def)

lemma order_ok_rev: "order_ok rev"
  by (simp add: order_ok_def)

theorem node_peers_invariant_witness:
  "length (np_known (snd (addPeer (peerURL net0 ''a:1'') (new_nodePeers [] [])))) \<le> 200"
proof -
  let ?pt = "snd (addPeer (peerURL net0 ''a:1'') (new_nodePeers [] []))"
  let ?http = "\<lambda>_. serve_http env0 net0 0 [] :: (mem_db BadgerStore, unit) Server http"
  have r: "np_reach env0 net0 (badger_store env0 mem_badger) ?http [] [] ?pt" by (rule np_reach.Hello [OF np_reach.New])
  have "node_run env0 net0 (badger_store env0 mem_badger) (\<lambda>_. []) ?http (\<lambda>_. None)
      \<lparr>uj_Marshal = (\<lambda>_. []), uj_Unmarshal = (\<lambda>_. None)\<rparr> 0 True [NoMorePeers] (?pt, fs_empty, OpenBadger [], one_relay) =
      Some (?pt, fs_empty, OpenBadger [], one_relay)"
    by simp
  from node_peers_invariant [OF r order_ok_rev this, of mem_badger 0 one_block] show ?thesis by (simp add: maxPeers_def)
qed

theorem backoff_rounds_witness:
  "''http://a'' \<notin> set (fst (doSync_select False rev
     (((\<lambda>pt. snd (doSync_select False rev pt)) ^^ 7) (update_peer ''http://a'' pull_failed (one_peer 2))))) \<and>
   ''http://a'' \<in> set (fst (doSync_select False rev
     (((\<lambda>pt. snd (doSync_select False rev pt)) ^^ 8) (update_peer ''http://a'' pull_failed (one_peer 2)))))"
  using backoff_rounds [OF order_ok_rev one_peer, of 2] by (simp add: peerState0_def)

theorem backoff_lost_witness:
  "''http://a'' \<in> set (fst (doSync_select False rev (update_peer ''http://a'' pull_failed (one_peer 62))))"
  by (rule backoff_lost [OF order_ok_rev one_peer]) simp_all

text \<open>What one synchronisation records, on every path: a failed download counts as a failure
  and changes no time; after a download its start becomes the bound of the next
  download; only after an upload that succeeded its start becomes the bound of the next upload.\<close>

theorem syncOne_records:
  assumes "syncOne E N S jtext http ctxErr J ord powFloor t1 t2 u (pt, fs, s, w) = Some (spawned, pt', fs', s', w')"
    and "map_of (np_known pt) u = Some st"
  shows "(\<exists>ids err s1 w1. Pull jtext (http u) ctxErr (NewClient N u) S t1 powFloor (ps_pullSince st) s w = Some ((ids, Some err), s1, w1) \<and>
      map_of (np_known pt') u = Some (pull_failed st)) \<or>
    (\<exists>ids s1 w1 w2 n err w3.
      Pull jtext (http u) ctxErr (NewClient N u) S t1 powFloor (ps_pullSince st) s w = Some ((ids, None), s1, w1) \<and>
      Push (http u) ctxErr S t2 powFloor (ps_pushSince st) (\<lambda>i. i \<in> set ids) s1 w2 = Some ((n, err), w3) \<and>
      map_of (np_known pt') u =
        Some \<lparr>ps_skipRounds = 0, ps_failures = 0, ps_pullSince = t1, ps_pushSince = (if err = None then t2 else ps_pushSince st)\<rparr>)"
  using assms
proof (rule syncOne_cases)
  fix ids err s1 w1
  assume "Pull jtext (http u) ctxErr (NewClient N u) S t1 powFloor (ps_pullSince st) s w = Some ((ids, Some err), s1, w1)"
    "pt' = update_peer u pull_failed pt"
  then show ?thesis by (simp add: update_peer_lookup assms(2))
next
  fix ids s1 w1 urls w2 n err w3 pt2
  assume a: "Pull jtext (http u) ctxErr (NewClient N u) S t1 powFloor (ps_pullSince st) s w = Some ((ids, None), s1, w1)"
    "Push (http u) ctxErr S t2 powFloor (ps_pushSince st) (\<lambda>i. i \<in> set ids) s1 w2 = Some ((n, err), w3)"
    "pt2 = snd (fold (gossip_peer N) urls ([], update_peer u (pull_succeeded t1) pt))"
    "pt' = (if err = None then update_peer u (\<lambda>st. st\<lparr>ps_pushSince := t2\<rparr>) pt2 else pt2)"
  have "map_of (np_known pt2) u = Some (pull_succeeded t1 st)"
    unfolding a(3) by (rule gossip_peers_lookup) (simp add: update_peer_lookup assms(2))
  then have "map_of (np_known pt') u =
      Some \<lparr>ps_skipRounds = 0, ps_failures = 0, ps_pullSince = t1, ps_pushSince = (if err = None then t2 else ps_pushSince st)\<rparr>"
    by (cases st) (simp add: a(4) update_peer_lookup pull_succeeded_def)
  then show ?thesis using a(1,2) by blast
qed


theorem syncOne_records_witness:
  "\<exists>pt'. syncOne env0 net0 (badger_store env0 mem_badger) (\<lambda>_. []) (\<lambda>_ _ w. (Inl (DoErr ''down''), w)) (\<lambda>_. None)
      \<lparr>uj_Marshal = (\<lambda>_. []), uj_Unmarshal = (\<lambda>_. None)\<rparr> rev 0 7 8 ''http://a'' (one_peer 2, fs_empty, OpenBadger [], ()) =
      Some ([], pt', fs_empty, OpenBadger [], ()) \<and>
    map_of (np_known pt') ''http://a'' = Some (peerState0\<lparr>ps_failures := 3, ps_skipRounds := 8\<rparr>)"
proof -
  let ?http = "\<lambda>_ w. (Inl (DoErr ''down''), w)" and ?J = "\<lparr>uj_Marshal = (\<lambda>_. []), uj_Unmarshal = (\<lambda>_. None)\<rparr>"
  have z: "badger_inv env0 mem_badger 7 (OpenBadger [])"
    using badger_inv_open [OF env0_clock(1), of 7 0] by (simp add: env0_clock flip: open_no_limit)
  obtain b where b: "BloomOfStore (badger_store env0 mem_badger) 7 (OpenBadger []) = Some (Inr b)"
    by (rule block_store.BloomOfStore_complete [OF badger.block_store_axioms z]) (rule that)
  have p: "Pull (\<lambda>_. []) ?http (\<lambda>_. None) (NewClient net0 ''http://a'') (badger_store env0 mem_badger) 7 0 zeroTime
      (OpenBadger []) () = Some (([], Some (RelayFail (relayErr ''relay delta: '' (DoErr ''down'')))), OpenBadger [], ())"
    by (simp add: Pull_def b Client_Delta_def)
  have st: "ps_pullSince (peerState0\<lparr>ps_failures := 2\<rparr>) = zeroTime" by (simp add: peerState0_def)
  obtain pt' where r: "syncOne env0 net0 (badger_store env0 mem_badger) (\<lambda>_. []) (\<lambda>_. ?http) (\<lambda>_. None) ?J rev 0 7 8 ''http://a''
      (one_peer 2, fs_empty, OpenBadger [], ()) = Some ([], pt', fs_empty, OpenBadger [], ())"
    using p by (simp add: syncOne_def one_peer(2) st)
  have "map_of (np_known pt') ''http://a'' = Some (pull_failed (peerState0\<lparr>ps_failures := 2\<rparr>))"
    using syncOne_records [OF r one_peer(2)] p by (auto simp: st)
  moreover have "pull_failed (peerState0\<lparr>ps_failures := 2\<rparr>) = peerState0\<lparr>ps_failures := 3, ps_skipRounds := 8\<rparr>"
    by (simp add: pull_failed_def backoffRounds_def maxBackoffRounds_def Let_def wrap64_def peerState0_def)
  ultimately show ?thesis using r by auto
qed


lemma sscanf_decimal:
  assumes "int n < 2 ^ 63" "junk = [] \<or> \<not> isDigit (hd junk)"
  shows "sscanf_d (decimal n @ junk) = Some (int n)"
proof -
  have "isDigit (hd (decimal n))" using decimal_isDigit [of "hd (decimal n)" n] by simp
  then have "hd (decimal n) \<notin> {CHR ''-'', CHR ''+''}" by (auto simp: isDigit_def)
  moreover have "takeWhile isDigit (decimal n @ junk) = decimal n"
  proof -
    have "takeWhile isDigit (decimal n @ junk) = decimal n @ takeWhile isDigit junk"
      using decimal_isDigit by (intro takeWhile_append2) auto
    moreover have "takeWhile isDigit junk = []" using assms(2) by (cases junk) auto
    ultimately show ?thesis by simp
  qed
  ultimately show ?thesis using assms(1) by (simp add: sscanf_d_def Let_def undecimal_decimal in_int64_def)
qed

lemma TrimSpace_decimal: "junk = [] \<or> visible (last junk) \<Longrightarrow> TrimSpace (decimal n @ junk) = decimal n @ junk"
  using decimal_visible [of "hd (decimal n)" n] decimal_visible [of "last (decimal n)" n]
  by (intro TrimSpace_visible) (auto simp: last_append)

lemma suffix_same_length: "length a = length b \<Longrightarrow> suffix a (xs @ b) \<longleftrightarrow> a = b"
  by (auto simp: suffix_def)

lemma parse_no_suffix: "\<forall>x \<in> set sfs. \<not> suffix (fst x) (ToUpper s) \<Longrightarrow> parse_suffixed s sfs = sscanf_d s"
  by (induction sfs) auto

lemma parse_unit:
  assumes "int n < 2 ^ 63" "ToUpper sfx = sfx"
  shows "\<forall>x \<in> set sfs. length (fst x) = length sfx \<Longrightarrow> map_of sfs sfx = Some m \<Longrightarrow>
    parse_suffixed (decimal n @ sfx) sfs = Some (wrap64 (int n * m))"
proof (induction sfs)
  case (Cons x sfs)
  obtain a k where x: "x = (a, k)" by (cases x)
  have t: "TrimSpace (take (length (decimal n @ sfx) - length a) (decimal n @ sfx)) = decimal n"
    using Cons.prems(1) TrimSpace_decimal [of "[]" n] by (simp add: x)
  have "suffix a (ToUpper (decimal n @ sfx)) \<longleftrightarrow> a = sfx"
    using Cons.prems(1) assms(2) suffix_same_length [of a sfx "ToUpper (decimal n)"] by (simp add: x ToUpper_def)
  then show ?case using Cons t sscanf_decimal [OF assms(1), of "[]"] by (auto simp: x)
qed simp

lemma suffix_lengths: "\<forall>x \<in> set byteSuffixes. length (fst x) = 2"
  by (simp add: byteSuffixes_def)

lemma parseBytes_unit:
  assumes "int n < 2 ^ 63" "ToUpper sfx = sfx" "length sfx = 2" "map_of byteSuffixes sfx = Some m" "visible (last sfx)"
  shows "parseBytes (decimal n @ sfx) = Some (wrap64 (int n * m))"
proof -
  have "decimal n @ sfx \<noteq> ''0''" using decimal_zero [of n sfx] assms(3) by auto
  then show ?thesis
    using parse_unit [OF assms(1,2), of byteSuffixes m] suffix_lengths assms(3,4) TrimSpace_decimal [of sfx n] assms(5)
    by (simp add: parseBytes_def Let_def)
qed

lemma digits_no_suffix: "x \<in> set byteSuffixes \<Longrightarrow> \<not> suffix (fst x) (ToUpper (decimal n))"
proof
  assume x: "x \<in> set byteSuffixes" "suffix (fst x) (ToUpper (decimal n))"
  have "last (ToUpper (decimal n)) = CHR ''B''" using x by (auto simp: byteSuffixes_def suffix_def)
  moreover have "last (ToUpper (decimal n)) = upperChar (last (decimal n))" by (simp add: ToUpper_def last_map)
  moreover have d: "isDigit (last (decimal n))" by (rule decimal_isDigit [OF last_in_set]) simp
  moreover have "upperChar c = c" if "isDigit c" for c
    using that by (auto simp: upperChar_def isDigit_def less_eq_char_def)
  ultimately have "isDigit (CHR ''B'')" by metis
  then show False by (simp add: isDigit_def)
qed

text \<open>C40: a whole number with a unit is that many units in 64-bit arithmetic, and what
  follows the digits is ignored unless it is a unit: 10GiB are ten bytes.\<close>

theorem parseBytes_reads:
  assumes "int n < 2 ^ 63"
  shows "parseBytes (decimal n @ ''TB'') = Some (wrap64 (int n * 2 ^ 40)) \<and>
    parseBytes (decimal n @ ''GB'') = Some (wrap64 (int n * 2 ^ 30)) \<and>
    parseBytes (decimal n @ ''MB'') = Some (wrap64 (int n * 2 ^ 20)) \<and>
    parseBytes (decimal n @ ''KB'') = Some (wrap64 (int n * 2 ^ 10)) \<and>
    (junk = [] \<or> \<not> isDigit (hd junk) \<and> visible (last junk) \<and> (\<forall>x \<in> set byteSuffixes. \<not> suffix (fst x) (ToUpper (decimal n @ junk)))
      \<longrightarrow> parseBytes (decimal n @ junk) = Some (int n))"
proof -
  have plain: "parseBytes (decimal n @ junk) = Some (int n)"
    if j: "junk = [] \<or> \<not> isDigit (hd junk) \<and> visible (last junk) \<and> (\<forall>x \<in> set byteSuffixes. \<not> suffix (fst x) (ToUpper (decimal n @ junk)))"
  proof (cases "decimal n @ junk = ''0''")
    case True
    have "TrimSpace (decimal n @ junk) = decimal n @ junk" using j by (intro TrimSpace_decimal) auto
    then show ?thesis using decimal_zero [OF True] True by (simp add: parseBytes_def Let_def)
  next
    case False
    have "\<forall>x \<in> set byteSuffixes. \<not> suffix (fst x) (ToUpper (decimal n @ junk))"
      using j digits_no_suffix by auto
    then show ?thesis using j False sscanf_decimal [OF assms, of junk] TrimSpace_decimal [of junk n]
      by (auto simp: parseBytes_def Let_def parse_no_suffix)
  qed
  have u: "ToUpper ''TB'' = ''TB''" "ToUpper ''GB'' = ''GB''" "ToUpper ''MB'' = ''MB''" "ToUpper ''KB'' = ''KB''"
    by (simp_all add: ToUpper_def upperChar_def less_eq_char_def)
  have v: "visible (CHR ''B'')" by (simp add: visible_def)
  note unit = parseBytes_unit [OF assms]
  show ?thesis using unit [OF u(1)] unit [OF u(2)] unit [OF u(3)] unit [OF u(4)] plain v by (simp add: byteSuffixes_def)
qed

theorem parseBytes_reads_witness:
  "parseBytes ''10GiB'' = Some 10 \<and> parseBytes ''10GB'' = Some (10 * 2 ^ 30) \<and> parseBytes ''8388608TB'' = Some (- (2 ^ 63))"
proof -
  have d: "decimal 10 = ''10''" "decimal 8388608 = ''8388608''" by (simp_all add: decimal.simps, code_simp+)
  have j: "\<not> isDigit (hd ''GiB'') \<and> visible (last ''GiB'') \<and> (\<forall>x \<in> set byteSuffixes. \<not> suffix (fst x) (ToUpper (decimal 10 @ ''GiB'')))"
    by (simp add: d isDigit_def visible_def byteSuffixes_def ToUpper_def upperChar_def less_eq_char_def suffix_Cons, code_simp)
  show ?thesis using parseBytes_reads [of 10 "''GiB''"] parseBytes_reads [of 8388608 "[]"] j
    by (simp add: d wrap64_def)
qed

end
