(* ===== verification/Api.thy ===== *)
theory Api
  imports Scraper PeerTracker Decimal
begin

text \<open>
  \<^verbatim>\<open>client/api/\<close>: the HTTP interface of the client.  One definition per handler, on a
  record with the fields of \<^verbatim>\<open>Server\<close> and the file system.  A request is a value with the
  decoded path and query parameters and the decoded body (\<open>None\<close>: the body is not the JSON that the handler
  wants); a handler gives an outcome and the server afterwards.  A dereferenced nil pointer
  is \<open>Panic\<close>, a loop that does not end \<open>Stuck\<close>.  What a handler draws from
  \<^verbatim>\<open>crypto/rand\<close>, its contexts and deadlines are the fields of \<open>draws\<close>.  A time in an
  answer is represented by its seconds, an error text that comes from another package by the error, and
  the text of a JSON error is left out.
\<close>

section \<open>Interfaces\<close>

record 'p PeerManager =
  pm_AddPeer :: "string \<Rightarrow> string \<Rightarrow> 'p \<Rightarrow> bool \<times> 'p"
  pm_RemovePeer :: "string \<Rightarrow> 'p \<Rightarrow> 'p"
  pm_BlockPeer :: "string \<Rightarrow> 'p \<Rightarrow> 'p"
  pm_UnblockPeer :: "string \<Rightarrow> 'p \<Rightarrow> 'p"
  pm_ListPeers :: "'p \<Rightarrow> PeerInfo list"
  pm_Save :: "'p \<Rightarrow> 'p"

text \<open>A status provider: the number of Bluetooth sessions and of the rounds that were asked for.\<close>

record StatusProvider =
  sp_ActiveBTSessions :: int
  sp_rounds :: nat

text \<open>What the code calls: hashes and ciphers, the JSON of the keystore, the block store with
  the two optional interfaces that it may implement, and the peer manager.\<close>

record ('s, 'p) apiEnv =
  ae_env :: env
  ae_crypto :: crypto
  ae_json :: ks_json
  ae_store :: "'s Store"
  ae_median :: "('s \<Rightarrow> store_err + int) option"
  ae_disk :: "('s \<Rightarrow> int) option"
  ae_pm :: "'p PeerManager"

record draws =
  dr_token :: "string + bytes"
  dr_salt :: "string + bytes"
  dr_nonce :: "string + bytes"
  dr_seed :: "string + bytes"
  dr_save :: "nat \<Rightarrow> string + bytes"
  dr_load :: "nat \<Rightarrow> string + bytes"
  dr_enc :: enc_rand
  dr_chanSalt :: "string + bytes"
  dr_chanNonce :: "string + bytes"
  dr_mineCtx :: "nat \<Rightarrow> string option"
  dr_mine :: "nat \<Rightarrow> string + Stamp"
  dr_idSelect :: "nat \<Rightarrow> select_case"
  dr_idFirst :: "string + bytes"
  dr_idMine :: "nat \<Rightarrow> string + bytes"
  dr_gift :: enc_rand
  dr_giftFirst :: bool
  dr_ctx :: "string \<Rightarrow> string option"
  dr_giftSave :: "nat \<Rightarrow> nat \<Rightarrow> string + bytes"

text \<open>The part of the server that the callback for gifts works on.\<close>

record giftState =
  gs_ks :: "Keystore option"
  gs_fs :: fsys
  gs_path :: path
  gs_rnd :: "nat \<Rightarrow> nat \<Rightarrow> string + bytes"
  gs_count :: nat
  gs_panicked :: bool

section \<open>The server\<close>

record ('s, 'p) ApiServer =
  as_blocks :: 's
  as_msgs :: MessageStore
  as_ksPath :: path
  as_ks :: "Keystore option"
  as_scraper :: "('s, giftState) Scraper.Client option"
  as_tokens :: "string list"
  as_peers :: "'p option"
  as_status :: "StatusProvider option"
  as_idPowCache :: "(string \<times> int) list"
  as_fs :: fsys

definition api_New :: "'s \<Rightarrow> MessageStore \<Rightarrow> path \<Rightarrow> fsys \<Rightarrow> ('s, 'p) ApiServer" where
  "api_New blocks msgs keystorePath fs =
     \<lparr>as_blocks = blocks, as_msgs = msgs, as_ksPath = keystorePath, as_ks = None, as_scraper = None, as_tokens = [],
      as_peers = None, as_status = None, as_idPowCache = [], as_fs = fs\<rparr>"

definition SetStatusProvider :: "StatusProvider \<Rightarrow> ('s, 'p) ApiServer \<Rightarrow> ('s, 'p) ApiServer" where
  "SetStatusProvider sp s = s\<lparr>as_status := Some sp\<rparr>"

definition SetPeerManager :: "'p \<Rightarrow> ('s, 'p) ApiServer \<Rightarrow> ('s, 'p) ApiServer" where
  "SetPeerManager pm s = s\<lparr>as_peers := Some pm\<rparr>"

definition isLocalOrigin :: "string \<Rightarrow> bool" where
  "isLocalOrigin origin \<longleftrightarrow>
     prefix ''http://localhost'' origin \<or> prefix ''http://127.0.0.1'' origin \<or>
     prefix ''capacitor://'' origin \<or> prefix ''ionic://'' origin"

definition newToken :: "string + bytes \<Rightarrow> string + string" where
  "newToken draw = (case draw of Inl e \<Rightarrow> Inl e | Inr b \<Rightarrow> Inr (b64_EncodeToString b))"

text \<open>\<^verbatim>\<open>id.PublicKey()\<close>: the second half of the private key.\<close>

definition PublicKey :: "Identity \<Rightarrow> bytes" where
  "PublicKey i = copy32 (drop 32 (id_SignKey i))"

definition applyPowGift :: "('s, 'p) apiEnv \<Rightarrow> string \<Rightarrow> bytes \<Rightarrow> giftState \<Rightarrow> giftState" where
  "applyPowGift A identityName stamp g =
     (case gs_ks g of
        None \<Rightarrow> g\<lparr>gs_panicked := True\<rparr>
      | Some k \<Rightarrow>
          (case GetIdentity identityName k of
             None \<Rightarrow> g
           | Some i \<Rightarrow>
               (let pub = PublicKey i;
                    newBits = IdentityWorkFactor (ae_env A) stamp pub;
                    curBits = (if id_IDPowStamp i \<noteq> [] then IdentityWorkFactor (ae_env A) (id_IDPowStamp i) pub else 0)
                in if newBits \<le> curBits then g
                   else
                     let k' = snd (SetIdentityPoW identityName stamp k);
                         fs' = snd (Save (ae_crypto A) (ae_json A) (gs_rnd g (gs_count g)) (gs_path g) k' (gs_fs g))
                     in g\<lparr>gs_ks := Some k', gs_fs := fs', gs_count := Suc (gs_count g)\<rparr>)))"

definition rebuildScraper :: "('s, 'p) apiEnv \<Rightarrow> Keystore \<Rightarrow> ('s, 'p) ApiServer \<Rightarrow> ('s, 'p) ApiServer" where
  "rebuildScraper A k s =
     s\<lparr>as_scraper := Some ((New (ae_store A) (Identities k) (Channels k))\<lparr>c_OnPowGift := Some (applyPowGift A)\<rparr>)\<rparr>"

section \<open>Answers\<close>

record identityResp =
  ip_Name :: string
  ip_PublicKey :: string
  ip_PowStamp :: string
  ip_PowBits :: int

record msgResp =
  mr_ID :: int
  mr_BlockID :: string
  mr_SenderPub :: string
  mr_ThreadRefs :: "string list"
  mr_SentAt :: "int option"
  mr_MsgType :: byte
  mr_Content :: string
  mr_Channel :: string
  mr_ReceivedAt :: int
  mr_SentTo :: string
  mr_DecryptedBy :: string
  mr_WorkFactor :: int
  mr_IdPowBits :: int

datatype api_body =
    BEmpty | BAsset string | BError string | BKsError ks_err | BCryptError crypt_err | BMineError mine_err
  | BIdMineError string | BSqlError string string | BScrapeError scrape_err
  | BToken string | BIdentities "identityResp list" | BIdentity string string | BIdPow string int
  | BNames "string list" | BName string | BMessages "msgResp list" | BMessage msgResp | BFound int
  | BBlockIDs "string list" | BBlockID string | BBundle bytes | BContacts "(string \<times> string) list"
  | BPowFloor int | BBoost int string | BPeers "PeerInfo list" | BURL string
  | BStatus int "PeerInfo list" "int option" | BSyncStarted

record api_resp =
  ar_status :: int
  ar_body :: api_body

datatype outcome = Reply api_resp | Panic | Stuck

type_synonym ('s, 'p) handled = "outcome \<times> ('s, 'p) ApiServer"

definition writeJSON :: "int \<Rightarrow> api_body \<Rightarrow> outcome" where
  "writeJSON status v = Reply \<lparr>ar_status = status, ar_body = v\<rparr>"

definition writeError :: "int \<Rightarrow> string \<Rightarrow> outcome" where
  "writeError status msg = writeJSON status (BError msg)"

definition invalidJSON :: outcome where
  "invalidJSON = writeError 400 ''invalid JSON''"

text \<open>Saving the keystore at the end of a handler that has changed it.\<close>

definition save_ks ::
  "('s, 'p) apiEnv \<Rightarrow> draws \<Rightarrow> Keystore \<Rightarrow> (('s, 'p) ApiServer \<Rightarrow> ('s, 'p) ApiServer) \<Rightarrow> outcome
     \<Rightarrow> ('s, 'p) ApiServer \<Rightarrow> ('s, 'p) handled" where
  "save_ks A D k finish answer s =
     (case Save (ae_crypto A) (ae_json A) (dr_save D) (as_ksPath s) k (as_fs s) of
        (Some _, fs') \<Rightarrow> (writeError 500 ''failed to save keystore'', s\<lparr>as_ks := Some k, as_fs := fs'\<rparr>)
      | (None, fs') \<Rightarrow> (answer, finish (s\<lparr>as_ks := Some k, as_fs := fs'\<rparr>)))"

section \<open>Keystore and session\<close>

definition handleCreate :: "('s, 'p) apiEnv \<Rightarrow> draws \<Rightarrow> string option \<Rightarrow> ('s, 'p) ApiServer \<Rightarrow> ('s, 'p) handled" where
  "handleCreate A D req s =
     (case req of
        None \<Rightarrow> (invalidJSON, s)
      | Some password \<Rightarrow>
          if password = [] then (writeError 400 ''password required'', s)
          else if fs_stat (as_fs s) (as_ksPath s) then (writeError 409 ''keystore already exists; use /api/unlock'', s)
          else
            case NewKeystore (ae_env A) (dr_salt D) (bytes_of_string password) of
              Inl _ \<Rightarrow> (writeError 500 ''failed to create keystore'', s)
            | Inr k \<Rightarrow>
                (case Save (ae_crypto A) (ae_json A) (dr_save D) (as_ksPath s) k (as_fs s) of
                   (Some _, fs') \<Rightarrow> (writeError 500 ''failed to save keystore'', s\<lparr>as_fs := fs'\<rparr>)
                 | (None, fs') \<Rightarrow> (writeJSON 201 BEmpty, s\<lparr>as_fs := fs'\<rparr>)))"

definition handleUnlock :: "('s, 'p) apiEnv \<Rightarrow> draws \<Rightarrow> string option \<Rightarrow> ('s, 'p) ApiServer \<Rightarrow> ('s, 'p) handled" where
  "handleUnlock A D req s =
     (case req of
        None \<Rightarrow> (invalidJSON, s)
      | Some password \<Rightarrow>
          (case LoadKeystore (ae_env A) (ae_crypto A) (ae_json A) (dr_load D) (as_ksPath s) (bytes_of_string password) (as_fs s) of
             (None, fs') \<Rightarrow> (Panic, s\<lparr>as_fs := fs'\<rparr>)
           | (Some (Inl e), fs') \<Rightarrow>
               (if e = KsIO NotExist then writeError 404 ''keystore not found; call /api/keystore/create first''
                else writeError 401 ''invalid password or corrupted keystore'', s\<lparr>as_fs := fs'\<rparr>)
           | (Some (Inr k), fs') \<Rightarrow>
               (case newToken (dr_token D) of
                  Inl _ \<Rightarrow> (writeError 500 ''token generation failed'', s\<lparr>as_fs := fs'\<rparr>)
                | Inr token \<Rightarrow>
                    (writeJSON 200 (BToken token),
                     rebuildScraper A k (s\<lparr>as_ks := Some k, as_tokens := List.insert token (as_tokens s), as_fs := fs'\<rparr>)))))"

definition handleLock :: "('s, 'p) ApiServer \<Rightarrow> ('s, 'p) handled" where
  "handleLock s = (writeJSON 204 BEmpty, s\<lparr>as_ks := None, as_scraper := None, as_tokens := []\<rparr>)"

definition handleChangePassword :: "('s, 'p) apiEnv \<Rightarrow> draws \<Rightarrow> string option \<Rightarrow> ('s, 'p) ApiServer \<Rightarrow> ('s, 'p) handled" where
  "handleChangePassword A D req s =
     (case req of
        None \<Rightarrow> (invalidJSON, s)
      | Some newPassword \<Rightarrow>
          if newPassword = [] then (writeError 400 ''new_password required'', s)
          else
            case as_ks s of
              None \<Rightarrow> (Panic, s)
            | Some k \<Rightarrow>
                (case ChangePassword (ae_env A) (dr_salt D) (bytes_of_string newPassword) k of
                   (Some _, k') \<Rightarrow> (writeError 500 ''failed to change password'', s\<lparr>as_ks := Some k'\<rparr>)
                 | (None, k') \<Rightarrow> save_ks A D k' id (writeJSON 204 BEmpty) s))"

section \<open>Identities\<close>

definition identity_resp :: "env \<Rightarrow> Identity \<Rightarrow> identityResp" where
  "identity_resp E i =
     \<lparr>ip_Name = id_Name i, ip_PublicKey = b64s_EncodeToString (PublicKey i),
      ip_PowStamp = (if id_IDPowStamp i \<noteq> [] then b64_EncodeToString (id_IDPowStamp i) else []),
      ip_PowBits = (if id_IDPowStamp i \<noteq> [] then IdentityWorkFactor E (id_IDPowStamp i) (PublicKey i) else 0)\<rparr>"

definition handleListIdentities :: "('s, 'p) apiEnv \<Rightarrow> ('s, 'p) ApiServer \<Rightarrow> ('s, 'p) handled" where
  "handleListIdentities A s =
     (case as_ks s of
        None \<Rightarrow> (Panic, s)
      | Some k \<Rightarrow> (writeJSON 200 (BIdentities (map (identity_resp (ae_env A)) (ks_List k))), s))"

definition handleMineIdentityPoW :: "('s, 'p) apiEnv \<Rightarrow> draws \<Rightarrow> string \<Rightarrow> ('s, 'p) ApiServer \<Rightarrow> ('s, 'p) handled" where
  "handleMineIdentityPoW A D name s =
     (case as_ks s of
        None \<Rightarrow> (Panic, s)
      | Some k \<Rightarrow>
          (case GetIdentity name k of
             None \<Rightarrow> (writeError 404 ''identity not found'', s)
           | Some i \<Rightarrow>
               (case MineIdentityPoW (ae_env A) (dr_idSelect D) (dr_idFirst D) (dr_idMine D) (PublicKey i) (id_IDPowStamp i) of
                  None \<Rightarrow> (Stuck, s)
                | Some (stamp, bits, Some e) \<Rightarrow> (writeJSON 503 (BIdMineError e), s)
                | Some (stamp, bits, None) \<Rightarrow>
                    (case SetIdentityPoW name stamp k of
                       (Some e, k') \<Rightarrow> (writeJSON 404 (BKsError e), s)
                     | (None, k') \<Rightarrow> save_ks A D k' id (writeJSON 200 (BIdPow (b64_EncodeToString stamp) bits)) s))))"

definition handleAddIdentity :: "('s, 'p) apiEnv \<Rightarrow> draws \<Rightarrow> string option \<Rightarrow> ('s, 'p) ApiServer \<Rightarrow> ('s, 'p) handled" where
  "handleAddIdentity A D req s =
     (case req of
        None \<Rightarrow> (invalidJSON, s)
      | Some name \<Rightarrow>
          if name = [] then (writeError 400 ''name required'', s)
          else
            case as_ks s of
              None \<Rightarrow> (Panic, s)
            | Some k \<Rightarrow>
                (case Add (cr_ed (ae_crypto A)) (dr_seed D) name k of
                   (Inl e, k') \<Rightarrow> (writeJSON 409 (BKsError e), s)
                 | (Inr i, k') \<Rightarrow>
                     save_ks A D k' (rebuildScraper A k')
                       (writeJSON 201 (BIdentity name (b64s_EncodeToString (PublicKey i)))) s))"

definition handleRemoveIdentity :: "('s, 'p) apiEnv \<Rightarrow> draws \<Rightarrow> string \<Rightarrow> ('s, 'p) ApiServer \<Rightarrow> ('s, 'p) handled" where
  "handleRemoveIdentity A D name s =
     (case as_ks s of
        None \<Rightarrow> (Panic, s)
      | Some k \<Rightarrow>
          (case Remove name k of
             (False, _) \<Rightarrow> (writeError 404 ''identity not found'', s)
           | (True, k') \<Rightarrow> save_ks A D k' (rebuildScraper A k') (writeJSON 204 BEmpty) s))"

definition handleExportIdentity ::
  "('s, 'p) apiEnv \<Rightarrow> draws \<Rightarrow> string \<Rightarrow> string option \<Rightarrow> ('s, 'p) ApiServer \<Rightarrow> ('s, 'p) handled" where
  "handleExportIdentity A D name req s =
     (case req of
        None \<Rightarrow> (invalidJSON, s)
      | Some password \<Rightarrow>
          if password = [] then (writeError 400 ''password required'', s)
          else
            case as_ks s of
              None \<Rightarrow> (Panic, s)
            | Some k \<Rightarrow>
                if \<not> VerifyPassword (ae_env A) (bytes_of_string password) k then (writeError 401 ''wrong password'', s)
                else
                  case ExportIdentity (ae_env A) (ae_crypto A) (ae_json A) (dr_salt D) (dr_nonce D) name (bytes_of_string password) k of
                    Inl e \<Rightarrow> (writeJSON 404 (BKsError e), s)
                  | Inr bundle \<Rightarrow> (writeJSON 200 (BBundle bundle), s))"

definition handleImportIdentity ::
  "('s, 'p) apiEnv \<Rightarrow> draws \<Rightarrow> (bytes \<times> string) option \<Rightarrow> ('s, 'p) ApiServer \<Rightarrow> ('s, 'p) handled" where
  "handleImportIdentity A D req s =
     (case req of
        None \<Rightarrow> (invalidJSON, s)
      | Some (bundle, password) \<Rightarrow>
          if password = [] then (writeError 400 ''password required'', s)
          else if bundle = [] then (writeError 400 ''bundle required'', s)
          else
            case as_ks s of
              None \<Rightarrow> (Panic, s)
            | Some k \<Rightarrow>
                (case ImportIdentity (ae_env A) (ae_crypto A) (ae_json A) bundle (bytes_of_string password) k of
                   (None, k') \<Rightarrow> (Panic, s)
                 | (Some (Inl e), k') \<Rightarrow> (writeJSON 400 (BKsError e), s)
                 | (Some (Inr i), k') \<Rightarrow>
                     save_ks A D k' (rebuildScraper A k')
                       (writeJSON 201 (BIdentity (id_Name i) (b64s_EncodeToString (PublicKey i)))) s))"

section \<open>Channels and contacts\<close>

definition handleListChannels :: "('s, 'p) ApiServer \<Rightarrow> ('s, 'p) handled" where
  "handleListChannels s =
     (case as_ks s of
        None \<Rightarrow> (Panic, s)
      | Some k \<Rightarrow> (writeJSON 200 (BNames (map ch_Name (ListChannels k))), s))"

definition handleAddChannel ::
  "('s, 'p) apiEnv \<Rightarrow> draws \<Rightarrow> (string \<times> string) option \<Rightarrow> ('s, 'p) ApiServer \<Rightarrow> ('s, 'p) handled" where
  "handleAddChannel A D req s =
     (case req of
        None \<Rightarrow> (invalidJSON, s)
      | Some (name, passphrase) \<Rightarrow>
          if name = [] \<or> passphrase = [] then (writeError 400 ''name and passphrase required'', s)
          else
            case as_ks s of
              None \<Rightarrow> (Panic, s)
            | Some k \<Rightarrow>
                (case AddChannel (ae_env A) name passphrase k of
                   (Inl e, k') \<Rightarrow> (writeJSON 409 (BKsError e), s)
                 | (Inr _, k') \<Rightarrow> save_ks A D k' (rebuildScraper A k') (writeJSON 201 (BName name)) s))"

definition handleRemoveChannel :: "('s, 'p) apiEnv \<Rightarrow> draws \<Rightarrow> string \<Rightarrow> ('s, 'p) ApiServer \<Rightarrow> ('s, 'p) handled" where
  "handleRemoveChannel A D name s =
     (case as_ks s of
        None \<Rightarrow> (Panic, s)
      | Some k \<Rightarrow>
          (case RemoveChannel name k of
             (False, _) \<Rightarrow> (writeError 404 ''channel not found'', s)
           | (True, k') \<Rightarrow> save_ks A D k' (rebuildScraper A k') (writeJSON 204 BEmpty) s))"

definition handleListContacts :: "('s, 'p) ApiServer \<Rightarrow> ('s, 'p) handled" where
  "handleListContacts s =
     (case as_ks s of
        None \<Rightarrow> (Panic, s)
      | Some k \<Rightarrow>
          (writeJSON 200 (BContacts (map (\<lambda>c. (ct_Name c, b64s_EncodeToString (ct_PublicKey c))) (ListContacts k))), s))"

definition handleAddContact ::
  "('s, 'p) apiEnv \<Rightarrow> draws \<Rightarrow> (string \<times> string) option \<Rightarrow> ('s, 'p) ApiServer \<Rightarrow> ('s, 'p) handled" where
  "handleAddContact A D req s =
     (case req of
        None \<Rightarrow> (invalidJSON, s)
      | Some (name, publicKey) \<Rightarrow>
          (case b64s_DecodeString publicKey of
             None \<Rightarrow> (writeError 400 ''invalid public_key encoding'', s)
           | Some pubBytes \<Rightarrow>
               (case as_ks s of
                  None \<Rightarrow> (Panic, s)
                | Some k \<Rightarrow>
                    (case AddContact name pubBytes k of
                       (Inl e, k') \<Rightarrow> (writeJSON 409 (BKsError e), s)
                     | (Inr c, k') \<Rightarrow>
                         save_ks A D k' id
                           (writeJSON 201 (BIdentity (ct_Name c) (b64s_EncodeToString (ct_PublicKey c)))) s))))"

definition path_pub :: "string \<Rightarrow> bytes option" where
  "path_pub p =
     (case b64_DecodeString p of None \<Rightarrow> None | Some b \<Rightarrow> if length b \<noteq> 32 then None else Some b)"

definition handleRemoveContact :: "('s, 'p) apiEnv \<Rightarrow> draws \<Rightarrow> string \<Rightarrow> ('s, 'p) ApiServer \<Rightarrow> ('s, 'p) handled" where
  "handleRemoveContact A D pubKey s =
     (case path_pub pubKey of
        None \<Rightarrow> (writeError 400 ''invalid pub_key'', s)
      | Some pubBytes \<Rightarrow>
          (case as_ks s of
             None \<Rightarrow> (Panic, s)
           | Some k \<Rightarrow>
               (case RemoveContact pubBytes k of
                  (False, _) \<Rightarrow> (writeError 404 ''contact not found'', s)
                | (True, k') \<Rightarrow> save_ks A D k' id (writeJSON 204 BEmpty) s)))"

definition handleRenameContact ::
  "('s, 'p) apiEnv \<Rightarrow> draws \<Rightarrow> string \<Rightarrow> string option \<Rightarrow> ('s, 'p) ApiServer \<Rightarrow> ('s, 'p) handled" where
  "handleRenameContact A D pubKey req s =
     (case path_pub pubKey of
        None \<Rightarrow> (writeError 400 ''invalid pub_key'', s)
      | Some pubBytes \<Rightarrow>
          (case req of
             None \<Rightarrow> (invalidJSON, s)
           | Some name \<Rightarrow>
               (case as_ks s of
                  None \<Rightarrow> (Panic, s)
                | Some k \<Rightarrow>
                    (case RenameContact pubBytes name k of
                       (Inl e, _) \<Rightarrow> (writeJSON 400 (BKsError e), s)
                     | (Inr False, _) \<Rightarrow> (writeError 404 ''contact not found'', s)
                     | (Inr True, k') \<Rightarrow> save_ks A D k' id (writeJSON 204 BEmpty) s))))"

end
