(* ===== verification/ApiMessages.thy ===== *)
theory ApiMessages
  imports Api
begin

text \<open>
  \<^verbatim>\<open>client/api/\<close>, continued: the handlers that read, send and boost messages, those of
  \<^verbatim>\<open>status_handler.go\<close> and \<^verbatim>\<open>peer_handlers.go\<close>, and the routes with the check of the token.
\<close>

section \<open>Reading messages\<close>

definition getIdPowBits :: "env \<Rightarrow> bytes \<Rightarrow> bytes \<Rightarrow> (string \<times> int) list \<Rightarrow> int \<times> (string \<times> int) list" where
  "getIdPowBits E content senderPub cache =
     (case ParseSnkStamp E content senderPub of
        (stamp, bits) \<Rightarrow>
          if stamp = [] then (0, cache)
          else
            let key = b64s_EncodeToString senderPub @ '':'' @ b64_EncodeToString stamp
            in case map_of cache key of
                 Some v \<Rightarrow> (v, cache)
               | None \<Rightarrow> (bits, (key, bits) # cache))"

definition zero32 :: bytes where "zero32 = replicate 32 0"

text \<open>The references up to the last one that is set.\<close>

definition resp_refs :: "bytes list \<Rightarrow> string list" where
  "resp_refs refs = map hex_Encode (rev (dropWhile (\<lambda>r. r = zero32) (rev refs)))"

text \<open>The body of a post without its subject line.\<close>

definition post_body :: "byte \<Rightarrow> bytes \<Rightarrow> bytes" where
  "post_body msgType content =
     (if msgType = MsgTypePost
      then case indexOf 10 content of Some nl \<Rightarrow> drop (nl + 1) content | None \<Rightarrow> content
      else content)"

definition buildMsgResp ::
  "('s, 'p) apiEnv \<Rightarrow> time \<Rightarrow> Message \<Rightarrow> ('s, 'p) ApiServer \<Rightarrow> msgResp \<times> ('s, 'p) ApiServer" where
  "buildMsgResp A t m s =
     (let anon = (m_SenderPub m = zero32);
          (bits, cache) = (if anon then (0, as_idPowCache s)
                           else getIdPowBits (ae_env A) (post_body (m_MsgType m) (m_Content m)) (m_SenderPub m) (as_idPowCache s))
      in (\<lparr>mr_ID = m_ID m, mr_BlockID = hex_Encode (m_BlockID m),
           mr_SenderPub = (if anon then [] else b64s_EncodeToString (m_SenderPub m)),
           mr_ThreadRefs = resp_refs (m_ThreadRefs m),
           mr_SentAt = (if m_SentAt m = zeroTime then None else Some (Unix (m_SentAt m))),
           mr_MsgType = m_MsgType m, mr_Content = b64s_EncodeToString (m_Content m), mr_Channel = m_Channel m,
           mr_ReceivedAt = Unix (m_ReceivedAt m),
           mr_SentTo = (case m_SentTo m of Some b \<Rightarrow> if b \<noteq> [] then b64s_EncodeToString b else [] | None \<Rightarrow> []),
           mr_DecryptedBy = m_DecryptedBy m,
           mr_WorkFactor = (case st_GetWorkFactor (ae_store A) t (as_blocks s) (m_BlockID m) of Inr v \<Rightarrow> v | Inl _ \<Rightarrow> 0),
           mr_IdPowBits = bits\<rparr>, s\<lparr>as_idPowCache := cache\<rparr>))"

fun buildMsgResps ::
  "('s, 'p) apiEnv \<Rightarrow> time \<Rightarrow> Message list \<Rightarrow> ('s, 'p) ApiServer \<Rightarrow> msgResp list \<times> ('s, 'p) ApiServer" where
  "buildMsgResps A t [] s = ([], s)"
| "buildMsgResps A t (m # ms) s =
     (case buildMsgResp A t m s of
        (r, s') \<Rightarrow> (case buildMsgResps A t ms s' of (rs, s'') \<Rightarrow> (r # rs, s'')))"

text \<open>One block of the scan for boosted blocks: the IDs that were answered, the answer so far and the
  server.\<close>

type_synonym ('s, 'p) listing = "ID list \<times> msgResp list \<times> ('s, 'p) ApiServer"

definition boosted_ref :: "('s, 'p) apiEnv \<Rightarrow> time \<Rightarrow> ID \<Rightarrow> ('s, 'p) listing \<Rightarrow> ('s, 'p) listing" where
  "boosted_ref A t i = (\<lambda>(seen, out, s).
     if i \<in> set seen then (seen, out, s)
     else case GetMessage i (as_msgs s) of
            Inr (Some m) \<Rightarrow> (case buildMsgResp A t m s of (r, s') \<Rightarrow> (i # seen, out @ [r], s'))
          | _ \<Rightarrow> (seen, out, s))"

definition boosted_body ::
  "('s, 'p) apiEnv \<Rightarrow> time \<Rightarrow> 's \<Rightarrow> time \<Rightarrow> string \<Rightarrow> ('s, 'p) listing \<Rightarrow> ('s, 'p) listing + (string \<times> ('s, 'p) listing)" where
  "boosted_body A t blocks since pageToken acc =
     (case st_ListBlocks (ae_store A) t blocks pageToken 200 0 since of
        Inl _ \<Rightarrow> Inl acc
      | Inr (nxt, refs) \<Rightarrow> Inr (nxt, fold (boosted_ref A t) (map refID refs) acc))"

definition handleListMessages ::
  "('s, 'p) apiEnv \<Rightarrow> time \<Rightarrow> string \<Rightarrow> string \<Rightarrow> ('s, 'p) ApiServer \<Rightarrow> ('s, 'p) handled" where
  "handleListMessages A t after_id wf_updated_since s =
     (let afterID = ParseInt64 after_id; wfSinceUnix = ParseInt64 wf_updated_since
      in case ListMessagesAfter (ae_env A) afterID (as_msgs s) of
           Inl _ \<Rightarrow> (writeError 500 ''failed to list messages'', s)
         | Inr msgs \<Rightarrow>
             (case buildMsgResps A t msgs s of
                (out, s1) \<Rightarrow>
                  if wfSinceUnix > 0 then
                    (case page_loop (boosted_body A t (as_blocks s1) (timeUnix wfSinceUnix)) [] (map m_BlockID msgs, out, s1) of
                       None \<Rightarrow> (Stuck, s1)
                     | Some (Inl (_, out', s2)) \<Rightarrow> (writeJSON 200 (BMessages out'), s2)
                     | Some (Inr (_, out', s2)) \<Rightarrow> (writeJSON 200 (BMessages out'), s2))
                  else (writeJSON 200 (BMessages out), s1)))"

definition path_block :: "string \<Rightarrow> ID option" where
  "path_block h = (case hex_Decode h of None \<Rightarrow> None | Some b \<Rightarrow> if length b \<noteq> IDSize then None else Some b)"

definition handleGetMessage :: "('s, 'p) apiEnv \<Rightarrow> time \<Rightarrow> string \<Rightarrow> ('s, 'p) ApiServer \<Rightarrow> ('s, 'p) handled" where
  "handleGetMessage A t block_id s =
     (case path_block block_id of
        None \<Rightarrow> (writeError 400 ''invalid block_id'', s)
      | Some blockID \<Rightarrow>
          (case GetMessage blockID (as_msgs s) of
             Inl _ \<Rightarrow> (writeError 500 ''failed to retrieve message'', s)
           | Inr None \<Rightarrow> (writeError 404 ''message not found'', s)
           | Inr (Some m) \<Rightarrow> (case buildMsgResp A t m s of (r, s') \<Rightarrow> (writeJSON 200 (BMessage r), s'))))"

section \<open>Scraping\<close>

definition scrape_reset :: "bool \<Rightarrow> int \<Rightarrow> MessageStore \<Rightarrow> outcome option \<times> MessageStore" where
  "scrape_reset full sinceUnix ms =
     (if full then
        (case SetCheckpoint (if sinceUnix > 0 then timeUnix sinceUnix else zeroTime) ms of
           (Some e, ms') \<Rightarrow> (Some (writeJSON 500 (BSqlError ''reset checkpoint: '' e)), ms')
         | (None, ms') \<Rightarrow> (None, ms'))
      else if sinceUnix > 0 then
        (case GetCheckpoint ms of
           Inl e \<Rightarrow> (Some (writeJSON 500 (BSqlError ''get checkpoint: '' e)), ms)
         | Inr current \<Rightarrow>
             if current = zeroTime then
               (case SetCheckpoint (timeUnix sinceUnix) ms of
                  (Some e, ms') \<Rightarrow> (Some (writeJSON 500 (BSqlError ''set checkpoint: '' e)), ms')
                | (None, ms') \<Rightarrow> (None, ms'))
             else (None, ms))
      else (None, ms))"

definition gift_state :: "draws \<Rightarrow> ('s, 'p) ApiServer \<Rightarrow> giftState" where
  "gift_state D s =
     \<lparr>gs_ks = as_ks s, gs_fs = as_fs s, gs_path = as_ksPath s, gs_rnd = dr_giftSave D, gs_count = 0, gs_panicked = False\<rparr>"

definition handleScrape ::
  "('s, 'p) apiEnv \<Rightarrow> draws \<Rightarrow> time \<Rightarrow> bool \<Rightarrow> int \<Rightarrow> ('s, 'p) ApiServer \<Rightarrow> ('s, 'p) handled" where
  "handleScrape A D t full sinceUnix s =
     (case scrape_reset full sinceUnix (as_msgs s) of
        (Some answer, ms') \<Rightarrow> (answer, s\<lparr>as_msgs := ms'\<rparr>)
      | (None, ms') \<Rightarrow>
          (case as_scraper s of
             None \<Rightarrow> (Panic, s\<lparr>as_msgs := ms'\<rparr>)
           | Some scraper \<Rightarrow>
               (case Scrape (ae_env A) (ae_crypto A) (dr_ctx D) scraper t (as_blocks s) ms' (gift_state D s) of
                  None \<Rightarrow> (Stuck, s\<lparr>as_msgs := ms'\<rparr>)
                | Some (result, ms'', g) \<Rightarrow>
                    (let s' = s\<lparr>as_msgs := ms'', as_ks := gs_ks g, as_fs := gs_fs g\<rparr>
                     in if gs_panicked g then (Panic, s')
                        else case result of
                               None \<Rightarrow> (Panic, s')
                             | Some (found, Some e) \<Rightarrow> (writeJSON 500 (BScrapeError e), s')
                             | Some (found, None) \<Rightarrow> (writeJSON 200 (BFound found), s')))))"

section \<open>Sending\<close>

definition api_powFloor :: "('s, 'p) apiEnv \<Rightarrow> ('s, 'p) ApiServer \<Rightarrow> int" where
  "api_powFloor A s =
     (case ae_median A of
        None \<Rightarrow> 0
      | Some med \<Rightarrow> (case med (as_blocks s) of Inr m \<Rightarrow> if m > 1 then m - 1 else 0 | Inl _ \<Rightarrow> 0))"

definition mineWithDeadline ::
  "('s, 'p) apiEnv \<Rightarrow> draws \<Rightarrow> Payload \<Rightarrow> ('s, 'p) ApiServer \<Rightarrow> (Stamp \<times> mine_err option) option" where
  "mineWithDeadline A D payload s =
     map_option (\<lambda>(stamp, _, err). (stamp, err))
       (MineStamp (ae_env A) (dr_mineCtx D) (dr_mine D) payload (api_powFloor A s))"

record sendReq =
  sr_RecipientPublicKey :: string
  sr_Message :: string
  sr_SenderIdentity :: string
  sr_ReplyToBlockID :: string
  sr_EditTarget :: string
  sr_DeleteTarget :: string

record sendChannelReq =
  sc_ChannelName :: string
  sc_Message :: string
  sc_SenderIdentity :: string
  sc_ReplyToBlockID :: string
  sc_ForumPost :: bool
  sc_Subject :: string
  sc_EditTarget :: string
  sc_DeleteTarget :: string

text \<open>The optional sender: a nil keystore is only looked at when a sender is named.\<close>

definition resolve_sender :: "string \<Rightarrow> ('s, 'p) ApiServer \<Rightarrow> outcome + Identity option" where
  "resolve_sender name s =
     (if name = [] then Inr None
      else case as_ks s of
             None \<Rightarrow> Inl Panic
           | Some k \<Rightarrow>
               (case GetIdentity name k of
                  None \<Rightarrow> Inl (writeError 400 ''sender_identity not found'')
                | Some i \<Rightarrow> Inr (Some i)))"

definition resolve_reply :: "string \<Rightarrow> MessageStore \<Rightarrow> outcome + bytes list" where
  "resolve_reply replyTo ms =
     (if replyTo = [] then Inr (mp_ThreadRefs zero_mp)
      else case path_block replyTo of
             None \<Rightarrow> Inl (writeError 400 ''invalid reply_to_block_id'')
           | Some replyID \<Rightarrow>
               (case GetMessage replyID ms of
                  Inl _ \<Rightarrow> Inl (writeError 500 ''failed to look up reply target'')
                | Inr (Some m) \<Rightarrow> Inr (BuildThreadRefs replyID (m_ThreadRefs m))
                | Inr None \<Rightarrow> Inr ((mp_ThreadRefs zero_mp)[0 := replyID])))"

text \<open>Mine a stamp and put the block; the answer and the rest of the handler depend on the ID.\<close>

definition mine_and_put ::
  "('s, 'p) apiEnv \<Rightarrow> draws \<Rightarrow> time \<Rightarrow> Payload \<Rightarrow> (ID \<Rightarrow> ('s, 'p) ApiServer \<Rightarrow> ('s, 'p) handled)
     \<Rightarrow> ('s, 'p) ApiServer \<Rightarrow> ('s, 'p) handled" where
  "mine_and_put A D t payload finish s =
     (case mineWithDeadline A D payload s of
        None \<Rightarrow> (Stuck, s)
      | Some (stamp, Some e) \<Rightarrow> (writeJSON 500 (BMineError e), s)
      | Some (stamp, None) \<Rightarrow>
          (case st_Put (ae_store A) t stamp payload TagPhysical (as_blocks s) of
             (Inl _, b') \<Rightarrow> (writeError 500 ''failed to store block'', s\<lparr>as_blocks := b'\<rparr>)
           | (Inr i, b') \<Rightarrow> finish i (s\<lparr>as_blocks := b'\<rparr>)))"

definition send_content :: "sendReq \<Rightarrow> byte \<times> bytes" where
  "send_content req =
     (if sr_DeleteTarget req \<noteq> [] then (MsgTypeDelete, bytes_of_string (sr_DeleteTarget req))
      else if sr_EditTarget req \<noteq> [] then (MsgTypeEdit, bytes_of_string (sr_EditTarget req @ [char_of (10 :: nat)] @ sr_Message req))
      else (MsgTypeText, bytes_of_string (sr_Message req)))"

definition handleSend :: "('s, 'p) apiEnv \<Rightarrow> draws \<Rightarrow> time \<Rightarrow> sendReq option \<Rightarrow> ('s, 'p) ApiServer \<Rightarrow> ('s, 'p) handled" where
  "handleSend A D t request s =
     (case request of
        None \<Rightarrow> (invalidJSON, s)
      | Some req \<Rightarrow>
          if sr_RecipientPublicKey req = [] then (writeError 400 ''recipient_public_key required'', s)
          else if sr_EditTarget req = [] \<and> sr_DeleteTarget req = [] \<and> sr_Message req = [] then (writeError 400 ''message required'', s)
          else
            case b64s_DecodeString (sr_RecipientPublicKey req) of
              None \<Rightarrow> (writeError 400 ''invalid recipient_public_key encoding'', s)
            | Some recipient \<Rightarrow>
                if length recipient \<noteq> 32 then (writeError 400 ''invalid recipient_public_key encoding'', s)
                else
                  case resolve_sender (sr_SenderIdentity req) s of
                    Inl answer \<Rightarrow> (answer, s)
                  | Inr signer \<Rightarrow>
                      (case resolve_reply (sr_ReplyToBlockID req) (as_msgs s) of
                         Inl answer \<Rightarrow> (answer, s)
                       | Inr refs \<Rightarrow>
                           (let (typ, content) = send_content req;
                                mp = zero_mp\<lparr>mp_MsgType := typ, mp_Timestamp := Unix t, mp_Content := content, mp_ThreadRefs := refs,
                                             mp_SenderPub := (case signer of None \<Rightarrow> zero32 | Some i \<Rightarrow> PublicKey i)\<rparr>
                            in if length content > V3MaxContent then
                                 (writeError 400 ((if typ = MsgTypeText then ''message too long (max '' else ''content too long (max '') @
                                    decimal V3MaxContent @ '' bytes)''), s)
                               else
                                 case (case signer of
                                         Some i \<Rightarrow> EncryptSigned (ae_env A) (ae_crypto A) (dr_enc D) recipient mp (id_SignKey i)
                                       | None \<Rightarrow> Encrypt (ae_env A) (ae_crypto A) (dr_enc D) recipient mp) of
                                   Inl e \<Rightarrow> (writeJSON 400 (BCryptError e), s)
                                 | Inr payload \<Rightarrow>
                                     mine_and_put A D t payload (\<lambda>i s'.
                                       (writeJSON 201 (BBlockIDs [hex_Encode i]),
                                        s'\<lparr>as_msgs := snd (SaveMessage t i (mp\<lparr>mp_SentTo := recipient, mp_DecryptedBy := sr_SenderIdentity req\<rparr>)
                                                      (as_msgs s'))\<rparr>)) s)))"

definition channel_content :: "sendChannelReq \<Rightarrow> byte \<times> bytes" where
  "channel_content req =
     (if sc_DeleteTarget req \<noteq> [] then (MsgTypeDelete, bytes_of_string (sc_DeleteTarget req))
      else if sc_EditTarget req \<noteq> [] then (MsgTypeEdit, bytes_of_string (sc_EditTarget req @ [char_of (10 :: nat)] @ sc_Message req))
      else if sc_ForumPost req then
        (MsgTypePost, bytes_of_string (if sc_Subject req \<noteq> [] then sc_Subject req @ [char_of (10 :: nat)] @ sc_Message req else sc_Message req))
      else (MsgTypeText, bytes_of_string (sc_Message req)))"

definition handleSendChannel ::
  "('s, 'p) apiEnv \<Rightarrow> draws \<Rightarrow> time \<Rightarrow> sendChannelReq option \<Rightarrow> ('s, 'p) ApiServer \<Rightarrow> ('s, 'p) handled" where
  "handleSendChannel A D t request s =
     (case request of
        None \<Rightarrow> (invalidJSON, s)
      | Some req \<Rightarrow>
          if sc_ChannelName req = [] then (writeError 400 ''channel_name required'', s)
          else if sc_EditTarget req = [] \<and> sc_DeleteTarget req = [] \<and> sc_Message req = [] then (writeError 400 ''message required'', s)
          else
            case as_ks s of
              None \<Rightarrow> (Panic, s)
            | Some k \<Rightarrow>
                (case find (\<lambda>c. ch_Name c = sc_ChannelName req) (ListChannels k) of
                   None \<Rightarrow> (writeError 404 ''channel not found'', s)
                 | Some ch \<Rightarrow>
                     (case resolve_sender (sc_SenderIdentity req) s of
                        Inl answer \<Rightarrow> (answer, s)
                      | Inr signer \<Rightarrow>
                          (case resolve_reply (sc_ReplyToBlockID req) (as_msgs s) of
                             Inl answer \<Rightarrow> (answer, s)
                           | Inr refs \<Rightarrow>
                               (let (typ, content) = channel_content req;
                                    mp = zero_mp\<lparr>mp_MsgType := typ, mp_Timestamp := Unix t, mp_Content := content, mp_ThreadRefs := refs,
                                                 mp_SenderPub := (case signer of None \<Rightarrow> zero32 | Some i \<Rightarrow> PublicKey i)\<rparr>
                                in case (case signer of
                                           Some i \<Rightarrow> EncryptChannelSigned (ae_env A) (ae_crypto A) (dr_chanSalt D) (dr_chanNonce D)
                                                       (ch_Key ch) mp (id_SignKey i)
                                         | None \<Rightarrow> EncryptChannel (ae_env A) (ae_crypto A) (dr_chanSalt D) (dr_chanNonce D) (ch_Key ch) mp) of
                                     Inl e \<Rightarrow> (writeJSON 400 (BCryptError e), s)
                                   | Inr payload \<Rightarrow>
                                       mine_and_put A D t payload (\<lambda>i s'. (writeJSON 201 (BBlockID (hex_Encode i)), s')) s)))))"

definition handlePowFloor :: "('s, 'p) apiEnv \<Rightarrow> ('s, 'p) ApiServer \<Rightarrow> ('s, 'p) handled" where
  "handlePowFloor A s = (writeJSON 200 (BPowFloor (api_powFloor A s)), s)"

section \<open>Boosting\<close>

definition sendPowGift :: "('s, 'p) apiEnv \<Rightarrow> draws \<Rightarrow> time \<Rightarrow> bytes \<Rightarrow> bytes \<Rightarrow> ('s, 'p) ApiServer \<Rightarrow> ('s, 'p) ApiServer" where
  "sendPowGift A D t recipientPub stamp s =
     (let mp = zero_mp\<lparr>mp_MsgType := MsgTypeText, mp_Timestamp := Unix t, mp_Content := bytes_of_string (FormatPowGift stamp)\<rparr>
      in case Encrypt (ae_env A) (ae_crypto A) (dr_gift D) recipientPub mp of
           Inl _ \<Rightarrow> s
         | Inr payload \<Rightarrow> s\<lparr>as_blocks := snd (st_Put (ae_store A) t (replicate StampSize 0) payload TagPhysical (as_blocks s))\<rparr>)"

text \<open>The sender and the content of the message that the block holds.\<close>

definition boost_message :: "ID \<Rightarrow> MessageStore \<Rightarrow> bytes \<times> bytes" where
  "boost_message i ms =
     (case GetMessage i ms of Inr (Some m) \<Rightarrow> (m_SenderPub m, m_Content m) | _ \<Rightarrow> (zero32, []))"

text \<open>The stamp for the sender's identity: its bits and those of the stamp in the message.\<close>

definition boost_identity :: "('s, 'p) apiEnv \<Rightarrow> draws \<Rightarrow> bytes \<Rightarrow> bytes \<Rightarrow> (bytes \<times> int \<times> int) option" where
  "boost_identity A D senderPub content =
     (if senderPub = zero32 then Some ([], 0, 0)
      else case ParseSnkStamp (ae_env A) content senderPub of
             (existing, existingBits) \<Rightarrow>
               map_option (\<lambda>(stamp, bits, _). (stamp, bits, existingBits))
                 (MineIdentityPoW (ae_env A) (dr_idSelect D) (dr_idFirst D) (dr_idMine D) senderPub existing))"

text \<open>The goroutine with the gift runs before the rest of the handler or after it (\<open>dr_giftFirst\<close>).\<close>

definition boost_put ::
  "('s, 'p) apiEnv \<Rightarrow> time \<Rightarrow> ID \<Rightarrow> Payload \<Rightarrow> Stamp \<times> int \<times> mine_err option \<Rightarrow> ('s, 'p) ApiServer \<Rightarrow> ('s, 'p) handled" where
  "boost_put A t i payload bRes s =
     (case bRes of
        (_, _, Some _) \<Rightarrow> (writeError 504 (''no improvement found in 5s '' @ map char_of [226, 128, 148 :: nat] @ '' try again''), s)
      | (stamp, v, None) \<Rightarrow>
          (case st_Put (ae_store A) t stamp payload TagPhysical (as_blocks s) of
             (Inl _, b') \<Rightarrow> (writeError 500 ''failed to store boosted block'', s\<lparr>as_blocks := b'\<rparr>)
           | (Inr _, b') \<Rightarrow>
               (writeJSON 200 (BBoost (case st_GetWorkFactor (ae_store A) t b' i of Inr actual \<Rightarrow> actual | Inl _ \<Rightarrow> v)
                                 (b64s_EncodeToString stamp)), s\<lparr>as_blocks := b'\<rparr>)))"

definition handleBoost :: "('s, 'p) apiEnv \<Rightarrow> draws \<Rightarrow> time \<Rightarrow> string option \<Rightarrow> ('s, 'p) ApiServer \<Rightarrow> ('s, 'p) handled" where
  "handleBoost A D t req s =
     (case req of
        None \<Rightarrow> (invalidJSON, s)
      | Some block_id \<Rightarrow>
          (case path_block block_id of
             None \<Rightarrow> (writeError 400 ''invalid block_id'', s)
           | Some i \<Rightarrow>
               (case st_Get (ae_store A) t (as_blocks s) i of
                  Inl e \<Rightarrow> (if e = ErrNotFound then writeError 404 ''block not found'' else writeError 500 ''failed to retrieve block'', s)
                | Inr (_, payload) \<Rightarrow>
                    (let currentWF = (case st_GetWorkFactor (ae_store A) t (as_blocks s) i of Inr v \<Rightarrow> v | Inl _ \<Rightarrow> 0);
                         (senderPub, content) = boost_message i (as_msgs s)
                     in case (MineStamp (ae_env A) (dr_mineCtx D) (dr_mine D) payload (currentWF + 1),
                              boost_identity A D senderPub content) of
                          (Some bRes, Some (stamp, bits, seedBits)) \<Rightarrow>
                            (let gift = (\<lambda>s. if senderPub \<noteq> zero32 \<and> stamp \<noteq> [] \<and> bits > seedBits
                                             then sendPowGift A D t senderPub stamp s else s)
                             in if dr_giftFirst D then boost_put A t i payload bRes (gift s)
                                else case boost_put A t i payload bRes s of (answer, s') \<Rightarrow> (answer, gift s'))
                        | _ \<Rightarrow> (Stuck, s)))))"

section \<open>Status and peers\<close>

definition handleStatus :: "('s, 'p) apiEnv \<Rightarrow> ('s, 'p) ApiServer \<Rightarrow> ('s, 'p) handled" where
  "handleStatus A s =
     (writeJSON 200 (BStatus (case as_status s of Some sp \<Rightarrow> sp_ActiveBTSessions sp | None \<Rightarrow> 0)
                       (case as_peers s of Some p \<Rightarrow> pm_ListPeers (ae_pm A) p | None \<Rightarrow> [])
                       (map_option (\<lambda>du. du (as_blocks s)) (ae_disk A))), s)"

definition handleSync :: "('s, 'p) ApiServer \<Rightarrow> ('s, 'p) handled" where
  "handleSync s =
     (case as_status s of
        None \<Rightarrow> (writeError 503 ''sync not available'', s)
      | Some sp \<Rightarrow> (writeJSON 202 BSyncStarted, s\<lparr>as_status := Some (sp\<lparr>sp_rounds := Suc (sp_rounds sp)\<rparr>)\<rparr>))"

definition handleListPeers :: "('s, 'p) apiEnv \<Rightarrow> ('s, 'p) ApiServer \<Rightarrow> ('s, 'p) handled" where
  "handleListPeers A s =
     (writeJSON 200 (BPeers (case as_peers s of Some p \<Rightarrow> pm_ListPeers (ae_pm A) p | None \<Rightarrow> [])), s)"

definition handleAddPeer :: "('s, 'p) apiEnv \<Rightarrow> string option \<Rightarrow> ('s, 'p) ApiServer \<Rightarrow> ('s, 'p) handled" where
  "handleAddPeer A req s =
     (case as_peers s of
        None \<Rightarrow> (writeError 503 ''peer management not available'', s)
      | Some p \<Rightarrow>
          (case req of
             None \<Rightarrow> (invalidJSON, s)
           | Some url \<Rightarrow>
               if url = [] then (writeError 400 ''url required'', s)
               else case pm_AddPeer (ae_pm A) url ''manual'' p of
                      (False, p') \<Rightarrow> (writeError 409 ''peer already known or limit reached'', s\<lparr>as_peers := Some p'\<rparr>)
                    | (True, p') \<Rightarrow> (writeJSON 201 (BURL url), s\<lparr>as_peers := Some (pm_Save (ae_pm A) p')\<rparr>)))"

definition decodePeerURL :: "string \<Rightarrow> outcome + string" where
  "decodePeerURL b64url =
     (case b64_DecodeString b64url of
        None \<Rightarrow> Inl (writeError 400 ''invalid peer url encoding'')
      | Some b \<Rightarrow> Inr (string_of_bytes b))"

text \<open>The common form of the three handlers that change one peer.\<close>

definition peer_change :: "('s, 'p) apiEnv \<Rightarrow> (string \<Rightarrow> 'p \<Rightarrow> 'p) \<Rightarrow> string \<Rightarrow> ('s, 'p) ApiServer \<Rightarrow> ('s, 'p) handled" where
  "peer_change A change b64url s =
     (case as_peers s of
        None \<Rightarrow> (writeError 503 ''peer management not available'', s)
      | Some p \<Rightarrow>
          (case decodePeerURL b64url of
             Inl answer \<Rightarrow> (answer, s)
           | Inr url \<Rightarrow> (writeJSON 204 BEmpty, s\<lparr>as_peers := Some (pm_Save (ae_pm A) (change url p))\<rparr>)))"

definition handleRemovePeer :: "('s, 'p) apiEnv \<Rightarrow> string \<Rightarrow> ('s, 'p) ApiServer \<Rightarrow> ('s, 'p) handled" where
  "handleRemovePeer A = peer_change A (pm_RemovePeer (ae_pm A))"

definition handleBlockPeer :: "('s, 'p) apiEnv \<Rightarrow> string \<Rightarrow> ('s, 'p) ApiServer \<Rightarrow> ('s, 'p) handled" where
  "handleBlockPeer A = peer_change A (pm_BlockPeer (ae_pm A))"

definition handleUnblockPeer :: "('s, 'p) apiEnv \<Rightarrow> string \<Rightarrow> ('s, 'p) ApiServer \<Rightarrow> ('s, 'p) handled" where
  "handleUnblockPeer A = peer_change A (pm_UnblockPeer (ae_pm A))"

section \<open>Routes\<close>

datatype api_req =
    ReqOptions | ReqIndex | ReqCreate "string option" | ReqChangePassword "string option" | ReqUnlock "string option" | ReqLock
  | ReqListIdentities | ReqAddIdentity "string option" | ReqImportIdentity "(bytes \<times> string) option"
  | ReqExportIdentity string "string option" | ReqMinePoW string | ReqRemoveIdentity string
  | ReqListChannels | ReqAddChannel "(string \<times> string) option" | ReqRemoveChannel string
  | ReqListMessages string string | ReqGetMessage string | ReqPowFloor | ReqBoost "string option" | ReqScrape bool int
  | ReqSend "sendReq option" | ReqSendChannel "sendChannelReq option"
  | ReqListContacts | ReqAddContact "(string \<times> string) option" | ReqRemoveContact string | ReqRenameContact string "string option"
  | ReqStatus | ReqSync | ReqListPeers | ReqAddPeer "string option" | ReqRemovePeer string | ReqBlockPeer string | ReqUnblockPeer string

fun api_handler ::
  "('s, 'p) apiEnv \<Rightarrow> draws \<Rightarrow> time \<Rightarrow> api_req \<Rightarrow> ('s, 'p) ApiServer \<Rightarrow> ('s, 'p) handled" where
  "api_handler A D t ReqOptions s = (writeJSON 204 BEmpty, s)"
| "api_handler A D t ReqIndex s = (writeJSON 200 (BAsset ''ui/index.html''), s)"
| "api_handler A D t (ReqCreate r) s = handleCreate A D r s"
| "api_handler A D t (ReqChangePassword r) s = handleChangePassword A D r s"
| "api_handler A D t (ReqUnlock r) s = handleUnlock A D r s"
| "api_handler A D t ReqLock s = handleLock s"
| "api_handler A D t ReqListIdentities s = handleListIdentities A s"
| "api_handler A D t (ReqAddIdentity r) s = handleAddIdentity A D r s"
| "api_handler A D t (ReqImportIdentity r) s = handleImportIdentity A D r s"
| "api_handler A D t (ReqExportIdentity n r) s = handleExportIdentity A D n r s"
| "api_handler A D t (ReqMinePoW n) s = handleMineIdentityPoW A D n s"
| "api_handler A D t (ReqRemoveIdentity n) s = handleRemoveIdentity A D n s"
| "api_handler A D t ReqListChannels s = handleListChannels s"
| "api_handler A D t (ReqAddChannel r) s = handleAddChannel A D r s"
| "api_handler A D t (ReqRemoveChannel n) s = handleRemoveChannel A D n s"
| "api_handler A D t (ReqListMessages a w) s = handleListMessages A t a w s"
| "api_handler A D t (ReqGetMessage b) s = handleGetMessage A t b s"
| "api_handler A D t ReqPowFloor s = handlePowFloor A s"
| "api_handler A D t (ReqBoost r) s = handleBoost A D t r s"
| "api_handler A D t (ReqScrape full since) s = handleScrape A D t full since s"
| "api_handler A D t (ReqSend r) s = handleSend A D t r s"
| "api_handler A D t (ReqSendChannel r) s = handleSendChannel A D t r s"
| "api_handler A D t ReqListContacts s = handleListContacts s"
| "api_handler A D t (ReqAddContact r) s = handleAddContact A D r s"
| "api_handler A D t (ReqRemoveContact p) s = handleRemoveContact A D p s"
| "api_handler A D t (ReqRenameContact p r) s = handleRenameContact A D p r s"
| "api_handler A D t ReqStatus s = handleStatus A s"
| "api_handler A D t ReqSync s = handleSync s"
| "api_handler A D t ReqListPeers s = handleListPeers A s"
| "api_handler A D t (ReqAddPeer r) s = handleAddPeer A r s"
| "api_handler A D t (ReqRemovePeer p) s = handleRemovePeer A p s"
| "api_handler A D t (ReqBlockPeer p) s = handleBlockPeer A p s"
| "api_handler A D t (ReqUnblockPeer p) s = handleUnblockPeer A p s"

text \<open>The routes that are registered without \<^verbatim>\<open>s.auth\<close>.\<close>

fun open_route :: "api_req \<Rightarrow> bool" where
  "open_route ReqOptions = True"
| "open_route ReqIndex = True"
| "open_route (ReqCreate _) = True"
| "open_route (ReqUnlock _) = True"
| "open_route ReqStatus = True"
| "open_route ReqListPeers = True"
| "open_route _ = False"

definition bearer :: "string \<Rightarrow> string" where
  "bearer header = (if prefix ''Bearer '' header then drop 7 header else header)"

definition auth :: "string \<Rightarrow> (('s, 'p) ApiServer \<Rightarrow> ('s, 'p) handled) \<Rightarrow> ('s, 'p) ApiServer \<Rightarrow> ('s, 'p) handled" where
  "auth header nxt s =
     (let token = bearer header
      in if token \<notin> set (as_tokens s) \<or> token = [] then (writeError 401 ''invalid or missing token'', s) else nxt s)"

text \<open>The answer, the server and the origin that the CORS headers allow.\<close>

definition api_ServeHTTP ::
  "('s, 'p) apiEnv \<Rightarrow> draws \<Rightarrow> time \<Rightarrow> string \<Rightarrow> string \<Rightarrow> api_req \<Rightarrow> ('s, 'p) ApiServer \<Rightarrow> string option \<times> ('s, 'p) handled" where
  "api_ServeHTTP A D t origin header req s =
     (if isLocalOrigin origin then Some origin else None,
      if open_route req then api_handler A D t req s else auth header (api_handler A D t req) s)"

end
