(* ===== verification/ApiSession.thy ===== *)
theory ApiSession
  imports ApiMessages
begin

text \<open>
  Sessions of the HTTP interface: the invariant that there is a keystore behind every token, kept by every handler,
  that no request meets a missing keystore, who gets a token, and the way from a new
  keystore to the first session.
\<close>

section \<open>Sessions\<close>

lemmas api_answers = writeJSON_def writeError_def invalidJSON_def

text \<open>There is a keystore and a scraper behind every token, and the scraper reports gifts to
  the server.\<close>

definition session_ok :: "('s, 'p) apiEnv \<Rightarrow> ('s, 'p) ApiServer \<Rightarrow> bool" where
  "session_ok A s \<longleftrightarrow>
     (as_tokens s \<noteq> [] \<longrightarrow> as_scraper s \<noteq> None) \<and>
     (\<forall>c. as_scraper s = Some c \<longrightarrow> as_ks s \<noteq> None \<and> c_OnPowGift c = Some (applyPowGift A) \<and> c_blocks c = ae_store A)"

lemma session_same:
  assumes "session_ok A s" "as_tokens s' = as_tokens s" "as_scraper s' = as_scraper s" "as_ks s \<noteq> None \<longrightarrow> as_ks s' \<noteq> None"
  shows "session_ok A s'"
  using assms(1,4) unfolding session_ok_def assms(2,3) by blast

lemma session_rebuild: "as_ks s = Some k' \<Longrightarrow> session_ok A (rebuildScraper A k s)"
  by (simp add: session_ok_def rebuildScraper_def New_def)

lemma session_save_ks:
  assumes "session_ok A s" "\<And>s'. as_ks s' = Some k \<Longrightarrow> session_ok A s' \<Longrightarrow> session_ok A (finish s')"
  shows "session_ok A (snd (save_ks A D k finish answer s))"
proof -
  have "session_ok A (s\<lparr>as_ks := Some k, as_fs := fs'\<rparr>)" for fs' by (rule session_same [OF assms(1)]) simp_all
  then show ?thesis using assms(2) by (auto simp: save_ks_def split: prod.split option.split)
qed

lemmas session_saves = session_save_ks [where finish = id, simplified] session_save_ks [where finish = "rebuildScraper A k" for A k, OF _ session_rebuild]

text \<open>What every callback keeps, a scan keeps.\<close>

lemma Scrape_gifts:
  assumes "Scrape E C ctxErr c t b ms g = Some (r, ms', g')" "c_OnPowGift c = Some f" "Q g" "\<And>n st g. Q g \<Longrightarrow> Q (f n st g)"
  shows "Q g'"
proof (cases "GetCheckpoint ms")
  case (Inl e)
  then show ?thesis using assms(1,3) by (simp add: Scrape_def)
next
  case (Inr since)
  let ?P = "\<lambda>acc. Q (snd (snd acc))"
  from assms(1) obtain res where l: "page_loop (scrape_body E C ctxErr c t b since) [] (0, ms, g) = Some res"
    by (auto simp: Scrape_def Inr)
  have ref: "case scrape_ref E C c t b i acc of Inl x \<Rightarrow> ?P x | Inr acc' \<Rightarrow> ?P acc'" if "?P acc" for i acc
    using that assms(2,4) by (auto simp: scrape_ref_def Let_def split: prod.splits sum.splits call.splits option.splits if_splits)
  have body: "case scrape_body E C ctxErr c t b since tok acc of Inl x \<Rightarrow> ?P x | Inr (nxt, acc') \<Rightarrow> ?P acc'" if p: "?P acc" for tok acc
  proof -
    have "case efold (\<lambda>ref. scrape_ref E C c t b (refID ref)) refs acc of Inl x \<Rightarrow> ?P x | Inr acc' \<Rightarrow> ?P acc'" for refs
      by (rule efold_keeps [OF ref p])
    note fold = this
    show ?thesis
    proof (cases "ctxErr tok = None \<and> (\<exists>x. st_ListBlocks (c_blocks c) t b tok (int scrapePageSize) 0 since = Inr x)")
      case False
      then show ?thesis using p by (auto simp: scrape_body_def split: option.splits sum.splits prod.splits)
    next
      case True
      then obtain nxt refs where "st_ListBlocks (c_blocks c) t b tok (int scrapePageSize) 0 since = Inr (nxt, refs)" by auto
      with True have "scrape_body E C ctxErr c t b since tok acc =
          sum_bind (efold (\<lambda>ref. scrape_ref E C c t b (refID ref)) refs acc) (\<lambda>acc'. Inr (nxt, acc'))"
        by (simp add: scrape_body_def case_prod_unfold)
      then show ?thesis using fold [of refs]
        by (cases "efold (\<lambda>ref. scrape_ref E C c t b (refID ref)) refs acc") simp_all
    qed
  qed
  have "case res of Inl x \<Rightarrow> ?P x | Inr acc' \<Rightarrow> ?P acc'" by (rule page_loop_keeps [OF l _ body]) (simp_all add: assms(3))
  then show ?thesis using assms(1) by (auto simp: Scrape_def Inr l split: sum.splits prod.splits)
qed

lemma applyPowGift_ks:
  "gs_ks g \<noteq> None \<and> \<not> gs_panicked g \<Longrightarrow> gs_ks (applyPowGift A n st g) \<noteq> None \<and> \<not> gs_panicked (applyPowGift A n st g)"
  by (auto simp: applyPowGift_def Let_def split: option.split)

lemma scrape_reset_frame: "scrape_reset full since ms = (r, ms') \<Longrightarrow> r \<noteq> Some Panic"
  by (auto simp: scrape_reset_def api_answers split: if_splits prod.splits option.splits sum.splits)

lemma handleScrape_session:
  assumes "session_ok A s"
  shows "session_ok A (snd (handleScrape A D t full since s))"
proof -
  obtain r ms' where sr: "scrape_reset full since (as_msgs s) = (r, ms')" by fastforce
  show ?thesis
  proof (cases "r = None \<and> as_scraper s \<noteq> None")
    case False
    have "session_ok A (s\<lparr>as_msgs := ms'\<rparr>)" by (rule session_same [OF assms]) simp_all
    then show ?thesis using False by (auto simp: handleScrape_def sr split: option.split)
  next
    case True
    then obtain c where c: "as_scraper s = Some c" by blast
    have gift: "c_OnPowGift c = Some (applyPowGift A)" "as_ks s \<noteq> None" using assms c by (simp_all add: session_ok_def)
    show ?thesis
    proof (cases "Scrape (ae_env A) (ae_crypto A) (dr_ctx D) c t (as_blocks s) ms' (gift_state D s)")
      case None
      have "session_ok A (s\<lparr>as_msgs := ms'\<rparr>)" by (rule session_same [OF assms]) simp_all
      then show ?thesis using True c None by (simp add: handleScrape_def sr)
    next
      case (Some x)
      obtain res ms'' g where x: "x = (res, ms'', g)" by (cases x)
      have "gs_ks g \<noteq> None \<and> \<not> gs_panicked g"
        by (rule Scrape_gifts [OF Some [unfolded x] gift(1), where Q = "\<lambda>g. gs_ks g \<noteq> None \<and> \<not> gs_panicked g"])
          (use gift(2) applyPowGift_ks in \<open>simp_all add: gift_state_def\<close>)
      then have "session_ok A (s\<lparr>as_msgs := ms'', as_ks := gs_ks g, as_fs := gs_fs g\<rparr>)"
        by (intro session_same [OF assms]) simp_all
      then show ?thesis using True c Some x by (auto simp: handleScrape_def sr Let_def split: option.split)
    qed
  qed
qed

text \<open>Handlers that do not touch the session.\<close>

definition frame :: "('s, 'p) ApiServer \<Rightarrow> ('s, 'p) ApiServer \<Rightarrow> bool" where
  "frame s s' \<longleftrightarrow> as_tokens s' = as_tokens s \<and> as_scraper s' = as_scraper s \<and> as_ks s' = as_ks s"

lemma frame_session: "frame s s' \<Longrightarrow> session_ok A s \<Longrightarrow> session_ok A s'"
  by (rule session_same) (auto simp: frame_def)

lemma frame_refl [simp]: "frame s s"
  by (simp add: frame_def)

lemma frame_updates [simp]:
  "frame s (s'\<lparr>as_msgs := ms\<rparr>) = frame s s'" "frame s (s'\<lparr>as_blocks := b\<rparr>) = frame s s'"
  "frame s (s'\<lparr>as_peers := p\<rparr>) = frame s s'" "frame s (s'\<lparr>as_status := st\<rparr>) = frame s s'"
  "frame s (s'\<lparr>as_idPowCache := c\<rparr>) = frame s s'" "frame s (s'\<lparr>as_fs := fs\<rparr>) = frame s s'"
  by (simp_all add: frame_def)

lemma frame_trans: "frame s s' \<Longrightarrow> frame s' s'' \<Longrightarrow> frame s s''"
  by (simp add: frame_def)

lemma frame_buildMsgResp [simp]: "frame s (snd (buildMsgResp A t m s')) = frame s s'"
  by (simp add: buildMsgResp_def Let_def case_prod_beta)

lemma frame_buildMsgResps [simp]: "frame s (snd (buildMsgResps A t ms s')) = frame s s'"
proof (induction ms arbitrary: s')
  case (Cons m ms)
  obtain r s1 where 1: "buildMsgResp A t m s' = (r, s1)" by fastforce
  obtain rs s2 where 2: "buildMsgResps A t ms s1 = (rs, s2)" by fastforce
  show ?case using Cons.IH [of s1] frame_buildMsgResp [of s A t m s'] by (simp add: 1 2)
qed simp

lemma frame_boosted_ref: "frame s (snd (snd acc)) \<Longrightarrow> frame s (snd (snd (boosted_ref A t i acc)))"
proof -
  assume f: "frame s (snd (snd acc))"
  obtain seen out s1 where acc: "acc = (seen, out, s1)" by (metis prod_cases3)
  have "frame s s'" if "buildMsgResp A t m s1 = (r, s')" for m r s'
    using frame_buildMsgResp [of s A t m s1] f that by (simp add: acc)
  then show ?thesis using f by (auto simp: boosted_ref_def acc split: sum.split option.split prod.split)
qed

lemma frame_boosted_refs: "frame s (snd (snd acc)) \<Longrightarrow> frame s (snd (snd (fold (boosted_ref A t) is acc)))"
  by (induction "is" arbitrary: acc) (simp_all add: frame_boosted_ref)

lemma frame_handleListMessages: "frame s (snd (handleListMessages A t a w s))"
proof (cases "ListMessagesAfter (ae_env A) (ParseInt64 a) (as_msgs s)")
  case (Inl e)
  then show ?thesis by (simp add: handleListMessages_def)
next
  case (Inr msgs)
  obtain out s1 where b: "buildMsgResps A t msgs s = (out, s1)" by fastforce
  have f: "frame s s1" using frame_buildMsgResps [of s A t msgs s] by (simp add: b)
  let ?loop = "page_loop (boosted_body A t (as_blocks s1) (timeUnix (ParseInt64 w))) [] (map m_BlockID msgs, out, s1)"
  let ?P = "\<lambda>acc. frame s (snd (snd acc))"
  have step: "case boosted_body A t b since tok acc of Inl x \<Rightarrow> ?P x | Inr (nxt, acc') \<Rightarrow> ?P acc'" if "?P acc" for b since tok acc
    using that frame_boosted_refs [of s acc A t]
    by (cases "st_ListBlocks (ae_store A) t b tok 200 0 since") (simp_all add: boosted_body_def case_prod_unfold)
  have "case res of Inl acc \<Rightarrow> ?P acc | Inr acc \<Rightarrow> ?P acc" if "?loop = Some res" for res
    by (rule page_loop_keeps [OF that _ step]) (simp_all add: f)
  then show ?thesis using f
    by (auto simp: handleListMessages_def Inr b Let_def split: option.split sum.split)
qed

lemma frame_handleGetMessage: "frame s (snd (handleGetMessage A t b s))"
proof -
  have "frame s s'" if "buildMsgResp A t m s = (r, s')" for m r s'
    using frame_buildMsgResp [of s A t m s] that by simp
  then show ?thesis by (auto simp: handleGetMessage_def split: option.split sum.split prod.split)
qed

lemma frame_mine_and_put:
  assumes "\<And>i b'. frame s (snd (finish i (s\<lparr>as_blocks := b'\<rparr>)))"
  shows "frame s (snd (mine_and_put A D t payload finish s))"
  using assms by (auto simp: mine_and_put_def split: option.split prod.split sum.split)

lemma frame_handleSend: "frame s (snd (handleSend A D t r s))"
  by (auto simp: handleSend_def Let_def case_prod_beta intro!: frame_mine_and_put split: option.split sum.split)

lemma frame_handleSendChannel: "frame s (snd (handleSendChannel A D t r s))"
  by (auto simp: handleSendChannel_def Let_def case_prod_beta intro!: frame_mine_and_put split: option.split sum.split)

lemma frame_sendPowGift [simp]: "frame s (sendPowGift A D t p st s') = frame s s'"
  by (simp add: sendPowGift_def Let_def split: sum.split)

lemma frame_boost_put [simp]: "frame s (snd (boost_put A t i p b s')) = frame s s'"
  by (auto simp: boost_put_def split: prod.split option.split sum.split)

lemma frame_handleBoost: "frame s (snd (handleBoost A D t r s))"
proof -
  have "frame s s'" if "boost_put A t i p b s = (x, s')" for i p b x s'
    using frame_boost_put [of s A t i p b s] that by simp
  then show ?thesis by (auto simp: handleBoost_def Let_def split: option.split sum.split prod.split)
qed

lemma frame_peer_change: "frame s (snd (peer_change A f b s))"
  by (auto simp: peer_change_def split: option.split sum.split)

lemma frame_handleAddPeer: "frame s (snd (handleAddPeer A r s))"
  by (auto simp: handleAddPeer_def split: option.split prod.split bool.split)

lemma frame_handleCreate: "frame s (snd (handleCreate A D r s))"
  by (auto simp: handleCreate_def split: option.split sum.split prod.split)

lemma frame_handleSync: "frame s (snd (handleSync s))"
  by (auto simp: handleSync_def split: option.split)

lemmas frames = frame_handleSync frame_handleListMessages frame_handleGetMessage frame_handleSend frame_handleSendChannel frame_handleBoost
  frame_peer_change frame_handleAddPeer frame_handleCreate

lemmas plain_handlers = handleListIdentities_def handleExportIdentity_def handleListChannels_def handleListContacts_def
  handlePowFloor_def handleStatus_def handleListPeers_def handleRemovePeer_def handleBlockPeer_def handleUnblockPeer_def

lemma session_handleLock: "session_ok A (snd (handleLock s))"
  by (simp add: session_ok_def handleLock_def)

lemma session_handleUnlock: "session_ok A s \<Longrightarrow> session_ok A (snd (handleUnlock A D r s))"
  by (auto simp: handleUnlock_def intro!: session_rebuild elim!: session_same split: option.split sum.split prod.split)

lemmas keystore_handlers = handleChangePassword_def handleMineIdentityPoW_def handleAddIdentity_def handleRemoveIdentity_def
  handleImportIdentity_def handleAddChannel_def handleRemoveChannel_def handleAddContact_def handleRemoveContact_def
  handleRenameContact_def

lemma session_handler:
  assumes "session_ok A s"
  shows "session_ok A (snd (api_handler A D t req s))"
proof -
  have ks: "session_ok A (s\<lparr>as_ks := Some k\<rparr>)" for k by (rule session_same [OF assms]) simp_all
  note f = frames [THEN frame_session, OF assms]
  show ?thesis
    by (cases req)
      (use assms ks f in \<open>auto simp: keystore_handlers plain_handlers session_handleLock session_handleUnlock handleScrape_session
         intro!: session_saves split: option.split sum.split prod.split bool.split\<close>)
qed

text \<open>The servers that come about: requests of any kind, and the other parts of the program at work on the block store,
  the file system, the peers and the providers.\<close>

inductive api_reach :: "('s, 'p) apiEnv \<Rightarrow> ('s, 'p) ApiServer \<Rightarrow> bool" for A where
  start: "api_reach A (api_New blocks msgs keystorePath fs)"
| request: "api_reach A s \<Longrightarrow> api_ServeHTTP A D t origin header req s = (cors, answer, s') \<Longrightarrow> api_reach A s'"
| others: "api_reach A s \<Longrightarrow> api_reach A (s\<lparr>as_blocks := b, as_fs := fs, as_peers := p, as_status := st\<rparr>)"

lemma session_serve: "session_ok A s \<Longrightarrow> session_ok A (snd (snd (api_ServeHTTP A D t origin header req s)))"
  by (simp add: api_ServeHTTP_def auth_def session_handler Let_def)

lemma reach_session: "api_reach A s \<Longrightarrow> session_ok A s"
proof (induction rule: api_reach.induct)
  case (start blocks msgs keystorePath fs)
  then show ?case by (simp add: session_ok_def api_New_def)
next
  case (request s D t origin header req cors answer s')
  then show ?case using session_serve [OF request.IH, of D t origin header req] by simp
next
  case (others s b fs p st)
  then show ?case by (rule_tac session_same [OF others.IH]) simp_all
qed

text \<open>With a keystore and a scraper, a handler only panics in the code of the keystore or of the
  scraper.\<close>

definition may_panic :: "api_req \<Rightarrow> bool" where
  "may_panic req = (case req of ReqUnlock _ \<Rightarrow> True | ReqImportIdentity _ \<Rightarrow> True | ReqScrape _ _ \<Rightarrow> True | _ \<Rightarrow> False)"

lemma save_ks_panic: "answer \<noteq> Panic \<Longrightarrow> (fst (save_ks A D k finish answer s) = Panic) = False"
  by (auto simp: save_ks_def api_answers split: option.split prod.split)

lemma mine_and_put_panic:
  "(\<And>i s. fst (finish i s) \<noteq> Panic) \<Longrightarrow> fst (mine_and_put A D t payload finish s) \<noteq> Panic"
  by (auto simp: mine_and_put_def api_answers split: option.split prod.split sum.split)

lemma resolve_sender_panic: "as_ks s \<noteq> None \<Longrightarrow> resolve_sender n s \<noteq> Inl Panic"
  by (auto simp: resolve_sender_def api_answers split: option.split)

lemma resolve_reply_panic: "resolve_reply n ms \<noteq> Inl Panic"
  by (auto simp: resolve_reply_def api_answers split: option.split sum.split)

lemma send_panic: "as_ks s \<noteq> None \<Longrightarrow> fst (handleSend A D t r s) \<noteq> Panic"
  using resolve_sender_panic [of s] resolve_reply_panic
  by (auto simp: handleSend_def Let_def case_prod_beta api_answers intro!: mine_and_put_panic split: option.split sum.split)

lemma send_channel_panic: "as_ks s \<noteq> None \<Longrightarrow> fst (handleSendChannel A D t r s) \<noteq> Panic"
  using resolve_sender_panic [of s] resolve_reply_panic
  by (auto simp: handleSendChannel_def Let_def case_prod_beta api_answers intro!: mine_and_put_panic split: option.split sum.split)

lemma boost_panic: "fst (handleBoost A D t r s) \<noteq> Panic"
proof -
  have p: "fst (boost_put A t i p b s) \<noteq> Panic" for i p b s
    by (auto simp: boost_put_def api_answers split: prod.split option.split sum.split)
  then have "x \<noteq> Panic" if "boost_put A t i p b s = (x, s')" for i p b x s s'
    using p [of i p b s] that by simp
  with p show ?thesis by (auto simp: handleBoost_def Let_def api_answers split: option.split sum.split prod.split)
qed

lemma list_panic: "fst (handleListMessages A t a w s) \<noteq> Panic"
  by (auto simp: handleListMessages_def Let_def api_answers split: option.split sum.split prod.split)

lemmas panics = save_ks_panic send_panic send_channel_panic boost_panic list_panic

lemma handler_panic:
  assumes "as_ks s \<noteq> None" "\<not> may_panic req"
  shows "fst (api_handler A D t req s) \<noteq> Panic"
  using assms
  by (cases req)
    (auto simp: may_panic_def keystore_handlers plain_handlers handleLock_def handleCreate_def handleGetMessage_def handleSync_def
       handleAddPeer_def peer_change_def decodePeerURL_def api_answers panics split: option.split sum.split prod.split bool.split)

lemma open_panic: "open_route req \<Longrightarrow> \<not> may_panic req \<Longrightarrow> fst (api_handler A D t req s) \<noteq> Panic"
  by (cases req) (auto simp: may_panic_def handleCreate_def handleStatus_def handleListPeers_def api_answers
      split: option.split sum.split prod.split)

lemma serve_panic:
  assumes "session_ok A s" "fst (snd (api_ServeHTTP A D t origin header req s)) = Panic"
  shows "may_panic req"
proof (rule ccontr)
  assume n: "\<not> may_panic req"
  show False
  proof (cases "open_route req")
    case True
    then show ?thesis using assms(2) open_panic [OF True n, of A D t s] by (simp add: api_ServeHTTP_def)
  next
    case False
    with assms(2) have "as_tokens s \<noteq> []" "fst (api_handler A D t req s) = Panic"
      by (auto simp: api_ServeHTTP_def auth_def Let_def api_answers split: if_splits)
    then show ?thesis using assms(1) handler_panic [of s req A D t] n by (auto simp: session_ok_def)
  qed
qed

section \<open>Tokens\<close>

text \<open>Where a new token comes from, and what no request but unlocking changes of a locked server.\<close>

lemma handler_tokens:
  assumes "token \<in> set (as_tokens (snd (api_handler A D t req s)))" "token \<notin> set (as_tokens s)"
  obtains password k fs' where "req = ReqUnlock (Some password)" "newToken (dr_token D) = Inr token"
    "LoadKeystore (ae_env A) (ae_crypto A) (ae_json A) (dr_load D) (as_ksPath s) (bytes_of_string password) (as_fs s) = (Some (Inr k), fs')"
    "fst (api_handler A D t req s) = writeJSON 200 (BToken token)"
proof (cases "\<exists>r. req = ReqUnlock r")
  case True
  then show thesis using assms that
    by (auto simp: handleUnlock_def rebuildScraper_def split: option.splits sum.splits prod.splits)
next
  case False
  have save: "as_tokens (snd (save_ks A D k id x s)) = as_tokens s"
    "as_tokens (snd (save_ks A D k (rebuildScraper A k') x s)) = as_tokens s" for k k' x
    by (auto simp: save_ks_def rebuildScraper_def split: option.split prod.split)
  have scrape: "as_tokens (snd (handleScrape A D t f u s)) = as_tokens s" for f u
    by (auto simp: handleScrape_def Let_def split: option.split prod.split)
  note f = frames [of s, unfolded frame_def, THEN conjunct1]
  have "set (as_tokens (snd (api_handler A D t req s))) \<subseteq> set (as_tokens s)"
    using False
    by (cases req)
      (auto simp: keystore_handlers plain_handlers handleLock_def f save scrape split: option.split sum.split prod.split bool.split)
  then show thesis using assms by blast
qed

fun api_run :: "('s, 'p) apiEnv \<Rightarrow> (draws \<times> time \<times> string \<times> string \<times> api_req) list \<Rightarrow> ('s, 'p) ApiServer \<Rightarrow> ('s, 'p) ApiServer" where
  "api_run A [] s = s"
| "api_run A ((D, t, origin, header, req) # rs) s = api_run A rs (snd (snd (api_ServeHTTP A D t origin header req s)))"

lemma locked_step:
  assumes "as_tokens s = []" "as_ks s = None" "\<forall>p. req \<noteq> ReqUnlock p"
    "snd (api_ServeHTTP A D t origin header req s) = (answer, s')"
  shows "as_tokens s' = [] \<and> as_ks s' = None"
proof (cases "open_route req")
  case True
  have "frame s (snd (api_handler A D t req s))" using True assms(3)
    by (cases req) (auto simp: handleStatus_def handleListPeers_def frame_handleCreate)
  then have "frame s s'" using True assms(4) by (simp add: api_ServeHTTP_def)
  then show ?thesis using assms by (simp add: frame_def)
next
  case False
  then show ?thesis using assms by (auto simp: api_ServeHTTP_def auth_def)
qed

lemma locked_run:
  assumes "as_tokens s = []" "as_ks s = None" "\<forall>(D, t, origin, header, req) \<in> set rs. \<forall>p. req \<noteq> ReqUnlock p"
  shows "as_tokens (api_run A rs s) = [] \<and> as_ks (api_run A rs s) = None"
  using assms
proof (induction A rs s rule: api_run.induct)
  case (2 A D t origin header req rs s)
  have u: "\<forall>p. req \<noteq> ReqUnlock p" using 2(4) by simp
  obtain c answer s' where s': "api_ServeHTTP A D t origin header req s = (c, answer, s')" by (metis prod_cases3)
  have "as_tokens s' = [] \<and> as_ks s' = None"
    by (rule locked_step [OF 2(2,3) u, of A D t origin header answer]) (simp add: s')
  then show ?case using 2(1,4) by (simp add: s')
qed simp

section \<open>From a new keystore to a session\<close>

lemma handleCreate_saves:
  assumes "env_ok (ae_env A)" "crypto_ok (ae_crypto A)" "draws_ok (dr_save D)" "password \<noteq> []"
    and "fs_ok (as_fs s)" "as_ksPath s \<noteq> []" "butlast (as_ksPath s) \<in> set (fs_dirs (as_fs s))" "fs_map (as_fs s) (as_ksPath s) = None"
    and "NewKeystore (ae_env A) (dr_salt D) (bytes_of_string password) = Inr k"
    and "\<And>f. keystore_file (ae_crypto A) (dr_save D) k = Inr f \<Longrightarrow> json_reads (ae_json A) f"
  obtains fs' where "handleCreate A D (Some password) s = (writeJSON 201 BEmpty, s\<lparr>as_fs := fs'\<rparr>)"
    "fs_stat fs' (as_ksPath s)"
    "\<And>rnd. LoadKeystore (ae_env A) (ae_crypto A) (ae_json A) rnd (as_ksPath s) (bytes_of_string password) fs' = (Some (Inr k), fs')"
proof -
  have "ks_reach (ae_env A) (ae_crypto A) (ae_json A) k" by (rule ks_reach.New [OF assms(9)])
  then have inv: "ks_inv k" by (rule ks_reach_inv [OF _ assms(1)])
  have pw: "VerifyPassword (ae_env A) (bytes_of_string password) k"
    using assms(9) by (auto simp: VerifyPassword_def NewKeystore_def split: sum.splits)
  obtain f where f: "keystore_file (ae_crypto A) (dr_save D) k = Inr f" using keystore_file_ok [OF assms(2,3) inv] by metis
  obtain fs' where fs': "Save (ae_crypto A) (ae_json A) (dr_save D) (as_ksPath s) k (as_fs s) = (None, fs')" "fs_ok fs'"
    "fs_map fs' (as_ksPath s) = Some (kj_Marshal (ae_json A) f)"
    using Save_ok [OF f assms(5-7)] by metis
  show thesis
  proof (rule that)
    show "handleCreate A D (Some password) s = (writeJSON 201 BEmpty, s\<lparr>as_fs := fs'\<rparr>)"
      using assms(4,8,9) fs'(1) by (simp add: handleCreate_def fs_stat_ok [OF assms(5)])
    show "fs_stat fs' (as_ksPath s)" by (simp add: fs_stat_ok [OF fs'(2)] fs'(3))
    show "LoadKeystore (ae_env A) (ae_crypto A) (ae_json A) rnd (as_ksPath s) (bytes_of_string password) fs' = (Some (Inr k), fs')" for rnd
      using save_load_keystore [OF assms(2,3) inv pw assms(5-7) assms(10), of rnd] fs'(1) by simp
  qed
qed

lemma auth_token: "token \<in> set (as_tokens s) \<Longrightarrow> token \<noteq> [] \<Longrightarrow> auth (''Bearer '' @ token) h s = h s"
  by (simp add: auth_def bearer_def)

lemma handleUnlock_opens:
  assumes "LoadKeystore (ae_env A) (ae_crypto A) (ae_json A) (dr_load D) (as_ksPath s) (bytes_of_string password) (as_fs s) = (Some (Inr k), fs')"
    and "dr_token D = Inr b"
  shows "handleUnlock A D (Some password) s = (writeJSON 200 (BToken (b64_EncodeToString b)),
    rebuildScraper A k (s\<lparr>as_ks := Some k, as_tokens := List.insert (b64_EncodeToString b) (as_tokens s), as_fs := fs'\<rparr>))"
  using assms by (simp add: handleUnlock_def newToken_def)

lemma b64_nonempty: "b \<noteq> [] \<Longrightarrow> b64_EncodeToString b \<noteq> []"
  by (cases "(True, [] :: string, b)" rule: b64_enc.cases) (simp_all add: b64_EncodeToString_def quad_def Let_def)

section \<open>Properties\<close>


text \<open>C6: a token that a request adds was drawn for an unlock request whose password opened the keystore file, and is its answer.
  After \<^verbatim>\<open>handleLock\<close>, until someone sends an unlock request, every request to a protected
  route is answered with 401 and changes nothing, and no keystore is in memory.\<close>

theorem tokens_only_from_password:
  assumes "token \<in> set (as_tokens (snd (snd (api_ServeHTTP A D t origin header req s))))" "token \<notin> set (as_tokens s)"
    and "\<forall>(D, t, origin, header, req) \<in> set rs. \<forall>p. req \<noteq> ReqUnlock p" "\<not> open_route req'"
  shows "(\<exists>password k fs'. req = ReqUnlock (Some password) \<and>
      LoadKeystore (ae_env A) (ae_crypto A) (ae_json A) (dr_load D) (as_ksPath s) (bytes_of_string password) (as_fs s) = (Some (Inr k), fs') \<and>
      fst (snd (api_ServeHTTP A D t origin header req s)) = writeJSON 200 (BToken token)) \<and>
    (let l = api_run A rs (snd (handleLock s))
     in as_ks l = None \<and>
        snd (api_ServeHTTP A D' t' origin' header' req' l) = (writeError 401 ''invalid or missing token'', l))"
proof -
  have "as_tokens (snd (handleLock s)) = []" "as_ks (snd (handleLock s)) = None" by (simp_all add: handleLock_def)
  from locked_run [OF this assms(3), of A] have l: "as_tokens (api_run A rs (snd (handleLock s))) = []"
    "as_ks (api_run A rs (snd (handleLock s))) = None" by simp_all
  have h: "token \<in> set (as_tokens (snd (api_handler A D t req s)))"
    "snd (api_ServeHTTP A D t origin header req s) = api_handler A D t req s"
    using assms(1,2) by (auto simp: api_ServeHTTP_def auth_def Let_def split: if_splits)
  show ?thesis
    by (rule handler_tokens [OF h(1) assms(2)])
      (use h(2) in \<open>simp add: l api_ServeHTTP_def [of _ _ _ _ _ req'] auth_def assms(4)\<close>)
qed


text \<open>A server over an empty Badger store and an empty directory.\<close>

definition api_draws0 :: draws where
  "api_draws0 = \<lparr>dr_token = Inr (replicate 32 5), dr_salt = Inr (replicate 32 0), dr_nonce = Inr (replicate 24 2), dr_seed = Inr (replicate 32 4),
     dr_save = draws0, dr_load = draws0, dr_enc = rand0, dr_chanSalt = Inr (replicate 32 3), dr_chanNonce = Inr (replicate 24 2),
     dr_mineCtx = (\<lambda>_. None), dr_mine = (\<lambda>_. Inr (replicate 4 255)), dr_idSelect = (\<lambda>_. DeadlineHit), dr_idFirst = Inr (replicate 16 0),
     dr_idMine = (\<lambda>_. Inr (replicate 16 0)), dr_gift = rand0, dr_giftFirst = True, dr_ctx = (\<lambda>_. None), dr_giftSave = (\<lambda>_. draws0)\<rparr>"

definition new_ks0 :: Keystore where
  "new_ks0 = (case NewKeystore env0 (Inr (replicate 32 0)) (bytes_of_string ''pw'') of Inr k \<Rightarrow> k)"

definition api0 :: "(mem_db BadgerStore, unit) apiEnv" where
  "api0 = \<lparr>ae_env = env0, ae_crypto = crypto0,
     ae_json = json_for (case keystore_file crypto0 draws0 new_ks0 of Inr f \<Rightarrow> f) export0,
     ae_store = badger_store env0 mem_badger, ae_median = Some (\<lambda>s. Inr (MedianWorkFactor s)),
     ae_disk = None,
     ae_pm = \<lparr>pm_AddPeer = (\<lambda>_ _ p. (False, p)), pm_RemovePeer = (\<lambda>_ p. p), pm_BlockPeer = (\<lambda>_ p. p), pm_UnblockPeer = (\<lambda>_ p. p),
       pm_ListPeers = (\<lambda>_. []), pm_Save = (\<lambda>p. p)\<rparr>\<rparr>"

definition api_server0 :: "(mem_db BadgerStore, unit) ApiServer" where
  "api_server0 = api_New (OpenBadger []) empty_ms [''keys''] fs_empty"

lemma api0_simps [simp]: "ae_env api0 = env0" "ae_crypto api0 = crypto0" "ae_store api0 = badger_store env0 mem_badger"
  "dr_save api_draws0 = draws0" "dr_token api_draws0 = Inr (replicate 32 5)" "dr_salt api_draws0 = Inr (replicate 32 0)"
  "dr_enc api_draws0 = rand0" "dr_gift api_draws0 = rand0" "dr_giftFirst api_draws0 = True" "dr_mineCtx api_draws0 = (\<lambda>_. None)"
  by (simp_all add: api0_def api_draws0_def)

lemma api_server0_fs: "fs_ok (as_fs api_server0)" "as_ksPath api_server0 \<noteq> []"
  "butlast (as_ksPath api_server0) \<in> set (fs_dirs (as_fs api_server0))" "fs_map (as_fs api_server0) (as_ksPath api_server0) = None"
  by (simp_all add: api_server0_def api_New_def fs_ok_empty(1)) (simp_all add: fs_empty_def fs_map_def)

lemma new_ks0_simps: "NewKeystore (ae_env api0) (dr_salt api_draws0) (bytes_of_string ''pw'') = Inr new_ks0"
  "keystore_file (ae_crypto api0) (dr_save api_draws0) new_ks0 = Inr f \<Longrightarrow> json_reads (ae_json api0) f"
  by (simp add: new_ks0_def NewKeystore_def) (simp add: json_reads_def api0_def api_draws0_def)

lemmas create0 = env_ok_env0 [folded api0_simps(1)] crypto_ok_crypto0 [folded api0_simps(2)] draws0_ok [folded api0_simps(4)]

text \<open>The session that follows.\<close>

lemma session0:
  obtains s s' where "api_ServeHTTP api0 api_draws0 0 [] [] (ReqCreate (Some ''pw'')) api_server0 = (None, writeJSON 201 BEmpty, s)"
    "api_ServeHTTP api0 api_draws0 0 [] [] (ReqUnlock (Some ''pw'')) s = (None, writeJSON 200 (BToken (b64_EncodeToString (replicate 32 5))), s')"
    "as_ks s' = Some new_ks0" "as_tokens s = []" "as_tokens s' = [b64_EncodeToString (replicate 32 5)]" "api_reach api0 s'"
proof -
  obtain fs' where c: "handleCreate api0 api_draws0 (Some ''pw'') api_server0 = (writeJSON 201 BEmpty, api_server0\<lparr>as_fs := fs'\<rparr>)"
    "\<And>rnd. LoadKeystore (ae_env api0) (ae_crypto api0) (ae_json api0) rnd (as_ksPath api_server0) (bytes_of_string ''pw'') fs' = (Some (Inr new_ks0), fs')"
    by (rule handleCreate_saves [OF create0 _ api_server0_fs new_ks0_simps]) (auto intro: that)
  let ?s = "api_server0\<lparr>as_fs := fs'\<rparr>"
  let ?s' = "rebuildScraper api0 new_ks0 (?s\<lparr>as_ks := Some new_ks0, as_tokens := List.insert (b64_EncodeToString (replicate 32 5)) [], as_fs := fs'\<rparr>)"
  have tk: "as_tokens api_server0 = []" by (simp add: api_server0_def api_New_def)
  have u: "handleUnlock api0 api_draws0 (Some ''pw'') ?s = (writeJSON 200 (BToken (b64_EncodeToString (replicate 32 5))), ?s')"
    using handleUnlock_opens [of api0 api_draws0 ?s "''pw''" new_ks0 fs' "replicate 32 5"] c(2) by (simp add: tk)
  have n: "\<not> isLocalOrigin []" by (simp add: isLocalOrigin_def)
  have 1: "api_ServeHTTP api0 api_draws0 0 [] [] (ReqCreate (Some ''pw'')) api_server0 = (None, writeJSON 201 BEmpty, ?s)"
    by (simp add: api_ServeHTTP_def c(1) n)
  have 2: "api_ServeHTTP api0 api_draws0 0 [] [] (ReqUnlock (Some ''pw'')) ?s =
      (None, writeJSON 200 (BToken (b64_EncodeToString (replicate 32 5))), ?s')"
    by (simp add: api_ServeHTTP_def u n)
  have r: "api_reach api0 ?s'"
    by (rule api_reach.request [OF api_reach.request [OF api_reach.start 1 [unfolded api_server0_def]] 2 [unfolded api_server0_def], folded api_server0_def])
  show thesis by (rule that [OF 1 2 _ _ _ r]) (simp_all add: rebuildScraper_def tk)
qed


theorem tokens_only_from_password_witness:
  "\<exists>s. as_tokens s = [] \<and> (\<exists>k fs'. LoadKeystore env0 crypto0 (ae_json api0) (dr_load api_draws0) (as_ksPath s) (bytes_of_string ''pw'') (as_fs s) =
       (Some (Inr k), fs')) \<and>
     (let l = api_run api0 [(api_draws0, 1, [], [], ReqStatus)] (snd (handleLock s))
      in snd (api_ServeHTTP api0 api_draws0 2 [] (''Bearer '' @ b64_EncodeToString (replicate 32 5)) ReqListIdentities l) =
           (writeError 401 ''invalid or missing token'', l))"
proof (rule session0)
  fix s s'
  assume s: "api_ServeHTTP api0 api_draws0 0 [] [] (ReqUnlock (Some ''pw'')) s = (None, writeJSON 200 (BToken (b64_EncodeToString (replicate 32 5))), s')"
    "as_tokens s = []" "as_tokens s' = [b64_EncodeToString (replicate 32 5)]"
  have t: "b64_EncodeToString (replicate 32 5) \<in> set (as_tokens (snd (snd (api_ServeHTTP api0 api_draws0 0 [] [] (ReqUnlock (Some ''pw'')) s))))"
    using s by simp
  have "\<forall>(D, t, origin, header, req) \<in> set [(api_draws0, 1 :: int, [] :: string, [] :: string, ReqStatus)]. \<forall>p. req \<noteq> ReqUnlock p"
    "\<not> open_route ReqListIdentities" by simp_all
  from tokens_only_from_password [OF t _ this, of api_draws0 2 "[]" "''Bearer '' @ b64_EncodeToString (replicate 32 5)"] s(2)
  show ?thesis by (intro exI [of _ s]) (auto simp: Let_def)
qed


end
