(* ===== verification/ApiList.thy ===== *)
theory ApiList
  imports ApiSession
begin

text \<open>
  The list of messages that the HTTP interface answers: the new messages in their order, then every message whose block
  was stored again since the client last asked, once each.
\<close>

lemma buildMsgResp_keeps:
  "as_msgs (snd (buildMsgResp A t m s)) = as_msgs s" "as_blocks (snd (buildMsgResp A t m s)) = as_blocks s"
  "mr_BlockID (fst (buildMsgResp A t m s)) = hex_Encode (m_BlockID m)"
  by (simp_all add: buildMsgResp_def Let_def case_prod_beta)

lemma buildMsgResps_keeps:
  "as_msgs (snd (buildMsgResps A t ms s)) = as_msgs s \<and> as_blocks (snd (buildMsgResps A t ms s)) = as_blocks s \<and>
   map mr_BlockID (fst (buildMsgResps A t ms s)) = map (\<lambda>m. hex_Encode (m_BlockID m)) ms"
proof (induction ms arbitrary: s)
  case (Cons m ms)
  obtain r s1 where 1: "buildMsgResp A t m s = (r, s1)" by fastforce
  obtain rs s2 where 2: "buildMsgResps A t ms s1 = (rs, s2)" by fastforce
  show ?case using Cons.IH [of s1] buildMsgResp_keeps [of A t m s] by (simp add: 1 2)
qed simp

lemma GetMessage_saved:
  assumes "ms_fault ms SqlSelect = None" "length i = 32"
  shows "(i \<in> saved ms \<longrightarrow> (\<exists>m. GetMessage i ms = Inr (Some m) \<and> m_BlockID m = i)) \<and> (i \<notin> saved ms \<longrightarrow> GetMessage i ms = Inr None)"
proof (cases "find (\<lambda>r. rw_block_id r = i) (ms_rows ms)")
  case None
  then show ?thesis using assms(1) by (auto simp: GetMessage_def saved_def find_None_iff)
next
  case (Some r)
  then have "rw_block_id r = i" "i \<in> saved ms" by (auto simp: find_Some_iff saved_def)
  then show ?thesis using assms Some by (auto simp: GetMessage_def scanMessage_def copy32_def)
qed

text \<open>One pass over blocks that are all different: the saved ones that were not answered yet are appended.\<close>

lemma boosted_fold:
  assumes "distinct xs" "\<forall>i \<in> set xs. length i = 32" "ms_fault (as_msgs s) SqlSelect = None"
  shows "\<exists>out' s'. fold (boosted_ref A t) xs (seen, out, s) =
      (rev (filter (\<lambda>i. i \<in> saved (as_msgs s) \<and> i \<notin> set seen) xs) @ seen, out @ out', s') \<and>
    map mr_BlockID out' = map hex_Encode (filter (\<lambda>i. i \<in> saved (as_msgs s) \<and> i \<notin> set seen) xs)"
  using assms
proof (induction xs arbitrary: seen out s)
  case (Cons i xs)
  note g = GetMessage_saved [OF Cons.prems(3), of i]
  show ?case
  proof (cases "i \<in> saved (as_msgs s) \<and> i \<notin> set seen")
    case False
    then have "boosted_ref A t i (seen, out, s) = (seen, out, s)" using g Cons.prems(2) by (auto simp: boosted_ref_def)
    then show ?thesis using Cons.IH [of s seen out] Cons.prems False by auto
  next
    case True
    then obtain m where m: "GetMessage i (as_msgs s) = Inr (Some m)" "m_BlockID m = i" using g Cons.prems(2) by auto
    obtain r s1 where b: "buildMsgResp A t m s = (r, s1)" by fastforce
    have k: "as_msgs s1 = as_msgs s" "mr_BlockID r = hex_Encode i" using buildMsgResp_keeps [of A t m s] m(2) by (simp_all add: b)
    have step: "boosted_ref A t i (seen, out, s) = (i # seen, out @ [r], s1)" using True m(1) by (simp add: boosted_ref_def b)
    have f: "filter (\<lambda>j. j \<in> saved (as_msgs s) \<and> j \<notin> set (i # seen)) xs = filter (\<lambda>j. j \<in> saved (as_msgs s) \<and> j \<notin> set seen) xs"
      by (rule filter_cong) (use Cons.prems(1) in auto)
    obtain out' s' where "fold (boosted_ref A t) xs (i # seen, out @ [r], s1) =
        (rev (filter (\<lambda>j. j \<in> saved (as_msgs s) \<and> j \<notin> set seen) xs) @ i # seen, (out @ [r]) @ out', s')"
      "map mr_BlockID out' = map hex_Encode (filter (\<lambda>j. j \<in> saved (as_msgs s) \<and> j \<notin> set seen) xs)"
      using Cons.IH [of s1 "i # seen" "out @ [r]"] Cons.prems unfolding k(1) f by auto
    then show ?thesis using True by (intro exI [of _ "r # out'"] exI [of _ s']) (simp add: step k(2))
  qed
qed simp

text \<open>The blocks that a scan of the store since a time visits.\<close>

lemma sel_ids:
  assumes "badger_inv E B t b"
  shows "distinct (map snd (sel_keys (badger_blk B t b) pf since))"
    "set (map snd (sel_keys (badger_blk B t b) pf since)) =
       {i. \<exists>c. badger_blk B t b i = Some c \<and> pf \<le> sb_wf c \<and> since \<le> sb_createdAt c}"
proof -
  let ?ks = "sel_keys (badger_blk B t b) pf since"
  have s: "set ?ks = sel_set (badger_blk B t b) pf since" by (rule set_sel_keys [OF badger.finite_blk [OF assms]])
  have "distinct ?ks" by (simp add: sel_keys_def)
  moreover have "inj_on snd (set ?ks)" unfolding s by (auto simp: inj_on_def sel_set_def)
  ultimately show "distinct (map snd ?ks)" by (simp add: distinct_map)
  show "set (map snd ?ks) = {i. \<exists>c. badger_blk B t b i = Some c \<and> pf \<le> sb_wf c \<and> since \<le> sb_createdAt c}"
    unfolding set_map s by (force simp: sel_set_def)
qed

lemma ParseInt64_range: "in_int64 (ParseInt64 w)"
  by (auto simp: ParseInt64_def in_int64_def Let_def min_def)

section \<open>Properties\<close>

text \<open>C27: on every readable message table and every Badger store \<^verbatim>\<open>handleListMessages\<close> ends and answers with
  the messages after the given row, in the order of the table's query, followed, when a time is given, by exactly those
  other saved messages whose block the store has (re)created since then, none of them twice.\<close>

theorem list_messages:
  assumes "ae_store A = badger_store (ae_env A) B" "badger_inv (ae_env A) B t (as_blocks s)" "ms_fault (as_msgs s) SqlSelect = None"
  shows "\<exists>out s' msgs extra. handleListMessages A t after_id wf_since s = (writeJSON 200 (BMessages out), s') \<and>
    ListMessagesAfter (ae_env A) (ParseInt64 after_id) (as_msgs s) = Inr msgs \<and>
    map mr_BlockID out = map (\<lambda>m. hex_Encode (m_BlockID m)) msgs @ map hex_Encode extra \<and> distinct extra \<and>
    set extra = (if 0 < ParseInt64 wf_since
       then {i \<in> saved (as_msgs s). i \<notin> m_BlockID ` set msgs \<and>
          (\<exists>b. badger_blk B t (as_blocks s) i = Some b \<and> ParseInt64 wf_since \<le> sb_createdAt b)}
       else {})"
proof -
  obtain msgs where l: "ListMessagesAfter (ae_env A) (ParseInt64 after_id) (as_msgs s) = Inr msgs"
    using assms(3) by (simp add: ListMessagesAfter_def)
  obtain out s1 where b: "buildMsgResps A t msgs s = (out, s1)" by fastforce
  have k: "as_msgs s1 = as_msgs s" "as_blocks s1 = as_blocks s" "map mr_BlockID out = map (\<lambda>m. hex_Encode (m_BlockID m)) msgs"
    using buildMsgResps_keeps [of A t msgs s] by (simp_all add: b)
  show ?thesis
  proof (cases "0 < ParseInt64 wf_since")
    case False
    then show ?thesis using l b k(3) by (intro exI [of _ out] exI [of _ s1] exI [of _ msgs] exI [of _ "[]"]) (simp add: handleListMessages_def)
  next
    case True
    let ?w = "ParseInt64 wf_since" and ?blk = "badger_blk B t (as_blocks s)"
    let ?xs = "map snd (sel_keys ?blk 0 ?w)"
    have loop: "page_loop (boosted_body A t (as_blocks s1) (timeUnix ?w)) [] acc = Some (Inr (fold (boosted_ref A t) ?xs acc))" for acc
    proof -
      have body: "boosted_body A t (as_blocks s1) (timeUnix ?w) tok acc =
          (case st_ListBlocks (badger_store (ae_env A) B) t (as_blocks s) tok (int 200) 0 (timeUnix ?w) of
             Inl e \<Rightarrow> Inl acc
           | Inr (nxt, refs) \<Rightarrow> Inr (nxt, fold (\<lambda>r. boosted_ref A t (refID r)) refs acc))" for tok acc
        unfolding boosted_body_def k(2) assms(1) by (auto simp: fold_map comp_def split: sum.split)
      have "page_loop (boosted_body A t (as_blocks s1) (timeUnix ?w)) [] acc =
          Some (Inr (fold (\<lambda>(i, w). boosted_ref A t i) (map (key_pair ?blk) (sel_keys ?blk 0 (Unix (timeUnix ?w)))) acc))"
        by (rule badger.page_loop_all [OF assms(2), where f = "\<lambda>i w. boosted_ref A t i" and err = "\<lambda>e acc. acc", OF _ _ body])
          (simp_all add: ParseInt64_range)
      then show ?thesis by (simp add: fold_map comp_def key_pair_def case_prod_unfold)
    qed
    have pos: "?blk i = Some c \<Longrightarrow> 0 \<le> sb_wf c" for i c using badger.stored_wf [OF assms(2)] by (fastforce simp: wf_stored_def)
    have xs: "distinct ?xs" "set ?xs = {i. \<exists>c. ?blk i = Some c \<and> ?w \<le> sb_createdAt c}"
      using sel_ids [OF assms(2), of 0 ?w] pos by auto
    then have len: "\<forall>i \<in> set ?xs. length i = 32" using badger.wf_dom [OF assms(2)] by (auto simp: wf_id_def)
    let ?extra = "filter (\<lambda>i. i \<in> saved (as_msgs s) \<and> i \<notin> set (map m_BlockID msgs)) ?xs"
    obtain out' s' where f: "fold (boosted_ref A t) ?xs (map m_BlockID msgs, out, s1) = (rev ?extra @ map m_BlockID msgs, out @ out', s')"
      "map mr_BlockID out' = map hex_Encode ?extra"
      using boosted_fold [OF xs(1) len, of s1 A t "map m_BlockID msgs" out] assms(3) k(1) by auto
    have "handleListMessages A t after_id wf_since s = (writeJSON 200 (BMessages (out @ out')), s')"
      using True by (simp add: handleListMessages_def l b loop f(1))
    moreover have "set ?extra = {i \<in> saved (as_msgs s). i \<notin> m_BlockID ` set msgs \<and> (\<exists>b. ?blk i = Some b \<and> ?w \<le> sb_createdAt b)}"
      unfolding set_filter xs(2) by auto
    moreover have "distinct ?extra" using xs(1) by (rule distinct_filter)
    ultimately show ?thesis using True l k(3) f(2) by (intro exI [of _ "out @ out'"] exI [of _ s'] exI [of _ msgs] exI [of _ ?extra]) simp
  qed
qed

theorem list_messages_witness:
  "\<exists>out s'. handleListMessages api0 0 [] ''1'' (api_server0\<lparr>as_blocks := one_block\<rparr>) = (writeJSON 200 (BMessages out), s')"
  using list_messages [of api0 mem_badger 0 "api_server0\<lparr>as_blocks := one_block\<rparr>" "[]" "''1''"] one_block_inv(1)
  by (auto simp: api_server0_def api_New_def empty_ms_simps)

end
