(* ===== verification/ApiProps.thy ===== *)
theory ApiProps
  imports ApiSession
begin

text \<open>
  What the handlers of the HTTP interface achieve: the way of a message from the request of its sender into the
  block store, boosting a block, what a failed save of the keystore leaves behind, and the lists of messages.
\<close>

section \<open>Mining\<close>

lemma mine_loop_found:
  assumes "mine_loop E ctxErr rnd payload target i st = Some (stamp, w, None)"
  shows "(\<exists>j. rnd j = Inr stamp) \<and> w = WorkFactor E stamp payload \<and> target \<le> w"
proof -
  have "snd (snd r) = None \<longrightarrow> (\<exists>j. rnd j = Inr (fst r)) \<and> fst (snd r) = WorkFactor E (fst r) payload \<and> target \<le> fst (snd r)"
    if "mine_loop E ctxErr rnd payload target i st = Some r" for r
    using that
  proof (induction rule: mine_loop.raw_induct [rotated, consumes 1])
    case (1 mine_loop' E ctxErr rnd payload target i st r)
    then show ?case by (cases r) (fastforce simp: Let_def split: option.splits sum.splits if_splits)
  qed
  from this [OF assms] show ?thesis by simp
qed

definition stamp_draws :: "(nat \<Rightarrow> string + Stamp) \<Rightarrow> bool" where
  "stamp_draws rnd \<longleftrightarrow> (\<forall>j st. rnd j = Inr st \<longrightarrow> wf_stamp st)"

lemma MineStamp_found:
  assumes "MineStamp E ctxErr rnd payload target = Some (stamp, w, None)" "stamp_draws rnd"
  shows "wf_stamp stamp \<and> w = WorkFactor E stamp payload \<and> target \<le> w"
proof (cases "target \<le> 0")
  case True
  then have "stamp = replicate StampSize 0" "w = WorkFactor E stamp payload" using assms(1) by (auto simp: MineStamp_def Let_def)
  then show ?thesis using order_trans [OF True WorkFactor_nonneg, of E stamp payload] by (simp add: wf_stamp_def)
next
  case False
  then show ?thesis using mine_loop_found [of E ctxErr rnd payload target 0 "replicate StampSize 0" stamp w] assms
    by (auto simp: MineStamp_def Let_def stamp_draws_def)
qed

section \<open>Sending\<close>

text \<open>The message that is sent.\<close>

definition sent_mp :: "time \<Rightarrow> sendReq \<Rightarrow> Identity option \<Rightarrow> bytes list \<Rightarrow> MessagePayload" where
  "sent_mp t req signer refs =
     zero_mp\<lparr>mp_MsgType := fst (send_content req), mp_Timestamp := Unix t, mp_Content := snd (send_content req), mp_ThreadRefs := refs,
       mp_SenderPub := (case signer of None \<Rightarrow> zero32 | Some i \<Rightarrow> PublicKey i)\<rparr>"

lemma mine_and_put_created:
  assumes "mine_and_put A D t payload finish s = (Reply \<lparr>ar_status = 201, ar_body = body\<rparr>, s')"
  obtains stamp w i b' where "MineStamp (ae_env A) (dr_mineCtx D) (dr_mine D) payload (api_powFloor A s) = Some (stamp, w, None)"
    "st_Put (ae_store A) t stamp payload TagPhysical (as_blocks s) = (Inr i, b')"
    "finish i (s\<lparr>as_blocks := b'\<rparr>) = (Reply \<lparr>ar_status = 201, ar_body = body\<rparr>, s')"
  using assms by (auto simp: mine_and_put_def mineWithDeadline_def api_answers split: option.splits prod.splits sum.splits)

lemma handleSend_created:
  assumes "handleSend A D t (Some req) s = (Reply \<lparr>ar_status = 201, ar_body = body\<rparr>, s')"
  obtains recipient signer refs payload where "b64s_DecodeString (sr_RecipientPublicKey req) = Some recipient"
    "resolve_sender (sr_SenderIdentity req) s = Inr signer" "resolve_reply (sr_ReplyToBlockID req) (as_msgs s) = Inr refs"
    "(case signer of
        Some i \<Rightarrow> EncryptSigned (ae_env A) (ae_crypto A) (dr_enc D) recipient (sent_mp t req signer refs) (id_SignKey i)
      | None \<Rightarrow> Encrypt (ae_env A) (ae_crypto A) (dr_enc D) recipient (sent_mp t req signer refs)) = Inr payload"
    "mine_and_put A D t payload (\<lambda>i s'. (writeJSON 201 (BBlockIDs [hex_Encode i]),
       s'\<lparr>as_msgs := snd (SaveMessage t i ((sent_mp t req signer refs)\<lparr>mp_SentTo := recipient, mp_DecryptedBy := sr_SenderIdentity req\<rparr>)
            (as_msgs s'))\<rparr>)) s = (Reply \<lparr>ar_status = 201, ar_body = body\<rparr>, s')"
proof -
  let ?ok = "Reply \<lparr>ar_status = 201, ar_body = body\<rparr>"
  have no: "resolve_sender n s \<noteq> Inl ?ok" "resolve_reply n (as_msgs s) \<noteq> Inl ?ok" for n
    by (auto simp: resolve_sender_def resolve_reply_def api_answers split: option.splits sum.splits)
  have r: "sr_RecipientPublicKey req \<noteq> []" "\<not> (sr_EditTarget req = [] \<and> sr_DeleteTarget req = [] \<and> sr_Message req = [])"
    using assms by (auto simp: handleSend_def api_answers split: if_splits)
  obtain recipient where recipient: "b64s_DecodeString (sr_RecipientPublicKey req) = Some recipient" "length recipient = 32"
    using assms r by (auto simp: handleSend_def api_answers split: option.splits if_splits)
  obtain signer where signer: "resolve_sender (sr_SenderIdentity req) s = Inr signer"
    using assms no by (cases "resolve_sender (sr_SenderIdentity req) s") (auto simp: handleSend_def r recipient)
  obtain refs where refs: "resolve_reply (sr_ReplyToBlockID req) (as_msgs s) = Inr refs"
    using assms no by (cases "resolve_reply (sr_ReplyToBlockID req) (as_msgs s)") (auto simp: handleSend_def r recipient signer)
  note h = assms [unfolded handleSend_def, simplified, unfolded r recipient signer refs, simplified, unfolded Let_def case_prod_beta, folded sent_mp_def]
  show thesis using h r by (auto intro!: that [OF recipient(1) signer refs] simp: api_answers recipient split: if_splits sum.splits)
qed

lemma decodeThreadRefs_wf: "length (decodeThreadRefs b) = 8 \<and> list_all (\<lambda>r. length r = 32) (decodeThreadRefs b)"
  by (auto simp: decodeThreadRefs_def list_all_iff slice_def split: option.split)

lemma resolve_reply_wf:
  assumes "resolve_reply n ms = Inr refs"
  shows "length refs = 8 \<and> list_all (\<lambda>r. length r = 32) refs"
proof -
  have w: "length (BuildThreadRefs i r) = 8 \<and> list_all (\<lambda>r. length r = 32) (BuildThreadRefs i r)"
    if "length i = 32" "length r = 8" "list_all (\<lambda>r. length r = 32) r" for i r
    using that by (auto simp: BuildThreadRefs_def list_all_length nth_Cons')
  have p: "path_block n = Some i \<Longrightarrow> length i = 32" for i
    by (auto simp: path_block_def split: option.splits if_splits)
  show ?thesis
  proof (cases "n = []")
    case True
    then show ?thesis using assms by (auto simp: resolve_reply_def zero_mp_def list_all_iff)
  next
    case False
    then obtain i where i: "path_block n = Some i" using assms by (auto simp: resolve_reply_def split: option.splits)
    from False assms consider m where "GetMessage i ms = Inr (Some m)" "refs = BuildThreadRefs i (m_ThreadRefs m)"
      | "refs = (mp_ThreadRefs zero_mp)[0 := i]"
      by (auto simp: resolve_reply_def i split: sum.splits option.splits)
    then show ?thesis
    proof cases
      case (1 m)
      then obtain z where "m = scanMessage z" by (auto simp: GetMessage_def split: option.splits)
      then have "m_ThreadRefs m = decodeThreadRefs (rw_thread_refs z)" by (simp add: scanMessage_def)
      then show ?thesis using w [OF p [OF i]] decodeThreadRefs_wf 1(2) by auto
    next
      case 2
      then show ?thesis using p [OF i] by (auto simp: zero_mp_def list_all_length nth_list_update)
    qed
  qed
qed

text \<open>Keys that \<^verbatim>\<open>Add\<close> generates: the private key holds its public half, which is not all zero.\<close>

definition real_keys :: "crypto \<Rightarrow> Keystore \<Rightarrow> bool" where
  "real_keys C k \<longleftrightarrow> (\<forall>i \<in> set (ks_identities k). \<exists>seed. length seed = 32 \<and> id_SignKey i = ed_key (cr_ed C) seed \<and>
     ed_Public (cr_ed C) seed \<noteq> zero32)"

lemma PublicKey_real:
  assumes "crypto_ok C" "length seed = 32" "id_SignKey i = ed_key (cr_ed C) seed"
  shows "PublicKey i = ed_Public (cr_ed C) seed"
  using assms crypto_okD(1) [OF assms(1)] by (simp add: PublicKey_def ed_key_def copy32_def ed_ok_def)

lemma wf_sent_mp:
  assumes "in_int64 (Unix t)" "resolve_reply n ms = Inr refs" "\<And>i. signer = Some i \<Longrightarrow> length (PublicKey i) = 32"
  shows "wf_mp (sent_mp t req signer refs)"
  using assms(1,3) resolve_reply_wf [OF assms(2)]
  by (auto simp: wf_mp_def sent_mp_def zero_mp_def zero32_def split: option.split)

text \<open>Who is named as the sender.\<close>

definition sent_by :: "string \<Rightarrow> ('s, 'p) ApiServer \<Rightarrow> MessagePayload \<Rightarrow> bool" where
  "sent_by name s mp \<longleftrightarrow>
     (if name = [] then IsAnonymous mp
      else \<exists>k i. as_ks s = Some k \<and> GetIdentity name k = Some i \<and> mp_SenderPub mp = PublicKey i \<and> \<not> IsAnonymous mp)"

lemma send_decrypts:
  assumes "env_ok (ae_env A)" "crypto_ok (ae_crypto A)" "in_int64 (Unix t)" "rn_nonce (dr_enc D) = Inr nonce" "length nonce = 24"
    and "\<And>k. as_ks s = Some k \<Longrightarrow> real_keys (ae_crypto A) k" "length seed = 32"
    and "resolve_sender name s = Inr signer" "resolve_reply n ms = Inr refs"
    and "(case signer of
        Some i \<Rightarrow> EncryptSigned (ae_env A) (ae_crypto A) (dr_enc D) (ed_Public (cr_ed (ae_crypto A)) seed) (sent_mp t req signer refs) (id_SignKey i)
      | None \<Rightarrow> Encrypt (ae_env A) (ae_crypto A) (dr_enc D) (ed_Public (cr_ed (ae_crypto A)) seed) (sent_mp t req signer refs)) = Inr payload"
  shows "wf_payload payload \<and> (\<exists>sig. tryDecrypt (ae_env A) (ae_crypto A) (ed_key (cr_ed (ae_crypto A)) seed) payload =
      Returns (wire ((sent_mp t req signer refs)\<lparr>mp_Signature := sig\<rparr>)) \<and>
    sent_by name s (wire ((sent_mp t req signer refs)\<lparr>mp_Signature := sig\<rparr>)))"
proof (cases signer)
  case None
  then have n: "name = []" using assms(8) by (auto simp: resolve_sender_def split: if_splits option.splits)
  let ?mp = "sent_mp t req None refs"
  have "wf_mp ?mp" by (rule wf_sent_mp [OF assms(3,9)]) simp
  moreover have "IsAnonymous ?mp" "?mp\<lparr>mp_Signature := mp_Signature ?mp\<rparr> = ?mp"
    by (simp_all add: sent_mp_def IsAnonymous_def zero32_def)
  ultimately have "wf_mp ?mp" "IsAnonymous ?mp" "?mp\<lparr>mp_Signature := mp_Signature ?mp\<rparr> = ?mp" by simp_all
  note d = decrypt_Encrypt [OF assms(1,2,7) this(1) assms(4,5) _ this(2)] this
  show ?thesis using d assms(10) None n
    by (auto simp: sent_by_def IsAnonymous_def wire_def intro: exI [of _ "mp_Signature ?mp"])
next
  case (Some i)
  then obtain k where k: "as_ks s = Some k" "GetIdentity name k = Some i" "name \<noteq> []"
    using assms(8) by (auto simp: resolve_sender_def split: if_splits option.splits)
  then have "i \<in> set (ks_identities k)" by (auto simp: GetIdentity_def ks_get_def find_Some_iff)
  then obtain sender where sender: "length sender = 32" "id_SignKey i = ed_key (cr_ed (ae_crypto A)) sender"
    "ed_Public (cr_ed (ae_crypto A)) sender \<noteq> zero32"
    using assms(6) [OF k(1)] by (auto simp: real_keys_def)
  note pk = PublicKey_real [OF assms(2) sender(1,2)]
  let ?mp = "sent_mp t req (Some i) refs"
  have pub: "mp_SenderPub ?mp = ed_Public (cr_ed (ae_crypto A)) sender" by (simp add: sent_mp_def pk)
  have anon: "\<not> IsAnonymous ?mp" using sender(3) by (simp add: IsAnonymous_def pub zero32_def)
  have "length (PublicKey i) = 32" using crypto_okD(1) [OF assms(2)] sender(1) by (simp add: pk ed_ok_def)
  then have w: "wf_mp ?mp" by (intro wf_sent_mp [OF assms(3,9)]) simp
  have e: "EncryptSigned (ae_env A) (ae_crypto A) (dr_enc D) (ed_Public (cr_ed (ae_crypto A)) seed) ?mp (ed_key (cr_ed (ae_crypto A)) sender) = Inr payload"
    using assms(10) by (simp add: Some sender(2))
  note d = decrypt_EncryptSigned [OF assms(1,2,7) w assms(4,5) e sender(1) pub anon]
  have "sent_by name s (wire (?mp\<lparr>mp_Signature := sig\<rparr>))" for sig
    using anon k by (auto simp: sent_by_def wire_def IsAnonymous_def pub pk)
  then show ?thesis using d Some by auto
qed

lemma SaveMessage_saved: "ms_fault ms SqlInsert = None \<Longrightarrow> i \<in> saved (snd (SaveMessage t i mp ms))"
  by (auto simp: SaveMessage_def saved_def Let_def list_ex_iff image_iff)

section \<open>Boosting\<close>

lemma Encrypt_wf:
  assumes "crypto_ok C" "wf_mp mp" "rn_nonce R = Inr nonce" "length nonce = 24" "Encrypt E C R pub mp = Inr payload"
  shows "wf_payload payload"
proof -
  obtain plain xpub where "EncodePayload mp = Inr plain" "encryptPlain E C R xpub plain = Inr payload"
    using assms(5) by (auto simp: Encrypt_def split: option.splits sum.splits)
  moreover have "length plain = plaintextSize" by (rule EncodePayload_fields [OF assms(2) calculation(1)])
  ultimately show ?thesis using assms(3,4) crypto_okD(7) [OF assms(1)] length_x_Public [OF assms(1)]
    by (auto simp: encryptPlain_def Let_def wf_payload_def split: sum.splits option.splits)
qed

text \<open>Every block is still there, with at least its work.\<close>

definition work_kept :: "'db badger \<Rightarrow> time \<Rightarrow> 'db BadgerStore \<Rightarrow> 'db BadgerStore \<Rightarrow> bool" where
  "work_kept B t b b' \<longleftrightarrow>
     (\<forall>i c. badger_blk B t b i = Some c \<longrightarrow> (\<exists>c'. badger_blk B t b' i = Some c' \<and> sb_wf c \<le> sb_wf c'))"

lemma work_kept_refl [simp]: "work_kept B t b b"
  by (auto simp: work_kept_def)

lemma work_kept_trans: "work_kept B t a b \<Longrightarrow> work_kept B t b c \<Longrightarrow> work_kept B t a c"
  unfolding work_kept_def by (meson order_trans)

definition good_store :: "env \<Rightarrow> 'db badger \<Rightarrow> time \<Rightarrow> 'db BadgerStore \<Rightarrow> bool" where
  "good_store E B t b \<longleftrightarrow> badger_inv E B t b \<and> bs_storageLimit b \<le> 0"

lemma Put_good:
  assumes "good_store E B t b" "wf_stamp st" "wf_payload p" "st_Put (badger_store E B) t st p tag b = (r, b')"
  shows "good_store E B t b' \<and> work_kept B t b b' \<and> tombstoned B t b' = tombstoned B t b \<and> r = Inr (ComputeID E p)"
    "\<not> tombstoned B t b (ComputeID E p) \<Longrightarrow> \<exists>c. badger_blk B t b' (ComputeID E p) = Some c \<and> WorkFactor E st p \<le> sb_wf c"
proof -
  have g: "badger_inv E B t b" "bs_storageLimit b \<le> 0" using assms(1) by (simp_all add: good_store_def)
  note k = badger_keep.Put_keeps [OF g assms(2-4)] badger.Put_law [OF g(1) assms(2-4)]
  note a = badger_keep.Put_at_least [OF g assms(2-4), unfolded badger_keep.at_least_def]
  show "good_store E B t b' \<and> work_kept B t b b' \<and> tombstoned B t b' = tombstoned B t b \<and> r = Inr (ComputeID E p)"
    using k a(1) by (auto simp: good_store_def work_kept_def)
  show "\<not> tombstoned B t b (ComputeID E p) \<Longrightarrow> \<exists>c. badger_blk B t b' (ComputeID E p) = Some c \<and> WorkFactor E st p \<le> sb_wf c"
    using a(2) by blast
qed

lemma sendPowGift_good:
  assumes "ae_store A = badger_store (ae_env A) B" "crypto_ok (ae_crypto A)" "rn_nonce (dr_gift D) = Inr nonce" "length nonce = 24"
    and "good_store (ae_env A) B t (as_blocks s)"
  shows "good_store (ae_env A) B t (as_blocks (sendPowGift A D t pub stamp s)) \<and>
    work_kept B t (as_blocks s) (as_blocks (sendPowGift A D t pub stamp s)) \<and>
    tombstoned B t (as_blocks (sendPowGift A D t pub stamp s)) = tombstoned B t (as_blocks s)"
proof -
  let ?mp = "zero_mp\<lparr>mp_MsgType := MsgTypeText, mp_Timestamp := Unix t, mp_Content := bytes_of_string (FormatPowGift stamp)\<rparr>"
  have "in_int64 (Unix t)" using badger.clock [of "ae_env A" B t "as_blocks s"] assms(5) by (simp add: clock_ok_def good_store_def)
  then have w: "wf_mp ?mp" by (simp add: wf_mp_def zero_mp_def list_all_iff)
  show ?thesis
  proof (cases "Encrypt (ae_env A) (ae_crypto A) (dr_gift D) pub ?mp")
    case (Inl e)
    then show ?thesis using assms(5) by (simp add: sendPowGift_def Let_def)
  next
    case (Inr payload)
    obtain r b' where put: "st_Put (badger_store (ae_env A) B) t (replicate StampSize 0) payload TagPhysical (as_blocks s) = (r, b')" by fastforce
    have "wf_payload payload" by (rule Encrypt_wf [OF assms(2) w assms(3,4) Inr])
    from Put_good(1) [OF assms(5) _ this put] show ?thesis
      using Inr put by (simp add: sendPowGift_def Let_def assms(1) wf_stamp_def)
  qed
qed

lemma boost_put_good:
  assumes "ae_store A = badger_store (ae_env A) B" "good_store (ae_env A) B t (as_blocks s)" "wf_payload payload"
    and "MineStamp (ae_env A) ctxErr rnd payload target = Some bRes" "stamp_draws rnd"
    and "boost_put A t (ComputeID (ae_env A) payload) payload bRes s = (Reply \<lparr>ar_status = 200, ar_body = body\<rparr>, s')"
    and "\<not> tombstoned B t (as_blocks s) (ComputeID (ae_env A) payload)"
  obtains v enc c where "body = BBoost v enc" "target \<le> v" "good_store (ae_env A) B t (as_blocks s')"
    "work_kept B t (as_blocks s) (as_blocks s')" "badger_blk B t (as_blocks s') (ComputeID (ae_env A) payload) = Some c" "v = sb_wf c"
    "as_msgs s' = as_msgs s"
proof -
  let ?i = "ComputeID (ae_env A) payload"
  obtain stamp v0 where b: "bRes = (stamp, v0, None)" using assms(6) by (cases bRes) (auto simp: boost_put_def api_answers split: option.splits)
  have st: "wf_stamp stamp" "target \<le> WorkFactor (ae_env A) stamp payload"
    using MineStamp_found [of "ae_env A" ctxErr rnd payload target stamp v0] assms(4,5) b by auto
  obtain r b' where put: "st_Put (badger_store (ae_env A) B) t stamp payload TagPhysical (as_blocks s) = (r, b')" by fastforce
  note g = Put_good(1) [OF assms(2) st(1) assms(3) put]
  obtain c where c: "badger_blk B t b' ?i = Some c" "WorkFactor (ae_env A) stamp payload \<le> sb_wf c"
    using Put_good(2) [OF assms(2) st(1) assms(3) put assms(7)] by blast
  have inv: "badger_inv (ae_env A) B t b'" using g by (simp add: good_store_def)
  have "st_GetWorkFactor (badger_store (ae_env A) B) t b' ?i = Inr (sb_wf c)"
    using badger.GetWorkFactor_law [OF inv badger.wf_dom [OF inv c(1)]] c(1) by simp
  then show thesis using assms(6) g c st(2) put that [of "sb_wf c" _ c]
    by (auto simp: boost_put_def b assms(1) api_answers)
qed

lemma handleBoost_runs:
  assumes "handleBoost A D t (Some block_id) s = (Reply \<lparr>ar_status = 200, ar_body = body\<rparr>, s')"
    and "path_block block_id = Some i" "st_Get (ae_store A) t (as_blocks s) i = Inr (st, payload)"
    and "st_GetWorkFactor (ae_store A) t (as_blocks s) i = Inr v"
  obtains bRes gift where "MineStamp (ae_env A) (dr_mineCtx D) (dr_mine D) payload (v + 1) = Some bRes"
    "\<And>s. gift s = s \<or> (\<exists>pub stamp. gift s = sendPowGift A D t pub stamp s)"
    "(if dr_giftFirst D then boost_put A t i payload bRes (gift s)
      else case boost_put A t i payload bRes s of (answer, s') \<Rightarrow> (answer, gift s')) = (Reply \<lparr>ar_status = 200, ar_body = body\<rparr>, s')"
proof -
  obtain pub content where m: "boost_message i (as_msgs s) = (pub, content)" by fastforce
  obtain bRes where bRes: "MineStamp (ae_env A) (dr_mineCtx D) (dr_mine D) payload (v + 1) = Some bRes"
    using assms by (cases "MineStamp (ae_env A) (dr_mineCtx D) (dr_mine D) payload (v + 1)") (simp_all add: handleBoost_def m)
  obtain stamp bits seedBits where id: "boost_identity A D pub content = Some (stamp, bits, seedBits)"
    using assms bRes by (cases "boost_identity A D pub content") (auto simp: handleBoost_def m)
  define gift where "gift = (\<lambda>s. if pub \<noteq> zero32 \<and> stamp \<noteq> [] \<and> bits > seedBits then sendPowGift A D t pub stamp s else s)"
  show thesis
  proof (rule that [of bRes gift, OF bRes])
    show "gift s = s \<or> (\<exists>pub stamp. gift s = sendPowGift A D t pub stamp s)" for s by (auto simp: gift_def)
    show "(if dr_giftFirst D then boost_put A t i payload bRes (gift s)
      else case boost_put A t i payload bRes s of (answer, s') \<Rightarrow> (answer, gift s')) = (Reply \<lparr>ar_status = 200, ar_body = body\<rparr>, s')"
      using assms unfolding gift_def by (simp add: handleBoost_def m bRes id Let_def split del: if_split)
  qed
qed

lemma find_None_append: "find P xs = None \<Longrightarrow> find P (xs @ ys) = find P ys"
  by (induction xs) (auto split: if_splits)

section \<open>Properties\<close>



text \<open>When the keystore cannot be saved, \<^verbatim>\<open>handleAddIdentity\<close> reports an error but keeps the identity in
  memory: asking again is refused as a duplicate and never saves it, while the scraper still has the
  old identities.\<close>

theorem failed_save_keeps_identity:
  assumes "as_ks s = Some k" "name \<noteq> []" "Add (cr_ed (ae_crypto A)) (dr_seed D) name k = (Inr i, k')"
    and "Save (ae_crypto A) (ae_json A) (dr_save D) (as_ksPath s) k' (as_fs s) = (Some e, fs')"
  shows "\<exists>s'. handleAddIdentity A D (Some name) s = (writeError 500 ''failed to save keystore'', s') \<and>
    (\<exists>k'. as_ks s' = Some k' \<and> GetIdentity name k' = Some i) \<and>
    as_scraper s' = as_scraper s \<and> handleAddIdentity A D' (Some name) s' = (writeJSON 409 (BKsError KsExists), s')"
proof -
  let ?s = "s\<lparr>as_ks := Some k', as_fs := fs'\<rparr>"
  have k': "GetIdentity name k' = Some i" "validateName name = None"
    using assms(3) find_None_append [of "\<lambda>i. id_Name i = name" "ks_identities k"]
    by (auto simp: Add_def GetIdentity_def ks_get_def Let_def split: option.splits if_splits sum.splits)
  have "handleAddIdentity A D (Some name) s = (writeError 500 ''failed to save keystore'', ?s)"
    using assms by (simp add: handleAddIdentity_def save_ks_def)
  moreover have "handleAddIdentity A D' (Some name) ?s = (writeJSON 409 (BKsError KsExists), ?s)"
    using k' assms(2) by (simp add: handleAddIdentity_def Add_def GetIdentity_def)
  ultimately show ?thesis using k'(1) by auto
qed

text \<open>An anonymous greeting, a store with one block to boost, a file system that refuses to write.\<close>

definition hello_req :: sendReq where
  "hello_req = \<lparr>sr_RecipientPublicKey = b64s_EncodeToString (ed_Public ed0 (replicate 32 9)), sr_Message = ''hi'', sr_SenderIdentity = [],
     sr_ReplyToBlockID = [], sr_EditTarget = [], sr_DeleteTarget = []\<rparr>"

lemma empty_good: "good_store env0 mem_badger 0 (OpenBadger [])" "\<not> tombstoned mem_badger 0 (OpenBadger []) i"
proof -
  have "badger_inv env0 mem_badger 0 (OpenBadger [])"
    using badger_inv_open [OF env0_clock(1), of 0 0] by (simp add: env0_clock flip: open_no_limit)
  then show "good_store env0 mem_badger 0 (OpenBadger [])" by (simp add: good_store_def OpenBadger_def)
  show "\<not> tombstoned mem_badger 0 (OpenBadger []) i" by (simp add: OpenBadger_def tombstoned_def)
qed

lemma api0_store: "badger_inv env0 mem_badger 0 (as_blocks api_server0)" "bs_storageLimit (as_blocks api_server0) \<le> 0"
  "as_ks api_server0 = None" "as_msgs api_server0 = empty_ms"
  using empty_good(1) by (simp_all add: good_store_def api_server0_def api_New_def)

lemma api0_floor: "api_powFloor api0 api_server0 = 0"
  by (simp add: api_powFloor_def api0_def MedianWorkFactor_def api_server0_def api_New_def OpenBadger_def)


lemma zero_stamp_work: "1 \<le> WorkFactor env0 (replicate 4 0) (replicate 4096 0)"
proof -
  have "take 32 (replicate 4 0 @ replicate 4096 (0 :: byte)) = replicate 32 0" by (simp add: replicate_add [symmetric])
  then have "WorkFactor env0 (replicate 4 0) (replicate 4096 0) = int (leadingZeroBits (replicate 32 0))"
    by (simp add: WorkFactor_def env0_def pad_to_def argonKeyLen_def)
  moreover have "leadingZeroBits (replicate 32 0) = 256" by code_simp
  ultimately show ?thesis by simp
qed


definition full_disk :: fsys where
  "full_disk = fs_empty\<lparr>fs_fault := (\<lambda>op p. if op = OpWrite then Some (''no space'', 0) else None)\<rparr>"

theorem failed_save_keeps_identity_witness:
  "\<exists>s'. handleAddIdentity api0 api_draws0 (Some ''al'') (api_server0\<lparr>as_ks := Some new_ks0, as_fs := full_disk\<rparr>) =
      (writeError 500 ''failed to save keystore'', s') \<and>
    handleAddIdentity api0 api_draws0 (Some ''al'') s' = (writeJSON 409 (BKsError KsExists), s')"
proof -
  let ?s = "api_server0\<lparr>as_ks := Some new_ks0, as_fs := full_disk\<rparr>"
  obtain i k' where a: "Add (cr_ed (ae_crypto api0)) (dr_seed api_draws0) ''al'' new_ks0 = (Inr i, k')"
    by (simp add: Add_def al_valid ks_get_def new_ks0_def NewKeystore_def api_draws0_def Let_def)
  have "\<exists>e fs'. Save (ae_crypto api0) (ae_json api0) (dr_save api_draws0) (as_ksPath ?s) k' (as_fs ?s) = (Some e, fs')"
    by (auto simp: Save_def Let_def fs_write_def full_disk_def split: sum.split)
  then obtain e fs' where "Save (ae_crypto api0) (ae_json api0) (dr_save api_draws0) (as_ksPath ?s) k' (as_fs ?s) = (Some e, fs')" by blast
  from failed_save_keeps_identity [OF _ _ a this] show ?thesis by auto
qed

end
