(* ===== verification/Bluetooth.thy ===== *)
theory Bluetooth
  imports MassStorage Bloom
begin

text \<open>
  \<^verbatim>\<open>transport/bluetooth/session.go\<close>: the symmetric exchange of blocks over a byte
  stream.  A reader is the bytes that the peer will send (its end is the end of the
  connection); a writer is a function on a state of its own that may fail.  The two goroutines of
  \<^verbatim>\<open>Run\<close> meet in one channel: what the receiver puts into it, or that it closes it, decides
  what the sender's \<^verbatim>\<open>select\<close> can do.  The sender reads the store as it is at the start of the session.
\<close>

section \<open>Frames\<close>

definition frameBloom :: byte where "frameBloom = 0x01"
definition frameBlock :: byte where "frameBlock = 0x02"
definition frameDone :: byte where "frameDone = 0x03"
definition framePeers :: byte where "framePeers = 0x04"

lemmas frame_types = frameBloom_def frameBlock_def frameDone_def framePeers_def

definition maxGossipPeers :: nat where "maxGossipPeers = 20"
definition maxFrameLen :: nat where "maxFrameLen = 2 ^ 20"
definition blockFrameSize :: nat where "blockFrameSize = StampSize + PayloadSize"

datatype bt_err = BtEOF | BtTooLarge nat | BtBloom string | BtBlockSize nat | BtUnknown byte
  | BtStore store_err | BtWrite string | BtCtx string

type_synonym 'w writer = "bytes \<Rightarrow> 'w \<Rightarrow> string option \<times> 'w"

definition writeFrame :: "'w writer \<Rightarrow> byte \<Rightarrow> bytes \<Rightarrow> 'w \<Rightarrow> string option \<times> 'w" where
  "writeFrame write ftype data w =
     (case write (ftype # PutUint32 (word_of_nat (length data))) w of
        (Some e, w') \<Rightarrow> (Some e, w')
      | (None, w') \<Rightarrow> if data \<noteq> [] then write data w' else (None, w'))"

definition readFrame :: "bytes \<Rightarrow> (bt_err + (byte \<times> bytes)) \<times> bytes" where
  "readFrame r =
     (if length r < 5 then (Inl BtEOF, [])
      else
        let ftype = r ! 0; len = unat (Uint32 (slice 1 5 r)); r' = drop 5 r
        in if len > maxFrameLen then (Inl (BtTooLarge len), r')
           else if len = 0 then (Inr (ftype, []), r')
           else if length r' < len then (Inl BtEOF, [])
           else (Inr (ftype, take len r'), drop len r'))"

lemma readFrame_shorter: "readFrame r = (Inr x, r') \<Longrightarrow> length r' < length r"
  by (auto simp: readFrame_def Let_def split: if_splits)

section \<open>The sender\<close>

definition send_ref ::
  "'w writer \<Rightarrow> 's Store \<Rightarrow> time \<Rightarrow> 's \<Rightarrow> Bloom \<Rightarrow> ID \<Rightarrow> int \<Rightarrow> 'w \<Rightarrow> (bt_err option \<times> 'w) + 'w" where
  "send_ref write S t s peerBloom i v w =
     (if Bloom_Has peerBloom i v then Inr w
      else
        case st_Get S t s i of
          Inl _ \<Rightarrow> Inr w
        | Inr (stamp, payload) \<Rightarrow>
            (case writeFrame write frameBlock (stamp @ payload) w of
               (Some e, w') \<Rightarrow> Inl (Some (BtWrite e), w')
             | (None, w') \<Rightarrow> Inr w'))"

text \<open>An \<open>Inl (None, w)\<close> is the \<^verbatim>\<open>break\<close> out of the loop.\<close>

definition send_body ::
  "'w writer \<Rightarrow> (string \<Rightarrow> bool) \<Rightarrow> 's Store \<Rightarrow> time \<Rightarrow> 's \<Rightarrow> Bloom
     \<Rightarrow> string \<Rightarrow> 'w \<Rightarrow> (bt_err option \<times> 'w) + (string \<times> 'w)" where
  "send_body write ctxDone S t s peerBloom pageToken w =
     (if ctxDone pageToken then Inl (None, w)
      else
        case st_ListBlocks S t s pageToken 100 0 zeroTime of
          Inl _ \<Rightarrow> Inl (None, w)
        | Inr (nxt, refs) \<Rightarrow>
            sum_bind (efold (\<lambda>r. send_ref write S t s peerBloom (refID r) (refWF r)) refs w) (\<lambda>w'. Inr (nxt, w')))"

text \<open>What the \<^verbatim>\<open>select\<close> gives: the context is done, the channel is closed, or a filter.\<close>

datatype bt_select = SelCtx string | SelClosed | SelBloom Bloom

definition runSend ::
  "'w writer \<Rightarrow> (string \<Rightarrow> bool) \<Rightarrow> 's Store \<Rightarrow> time \<Rightarrow> 's \<Rightarrow> bt_select \<Rightarrow> 'w \<Rightarrow> (bt_err option \<times> 'w) option" where
  "runSend write ctxDone S t s sel w =
     (case BloomOfStore S t s of
        None \<Rightarrow> None
      | Some (Inl e) \<Rightarrow> Some (Some (BtStore e), w)
      | Some (Inr bloom) \<Rightarrow>
          (case writeFrame write frameBloom (Bloom_Bytes bloom) w of
             (Some e, w1) \<Rightarrow> Some (Some (BtWrite e), w1)
           | (None, w1) \<Rightarrow>
               (case sel of
                  SelCtx e \<Rightarrow> Some (Some (BtCtx e), snd (writeFrame write frameDone [] w1))
                | SelClosed \<Rightarrow> Some (None, w1)
                | SelBloom peerBloom \<Rightarrow>
                    map_option (\<lambda>r.
                      let finish = (\<lambda>w2. case writeFrame write frameDone [] w2 of
                                           (e, w3) \<Rightarrow> (map_option BtWrite e, w3))
                      in case r of
                           Inl (Some e, w2) \<Rightarrow> (Some e, w2)
                         | Inl (None, w2) \<Rightarrow> finish w2
                         | Inr w2 \<Rightarrow> finish w2)
                      (page_loop (send_body write ctxDone S t s peerBloom) [] w1))))"

section \<open>The receiver\<close>

record 's received =
  rc_err :: "bt_err option"
  rc_store :: 's
  rc_blooms :: "Bloom list"
  rc_closed :: bool
  rc_blocked :: bool
  rc_rest :: bytes

text \<open>The channel has room for one filter.  \<open>cap\<close> is the number of filters that the receiver can
  put into it: two if the sender takes one out, else one; with one more it waits forever.\<close>

function runRecv :: "'s Store \<Rightarrow> time \<Rightarrow> nat \<Rightarrow> bytes \<Rightarrow> 's \<Rightarrow> Bloom list \<Rightarrow> 's received" where
  "runRecv S t cap r s blooms =
     (let return = (\<lambda>err r' closed blocked. \<lparr>rc_err = err, rc_store = s, rc_blooms = blooms, rc_closed = closed,
                                             rc_blocked = blocked, rc_rest = r'\<rparr>)
      in case readFrame r of
           (Inl e, r') \<Rightarrow> return (Some e) r' (blooms = []) False
         | (Inr (ftype, data), r') \<Rightarrow>
             if ftype = frameBloom then
               (case BloomFromBytes data of
                  Inl e \<Rightarrow> return (Some (BtBloom e)) r' True False
                | Inr pb \<Rightarrow>
                    if length blooms < cap then runRecv S t cap r' s (blooms @ [pb])
                    else return None r' False True)
             else if ftype = frameBlock then
               (if length data \<noteq> blockFrameSize then return (Some (BtBlockSize (length data))) r' False False
                else runRecv S t cap r' (snd (st_Put S t (take StampSize data) (drop StampSize data) TagBluetooth s)) blooms)
             else if ftype = frameDone then return None r' False False
             else return (Some (BtUnknown ftype)) r' False False)"
  by pat_completeness auto
termination
  by (relation "measure (\<lambda>(S, t, cap, r, s, blooms). length r)") (auto intro: readFrame_shorter [OF sym])

declare runRecv.simps [simp del]

section \<open>The session\<close>

text \<open>Whether the sender takes a filter out of the channel.\<close>

definition takes_bloom :: "'w writer \<Rightarrow> 's Store \<Rightarrow> time \<Rightarrow> 's \<Rightarrow> bt_select \<Rightarrow> 'w \<Rightarrow> bool" where
  "takes_bloom write S t s sel w =
     (case (sel, BloomOfStore S t s) of
        (SelBloom _, Some (Inr bloom)) \<Rightarrow> fst (writeFrame write frameBloom (Bloom_Bytes bloom) w) = None
      | _ \<Rightarrow> False)"

text \<open>Which outcomes of the sender's \<^verbatim>\<open>select\<close> are possible, given what the receiver did and
  whether the context is cancelled.  When none is, the sender waits forever.\<close>

definition sel_possible :: "'s received \<Rightarrow> string option \<Rightarrow> bt_select \<Rightarrow> bool" where
  "sel_possible rc cancelled sel \<longleftrightarrow>
     (case sel of
        SelCtx e \<Rightarrow> cancelled = Some e
      | SelClosed \<Rightarrow> rc_blooms rc = [] \<and> rc_closed rc
      | SelBloom b \<Rightarrow> rc_blooms rc \<noteq> [] \<and> b = hd (rc_blooms rc))"

definition exchangePeers ::
  "(string list \<Rightarrow> bytes) \<Rightarrow> (bytes \<Rightarrow> string list) \<Rightarrow> 'w writer \<Rightarrow> string list \<Rightarrow> bytes \<Rightarrow> 'w \<Rightarrow> string list \<times> 'w" where
  "exchangePeers marshal unmarshal write knownPeers r w =
     (let data = marshal (take maxGossipPeers knownPeers)
      in case writeFrame write framePeers data w of
           (werr, w') \<Rightarrow>
             (case readFrame r of
                (Inl _, _) \<Rightarrow> ([], w')
              | (Inr (ftype, peerData), _) \<Rightarrow>
                  if werr \<noteq> None \<or> ftype \<noteq> framePeers then ([], w') else (unmarshal peerData, w')))"

text \<open>\<^verbatim>\<open>Run\<close> with one possible outcome of the \<^verbatim>\<open>select\<close>: the error, the peer's relays, the store
  and the writer, or that it does not return.\<close>

definition Run ::
  "(string list \<Rightarrow> bytes) \<Rightarrow> (bytes \<Rightarrow> string list) \<Rightarrow> 'w writer \<Rightarrow> (string \<Rightarrow> bool) \<Rightarrow> 's Store \<Rightarrow> time
     \<Rightarrow> string list \<Rightarrow> bt_select \<Rightarrow> bytes \<Rightarrow> 's \<Rightarrow> 'w \<Rightarrow> (bt_err option \<times> string list \<times> 's \<times> 'w) option" where
  "Run marshal unmarshal write ctxDone S t knownPeers sel r s w =
     (let rc = runRecv S t (if takes_bloom write S t s sel w then 2 else 1) r s []
      in if rc_blocked rc then None
         else case runSend write ctxDone S t s sel w of
           None \<Rightarrow> None
         | Some (sendErr, w1) \<Rightarrow>
             (case rc_err rc of
                Some e \<Rightarrow> Some (Some e, [], rc_store rc, w1)
              | None \<Rightarrow>
                  (case sendErr of
                     Some e \<Rightarrow> Some (Some e, [], rc_store rc, w1)
                   | None \<Rightarrow>
                       (case exchangePeers marshal unmarshal write knownPeers (rc_rest rc) w1 of
                          (peers, w2) \<Rightarrow> Some (None, peers, rc_store rc, w2)))))"

section \<open>Lemmas\<close>

definition frame_bytes :: "byte \<Rightarrow> bytes \<Rightarrow> bytes" where
  "frame_bytes ftype data = ftype # PutUint32 (word_of_nat (length data)) @ data"

lemma readFrame_frame:
  assumes "length data \<le> maxFrameLen"
  shows "readFrame (frame_bytes ftype data @ rest) = (Inr (ftype, data), rest)"
proof -
  have "slice 1 5 (frame_bytes ftype data @ rest) = PutUint32 (word_of_nat (length data))"
    by (simp add: frame_bytes_def slice_def)
  moreover have "unat (word_of_nat (length data) :: u32) = length data"
    using assms by (simp add: unat_of_nat maxFrameLen_def)
  moreover have "drop 5 (frame_bytes ftype data @ rest) = data @ rest" by (simp add: frame_bytes_def)
  ultimately show ?thesis using assms
    by (simp add: readFrame_def Let_def) (simp add: frame_bytes_def)
qed

text \<open>A connection that takes everything.\<close>

definition buf_write :: "bytes writer" where
  "buf_write b w = (None, w @ b)"

lemma writeFrame_buf [simp]: "writeFrame buf_write ftype data w = (None, w @ frame_bytes ftype data)"
  by (simp add: writeFrame_def buf_write_def frame_bytes_def)

lemma runRecv_Done:
  "runRecv S t cap (frame_bytes frameDone [] @ rest) s blooms =
     \<lparr>rc_err = None, rc_store = s, rc_blooms = blooms, rc_closed = False, rc_blocked = False, rc_rest = rest\<rparr>"
  by (subst runRecv.simps) (simp add: readFrame_frame frame_types)

lemma runRecv_Bloom:
  assumes "wf_bloom b" "length blooms < cap"
  shows "runRecv S t cap (frame_bytes frameBloom (Bloom_Bytes b) @ rest) s blooms = runRecv S t cap rest s (blooms @ [b])"
proof -
  have "length (Bloom_Bytes b) \<le> maxFrameLen" "BloomFromBytes (Bloom_Bytes b) = Inr b"
    using assms by (simp_all add: wf_bloom_def Bloom_Bytes_def BloomFromBytes_def maxFrameLen_def)
  then show ?thesis using assms(2) by (subst runRecv.simps) (simp add: readFrame_frame)
qed

lemma runRecv_Block:
  assumes "wf_stamp st" "wf_payload p"
  shows "runRecv S t cap (frame_bytes frameBlock (st @ p) @ rest) s blooms =
    runRecv S t cap rest (snd (st_Put S t st p TagBluetooth s)) blooms"
proof -
  have "length (st @ p) \<le> maxFrameLen" "length (st @ p) = blockFrameSize" "take StampSize (st @ p) = st"
    "drop StampSize (st @ p) = p"
    using assms by (simp_all add: wf_stamp_def wf_payload_def maxFrameLen_def blockFrameSize_def)
  then show ?thesis by (subst runRecv.simps) (simp add: readFrame_frame frame_types)
qed

context store_copy
begin

definition sent :: "time \<Rightarrow> 's \<Rightarrow> Bloom \<Rightarrow> ID list \<Rightarrow> bytes" where
  "sent t s pb is = concat (map (\<lambda>i. if Bloom_Has pb i (sb_wf (the (blk t s i))) then []
     else frame_bytes frameBlock (sb_stamp (the (blk t s i)) @ sb_payload (the (blk t s i)))) is)"

lemma sent_Cons:
  "sent t s pb (i # is) = (if Bloom_Has pb i (sb_wf (the (blk t s i))) then []
     else frame_bytes frameBlock (sb_stamp (the (blk t s i)) @ sb_payload (the (blk t s i)))) @ sent t s pb is"
  by (simp add: sent_def)

lemma send_refs_sent:
  assumes "inv t s" "\<forall>i \<in> set is. blk t s i \<noteq> None"
  shows "efold (\<lambda>i. send_ref buf_write S t s pb i (sb_wf (the (blk t s i)))) is w = Inr (w @ sent t s pb is)"
  using assms(2)
proof (induction "is" arbitrary: w)
  case (Cons i "is")
  obtain b where b: "blk t s i = Some b" using Cons.prems by auto
  have "st_Get S t s i = Inr (sb_stamp b, sb_payload b)"
    using src.Get_law [OF assms(1) src.wf_dom [OF assms(1) b]] b by simp
  then show ?case using Cons b by (simp add: send_ref_def sent_Cons)
qed (simp add: sent_def)

lemma recv_sent:
  assumes "inv t s" "invD t d" "unlimited d" "\<forall>i \<in> set is. blk t s i \<noteq> None"
  shows "\<exists>d'. (\<forall>rest. runRecv D t cap (sent t s pb is @ rest) d blooms = runRecv D t cap rest d' blooms) \<and> copy_step t s d d' \<and>
    (\<forall>i b. i \<in> set is \<and> blk t s i = Some b \<and> \<not> Bloom_Has pb i (sb_wf b) \<and> \<not> refuses t d i \<longrightarrow>
       dst.at_least t d' i (sb_wf b))"
  using assms(2-4)
proof (induction "is" arbitrary: d)
  case Nil
  then show ?case using copy_refl by (intro exI [of _ d]) (simp add: sent_def)
next
  case (Cons j "is")
  obtain b where b: "blk t s j = Some b" using Cons.prems(3) by auto
  have w: "wf_stamp (sb_stamp b)" "wf_payload (sb_payload b)"
    using src.stored_wf [OF assms(1) b] by (simp_all add: wf_stored_def)
  define d1 where "d1 = (if Bloom_Has pb j (sb_wf b) then d else snd (st_Put D t (sb_stamp b) (sb_payload b) TagBluetooth d))"
  have r: "runRecv D t cap (sent t s pb (j # is) @ rest) d blooms = runRecv D t cap (sent t s pb is @ rest) d1 blooms" for rest
    by (simp add: sent_Cons b d1_def runRecv_Block [OF w])
  note cp = copy_Put [OF assms(1) Cons.prems(1,2) b, of TagBluetooth]
  have 1: "copy_step t s d d1" using cp(1) copy_refl [OF Cons.prems(1,2)] by (simp add: d1_def)
  then have d1: "invD t d1" "unlimited d1" "refuses t d1 = refuses t d" by (simp_all add: copy_step_def)
  obtain d' where d': "\<And>rest. runRecv D t cap (sent t s pb is @ rest) d1 blooms = runRecv D t cap rest d' blooms" "copy_step t s d1 d'"
    "\<And>i b. i \<in> set is \<Longrightarrow> blk t s i = Some b \<Longrightarrow> \<not> Bloom_Has pb i (sb_wf b) \<Longrightarrow> \<not> refuses t d1 i \<Longrightarrow>
       dst.at_least t d' i (sb_wf b)"
    using Cons.IH [OF d1(1,2)] Cons.prems(3) by auto
  have "dst.at_least t d' j (sb_wf b)" if "\<not> Bloom_Has pb j (sb_wf b)" "\<not> refuses t d j"
    using cp(2) that d'(2) by (simp add: d1_def copy_step_def)
  then show ?case using r d'(1,3) copy_trans [OF 1 d'(2)] b d1(3) by (intro exI [of _ d']) auto
qed

text \<open>One direction of a session: the sender's stream, and what it does to the receiver.\<close>

lemma transfer:
  assumes "inv t s" "invD t d" "unlimited d" "BloomOfStore S t s = Some (Inr bl)" "wf_bloom bl" "0 < cap"
  shows "\<exists>stream d'. runSend buf_write (\<lambda>_. False) S t s (SelBloom pb) w = Some (None, w @ stream) \<and>
    (\<forall>rest. runRecv D t cap (stream @ rest) d [] =
       \<lparr>rc_err = None, rc_store = d', rc_blooms = [bl], rc_closed = False, rc_blocked = False, rc_rest = rest\<rparr>) \<and>
    copy_step t s d d' \<and>
    (\<forall>i b. blk t s i = Some b \<and> \<not> Bloom_Has pb i (sb_wf b) \<and> \<not> refuses t d i \<longrightarrow> dst.at_least t d' i (sb_wf b))"
proof -
  let ?ks = "sel_keys (blk t s) 0 (Unix zeroTime)"
  have z: "in_int64 (Unix zeroTime)" by (simp add: in_int64_def)
  have ks: "set ?ks = sel_set (blk t s) 0 (Unix zeroTime)" by (rule set_sel_keys) (rule src.finite_blk [OF assms(1)])
  have dom: "\<forall>i \<in> set (map snd ?ks). blk t s i \<noteq> None" using ks by (auto simp: sel_set_def)
  have mem: "i \<in> set (map snd ?ks)" if "blk t s i = Some b" for i b
  proof -
    have "(sb_createdAt b, i) \<in> set ?ks"
      using that src.stored_wf [OF assms(1) that] unfolding ks by (auto simp: sel_set_def wf_stored_def WorkFactor_def)
    then show ?thesis unfolding set_map by (rule rev_image_eqI) simp
  qed
  let ?w1 = "w @ frame_bytes frameBloom (Bloom_Bytes bl)"
  have "page_loop (send_body buf_write (\<lambda>_. False) S t s pb) [] ?w1 =
      Some (efold (\<lambda>(i, v). send_ref buf_write S t s pb i v) (map (key_pair (blk t s)) ?ks) ?w1)"
    by (rule src.page_loop_efold [OF assms(1) _ z, where lim = 100 and err = "\<lambda>e acc. (None, acc)"])
      (simp_all add: send_body_def)
  also have "efold (\<lambda>(i, v). send_ref buf_write S t s pb i v) (map (key_pair (blk t s)) ?ks) ?w1 =
      efold (\<lambda>i. send_ref buf_write S t s pb i (sb_wf (the (blk t s i)))) (map snd ?ks) ?w1"
    unfolding efold_map by (simp add: key_pair_def)
  also have "\<dots> = Inr (?w1 @ sent t s pb (map snd ?ks))" by (rule send_refs_sent [OF assms(1) dom])
  finally have loop: "page_loop (send_body buf_write (\<lambda>_. False) S t s pb) [] ?w1 =
      Some (Inr (?w1 @ sent t s pb (map snd ?ks)))" .
  define stream where "stream = frame_bytes frameBloom (Bloom_Bytes bl) @ sent t s pb (map snd ?ks) @ frame_bytes frameDone []"
  have "runSend buf_write (\<lambda>_. False) S t s (SelBloom pb) w = Some (None, w @ stream)"
    using loop by (simp add: runSend_def assms(4) stream_def)
  moreover obtain d' where d': "\<And>rest. runRecv D t cap (sent t s pb (map snd ?ks) @ rest) d [bl] = runRecv D t cap rest d' [bl]"
    "copy_step t s d d'"
    "\<forall>i b. i \<in> set (map snd ?ks) \<and> blk t s i = Some b \<and> \<not> Bloom_Has pb i (sb_wf b) \<and> \<not> refuses t d i \<longrightarrow>
       dst.at_least t d' i (sb_wf b)"
    using recv_sent [OF assms(1-3) dom] by blast
  moreover have "runRecv D t cap (stream @ rest) d [] =
       \<lparr>rc_err = None, rc_store = d', rc_blooms = [bl], rc_closed = False, rc_blocked = False, rc_rest = rest\<rparr>" for rest
    using d'(1) by (simp add: stream_def runRecv_Bloom [OF assms(5)] assms(6) runRecv_Done)
  ultimately show ?thesis using mem by blast
qed

end

section \<open>Properties\<close>

text \<open>C8: A session between two nodes with unlimited stores: with the other's filter in hand each side's sender ends
  without an error; the receiver at the other end reads the whole stream, has the filter
  that the sender needs, and afterwards holds every block of the sender that its own filter
  did not report and that it has no tombstone for, with at least the same work factor.  No side loses a block.\<close>

theorem bt_session_merges:
  assumes "badger_inv E B t s" "bs_storageLimit s \<le> 0" "badger_inv E B' t s'" "bs_storageLimit s' \<le> 0"
  shows "\<exists>bl bl' out out'. BloomOfStore (badger_store E B) t s = Some (Inr bl) \<and>
    BloomOfStore (badger_store E B') t s' = Some (Inr bl') \<and>
    runSend buf_write (\<lambda>_. False) (badger_store E B) t s (SelBloom bl') [] = Some (None, out) \<and>
    runSend buf_write (\<lambda>_. False) (badger_store E B') t s' (SelBloom bl) [] = Some (None, out') \<and>
    (let rc = runRecv (badger_store E B) t 2 out' s []; rc' = runRecv (badger_store E B') t 2 out s' []
     in rc_err rc = None \<and> rc_err rc' = None \<and> \<not> rc_blocked rc \<and> \<not> rc_blocked rc' \<and>
        sel_possible rc None (SelBloom bl') \<and> sel_possible rc' None (SelBloom bl) \<and>
        (\<forall>i b. badger_blk B t s i = Some b \<and> \<not> Bloom_Has bl' i (sb_wf b) \<and> \<not> tombstoned B' t s' i \<longrightarrow>
           (\<exists>b'. badger_blk B' t (rc_store rc') i = Some b' \<and> sb_wf b \<le> sb_wf b')) \<and>
        (\<forall>i b. badger_blk B' t s' i = Some b \<and> \<not> Bloom_Has bl i (sb_wf b) \<and> \<not> tombstoned B t s i \<longrightarrow>
           (\<exists>b'. badger_blk B t (rc_store rc) i = Some b' \<and> sb_wf b \<le> sb_wf b')) \<and>
        (\<forall>i b. badger_blk B t s i = Some b \<longrightarrow> (\<exists>b'. badger_blk B t (rc_store rc) i = Some b' \<and> sb_wf b \<le> sb_wf b')) \<and>
        (\<forall>i b. badger_blk B' t s' i = Some b \<longrightarrow>
           (\<exists>b'. badger_blk B' t (rc_store rc') i = Some b' \<and> sb_wf b \<le> sb_wf b')))"
proof -
  have pos2: "0 < (2 :: nat)" by simp
  obtain bl where bl: "BloomOfStore (badger_store E B) t s = Some (Inr bl)" "wf_bloom bl"
    by (rule block_store.BloomOfStore_complete [OF badger.block_store_axioms assms(1)]) (rule that)
  obtain bl' where bl': "BloomOfStore (badger_store E B') t s' = Some (Inr bl')" "wf_bloom bl'"
    by (rule block_store.BloomOfStore_complete [OF badger.block_store_axioms assms(3)]) (rule that)
  obtain out d' where a: "runSend buf_write (\<lambda>_. False) (badger_store E B) t s (SelBloom bl') [] = Some (None, [] @ out)"
    "\<And>rest. runRecv (badger_store E B') t 2 (out @ rest) s' [] =
       \<lparr>rc_err = None, rc_store = d', rc_blooms = [bl], rc_closed = False, rc_blocked = False, rc_rest = rest\<rparr>"
    "badger_badger.copy_step E B B' t s s' d'"
    "\<And>i b. badger_blk B t s i = Some b \<Longrightarrow> \<not> Bloom_Has bl' i (sb_wf b) \<Longrightarrow> \<not> tombstoned B' t s' i \<Longrightarrow>
       badger_keep.at_least B' t d' i (sb_wf b)"
    using badger_badger.transfer [OF assms(1,3,4) bl pos2, of bl' "[]"] by blast
  obtain out' d where b: "runSend buf_write (\<lambda>_. False) (badger_store E B') t s' (SelBloom bl) [] = Some (None, [] @ out')"
    "\<And>rest. runRecv (badger_store E B) t 2 (out' @ rest) s [] =
       \<lparr>rc_err = None, rc_store = d, rc_blooms = [bl'], rc_closed = False, rc_blocked = False, rc_rest = rest\<rparr>"
    "badger_badger.copy_step E B' B t s' s d"
    "\<And>i b. badger_blk B' t s' i = Some b \<Longrightarrow> \<not> Bloom_Has bl i (sb_wf b) \<Longrightarrow> \<not> tombstoned B t s i \<Longrightarrow>
       badger_keep.at_least B t d i (sb_wf b)"
    using badger_badger.transfer [OF assms(3,1,2) bl' pos2, of bl "[]"] by blast
  have k: "badger_keep.at_least B t d i v" if "badger_keep.at_least B t s i v" for i v
    using b(3) that by (simp add: badger_badger.copy_step_def)
  have k': "badger_keep.at_least B' t d' i v" if "badger_keep.at_least B' t s' i v" for i v
    using a(3) that by (simp add: badger_badger.copy_step_def)
  have r: "runRecv (badger_store E B') t 2 out s' [] =
       \<lparr>rc_err = None, rc_store = d', rc_blooms = [bl], rc_closed = False, rc_blocked = False, rc_rest = []\<rparr>"
    "runRecv (badger_store E B) t 2 out' s [] =
       \<lparr>rc_err = None, rc_store = d, rc_blooms = [bl'], rc_closed = False, rc_blocked = False, rc_rest = []\<rparr>"
    using a(2) [of "[]"] b(2) [of "[]"] by simp_all
  show ?thesis
    using bl(1) bl'(1) a(1) b(1) a(4) b(4) k k'
    by (intro exI [of _ bl] exI [of _ bl'] exI [of _ out] exI [of _ out'])
      (simp add: r Let_def sel_possible_def badger_keep.at_least_def)
qed

theorem bt_session_merges_witness:
  "\<exists>bl bl' out. BloomOfStore (badger_store env0 mem_badger) 0 one_block = Some (Inr bl) \<and>
    BloomOfStore (badger_store env0 mem_badger) 0 (OpenBadger [] :: mem_db BadgerStore) = Some (Inr bl') \<and>
    runSend buf_write (\<lambda>_. False) (badger_store env0 mem_badger) 0 one_block (SelBloom bl') [] = Some (None, out) \<and>
    rc_err (runRecv (badger_store env0 mem_badger) 0 2 out (OpenBadger [] :: mem_db BadgerStore) []) = None"
proof -
  have i: "badger_inv env0 mem_badger 0 (OpenBadger [])"
    using badger_inv_open [OF env0_clock(1), of 0 0] by (simp add: env0_clock flip: open_no_limit)
  have l: "bs_storageLimit one_block \<le> 0" "bs_storageLimit (OpenBadger [] :: mem_db BadgerStore) \<le> 0"
    by (simp_all add: one_block_inv(3) OpenBadger_def)
  show ?thesis using bt_session_merges [OF one_block_inv(1) l(1) i l(2)] unfolding Let_def by blast
qed

text \<open>A frame is read back as it was written, whatever follows it, if it is within the limit
  of 1 MiB.\<close>

theorem frame_roundtrip:
  assumes "length data \<le> maxFrameLen"
  shows "writeFrame buf_write ftype data w = (None, w @ frame_bytes ftype data) \<and>
    readFrame (frame_bytes ftype data @ rest) = (Inr (ftype, data), rest)"
  using readFrame_frame [OF assms] by simp

theorem frame_roundtrip_witness:
  "readFrame (frame_bytes frameBlock [1, 2, 3] @ [9]) = (Inr (frameBlock, [1, 2, 3]), [9])"
  using frame_roundtrip [of "[1, 2, 3]" frameBlock "[]" "[9]"] by (simp add: maxFrameLen_def)

text \<open>C36: A peer whose first frame is DONE, a block of a wrong size or of an unknown type makes the
  receiver return without closing the channel: as long as the context is not cancelled
  nothing can wake the sender, and \<^verbatim>\<open>Run\<close> does not return.\<close>

theorem bt_sender_stuck:
  assumes "length data \<le> maxFrameLen"
    and "ftype = frameDone \<or> ftype = frameBlock \<and> length data \<noteq> blockFrameSize \<or>
      ftype \<notin> {frameBloom, frameBlock, frameDone}"
  shows "\<not> sel_possible (runRecv S t cap (frame_bytes ftype data @ rest) s []) None sel"
proof -
  have "rc_blooms (runRecv S t cap (frame_bytes ftype data @ rest) s []) = [] \<and>
      \<not> rc_closed (runRecv S t cap (frame_bytes ftype data @ rest) s [])"
    using assms by (subst (1 2) runRecv.simps) (auto simp: readFrame_frame frame_types)
  then show ?thesis by (simp add: sel_possible_def split: bt_select.split)
qed

theorem bt_sender_stuck_witness:
  "\<not> sel_possible (runRecv (badger_store env0 mem_badger) 0 2 (frame_bytes frameDone [] @ []) one_block []) None SelClosed"
  by (rule bt_sender_stuck) (simp_all add: frame_types)

end
