(* ===== verification/Engine.thy ===== *)
theory Engine
  imports RelaySync Bluetooth PeerTracker MessageStore
begin

text \<open>
  \<^verbatim>\<open>mobile/engine.go\<close>: the engine of the phone.  Its state is the Badger store, the message store,
  the table of peers and the file system with the data directory.  Background loops are
  modelled by one iteration.  The network is a function from the URL of a peer to the requests that it
  answers; a round takes the time when it starts and the time when it has finished.
\<close>

section \<open>State\<close>

record 'db Engine =
  en_store :: "'db BadgerStore"
  en_msgs :: MessageStore
  en_pm :: peerTracker
  en_fs :: fsys
  en_quotaPath :: path
  en_activeBTCount :: "32 word"

definition quotaFileName :: string where "quotaFileName = ''.storage_quota''"

datatype engine_err = EnBlocks string | EnMessages string

definition NewEngine ::
  "peers_json \<Rightarrow> path \<Rightarrow> string + 'db \<Rightarrow> string + MessageStore \<Rightarrow> fsys \<Rightarrow> engine_err + 'db Engine" where
  "NewEngine J dataDir db msgs fs =
     (case db of
        Inl e \<Rightarrow> Inl (EnBlocks e)
      | Inr d \<Rightarrow>
          (case OpenMessageStore msgs of
             Inl e \<Rightarrow> Inl (EnMessages e)
           | Inr ms \<Rightarrow>
               Inr \<lparr>en_store = OpenBadger d, en_msgs = ms,
                    en_pm = pt_load J fs (newPeerTracker (dataDir @ [''peers.json''])), en_fs = fs,
                    en_quotaPath = dataDir @ [quotaFileName], en_activeBTCount = 0\<rparr>))"

section \<open>Storage\<close>

text \<open>\<^verbatim>\<open>os.Truncate\<close> changes the size of an existing file and fails on a missing one.\<close>

definition fs_truncate :: "path \<Rightarrow> nat \<Rightarrow> fsys \<Rightarrow> io_err option \<times> fsys" where
  "fs_truncate p n fs =
     (case fs_fault fs OpWrite p of
        Some (e, _) \<Rightarrow> (Some (IOErr e), fs)
      | None \<Rightarrow>
          (case map_of (fs_files fs) p of
             None \<Rightarrow> (Some NotExist, fs)
           | Some b \<Rightarrow> (None, fs\<lparr>fs_files := set_file p (take n b @ replicate (n - length b) 0) (fs_files fs)\<rparr>)))"

definition syncQuotaFile :: "'db badger \<Rightarrow> 'db Engine \<Rightarrow> 'db Engine" where
  "syncQuotaFile B e =
     (let used = DiskUsageBytes B (en_store e); limit = StorageLimitBytes (en_store e);
          remaining = wrap64 (limit - used);
          remaining = (if remaining < 0 then 0 else remaining)
      in e\<lparr>en_fs := snd (fs_truncate (en_quotaPath e) (nat remaining) (en_fs e))\<rparr>)"

definition ConfigureStorage :: "'db badger \<Rightarrow> int \<Rightarrow> int \<Rightarrow> int \<Rightarrow> 'db Engine \<Rightarrow> 'db Engine" where
  "ConfigureStorage B limitBytes physicalReserve bluetoothReserve e =
     (if limitBytes \<le> 0 then e
      else
        syncQuotaFile B (e\<lparr>en_store :=
          WithReservations [TagPhysical \<mapsto> physicalReserve, TagBluetooth \<mapsto> bluetoothReserve,
                            TagLan \<mapsto> go_div bluetoothReserve 2]
            (WithStorageLimit limitBytes (en_store e))\<rparr>))"

definition Engine_DiskUsageBytes :: "'db badger \<Rightarrow> 'db Engine \<Rightarrow> int" where
  "Engine_DiskUsageBytes B e = DiskUsageBytes B (en_store e)"

definition Engine_StorageLimitBytes :: "'db Engine \<Rightarrow> int" where
  "Engine_StorageLimitBytes e = StorageLimitBytes (en_store e)"

section \<open>Peers\<close>

definition save_peers :: "peers_json \<Rightarrow> peer_order \<Rightarrow> 'db Engine \<Rightarrow> 'db Engine" where
  "save_peers J ord e = e\<lparr>en_fs := pt_save J ord (en_pm e) (en_fs e)\<rparr>"

definition Engine_AddPeer :: "net \<Rightarrow> peers_json \<Rightarrow> peer_order \<Rightarrow> time \<Rightarrow> string \<Rightarrow> 'db Engine \<Rightarrow> bool \<times> 'db Engine" where
  "Engine_AddPeer N J ord now url e =
     (let (added, pm) = pt_add N now url ''manual'' (en_pm e); e' = e\<lparr>en_pm := pm\<rparr>
      in (added, if added then save_peers J ord e' else e'))"

definition Engine_RemovePeer :: "net \<Rightarrow> peers_json \<Rightarrow> peer_order \<Rightarrow> string \<Rightarrow> 'db Engine \<Rightarrow> 'db Engine" where
  "Engine_RemovePeer N J ord url e = save_peers J ord (e\<lparr>en_pm := pt_remove N url (en_pm e)\<rparr>)"

definition Engine_BlockPeer :: "net \<Rightarrow> peers_json \<Rightarrow> peer_order \<Rightarrow> time \<Rightarrow> string \<Rightarrow> 'db Engine \<Rightarrow> 'db Engine" where
  "Engine_BlockPeer N J ord now url e = save_peers J ord (e\<lparr>en_pm := pt_block N now url (en_pm e)\<rparr>)"

definition Engine_UnblockPeer :: "net \<Rightarrow> peers_json \<Rightarrow> peer_order \<Rightarrow> string \<Rightarrow> 'db Engine \<Rightarrow> 'db Engine" where
  "Engine_UnblockPeer N J ord url e = save_peers J ord (e\<lparr>en_pm := pt_unblock N url (en_pm e)\<rparr>)"

definition Engine_ListPeers :: "peer_order \<Rightarrow> 'db Engine \<Rightarrow> PeerInfo list" where
  "Engine_ListPeers ord e = ListPeers ord (en_pm e)"

section \<open>Synchronisation with a relay\<close>

definition gossip :: "net \<Rightarrow> time \<Rightarrow> string \<Rightarrow> string list \<Rightarrow> peerTracker \<Rightarrow> peerTracker" where
  "gossip N now source urls pm = fold (\<lambda>u pm. snd (pt_add N now u source pm)) urls pm"

text \<open>\<open>t\<close> is the time of the transfers, \<open>now\<close> the time when the result is recorded.\<close>

definition doSyncRound ::
  "env \<Rightarrow> net \<Rightarrow> 'db badger \<Rightarrow> (resp_body \<Rightarrow> bytes) \<Rightarrow> (string \<Rightarrow> 'w http) \<Rightarrow> ('w \<Rightarrow> string option)
     \<Rightarrow> (sync_err \<Rightarrow> string) \<Rightarrow> peers_json \<Rightarrow> peer_order \<Rightarrow> time \<Rightarrow> time \<Rightarrow> 'db Engine \<Rightarrow> 'w \<Rightarrow> ('db Engine \<times> 'w) option" where
  "doSyncRound E N B jtext http ctxErr errText J ord t now e w =
     (let pick = pickPeer ord (en_pm e)
      in if pick = [] then Some (e, w)
         else
           let c = NewClient N pick; since = lastSync pick (en_pm e); S = badger_store E B
           in case Pull jtext (http pick) ctxErr c S t 0 since (en_store e) w of
                None \<Rightarrow> None
              | Some ((pulledIDs, Some err), s1, w1) \<Rightarrow>
                  Some (e\<lparr>en_store := s1, en_pm := recordFailure pick (errText err) (en_pm e)\<rparr>, w1)
              | Some ((pulledIDs, None), s1, w1) \<Rightarrow>
                  (case Client_Hello (http pick) [] w1 of
                     (hello, w2) \<Rightarrow>
                       let pm1 = (case hello of Inl _ \<Rightarrow> en_pm e | Inr urls \<Rightarrow> gossip N t ''gossip'' urls (en_pm e))
                       in case Push (http pick) ctxErr S t 0 since (\<lambda>i. i \<in> set pulledIDs) s1 w2 of
                            None \<Rightarrow> None
                          | Some ((n, perr), w3) \<Rightarrow>
                              (let (pushed, syncErr) = (case perr of Some err \<Rightarrow> (0, errText err) | None \<Rightarrow> (n, []));
                                   pm2 = recordSuccess now pick (int (length pulledIDs)) pushed syncErr pm1
                               in Some (save_peers J ord (e\<lparr>en_store := s1, en_pm := pm2\<rparr>), w3))))"

section \<open>Servers, discovery and Bluetooth\<close>

definition StartLANServer :: "env \<Rightarrow> net \<Rightarrow> 'db badger \<Rightarrow> peer_order \<Rightarrow> time \<Rightarrow> 'db Engine \<Rightarrow> ('db BadgerStore, peerTracker) Server" where
  "StartLANServer E N B ord now e =
     SetPeerAdder (\<lambda>u pm. snd (pt_add N now u ''lan'' pm))
       (SetPeerSource (activeURLs ord)
         (NewServer (badger_store E B) (Some (\<lambda>s. Inr (MedianWorkFactor s))) (en_store e) 0 (en_pm e)))"

text \<open>One address from the scan of the local network.\<close>

definition lan_discovered :: "net \<Rightarrow> peers_json \<Rightarrow> peer_order \<Rightarrow> time \<Rightarrow> string \<Rightarrow> 'db Engine \<Rightarrow> 'db Engine" where
  "lan_discovered N J ord now addr e =
     (let (added, pm) = pt_add N now (''http://'' @ addr) ''lan'' (en_pm e); e' = e\<lparr>en_pm := pm\<rparr>
      in if added then save_peers J ord e' else e')"

definition ActiveBTSessions :: "'db Engine \<Rightarrow> int" where
  "ActiveBTSessions e = sint (en_activeBTCount e)"

definition RunBluetoothSession ::
  "env \<Rightarrow> net \<Rightarrow> 'db badger \<Rightarrow> (string list \<Rightarrow> bytes) \<Rightarrow> (bytes \<Rightarrow> string list) \<Rightarrow> 'w writer \<Rightarrow> (string \<Rightarrow> bool)
     \<Rightarrow> peers_json \<Rightarrow> peer_order \<Rightarrow> time \<Rightarrow> bt_select \<Rightarrow> bytes \<Rightarrow> 'db Engine \<Rightarrow> 'w
     \<Rightarrow> (bt_err option \<times> 'db Engine \<times> 'w) option" where
  "RunBluetoothSession E N B marshal unmarshal write ctxDone J ord t sel r e w =
     (let e0 = e\<lparr>en_activeBTCount := en_activeBTCount e + 1\<rparr>
      in case Run marshal unmarshal write ctxDone (badger_store E B) t (activeURLs ord (en_pm e0)) sel r (en_store e0) w of
           None \<Rightarrow> None
         | Some (err, discovered, s', w') \<Rightarrow>
             (let e1 = fold (\<lambda>u e. let (added, pm) = pt_add N t u ''bluetooth'' (en_pm e); e' = e\<lparr>en_pm := pm\<rparr>
                                   in if added then save_peers J ord e' else e')
                         discovered (e0\<lparr>en_store := s'\<rparr>)
              in Some (err, e1\<lparr>en_activeBTCount := en_activeBTCount e1 - 1\<rparr>, w')))"

section \<open>Lemmas\<close>

lemma pt_add_lookup: "map_of (pt_peers pm) u = Some pe \<Longrightarrow> map_of (pt_peers (snd (pt_add N now v source pm))) u = Some pe"
  by (auto simp: pt_add_def Let_def update_conv)

lemma gossip_lookup: "map_of (pt_peers pm) u = Some pe \<Longrightarrow> map_of (pt_peers (gossip N now source urls pm)) u = Some pe"
  unfolding gossip_def by (induction urls arbitrary: pm) (simp_all add: pt_add_lookup)

lemma lastSync_recordSuccess:
  "map_of (pt_peers pm) u = Some pe \<Longrightarrow> lastSync u (recordSuccess now u pulled pushed err pm) = now"
  by (simp add: lastSync_def recordSuccess_def update_conv)

lemma lastSync_recordFailure: "lastSync u (recordFailure u err pm) = lastSync u pm"
  by (simp add: lastSync_def recordFailure_def update_conv split: option.split)

lemma pick_tracked:
  assumes "order_ok ord" "pt_inv N pm" "pickPeer ord pm \<noteq> []"
  obtains pe where "map_of (pt_peers pm) (pickPeer ord pm) = Some pe"
  using pickPeer_spec [OF assms(1,2)] assms(3) by blast

lemma round_recorded:
  assumes "order_ok ord" "pt_inv N (en_pm e)" "pickPeer ord (en_pm e) = u" "u \<noteq> []"
    and "doSyncRound E N B jtext http ctxErr errText J ord t now e w = Some (e', w')"
  shows "(\<exists>ids err s1 w1. Pull jtext (http u) ctxErr (NewClient N u) (badger_store E B) t 0 (lastSync u (en_pm e)) (en_store e) w =
        Some ((ids, Some err), s1, w1) \<and> lastSync u (en_pm e') = lastSync u (en_pm e)) \<or>
    (\<exists>ids s1 w1. Pull jtext (http u) ctxErr (NewClient N u) (badger_store E B) t 0 (lastSync u (en_pm e)) (en_store e) w =
        Some ((ids, None), s1, w1) \<and> lastSync u (en_pm e') = now)"
proof -
  let ?p = "Pull jtext (http u) ctxErr (NewClient N u) (badger_store E B) t 0 (lastSync u (en_pm e)) (en_store e) w"
  obtain pe where pe: "map_of (pt_peers (en_pm e)) u = Some pe"
    using pick_tracked [OF assms(1,2)] assms(3,4) by blast
  obtain ids perr s1 w1 where p: "?p = Some ((ids, perr), s1, w1)"
    using assms(3-5) by (auto simp: doSyncRound_def Let_def split: option.splits)
  show ?thesis
  proof (cases perr)
    case (Some err)
    then have "e' = e\<lparr>en_store := s1, en_pm := recordFailure u (errText err) (en_pm e)\<rparr>"
      using assms(3-5) p by (simp add: doSyncRound_def)
    then show ?thesis using p Some by (simp add: lastSync_recordFailure)
  next
    case None
    obtain pm1 pulled pushed err where pm: "en_pm e' = recordSuccess now u pulled pushed err pm1"
      "pm1 = en_pm e \<or> (\<exists>urls. pm1 = gossip N t ''gossip'' urls (en_pm e))"
      using assms(3-5) p None
      by (fastforce simp: doSyncRound_def Let_def save_peers_def split: option.splits prod.splits sum.splits)
    have "map_of (pt_peers pm1) u = Some pe" using pm(2) pe gossip_lookup by auto
    then have "lastSync u (en_pm e') = now" unfolding pm(1) by (rule lastSync_recordSuccess)
    then show ?thesis using p None by blast
  qed
qed

section \<open>Properties\<close>

text \<open>What a round records: if the download failed, the time of the last synchronisation
  stays; if it succeeded, that time becomes the time at the end of the round, whatever
  became of the upload, so that what the upload did not deliver is not offered again.\<close>

theorem round_since:
  assumes "order_ok ord" "pt_inv N (en_pm e)" "pickPeer ord (en_pm e) = u" "u \<noteq> []"
    and "doSyncRound E N B jtext http ctxErr errText J ord t now e w = Some (e', w')"
  shows "(\<exists>ids err s1 w1. Pull jtext (http u) ctxErr (NewClient N u) (badger_store E B) t 0 (lastSync u (en_pm e)) (en_store e) w =
        Some ((ids, Some err), s1, w1) \<and> lastSync u (en_pm e') = lastSync u (en_pm e)) \<or>
    (\<exists>ids s1 w1. Pull jtext (http u) ctxErr (NewClient N u) (badger_store E B) t 0 (lastSync u (en_pm e)) (en_store e) w =
        Some ((ids, None), s1, w1) \<and> lastSync u (en_pm e') = now)"
  using assms by (rule round_recorded)

text \<open>The quota file is never created: while it does not exist no call of
  \<^verbatim>\<open>ConfigureStorage\<close> or \<^verbatim>\<open>syncQuotaFile\<close> changes the file system.\<close>

theorem quota_never_created:
  assumes "map_of (fs_files (en_fs e)) (en_quotaPath e) = None"
  shows "en_fs (syncQuotaFile B e) = en_fs e \<and> en_fs (ConfigureStorage B limit phys bt e) = en_fs e"
  using assms by (simp add: ConfigureStorage_def syncQuotaFile_def fs_truncate_def Let_def split: option.split)

text \<open>An engine over the store with one block, with two peers.\<close>

definition engine0 :: "mem_db Engine" where
  "engine0 = \<lparr>en_store = OpenBadger [], en_msgs = empty_ms, en_pm = two_peers, en_fs = fs_empty,
     en_quotaPath = [quotaFileName], en_activeBTCount = 0\<rparr>"

lemma two_peers_inv: "pt_inv net0 two_peers"
  using pt_reach_inv [OF two_peers(1)] by blast

lemma order_rev: "order_ok rev"
  by (simp add: order_ok_def)

lemma pick0: "pickPeer rev two_peers = ''http://b''" "lastSync ''http://b'' two_peers = zeroTime"
  by (simp_all add: pickPeer_def two_peers(2) newEntry_def lastSync_def)

theorem quota_never_created_witness:
  "en_fs (syncQuotaFile mem_badger engine0) = fs_empty \<and> en_fs (ConfigureStorage mem_badger 1000000 10 10 engine0) = fs_empty"
  using quota_never_created [of engine0 mem_badger 1000000 10 10] by (simp add: engine0_def fs_empty_def)



text \<open>A round over a network that is down.\<close>

theorem round_since_witness:
  "\<exists>e'. doSyncRound env0 net0 mem_badger (\<lambda>_. []) (\<lambda>_ _ w. (Inl (DoErr ''down''), w)) (\<lambda>_. None) (\<lambda>_. []) json_peers0 rev 0 9 engine0 () =
      Some (e', ()) \<and> lastSync ''http://b'' (en_pm e') = zeroTime"
proof -
  let ?http = "\<lambda>_ w. (Inl (DoErr ''down''), w)"
  obtain b where b: "BloomOfStore (badger_store env0 mem_badger) 0 (OpenBadger []) = Some (Inr b)"
    by (rule block_store.BloomOfStore_complete [OF badger.block_store_axioms open_inv]) (rule that)
  have p: "Pull (\<lambda>_. []) ?http (\<lambda>_. None) (NewClient net0 ''http://b'') (badger_store env0 mem_badger) 0 0 zeroTime
      (OpenBadger []) () = Some (([], Some (RelayFail (relayErr ''relay delta: '' (DoErr ''down'')))), OpenBadger [], ())"
    by (simp add: Pull_def b Client_Delta_def)
  obtain e' where e': "doSyncRound env0 net0 mem_badger (\<lambda>_. []) (\<lambda>_. ?http) (\<lambda>_. None) (\<lambda>_. []) json_peers0 rev 0 9 engine0 () = Some (e', ())"
    using p by (simp add: doSyncRound_def engine0_def pick0)
  from round_since [OF order_rev _ _ _ e', of "''http://b''"] show ?thesis
    using p e' by (auto simp: engine0_def pick0 two_peers_inv)
qed

end
