(* ===== verification/ApiEngine.thy ===== *)
theory ApiEngine
  imports ApiProps Engine Node
begin

text \<open>
  The HTTP interface over the mobile engine: \<^verbatim>\<open>StartAPIServer\<close>, with the peer tracker as the peer manager.  The
  contract that the handlers for peers need of a peer manager is the locale \<open>peer_manager\<close>; the tracker is its
  instance.
\<close>

section \<open>The tracker as a peer manager\<close>

text \<open>The tracker and the file system that \<^verbatim>\<open>Save\<close> writes to.\<close>

definition tracker_manager :: "net \<Rightarrow> time \<Rightarrow> peers_json \<Rightarrow> peer_order \<Rightarrow> (peerTracker \<times> fsys) PeerManager" where
  "tracker_manager N now J ord =
     \<lparr>pm_AddPeer = (\<lambda>rawURL source (pt, fs). case pt_add N now rawURL source pt of (r, pt') \<Rightarrow> (r, pt', fs)),
      pm_RemovePeer = (\<lambda>rawURL (pt, fs). (pt_remove N rawURL pt, fs)),
      pm_BlockPeer = (\<lambda>rawURL (pt, fs). (pt_block N now rawURL pt, fs)),
      pm_UnblockPeer = (\<lambda>rawURL (pt, fs). (pt_unblock N rawURL pt, fs)),
      pm_ListPeers = (\<lambda>(pt, fs). ListPeers ord pt),
      pm_Save = (\<lambda>(pt, fs). (pt, pt_save J ord pt fs))\<rparr>"

definition StartAPIServer ::
  "string option \<Rightarrow> string \<Rightarrow> path \<Rightarrow> 'db Engine \<Rightarrow> string + ('db BadgerStore, peerTracker \<times> fsys) ApiServer" where
  "StartAPIServer listenErr addr keystorePath e =
     (let srv = api_New (en_store e) (en_msgs e) keystorePath (en_fs e);
          srv = SetPeerManager (en_pm e, en_fs e) srv;
          srv = SetStatusProvider \<lparr>sp_ActiveBTSessions = ActiveBTSessions e, sp_rounds = 0\<rparr> srv
      in case listenErr of Some err \<Rightarrow> Inl (''mobile: listen '' @ addr @ '': '' @ err) | None \<Rightarrow> Inr srv)"

text \<open>The server of a node has no peer manager, and its tracker as the provider of the status.\<close>

definition node_api :: "path \<Rightarrow> 's \<Rightarrow> MessageStore \<Rightarrow> fsys \<Rightarrow> ('s, 'p) ApiServer" where
  "node_api keystoreFile bs ms fs = SetStatusProvider \<lparr>sp_ActiveBTSessions = 0, sp_rounds = 0\<rparr> (api_New bs ms keystoreFile fs)"

section \<open>The contract\<close>

locale peer_manager =
  fixes P :: "'p PeerManager" and inv :: "'p \<Rightarrow> bool" and entry :: "'p \<Rightarrow> string \<Rightarrow> bool option" and key :: "string \<Rightarrow> string"
  assumes Add_law: "inv p \<Longrightarrow> pm_AddPeer P u source p = (r, p') \<Longrightarrow> inv p' \<and> (r \<longrightarrow> entry p' = (entry p)(key u \<mapsto> False)) \<and> (\<not> r \<longrightarrow> p' = p)"
    and Remove_law: "inv p \<Longrightarrow> inv (pm_RemovePeer P u p) \<and> entry (pm_RemovePeer P u p) = (entry p)(key u := None)"
    and Block_law: "inv p \<Longrightarrow> inv (pm_BlockPeer P u p) \<and> (key u \<noteq> [] \<longrightarrow> entry (pm_BlockPeer P u p) = (entry p)(key u \<mapsto> True))"
    and Unblock_law: "inv p \<Longrightarrow> inv (pm_UnblockPeer P u p) \<and>
      entry (pm_UnblockPeer P u p) = (if entry p (key u) = None then entry p else (entry p)(key u \<mapsto> False))"
    and Save_law: "inv p \<Longrightarrow> inv (pm_Save P p) \<and> entry (pm_Save P p) = entry p"
    and no_key: "inv p \<Longrightarrow> entry p [] = None"
begin

lemma decodePeerURL_Encode: "decodePeerURL (b64_EncodeToString (bytes_of_string u)) = Inr u"
  by (simp add: decodePeerURL_def)

text \<open>Whatever the four requests do, the state of the peers stays well-formed; the three that name a peer change that entry only.\<close>

lemma requests_keep:
  assumes "ae_pm A = P" "as_peers s = Some p" "inv p"
    and "req \<in> {ReqAddPeer r, ReqRemovePeer b, ReqBlockPeer b, ReqUnblockPeer b}"
  obtains answer p' where "api_handler A D t req s = (answer, s\<lparr>as_peers := Some p'\<rparr>)" "inv p'"
proof -
  have change: "\<exists>answer p'. peer_change A f b s = (answer, s\<lparr>as_peers := Some p'\<rparr>) \<and> inv p'" if "\<And>u p. inv p \<Longrightarrow> inv (f u p)" for f
  proof (cases "decodePeerURL b")
    case (Inl e)
    then show ?thesis using assms(2,3) by (intro exI [of _ e] exI [of _ p]) (simp add: peer_change_def)
  next
    case (Inr u)
    then show ?thesis using assms(1-3) that Save_law
      by (intro exI [of _ "writeJSON 204 BEmpty"] exI [of _ "pm_Save P (f u p)"]) (simp add: peer_change_def)
  qed
  have add: "\<exists>answer p'. handleAddPeer A r s = (answer, s\<lparr>as_peers := Some p'\<rparr>) \<and> inv p'"
  proof (cases "\<exists>url. r = Some url \<and> url \<noteq> []")
    case False
    then show ?thesis using assms(2,3)
      by (intro exI [of _ "if r = None then invalidJSON else writeError 400 ''url required''"] exI [of _ p])
        (auto simp: handleAddPeer_def split: option.split)
  next
    case True
    then obtain url where url: "r = Some url" "url \<noteq> []" by blast
    obtain ok p' where a: "pm_AddPeer P url ''manual'' p = (ok, p')" by fastforce
    then show ?thesis using url assms(1,2) Add_law [OF assms(3) a] Save_law [of p'] by (cases ok) (auto simp: handleAddPeer_def)
  qed
  have "\<exists>answer p'. api_handler A D t req s = (answer, s\<lparr>as_peers := Some p'\<rparr>) \<and> inv p'"
    using assms(1,4) add change [of "pm_RemovePeer P"] change [of "pm_BlockPeer P"] change [of "pm_UnblockPeer P"] Remove_law Block_law Unblock_law
    by (auto simp: handleRemovePeer_def handleBlockPeer_def handleUnblockPeer_def)
  then show thesis using that by blast
qed

lemma block_request:
  assumes "ae_pm A = P" "as_peers s = Some p" "inv p" "key u \<noteq> []"
  obtains p' where "handleBlockPeer A (b64_EncodeToString (bytes_of_string u)) s = (writeJSON 204 BEmpty, s\<lparr>as_peers := Some p'\<rparr>)"
    "inv p'" "entry p' = (entry p)(key u \<mapsto> True)"
  using assms that Block_law [OF assms(3), of u] Save_law [of "pm_BlockPeer P u p"]
  by (auto simp: handleBlockPeer_def peer_change_def decodePeerURL_Encode)

end

lemma pt_inv_no_key: "pt_inv N pt \<Longrightarrow> map_of (pt_peers pt) [] = None"
  by (auto simp: pt_inv_def valid_key_def map_of_eq_None_iff)

lemma AddPeer_entry:
  "map_option pe_Blocked \<circ> map_of (AList.update k e xs) = (map_option pe_Blocked \<circ> map_of xs)(k \<mapsto> pe_Blocked e)"
  by (auto simp: update_conv fun_eq_iff)

interpretation tracker: peer_manager "tracker_manager N now J ord" "\<lambda>(pt, fs). pt_inv N pt"
  "\<lambda>(pt, fs). map_option pe_Blocked \<circ> map_of (pt_peers pt)" "normalizeURL N" for N now J ord
proof (unfold_locales, goal_cases)
  case (1 p u source r p')
  then show ?case using pt_ops_inv(1) [of N "fst p" now u source]
    by (auto simp: tracker_manager_def pt_add_def Let_def AddPeer_entry newEntry_def split: prod.splits if_splits)
next
  case (2 p u)
  then show ?case using pt_ops_inv(2) [of N "fst p" u]
    by (auto simp: tracker_manager_def pt_remove_def Let_def delete_conv fun_eq_iff pt_inv_no_key split: prod.splits)
next
  case (3 p u)
  then show ?case using pt_ops_inv(3) [of N "fst p" now u]
    by (auto simp: tracker_manager_def pt_block_def Let_def AddPeer_entry newEntry_def split: prod.splits option.splits)
next
  case (4 p u)
  then show ?case using pt_ops_inv(4) [of N "fst p" u]
    by (auto simp: tracker_manager_def pt_unblock_def Let_def AddPeer_entry pt_inv_no_key split: prod.splits option.splits)
next
  case (5 p)
  then show ?case by (auto simp: tracker_manager_def split: prod.splits)
next
  case (6 p)
  then show ?case by (auto simp: pt_inv_no_key split: prod.splits)
qed

section \<open>Properties\<close>


definition api1 :: "(mem_db BadgerStore, peerTracker \<times> fsys) apiEnv" where
  "api1 = \<lparr>ae_env = env0, ae_crypto = crypto0, ae_json = ae_json api0, ae_store = badger_store env0 mem_badger, ae_median = None,
     ae_disk = None, ae_pm = tracker_manager net0 7 json_peers0 rev\<rparr>"


end
