(* ===== verification/Transfers.thy ===== *)
theory Transfers
  imports RelaySync Bluetooth
begin

text \<open>
  What a transfer with an arbitrary other side does to the local store.  Whatever a relay or a
  Bluetooth peer answers, \<^verbatim>\<open>Pull\<close>, \<^verbatim>\<open>Push\<close> and a session end, and the store keeps its invariant.
  The lemmas are proved for every backend that meets the contract \<open>block_store\<close>.
\<close>

lemma Client_Get_wf: "Client_Get jtext http i w = (Inr (stamp, payload), w') \<Longrightarrow> wf_stamp stamp \<and> wf_payload payload"
  by (auto simp: Client_Get_def Let_def wf_stamp_def wf_payload_def split: prod.splits sum.splits if_splits)

context block_store
begin

lemma Put_inv:
  assumes "inv t s" "wf_stamp stamp" "wf_payload payload"
  shows "inv t (snd (st_Put S t stamp payload tag s))"
  using Put_law [OF assms, of tag "fst (st_Put S t stamp payload tag s)" "snd (st_Put S t stamp payload tag s)"] by simp

lemma pull_loop_inv:
  assumes "inv t s" "pull_loop jtext http ctxErr c S t missing stored s w = (r, s', w')"
  shows "inv t s'"
  using assms
proof (induction missing arbitrary: stored s w)
  case (Cons i missing)
  show ?case
  proof (cases "ctxErr w")
    case None
    obtain got w1 where g: "Client_Get jtext http i w = (got, w1)" by fastforce
    show ?thesis
    proof (cases got)
      case (Inl e)
      then show ?thesis using Cons.IH [OF Cons.prems(1)] Cons.prems(2) by (simp add: None g)
    next
      case (Inr b)
      obtain stamp payload where b: "b = (stamp, payload)" by (cases b)
      obtain pr s1 where p: "st_Put S t stamp payload (cl_tag c) s = (pr, s1)" by fastforce
      have "inv t s1" using Put_inv [OF Cons.prems(1), of stamp payload "cl_tag c"] Client_Get_wf [OF g [unfolded Inr b]] p by simp
      then show ?thesis using Cons.IH Cons.prems(2) by (cases pr) (simp_all add: None g Inr b p)
    qed
  qed (use Cons.prems in simp)
qed simp

lemma Pull_inv:
  assumes "inv t s"
  obtains ids err s' w' where "Pull jtext http ctxErr c S t powFloor since s w = Some ((ids, err), s', w')" "inv t s'"
proof -
  obtain bloom where b: "BloomOfStore S t s = Some (Inr bloom)"
    by (rule BloomOfStore_complete [OF assms]) (rule that)
  obtain d w1 where d: "Client_Delta http bloom powFloor since w = (d, w1)" by fastforce
  show thesis
  proof (cases d)
    case (Inl e)
    then show thesis using that assms by (simp add: Pull_def b d)
  next
    case (Inr missing)
    obtain ids err s' w' where l: "pull_loop jtext http ctxErr c S t missing [] s w1 = ((ids, err), s', w')" by (metis prod_cases3 surj_pair)
    show thesis by (rule that [of ids err s' w']) (simp_all add: Pull_def b d Inr l pull_loop_inv [OF assms l])
  qed
qed

text \<open>A paging loop ends whatever its body does between two calls of \<^verbatim>\<open>ListBlocks\<close>.\<close>

lemma page_loop_total:
  assumes i: "inv t s" and lim: "0 < lim" and since: "in_int64 (Unix since)"
    and body: "\<And>tok acc nxt acc'. body tok acc = Inr (nxt, acc') \<Longrightarrow> \<exists>refs. st_ListBlocks S t s tok (int lim) pf since = Inr (nxt, refs)"
    and cur: "\<And>c. cur = Some c \<Longrightarrow> wf_cursor c \<and> 0 \<le> fst c"
  shows "\<exists>r. page_loop body (token_of cur) acc = Some r"
  using cur
proof (induction "length (after cur (sel_keys (blk t s) pf (Unix since)))" arbitrary: cur acc rule: less_induct)
  case less
  let ?ks = "sel_keys (blk t s) pf (Unix since)"
  define page where "page = page_of lim cur ?ks"
  show ?case
  proof (cases "body (token_of cur) acc")
    case (Inl r)
    then show ?thesis by (subst page_loop.simps) simp
  next
    case (Inr p)
    obtain nxt acc' where p: "p = (nxt, acc')" by (cases p)
    have nxt: "nxt = page_token lim page"
      using ListBlocks_law [OF i lim since less.prems page_def] body [OF Inr [unfolded p]] by auto
    show ?thesis
    proof (cases "nxt = []")
      case True
      then show ?thesis by (subst page_loop.simps) (simp add: Inr p)
    next
      case False
      then have full: "length page = lim" by (auto simp: nxt page_token_def split: if_splits)
      define c where "c = last page"
      have "c \<in> set page" using full lim by (metis c_def last_in_set length_greater_0_conv)
      then have c: "c \<in> set (after cur ?ks)" by (auto simp: page_def page_of_def dest: in_set_takeD)
      then have mem: "c \<in> set ?ks" "\<And>d. cur = Some d \<Longrightarrow> d < c" by (auto simp: after_def split: option.splits)
      have cw: "wf_cursor c \<and> 0 \<le> fst c" by (rule sel_cursor_wf [OF i mem(1)])
      have "after (Some c) ?ks = filter (\<lambda>k. c < k) (after cur ?ks)"
      proof (cases cur)
        case (Some d)
        then have "c < k \<longleftrightarrow> d < k \<and> c < k" for k using mem(2) order.strict_trans by metis
        then show ?thesis unfolding Some after_def by (simp only: option.case filter_filter)
      qed (simp add: after_def)
      then have "length (after (Some c) ?ks) < length (after cur ?ks)" using c length_filter_less [of c "after cur ?ks" "\<lambda>k. c < k"] by simp
      then obtain r where "page_loop body (token_of (Some c)) acc' = Some r" using less.hyps [of "Some c" acc'] cw by auto
      moreover have "token_of (Some c) = nxt" using full by (simp add: token_of_def c_def nxt page_token_def)
      ultimately show ?thesis using False by (subst page_loop.simps) (simp add: Inr p)
    qed
  qed
qed

lemma Push_total:
  assumes "inv t s" "in_int64 (Unix since)"
  obtains n err w' where "Push http ctxErr S t powFloor since skip s w = Some ((n, err), w')"
proof -
  obtain p w1 where p: "Client_GetPowLimit http w = (p, w1)" by fastforce
  show thesis
  proof (cases p)
    case (Inl e)
    then show thesis using that by (simp add: Push_def p)
  next
    case (Inr relayPow)
    define pf where "pf = (if relayPow > powFloor then relayPow else powFloor)"
    have "\<exists>r. page_loop (push_body http ctxErr S t pf since skip s) (token_of None) (0, w1) = Some r"
      by (rule page_loop_total [OF assms(1) _ assms(2), where lim = 100 and pf = pf])
        (auto simp: push_body_def split: option.splits sum.splits)
    then obtain r where r: "page_loop (push_body http ctxErr S t pf since skip s) [] (0, w1) = Some r" by (auto simp: token_of_def)
    have pp: "Push http ctxErr S t powFloor since skip s w =
        Some (case r of Inl x \<Rightarrow> x | Inr (uploaded, w'') \<Rightarrow> ((uploaded, None), w''))"
      unfolding Push_def p Inr Let_def prod.case sum.case pf_def [symmetric] r by simp
    show thesis using that pp by (metis prod_cases3 surj_pair)
  qed
qed

lemma runRecv_inv: "inv t s \<Longrightarrow> inv t (rc_store (runRecv S t cap r s blooms))"
proof (induction "length r" arbitrary: r s blooms rule: less_induct)
  case less
  obtain f r' where f: "readFrame r = (f, r')" by fastforce
  show ?case
  proof (cases f)
    case (Inl e)
    then show ?thesis using less.prems by (subst runRecv.simps) (simp add: f)
  next
    case (Inr x)
    obtain ftype data where x: "x = (ftype, data)" by (cases x)
    have short: "length r' < length r" using readFrame_shorter f by (simp add: Inr)
    have bloom: "inv t (rc_store (runRecv S t cap r' s (blooms @ [pb])))" for pb using less.hyps [OF short less.prems] .
    have block: "inv t (rc_store (runRecv S t cap r' (snd (st_Put S t (take StampSize data) (drop StampSize data) TagBluetooth s)) blooms))"
      if "length data = blockFrameSize"
      using less.hyps [OF short Put_inv [OF less.prems]] that by (simp add: wf_stamp_def wf_payload_def blockFrameSize_def)
    show ?thesis using less.prems bloom block
      by (subst runRecv.simps) (simp add: f Inr x Let_def split: sum.split)
  qed
qed

lemma Run_inv:
  assumes "inv t s" "Run marshal unmarshal write ctxDone S t knownPeers sel r s w = Some (err, peers, s', w')"
  shows "inv t s'"
  using assms runRecv_inv [OF assms(1)] by (auto simp: Run_def Let_def split: if_splits option.splits prod.splits)

end

lemma handlePut_peers: "sv_peers (snd (handlePut E N t body addr s)) = sv_peers s"
  by (auto simp: handlePut_def Let_def case_prod_beta split: sum.split)

lemma handleSubmitBlock_peers: "sv_peers (snd (handleSubmitBlock E t b s)) = sv_peers s"
  by (auto simp: handleSubmitBlock_def Let_def case_prod_beta split: option.split sum.split)

text \<open>What a request to a relay server does to its store and to its peers.\<close>

lemma ServeHTTP_effect:
  assumes "ServeHTTP E N t req s = Some (r, s')"
  shows "store_gate E t s (sv_store s')"
    "sv_peers s' = sv_peers s \<or> (\<exists>add u. sv_peerAdder s = Some add \<and> sv_peers s' = add u (sv_peers s))"
proof -
  have "\<forall>x \<in> set_option (ServeHTTP E N t req s). store_gate E t s (sv_store (snd x)) \<and>
    (sv_peers (snd x) = sv_peers s \<or> (\<exists>add u. sv_peerAdder s = Some add \<and> sv_peers (snd x) = add u (sv_peers s)))"
    by (cases req) (auto simp: ServeHTTP_def handleHello_def handlePut_peers handleSubmitBlock_peers Let_def handlePut_gate handleSubmitBlock_gate
        split: option.split)
  then show "store_gate E t s (sv_store s')"
    "sv_peers s' = sv_peers s \<or> (\<exists>add u. sv_peerAdder s = Some add \<and> sv_peers s' = add u (sv_peers s))"
    using assms by simp_all
qed

end
