(* ===== verification/EngineLoops.thy ===== *)
theory EngineLoops
  imports Engine Lan Transfers
begin

text \<open>
  \<^verbatim>\<open>mobile/engine.go\<close> as a running program: the goroutines that the engine starts and every order in
  which their steps can interleave.  A round of synchronisation and a Bluetooth session go through phases,
  one for each call that takes the lock of the tracker or transfers blocks; the loops behind a
  \<^verbatim>\<open>sync.Once\<close> are idle, running or ended; \<^verbatim>\<open>Close\<close> has a phase for each of its three calls.  One event is one step
  of one goroutine or one call from the app.  What the scheduler, the network and the order of a map
  decide belongs to the event, also when the cancelled context is noticed.  A store that has been closed is not
  used any more: what the database answers then is not modelled.
\<close>

section \<open>One round of synchronisation\<close>

record ('db, 'w) engineEnv =
  ee_env :: env
  ee_net :: net
  ee_badger :: "'db badger"
  ee_jtext :: "resp_body \<Rightarrow> bytes"
  ee_http :: "string \<Rightarrow> 'w http"
  ee_errText :: "sync_err \<Rightarrow> string"
  ee_json :: peers_json
  ee_marshal :: "string list \<Rightarrow> bytes"
  ee_unmarshal :: "bytes \<Rightarrow> string list"

abbreviation ee_store :: "('db, 'w) engineEnv \<Rightarrow> 'db BadgerStore Store" where
  "ee_store G \<equiv> badger_store (ee_env G) (ee_badger G)"

record 'w choice =
  ch_ord :: peer_order
  ch_ctxErr :: "'w \<Rightarrow> string option"

text \<open>Where \<^verbatim>\<open>doSyncRound\<close> is, with the values of its variables.\<close>

datatype phase =
    PhPick
  | PhSince string
  | PhPull string time
  | PhFail string string
  | PhHello string time "ID list"
  | PhPush string time "ID list"
  | PhRecord string int int string
  | PhSave
  | PhDone

fun phase_step ::
  "('db, 'w) engineEnv \<Rightarrow> time \<Rightarrow> 'w choice \<Rightarrow> phase \<Rightarrow> 'db Engine \<times> 'w \<Rightarrow> (phase \<times> 'db Engine \<times> 'w) option" where
  "phase_step G t c PhPick (e, w) =
     (let pick = pickPeer (ch_ord c) (en_pm e) in Some (if pick = [] then PhDone else PhSince pick, e, w))"
| "phase_step G t c (PhSince u) (e, w) = Some (PhPull u (lastSync u (en_pm e)), e, w)"
| "phase_step G t c (PhPull u since) (e, w) =
     (case Pull (ee_jtext G) (ee_http G u) (ch_ctxErr c) (NewClient (ee_net G) u) (ee_store G) t 0 since (en_store e) w of
        None \<Rightarrow> None
      | Some ((ids, Some err), s, w') \<Rightarrow> Some (PhFail u (ee_errText G err), e\<lparr>en_store := s\<rparr>, w')
      | Some ((ids, None), s, w') \<Rightarrow> Some (PhHello u since ids, e\<lparr>en_store := s\<rparr>, w'))"
| "phase_step G t c (PhFail u err) (e, w) = Some (PhDone, e\<lparr>en_pm := recordFailure u err (en_pm e)\<rparr>, w)"
| "phase_step G t c (PhHello u since ids) (e, w) =
     (case Client_Hello (ee_http G u) [] w of
        (Inl _, w') \<Rightarrow> Some (PhPush u since ids, e, w')
      | (Inr urls, w') \<Rightarrow> Some (PhPush u since ids, e\<lparr>en_pm := gossip (ee_net G) t ''gossip'' urls (en_pm e)\<rparr>, w'))"
| "phase_step G t c (PhPush u since ids) (e, w) =
     (case Push (ee_http G u) (ch_ctxErr c) (ee_store G) t 0 since (\<lambda>i. i \<in> set ids) (en_store e) w of
        None \<Rightarrow> None
      | Some ((n, Some err), w') \<Rightarrow> Some (PhRecord u (int (length ids)) 0 (ee_errText G err), e, w')
      | Some ((n, None), w') \<Rightarrow> Some (PhRecord u (int (length ids)) n [], e, w'))"
| "phase_step G t c (PhRecord u pulled pushed err) (e, w) =
     Some (PhSave, e\<lparr>en_pm := recordSuccess t u pulled pushed err (en_pm e)\<rparr>, w)"
| "phase_step G t c PhSave (e, w) = Some (PhDone, save_peers (ee_json G) (ch_ord c) e, w)"
| "phase_step G t c PhDone (e, w) = Some (PhDone, e, w)"

text \<open>A round that nothing interrupts, with the clock of each of its steps.\<close>

fun round_run ::
  "('db, 'w) engineEnv \<Rightarrow> 'w choice \<Rightarrow> time list \<Rightarrow> phase \<Rightarrow> 'db Engine \<times> 'w \<Rightarrow> (phase \<times> 'db Engine \<times> 'w) option" where
  "round_run G c [] ph st = Some (ph, st)"
| "round_run G c (t # ts) ph st =
     (case phase_step G t c ph st of None \<Rightarrow> None | Some (ph', st') \<Rightarrow> round_run G c ts ph' st')"

section \<open>One Bluetooth session\<close>

text \<open>The UUID that the app announces, and the connection: what its \<^verbatim>\<open>BluetoothPeer\<close> writes and reads.\<close>

definition ServiceUUID :: string where
  "ServiceUUID = ''b533e7a1-4c6d-4f89-aeb2-73c97a8d1e40''"

record 'c btPeer =
  bp_Write :: "'c writer"
  bp_state :: 'c
  bp_incoming :: bytes
  bp_select :: bt_select
  bp_ctxDone :: "string \<Rightarrow> bool"

text \<open>\<^verbatim>\<open>btRW.Write\<close>: a write that succeeds reports all of its bytes; the session looks at the error only.\<close>

definition btRW_Write :: "'c writer \<Rightarrow> bytes \<Rightarrow> 'c \<Rightarrow> (nat \<times> string option) \<times> 'c" where
  "btRW_Write write p c = (case write p c of (Some err, c') \<Rightarrow> ((0, Some err), c') | (None, c') \<Rightarrow> ((length p, None), c'))"

definition btRW_writer :: "'c writer \<Rightarrow> 'c writer" where
  "btRW_writer write p c = (case btRW_Write write p c of ((_, err), c') \<Rightarrow> (err, c'))"

lemma btRW_writer_id [simp]: "btRW_writer write = write"
  by (auto simp: btRW_writer_def btRW_Write_def fun_eq_iff split: prod.split option.split)

datatype bt_phase = BtOpened | BtGossip "string list" | BtStuck | BtClosed

definition bt_discovered :: "net \<Rightarrow> peers_json \<Rightarrow> peer_order \<Rightarrow> time \<Rightarrow> string \<Rightarrow> 'db Engine \<Rightarrow> 'db Engine" where
  "bt_discovered N J ord t u e =
     (let (added, pm) = pt_add N t u ''bluetooth'' (en_pm e); e' = e\<lparr>en_pm := pm\<rparr>
      in if added then save_peers J ord e' else e')"

text \<open>A session that does not return has still stored what it received.\<close>

fun bt_step :: "('db, 'w) engineEnv \<Rightarrow> time \<Rightarrow> peer_order \<Rightarrow> 'c btPeer \<Rightarrow> bt_phase \<Rightarrow> 'db Engine \<Rightarrow> bt_phase \<times> 'db Engine" where
  "bt_step G t ord k BtOpened e =
     (case Run (ee_marshal G) (ee_unmarshal G) (btRW_writer (bp_Write k)) (bp_ctxDone k) (ee_store G) t (activeURLs ord (en_pm e))
             (bp_select k) (bp_incoming k) (en_store e) (bp_state k) of
        None \<Rightarrow>
          (BtStuck, e\<lparr>en_store := rc_store (runRecv (ee_store G) t
             (if takes_bloom (btRW_writer (bp_Write k)) (ee_store G) t (en_store e) (bp_select k) (bp_state k) then 2 else 1)
             (bp_incoming k) (en_store e) [])\<rparr>)
      | Some (err, discovered, s, w) \<Rightarrow> (BtGossip discovered, e\<lparr>en_store := s\<rparr>))"
| "bt_step G t ord k (BtGossip (u # us)) e = (BtGossip us, bt_discovered (ee_net G) (ee_json G) ord t u e)"
| "bt_step G t ord k (BtGossip []) e = (BtClosed, e\<lparr>en_activeBTCount := en_activeBTCount e - 1\<rparr>)"
| "bt_step G t ord k BtStuck e = (BtStuck, e)"
| "bt_step G t ord k BtClosed e = (BtClosed, e)"

section \<open>Close\<close>

datatype closing = ClIdle | ClCancelled | ClMessages | ClReturned "string option" | ClPanicked

fun returned :: "closing \<Rightarrow> bool" where
  "returned (ClReturned err) = True"
| "returned _ = False"

text \<open>\<^verbatim>\<open>BadgerStore.Close\<close>: the channel \<^verbatim>\<open>done\<close> can be closed once; a second time panics.\<close>

definition Badger_Close :: "string option \<Rightarrow> bool \<Rightarrow> closing \<times> bool" where
  "Badger_Close dbErr closed = (if closed then (ClPanicked, True) else (ClReturned dbErr, True))"

section \<open>The running engine\<close>

datatype loop = Idle | Running | Ended
datatype sync_loop = SlIdle | SlRound phase | SlWait | SlEnded

record ('db, 'w) live =
  lv_engine :: "'db Engine"
  lv_world :: 'w
  lv_clock :: time
  lv_cancelled :: bool
  lv_storeClosed :: bool
  lv_closing :: closing
  lv_quota :: loop
  lv_sync :: sync_loop
  lv_lan :: loop
  lv_lanServer :: loop
  lv_rounds :: "phase list"
  lv_bts :: "bt_phase list"

definition live_new :: "time \<Rightarrow> 'db Engine \<Rightarrow> 'w \<Rightarrow> ('db, 'w) live" where
  "live_new t e w =
     \<lparr>lv_engine = e, lv_world = w, lv_clock = t, lv_cancelled = False, lv_storeClosed = False, lv_closing = ClIdle,
      lv_quota = Idle, lv_sync = SlIdle, lv_lan = Idle, lv_lanServer = Idle, lv_rounds = [], lv_bts = []\<rparr>"

text \<open>The calls of the app, in the order of the source, then the steps of the goroutines.\<close>

datatype ('w, 'c) engine_event =
    EvClock time
  | EvConfigure int int int
  | EvAddPeer peer_order string | EvRemovePeer peer_order string | EvBlockPeer peer_order string | EvUnblockPeer peer_order string
  | EvSyncNow | EvStartSync
  | EvStartLANServer "string option" | EvStartLANDiscovery
  | EvLocalPut Stamp Payload
  | EvOpenBT | EvClose
  | EvQuotaTick | EvQuotaEnd
  | EvRound nat "'w choice"
  | EvSyncStep "'w choice" | EvSyncTick | EvSyncEnd
  | EvLanRequest peer_order request | EvLanClosed
  | EvLanAddr peer_order string | EvLanEnd
  | EvBT nat peer_order "'c btPeer"
  | EvMedian
  | EvCloseMessages "string option" | EvCloseStore "string option"

abbreviation on_engine :: "('db Engine \<Rightarrow> 'db Engine) \<Rightarrow> ('db, 'w) live \<Rightarrow> ('db, 'w) live" where
  "on_engine f l \<equiv> l\<lparr>lv_engine := f (lv_engine l)\<rparr>"

text \<open>The goroutine of \<^verbatim>\<open>ConfigureStorage\<close>, behind \<^verbatim>\<open>quotaOnce\<close>: a tick, and the last synchronisation when the context is done.\<close>

definition quotaOnce_Do :: "('db, 'w) live \<Rightarrow> ('db, 'w) live" where
  "quotaOnce_Do l = l\<lparr>lv_quota := (if lv_quota l = Idle then Running else lv_quota l)\<rparr>"

definition runQuotaSync_tick :: "('db, 'w) engineEnv \<Rightarrow> ('db, 'w) live \<Rightarrow> ('db, 'w) live option" where
  "runQuotaSync_tick G l =
     (if lv_quota l = Running \<and> \<not> lv_storeClosed l then Some (on_engine (syncQuotaFile (ee_badger G)) l) else None)"

definition runQuotaSync_done :: "('db, 'w) engineEnv \<Rightarrow> ('db, 'w) live \<Rightarrow> ('db, 'w) live option" where
  "runQuotaSync_done G l =
     (if lv_quota l = Running \<and> lv_cancelled l \<and> \<not> lv_storeClosed l
      then Some (on_engine (syncQuotaFile (ee_badger G)) l\<lparr>lv_quota := Ended\<rparr>) else None)"

text \<open>\<^verbatim>\<open>SyncNow\<close> starts a round of its own; \<^verbatim>\<open>StartSync\<close> starts a loop that begins with a round, also when the context is done.\<close>

definition Engine_SyncNow :: "('db, 'w) live \<Rightarrow> ('db, 'w) live" where
  "Engine_SyncNow l = l\<lparr>lv_rounds := lv_rounds l @ [PhPick]\<rparr>"

definition round_goroutine :: "('db, 'w) engineEnv \<Rightarrow> nat \<Rightarrow> 'w choice \<Rightarrow> ('db, 'w) live \<Rightarrow> ('db, 'w) live option" where
  "round_goroutine G i c l =
     (if i < length (lv_rounds l) \<and> lv_rounds l ! i \<noteq> PhDone \<and> \<not> lv_storeClosed l then
        map_option (\<lambda>(ph, e, w). l\<lparr>lv_engine := e, lv_world := w, lv_rounds := (lv_rounds l)[i := ph]\<rparr>)
          (phase_step G (lv_clock l) c (lv_rounds l ! i) (lv_engine l, lv_world l))
      else None)"

definition StartSync :: "('db, 'w) live \<Rightarrow> ('db, 'w) live" where
  "StartSync l = (if lv_sync l = SlIdle then l\<lparr>lv_sync := SlRound PhPick\<rparr> else l)"

definition syncLoop_round :: "('db, 'w) engineEnv \<Rightarrow> 'w choice \<Rightarrow> ('db, 'w) live \<Rightarrow> ('db, 'w) live option" where
  "syncLoop_round G c l =
     (case lv_sync l of
        SlRound ph \<Rightarrow>
          if lv_storeClosed l then None
          else map_option (\<lambda>(ph', e, w). l\<lparr>lv_engine := e, lv_world := w, lv_sync := (if ph' = PhDone then SlWait else SlRound ph')\<rparr>)
                 (phase_step G (lv_clock l) c ph (lv_engine l, lv_world l))
      | _ \<Rightarrow> None)"

definition syncLoop_tick :: "('db, 'w) live \<Rightarrow> ('db, 'w) live option" where
  "syncLoop_tick l = (if lv_sync l = SlWait then Some (l\<lparr>lv_sync := SlRound PhPick\<rparr>) else None)"

definition syncLoop_done :: "('db, 'w) live \<Rightarrow> ('db, 'w) live option" where
  "syncLoop_done l = (if lv_sync l = SlWait \<and> lv_cancelled l then Some (l\<lparr>lv_sync := SlEnded\<rparr>) else None)"

text \<open>The listener of \<^verbatim>\<open>StartLANServer\<close>: an error of \<^verbatim>\<open>net.Listen\<close> is returned and nothing is started.\<close>

definition StartLANServer_listen :: "string option \<Rightarrow> string option" where
  "StartLANServer_listen listenErr =
     map_option (\<lambda>err. ''mobile: listen 0.0.0.0:'' @ decimal Port @ '': '' @ err) listenErr"

definition StartLANServer_go :: "string option \<Rightarrow> ('db, 'w) live \<Rightarrow> ('db, 'w) live" where
  "StartLANServer_go listenErr l = (if StartLANServer_listen listenErr = None then l\<lparr>lv_lanServer := Running\<rparr> else l)"

definition lanServer_done :: "('db, 'w) live \<Rightarrow> ('db, 'w) live option" where
  "lanServer_done l = (if lv_lanServer l = Running \<and> lv_cancelled l then Some (l\<lparr>lv_lanServer := Ended\<rparr>) else None)"

text \<open>A request on a connection that the listener has accepted.\<close>

definition lan_request :: "('db, 'w) engineEnv \<Rightarrow> time \<Rightarrow> peer_order \<Rightarrow> request \<Rightarrow> 'db Engine \<Rightarrow> 'db Engine option" where
  "lan_request G t ord req e =
     map_option (\<lambda>(_, srv). e\<lparr>en_store := sv_store srv, en_pm := sv_peers srv\<rparr>)
       (ServeHTTP (ee_env G) (ee_net G) t req (StartLANServer (ee_env G) (ee_net G) (ee_badger G) ord t e))"

definition lanServer_request :: "('db, 'w) engineEnv \<Rightarrow> peer_order \<Rightarrow> request \<Rightarrow> ('db, 'w) live \<Rightarrow> ('db, 'w) live option" where
  "lanServer_request G ord req l =
     (if lv_lanServer l \<noteq> Idle \<and> \<not> lv_storeClosed l
      then map_option (\<lambda>e. l\<lparr>lv_engine := e\<rparr>) (lan_request G (lv_clock l) ord req (lv_engine l)) else None)"

definition StartLANDiscovery :: "('db, 'w) live \<Rightarrow> ('db, 'w) live" where
  "StartLANDiscovery l = (if lv_lan l = Idle then l\<lparr>lv_lan := Running\<rparr> else l)"

definition lanLoop_addr :: "('db, 'w) engineEnv \<Rightarrow> peer_order \<Rightarrow> string \<Rightarrow> ('db, 'w) live \<Rightarrow> ('db, 'w) live option" where
  "lanLoop_addr G ord addr l =
     (if lv_lan l = Running then Some (on_engine (lan_discovered (ee_net G) (ee_json G) ord (lv_clock l) addr) l) else None)"

definition lanLoop_done :: "('db, 'w) live \<Rightarrow> ('db, 'w) live option" where
  "lanLoop_done l = (if lv_lan l = Running \<and> lv_cancelled l then Some (l\<lparr>lv_lan := Ended\<rparr>) else None)"

text \<open>\<^verbatim>\<open>RunBluetoothSession\<close>: the session is counted from its first step on.\<close>

definition openBT :: "('db, 'w) live \<Rightarrow> ('db, 'w) live" where
  "openBT l = on_engine (\<lambda>e. e\<lparr>en_activeBTCount := en_activeBTCount e + 1\<rparr>) l\<lparr>lv_bts := lv_bts l @ [BtOpened]\<rparr>"

definition bt_goroutine :: "('db, 'w) engineEnv \<Rightarrow> nat \<Rightarrow> peer_order \<Rightarrow> 'c btPeer \<Rightarrow> ('db, 'w) live \<Rightarrow> ('db, 'w) live option" where
  "bt_goroutine G i ord k l =
     (if i < length (lv_bts l) \<and> lv_bts l ! i \<notin> {BtStuck, BtClosed} \<and> \<not> lv_storeClosed l then
        case bt_step G (lv_clock l) ord k (lv_bts l ! i) (lv_engine l) of
          (ph, e) \<Rightarrow> Some (l\<lparr>lv_engine := e, lv_bts := (lv_bts l)[i := ph]\<rparr>)
      else None)"

text \<open>One iteration of \<^verbatim>\<open>runMedianUpdater\<close>.\<close>

definition medianLoop :: "('db, 'w) engineEnv \<Rightarrow> ('db, 'w) live \<Rightarrow> ('db, 'w) live option" where
  "medianLoop G l =
     (if lv_storeClosed l then None
      else map_option (\<lambda>(_, s). on_engine (\<lambda>e. e\<lparr>en_store := s\<rparr>) l) (RefreshMedian (ee_badger G) (lv_clock l) (en_store (lv_engine l))))"

text \<open>The three calls of \<^verbatim>\<open>Close\<close>.\<close>

definition Close_cancel :: "('db, 'w) live \<Rightarrow> ('db, 'w) live option" where
  "Close_cancel l =
     (if lv_closing l = ClIdle \<or> returned (lv_closing l) then Some (l\<lparr>lv_cancelled := True, lv_closing := ClCancelled\<rparr>) else None)"

definition Close_messages :: "string option \<Rightarrow> ('db, 'w) live \<Rightarrow> ('db, 'w) live option" where
  "Close_messages msgsErr l =
     (if lv_closing l = ClCancelled
      then Some (l\<lparr>lv_closing := (case msgsErr of Some err \<Rightarrow> ClReturned (Some err) | None \<Rightarrow> ClMessages)\<rparr>) else None)"

definition Close_store :: "string option \<Rightarrow> ('db, 'w) live \<Rightarrow> ('db, 'w) live option" where
  "Close_store dbErr l =
     (if lv_closing l = ClMessages
      then case Badger_Close dbErr (lv_storeClosed l) of (cl, closed) \<Rightarrow> Some (l\<lparr>lv_closing := cl, lv_storeClosed := closed\<rparr>)
      else None)"

fun engine_step :: "('db, 'w) engineEnv \<Rightarrow> ('w, 'c) engine_event \<Rightarrow> ('db, 'w) live \<Rightarrow> ('db, 'w) live option" where
  "engine_step G (EvClock t) l = (if clock_ok t then Some (l\<lparr>lv_clock := t\<rparr>) else None)"
| "engine_step G (EvConfigure limitBytes physical bluetooth) l =
     (if lv_storeClosed l then None
      else let l' = on_engine (ConfigureStorage (ee_badger G) limitBytes physical bluetooth) l
           in Some (if limitBytes \<le> 0 then l' else quotaOnce_Do l'))"
| "engine_step G (EvAddPeer ord u) l = Some (on_engine (snd \<circ> Engine_AddPeer (ee_net G) (ee_json G) ord (lv_clock l) u) l)"
| "engine_step G (EvRemovePeer ord u) l = Some (on_engine (Engine_RemovePeer (ee_net G) (ee_json G) ord u) l)"
| "engine_step G (EvBlockPeer ord u) l = Some (on_engine (Engine_BlockPeer (ee_net G) (ee_json G) ord (lv_clock l) u) l)"
| "engine_step G (EvUnblockPeer ord u) l = Some (on_engine (Engine_UnblockPeer (ee_net G) (ee_json G) ord u) l)"
| "engine_step G EvSyncNow l = Some (Engine_SyncNow l)"
| "engine_step G EvStartSync l = Some (StartSync l)"
| "engine_step G (EvStartLANServer listenErr) l = Some (StartLANServer_go listenErr l)"
| "engine_step G EvStartLANDiscovery l = Some (StartLANDiscovery l)"
| "engine_step G (EvLocalPut stamp payload) l =
     (if lv_storeClosed l \<or> \<not> wf_stamp stamp \<or> \<not> wf_payload payload then None
      else Some (on_engine (\<lambda>e. e\<lparr>en_store := snd (st_Put (ee_store G) (lv_clock l) stamp payload TagPhysical (en_store e))\<rparr>) l))"
| "engine_step G EvOpenBT l = Some (openBT l)"
| "engine_step G EvClose l = Close_cancel l"
| "engine_step G EvQuotaTick l = runQuotaSync_tick G l"
| "engine_step G EvQuotaEnd l = runQuotaSync_done G l"
| "engine_step G (EvRound i c) l = round_goroutine G i c l"
| "engine_step G (EvSyncStep c) l = syncLoop_round G c l"
| "engine_step G EvSyncTick l = syncLoop_tick l"
| "engine_step G EvSyncEnd l = syncLoop_done l"
| "engine_step G (EvLanRequest ord req) l = lanServer_request G ord req l"
| "engine_step G EvLanClosed l = lanServer_done l"
| "engine_step G (EvLanAddr ord addr) l = lanLoop_addr G ord addr l"
| "engine_step G EvLanEnd l = lanLoop_done l"
| "engine_step G (EvBT i ord k) l = bt_goroutine G i ord k l"
| "engine_step G EvMedian l = medianLoop G l"
| "engine_step G (EvCloseMessages msgsErr) l = Close_messages msgsErr l"
| "engine_step G (EvCloseStore dbErr) l = Close_store dbErr l"

text \<open>\<^verbatim>\<open>Close\<close> without an interruption: an error of the message store leaves the block store open.\<close>

definition Engine_Close :: "string option \<Rightarrow> string option \<Rightarrow> ('db, 'w) live \<Rightarrow> ('db, 'w) live" where
  "Engine_Close msgsErr dbErr l =
     (case msgsErr of
        Some err \<Rightarrow> l\<lparr>lv_cancelled := True, lv_closing := ClReturned (Some err)\<rparr>
      | None \<Rightarrow>
          (case Badger_Close dbErr (lv_storeClosed l) of
             (cl, closed) \<Rightarrow> l\<lparr>lv_cancelled := True, lv_closing := cl, lv_storeClosed := closed\<rparr>))"

fun engine_run :: "('db, 'w) engineEnv \<Rightarrow> ('w, 'c) engine_event list \<Rightarrow> ('db, 'w) live \<Rightarrow> ('db, 'w) live option" where
  "engine_run G [] l = Some l"
| "engine_run G (ev # evs) l = (case engine_step G ev l of None \<Rightarrow> None | Some l' \<Rightarrow> engine_run G evs l')"

lemmas live_steps [simp] = quotaOnce_Do_def runQuotaSync_tick_def runQuotaSync_done_def Engine_SyncNow_def round_goroutine_def StartSync_def
  syncLoop_round_def syncLoop_tick_def syncLoop_done_def StartLANServer_go_def lanServer_done_def lanServer_request_def StartLANDiscovery_def
  lanLoop_addr_def lanLoop_done_def openBT_def bt_goroutine_def medianLoop_def Close_cancel_def Close_messages_def Close_store_def

end
