(* ===== verification/EngineProps.thy ===== *)
theory EngineProps
  imports EngineLoops
begin

text \<open>
  The running engine in every interleaving: the invariant of its store, its peers and its goroutines, that rounds
  end, that a block of a peer is in force at once, and that the phases of \<open>EngineLoops\<close> compose to the operations of \<open>Engine\<close>.
\<close>

section \<open>What every step keeps\<close>

definition times_ok :: "peerTracker \<Rightarrow> bool" where
  "times_ok pm \<longleftrightarrow> (\<forall>(u, e) \<in> set (pt_peers pm). in_int64 (Unix (pe_LastSync e)))"

definition tracker_ok :: "net \<Rightarrow> peerTracker \<Rightarrow> bool" where
  "tracker_ok N pm \<longleftrightarrow> pt_inv N pm \<and> times_ok pm"

definition engine_ok :: "('db, 'w) engineEnv \<Rightarrow> time \<Rightarrow> 'db Engine \<Rightarrow> bool" where
  "engine_ok G t e \<longleftrightarrow> badger_inv (ee_env G) (ee_badger G) t (en_store e) \<and> tracker_ok (ee_net G) (en_pm e)"

lemma clock_int64: "clock_ok t \<Longrightarrow> in_int64 (Unix t)"
  by (simp add: clock_ok_def)

lemma zero_int64 [simp]: "in_int64 (- 62135596800)"
  by (simp add: in_int64_def)

lemma set_update_subset: "set (AList.update u e xs) \<subseteq> insert (u, e) (set xs)"
  by (induction xs) auto

lemma times_update: "times_ok pm \<Longrightarrow> in_int64 (Unix (pe_LastSync e)) \<Longrightarrow> times_ok (pm\<lparr>pt_peers := AList.update u e (pt_peers pm)\<rparr>)"
  using set_update_subset [of u e "pt_peers pm"] by (auto simp: times_ok_def)

lemma times_lookup: "times_ok pm \<Longrightarrow> map_of (pt_peers pm) u = Some e \<Longrightarrow> in_int64 (Unix (pe_LastSync e))"
  by (auto simp: times_ok_def dest!: map_of_SomeD)

lemma tracker_pt_ops:
  assumes "tracker_ok N pm"
  shows "tracker_ok N (snd (pt_add N now u source pm))" "tracker_ok N (pt_remove N u pm)" "tracker_ok N (pt_block N now u pm)"
    "tracker_ok N (pt_unblock N u pm)"
proof -
  have inv: "pt_inv N pm" and times: "times_ok pm" using assms by (simp_all add: tracker_ok_def)
  note ops = pt_ops_inv [OF inv, where u = u] and upd = times_update [OF times, of _ "normalizeURL N u"] and look = times_lookup [OF times, of "normalizeURL N u"]
  show "tracker_ok N (snd (pt_add N now u source pm))"
    using ops(1) times upd by (auto simp: tracker_ok_def pt_add_def Let_def newEntry_def)
  have "set (AList.delete k xs) \<subseteq> set xs" for k and xs :: "(string \<times> peerEntry) list" by (auto simp: AList.delete_eq)
  then show "tracker_ok N (pt_remove N u pm)" using ops(2) times by (fastforce simp: tracker_ok_def times_ok_def pt_remove_def Let_def)
  show "tracker_ok N (pt_block N now u pm)"
    using ops(3) times upd look by (auto simp: tracker_ok_def pt_block_def Let_def newEntry_def split: option.split)
  show "tracker_ok N (pt_unblock N u pm)"
    using ops(4) times upd look by (auto simp: tracker_ok_def pt_unblock_def Let_def split: option.split)
qed

lemma tracker_records:
  assumes "tracker_ok N pm"
  shows "clock_ok now \<Longrightarrow> tracker_ok N (recordSuccess now u pulled pushed err pm)" "tracker_ok N (recordFailure u err pm)"
proof -
  have inv: "pt_inv N pm" and times: "times_ok pm" using assms by (simp_all add: tracker_ok_def)
  note upd = update_inv [OF inv, of _ u] times_update [OF times, of _ u] and look = pt_inv_entry [OF inv, of u] times_lookup [OF times, of u]
  show "clock_ok now \<Longrightarrow> tracker_ok N (recordSuccess now u pulled pushed err pm)"
    using assms upd look by (auto simp: recordSuccess_def tracker_ok_def clock_int64 split: option.split)
  show "tracker_ok N (recordFailure u err pm)"
    using assms upd look by (auto simp: recordFailure_def tracker_ok_def split: option.split)
qed

lemma tracker_gossip: "tracker_ok N pm \<Longrightarrow> tracker_ok N (gossip N now source urls pm)"
  unfolding gossip_def by (induction urls arbitrary: pm) (simp_all add: tracker_pt_ops)

lemma lastSync_int64: "tracker_ok N pm \<Longrightarrow> in_int64 (Unix (lastSync u pm))"
  by (auto simp: lastSync_def tracker_ok_def times_lookup split: option.split)

lemma engine_okI: "badger_inv (ee_env G) (ee_badger G) t (en_store e) \<Longrightarrow> tracker_ok (ee_net G) (en_pm e) \<Longrightarrow> engine_ok G t e"
  by (simp add: engine_ok_def)

lemma engine_clock: "engine_ok G t e \<Longrightarrow> clock_ok t"
  using badger.clock by (auto simp: engine_ok_def)

lemma engine_later: "engine_ok G t e \<Longrightarrow> clock_ok t' \<Longrightarrow> engine_ok G t' e"
  by (simp add: engine_ok_def badger_inv_def)

text \<open>The rest of the engine: its messages, the path of the quota file and the counter of the sessions.\<close>

definition same_rest :: "'db Engine \<Rightarrow> 'db Engine \<Rightarrow> bool" where
  "same_rest e e' \<longleftrightarrow> en_msgs e' = en_msgs e \<and> en_quotaPath e' = en_quotaPath e \<and> en_activeBTCount e' = en_activeBTCount e"

lemma same_rest_refl [simp]: "same_rest e e"
  by (simp add: same_rest_def)

lemma save_peers_ok [simp]: "engine_ok G t (save_peers J ord e) = engine_ok G t e" "same_rest e (save_peers J ord e') = same_rest e e'"
  "en_pm (save_peers J ord e) = en_pm e"
  by (simp_all add: save_peers_def engine_ok_def same_rest_def)

lemma on_tracker_ok:
  "engine_ok G t e \<Longrightarrow> tracker_ok (ee_net G) pm \<Longrightarrow> engine_ok G t (e\<lparr>en_pm := pm\<rparr>) \<and> same_rest e (e\<lparr>en_pm := pm\<rparr>)"
  by (simp add: engine_ok_def same_rest_def)

lemma add_saved_ok:
  assumes "engine_ok G t e" "pt_add (ee_net G) t' u source (en_pm e) = (added, pm)"
  shows "engine_ok G t (if added then save_peers J ord (e\<lparr>en_pm := pm\<rparr>) else e\<lparr>en_pm := pm\<rparr>)"
    "same_rest e (if added then save_peers J ord (e\<lparr>en_pm := pm\<rparr>) else e\<lparr>en_pm := pm\<rparr>)"
proof -
  have "tracker_ok (ee_net G) pm" using tracker_pt_ops(1) [of "ee_net G" "en_pm e" t' u source] assms by (simp add: engine_ok_def)
  then show "engine_ok G t (if added then save_peers J ord (e\<lparr>en_pm := pm\<rparr>) else e\<lparr>en_pm := pm\<rparr>)"
    "same_rest e (if added then save_peers J ord (e\<lparr>en_pm := pm\<rparr>) else e\<lparr>en_pm := pm\<rparr>)"
    using on_tracker_ok [OF assms(1)] by simp_all
qed

fun phase_ok :: "phase \<Rightarrow> bool" where
  "phase_ok (PhPull u since) = in_int64 (Unix since)"
| "phase_ok (PhHello u since ids) = in_int64 (Unix since)"
| "phase_ok (PhPush u since ids) = in_int64 (Unix since)"
| "phase_ok _ = True"

fun phase_rank :: "phase \<Rightarrow> nat" where
  "phase_rank PhPick = 7"
| "phase_rank (PhSince u) = 6"
| "phase_rank (PhPull u since) = 5"
| "phase_rank (PhHello u since ids) = 4"
| "phase_rank (PhPush u since ids) = 3"
| "phase_rank (PhRecord u pulled pushed err) = 2"
| "phase_rank (PhFail u err) = 1"
| "phase_rank PhSave = 1"
| "phase_rank PhDone = 0"

text \<open>Every phase ends, in a later one, whatever the other side answers.\<close>

lemma phase_step_ok:
  assumes "engine_ok G t e" "phase_ok ph" "ph \<noteq> PhDone"
  obtains ph' e' w' where "phase_step G t c ph (e, w) = Some (ph', e', w')" "engine_ok G t e'" "phase_ok ph'"
    "phase_rank ph' < phase_rank ph" "same_rest e e'"
proof (cases ph)
  case PhPick
  then show thesis using that assms(1) by (simp add: Let_def same_rest_def)
next
  case (PhSince u)
  then show thesis using that assms(1) lastSync_int64 by (auto simp: same_rest_def engine_ok_def)
next
  case (PhPull u since)
  have i: "badger_inv (ee_env G) (ee_badger G) t (en_store e)" using assms(1) by (simp add: engine_ok_def)
  obtain ids err s w' where p: "Pull (ee_jtext G) (ee_http G u) (ch_ctxErr c) (NewClient (ee_net G) u) (ee_store G) t 0 since (en_store e) w =
      Some ((ids, err), s, w')" "badger_inv (ee_env G) (ee_badger G) t s"
    by (rule badger.Pull_inv [OF i]) (rule that)
  have e: "engine_ok G t (e\<lparr>en_store := s\<rparr>)" "same_rest e (e\<lparr>en_store := s\<rparr>)" using assms(1) p(2) by (simp_all add: engine_ok_def same_rest_def)
  show thesis
  proof (cases err)
    case None
    show thesis by (rule that [of "PhHello u since ids" "e\<lparr>en_store := s\<rparr>" w']) (use PhPull p(1) None e assms(2) in simp_all)
  next
    case (Some er)
    show thesis by (rule that [of "PhFail u (ee_errText G er)" "e\<lparr>en_store := s\<rparr>" w']) (use PhPull p(1) Some e in simp_all)
  qed
next
  case (PhFail u err)
  then show thesis using that on_tracker_ok [OF assms(1) tracker_records(2)] assms(1) by (simp add: engine_ok_def)
next
  case (PhHello u since ids)
  obtain hello w' where h: "Client_Hello (ee_http G u) [] w = (hello, w')" by fastforce
  show thesis
  proof (cases hello)
    case (Inl er)
    then show thesis using that assms PhHello h by (simp add: same_rest_def)
  next
    case (Inr urls)
    then show thesis using that assms PhHello h on_tracker_ok [OF assms(1) tracker_gossip] by (simp add: engine_ok_def)
  qed
next
  case (PhPush u since ids)
  have i: "badger_inv (ee_env G) (ee_badger G) t (en_store e)" "in_int64 (Unix since)" using assms(1,2) PhPush by (simp_all add: engine_ok_def)
  obtain n err w' where p: "Push (ee_http G u) (ch_ctxErr c) (ee_store G) t 0 since (\<lambda>i. i \<in> set ids) (en_store e) w = Some ((n, err), w')"
    by (rule badger.Push_total [OF i]) (rule that)
  show thesis using that assms PhPush p by (cases err) (simp_all add: same_rest_def)
next
  case (PhRecord u pulled pushed err)
  then show thesis using that on_tracker_ok [OF assms(1) tracker_records(1)] engine_clock [OF assms(1)] assms(1) by (simp add: engine_ok_def)
next
  case PhSave
  then show thesis using that assms(1) by simp
qed (use assms in simp)

lemma bt_step_ok:
  assumes "engine_ok G t e" "bt_step G t ord k ph e = (ph', e')"
  shows "engine_ok G t e'" "en_activeBTCount e' = en_activeBTCount e - (if ph \<noteq> BtClosed \<and> ph' = BtClosed then 1 else 0)"
proof -
  have i: "badger_inv (ee_env G) (ee_badger G) t (en_store e)" "tracker_ok (ee_net G) (en_pm e)" using assms(1) by (simp_all add: engine_ok_def)
  have "engine_ok G t e' \<and> en_activeBTCount e' = en_activeBTCount e - (if ph \<noteq> BtClosed \<and> ph' = BtClosed then 1 else 0)"
  proof (cases ph)
    case BtOpened
    show ?thesis
    proof (cases "Run (ee_marshal G) (ee_unmarshal G) (bp_Write k) (bp_ctxDone k) (ee_store G) t (activeURLs ord (en_pm e))
             (bp_select k) (bp_incoming k) (en_store e) (bp_state k)")
      case None
      then show ?thesis using assms(2) BtOpened i badger.runRecv_inv [OF i(1)] by (auto simp: engine_ok_def)
    next
      case (Some res)
      obtain err ds s w where res: "res = (err, ds, s, w)" by (metis prod_cases4)
      then show ?thesis using assms(2) BtOpened i Some badger.Run_inv [OF i(1) Some [unfolded res]] by (auto simp: engine_ok_def)
    qed
  next
    case (BtGossip us)
    show ?thesis
    proof (cases us)
      case Nil
      then show ?thesis using assms BtGossip by (auto simp: engine_ok_def)
    next
      case (Cons u vs)
      obtain added pm where a: "pt_add (ee_net G) t u ''bluetooth'' (en_pm e) = (added, pm)" by fastforce
      show ?thesis using assms BtGossip Cons add_saved_ok [OF assms(1) a, of "ee_json G" ord]
        by (auto simp: bt_discovered_def a same_rest_def Let_def)
    qed
  qed (use assms in auto)
  then show "engine_ok G t e'" "en_activeBTCount e' = en_activeBTCount e - (if ph \<noteq> BtClosed \<and> ph' = BtClosed then 1 else 0)" by simp_all
qed

definition sessions :: "bt_phase list \<Rightarrow> nat" where
  "sessions bts = length (filter (\<lambda>ph. ph \<noteq> BtClosed) bts)"

lemma sessions_update:
  "i < length bts \<Longrightarrow> int (sessions (bts[i := ph])) =
     int (sessions bts) - (if bts ! i \<noteq> BtClosed then 1 else 0) + (if ph \<noteq> BtClosed then 1 else 0)"
proof (induction bts arbitrary: i)
  case (Cons b bts)
  show ?case
  proof (cases i)
    case (Suc j)
    have "sessions (b # xs) = sessions xs + (if b \<noteq> BtClosed then 1 else 0)" for xs by (simp add: sessions_def)
    then show ?thesis using Cons.IH [of j] Cons.prems Suc by simp
  qed (simp add: sessions_def)
qed simp

definition live_inv :: "('db, 'w) engineEnv \<Rightarrow> ('db, 'w) live \<Rightarrow> bool" where
  "live_inv G l \<longleftrightarrow>
     engine_ok G (lv_clock l) (lv_engine l) \<and>
     en_activeBTCount (lv_engine l) = word_of_nat (sessions (lv_bts l)) \<and>
     list_all phase_ok (lv_rounds l) \<and>
     (\<forall>ph. lv_sync l = SlRound ph \<longrightarrow> phase_ok ph \<and> ph \<noteq> PhDone) \<and>
     (lv_quota l = Ended \<or> lv_sync l = SlEnded \<or> lv_lan l = Ended \<or> lv_lanServer l = Ended \<or> lv_storeClosed l \<or> lv_closing l \<noteq> ClIdle
        \<longrightarrow> lv_cancelled l)"

lemma live_invD:
  assumes "live_inv G l"
  shows "engine_ok G (lv_clock l) (lv_engine l)" "en_activeBTCount (lv_engine l) = word_of_nat (sessions (lv_bts l))"
    "list_all phase_ok (lv_rounds l)" "\<And>ph. lv_sync l = SlRound ph \<Longrightarrow> phase_ok ph \<and> ph \<noteq> PhDone"
  using assms by (simp_all add: live_inv_def)

text \<open>A step that changes the engine only.\<close>

lemma live_inv_engine:
  "live_inv G l \<Longrightarrow> engine_ok G (lv_clock l) e \<and> same_rest (lv_engine l) e \<Longrightarrow> live_inv G (l\<lparr>lv_engine := e\<rparr>)"
  by (simp add: live_inv_def same_rest_def)

lemma live_inv_quota: "live_inv G l \<Longrightarrow> q = Ended \<longrightarrow> lv_quota l = Ended \<or> lv_cancelled l \<Longrightarrow> live_inv G (l\<lparr>lv_quota := q\<rparr>)"
  by (auto simp: live_inv_def)

lemma syncQuotaFile_ok: "engine_ok G t e \<Longrightarrow> engine_ok G t (syncQuotaFile B e) \<and> same_rest e (syncQuotaFile B e)"
  by (simp add: syncQuotaFile_def engine_ok_def same_rest_def Let_def)

lemma ConfigureStorage_ok: "engine_ok G t e \<Longrightarrow> engine_ok G t (ConfigureStorage B x y z e) \<and> same_rest e (ConfigureStorage B x y z e)"
proof -
  assume e: "engine_ok G t e"
  let ?e = "e\<lparr>en_store := WithReservations [TagPhysical \<mapsto> y, TagBluetooth \<mapsto> z, TagLan \<mapsto> go_div z 2] (WithStorageLimit x (en_store e))\<rparr>"
  have "engine_ok G t ?e" using e badger_inv_db [of "ee_env G" "ee_badger G" t "en_store e" "en_store ?e"]
    by (simp add: engine_ok_def WithReservations_def WithStorageLimit_def)
  from syncQuotaFile_ok [OF this, of B] e show ?thesis by (auto simp: ConfigureStorage_def same_rest_def)
qed

lemma peer_ops_ok:
  assumes "engine_ok G t e"
  shows "engine_ok G t (snd (Engine_AddPeer (ee_net G) J ord t' u e)) \<and> same_rest e (snd (Engine_AddPeer (ee_net G) J ord t' u e))"
    "engine_ok G t (Engine_RemovePeer (ee_net G) J ord u e) \<and> same_rest e (Engine_RemovePeer (ee_net G) J ord u e)"
    "engine_ok G t (Engine_BlockPeer (ee_net G) J ord t' u e) \<and> same_rest e (Engine_BlockPeer (ee_net G) J ord t' u e)"
    "engine_ok G t (Engine_UnblockPeer (ee_net G) J ord u e) \<and> same_rest e (Engine_UnblockPeer (ee_net G) J ord u e)"
    "engine_ok G t (lan_discovered (ee_net G) J ord t' u e) \<and> same_rest e (lan_discovered (ee_net G) J ord t' u e)"
proof -
  have k: "tracker_ok (ee_net G) (en_pm e)" using assms by (simp add: engine_ok_def)
  note ops = tracker_pt_ops [OF k] and on = on_tracker_ok [OF assms]
  obtain added pm where a: "pt_add (ee_net G) t' u ''manual'' (en_pm e) = (added, pm)" by fastforce
  show "engine_ok G t (snd (Engine_AddPeer (ee_net G) J ord t' u e)) \<and> same_rest e (snd (Engine_AddPeer (ee_net G) J ord t' u e))"
    using add_saved_ok [OF assms a] by (simp add: Engine_AddPeer_def a Let_def)
  obtain added' pm' where a': "pt_add (ee_net G) t' (''http://'' @ u) ''lan'' (en_pm e) = (added', pm')" by fastforce
  show "engine_ok G t (lan_discovered (ee_net G) J ord t' u e) \<and> same_rest e (lan_discovered (ee_net G) J ord t' u e)"
    using add_saved_ok [OF assms a'] unfolding lan_discovered_def a' Let_def prod.case by simp
  show "engine_ok G t (Engine_RemovePeer (ee_net G) J ord u e) \<and> same_rest e (Engine_RemovePeer (ee_net G) J ord u e)"
    "engine_ok G t (Engine_BlockPeer (ee_net G) J ord t' u e) \<and> same_rest e (Engine_BlockPeer (ee_net G) J ord t' u e)"
    "engine_ok G t (Engine_UnblockPeer (ee_net G) J ord u e) \<and> same_rest e (Engine_UnblockPeer (ee_net G) J ord u e)"
    using on [OF ops(2)] on [OF ops(3)] on [OF ops(4)] by (simp_all add: Engine_RemovePeer_def Engine_BlockPeer_def Engine_UnblockPeer_def)
qed

lemma lan_request_ok:
  assumes "engine_ok G t e" "lan_request G t ord req e = Some e'"
  shows "engine_ok G t e' \<and> same_rest e e'"
proof -
  let ?srv = "StartLANServer (ee_env G) (ee_net G) (ee_badger G) ord t e"
  have srv: "sv_store ?srv = en_store e" "sv_ops ?srv = ee_store G" "sv_peers ?srv = en_pm e"
    "sv_peerAdder ?srv = Some (\<lambda>u pm. snd (pt_add (ee_net G) t u ''lan'' pm))"
    by (simp_all add: StartLANServer_def NewServer_def SetPeerSource_def SetPeerAdder_def)
  obtain r srv' where s: "ServeHTTP (ee_env G) (ee_net G) t req ?srv = Some (r, srv')"
    "e' = e\<lparr>en_store := sv_store srv', en_pm := sv_peers srv'\<rparr>"
    using assms(2) by (auto simp: lan_request_def)
  have k: "tracker_ok (ee_net G) (en_pm e)" and i: "badger_inv (ee_env G) (ee_badger G) t (en_store e)" using assms(1) by (simp_all add: engine_ok_def)
  have "badger_inv (ee_env G) (ee_badger G) t (sv_store srv')"
    using ServeHTTP_effect(1) [OF s(1)] badger.Put_inv [OF i] i by (auto simp: store_gate_def srv)
  moreover have "tracker_ok (ee_net G) (sv_peers srv')"
    using ServeHTTP_effect(2) [OF s(1)] tracker_pt_ops(1) [OF k] k by (auto simp: srv)
  ultimately show ?thesis by (simp add: s(2) engine_ok_def same_rest_def)
qed

lemma live_step_inv:
  assumes "live_inv G l" "engine_step G ev l = Some l'"
  shows "live_inv G l'"
proof -
  note e = live_invD(1) [OF assms(1)]
  note on = live_inv_engine [OF assms(1)]
  show ?thesis
  proof (cases ev)
    case (EvClock t)
    then have t: "clock_ok t" "l' = l\<lparr>lv_clock := t\<rparr>" using assms(2) by (simp_all split: if_splits)
    show ?thesis using assms(1) engine_later [OF e t(1)] by (simp add: t(2) live_inv_def)
  next
    case (EvConfigure x y z)
    then have l': "l' = (l\<lparr>lv_engine := ConfigureStorage (ee_badger G) x y z (lv_engine l)\<rparr>)
        \<lparr>lv_quota := (if x \<le> 0 \<or> lv_quota l \<noteq> Idle then lv_quota l else Running)\<rparr>"
      using assms(2) by (cases "lv_storeClosed l") (auto simp: Let_def)
    show ?thesis unfolding l' by (rule live_inv_quota [OF on [OF ConfigureStorage_ok [OF e]]]) simp
  next
    case (EvAddPeer ord u)
    then show ?thesis using assms(2) on [OF peer_ops_ok(1) [OF e, of "ee_json G" ord "lv_clock l" u]] by auto
  next
    case (EvRemovePeer ord u)
    then show ?thesis using assms(2) on [OF peer_ops_ok(2) [OF e, of "ee_json G" ord u]] by auto
  next
    case (EvBlockPeer ord u)
    then show ?thesis using assms(2) on [OF peer_ops_ok(3) [OF e, of "ee_json G" ord "lv_clock l" u]] by auto
  next
    case (EvUnblockPeer ord u)
    then show ?thesis using assms(2) on [OF peer_ops_ok(4) [OF e, of "ee_json G" ord u]] by auto
  next
    case EvSyncNow
    then have l': "l' = l\<lparr>lv_rounds := lv_rounds l @ [PhPick]\<rparr>" using assms(2) by simp
    show ?thesis using assms(1) by (simp add: l' live_inv_def)
  next
    case EvStartSync
    then have l': "l' = (if lv_sync l = SlIdle then l\<lparr>lv_sync := SlRound PhPick\<rparr> else l)" using assms(2) by simp
    show ?thesis using assms(1) by (simp add: l' live_inv_def)
  next
    case (EvStartLANServer err)
    then have l': "l' = (if StartLANServer_listen err = None then l\<lparr>lv_lanServer := Running\<rparr> else l)" using assms(2) by simp
    show ?thesis using assms(1) by (simp add: l' live_inv_def)
  next
    case EvStartLANDiscovery
    then have l': "l' = (if lv_lan l = Idle then l\<lparr>lv_lan := Running\<rparr> else l)" using assms(2) by simp
    show ?thesis using assms(1) by (simp add: l' live_inv_def)
  next
    case (EvLocalPut stamp payload)
    have i: "badger_inv (ee_env G) (ee_badger G) (lv_clock l) (en_store (lv_engine l))" using e by (simp add: engine_ok_def)
    have l': "wf_stamp stamp" "wf_payload payload"
      "l' = l\<lparr>lv_engine := lv_engine l\<lparr>en_store := snd (st_Put (ee_store G) (lv_clock l) stamp payload TagPhysical (en_store (lv_engine l)))\<rparr>\<rparr>"
      using assms(2) EvLocalPut by (simp_all split: if_splits)
    show ?thesis unfolding l'(3) using e badger.Put_inv [OF i l'(1,2)] by (intro on) (simp add: engine_ok_def same_rest_def)
  next
    case EvOpenBT
    then have l': "l' = l\<lparr>lv_engine := lv_engine l\<lparr>en_activeBTCount := en_activeBTCount (lv_engine l) + 1\<rparr>, lv_bts := lv_bts l @ [BtOpened]\<rparr>" using assms(2) by simp
    show ?thesis using assms(1) by (simp add: l' live_inv_def engine_ok_def sessions_def)
  next
    case EvClose
    then have l': "l' = l\<lparr>lv_cancelled := True, lv_closing := ClCancelled\<rparr>" using assms(2) by (simp_all split: if_splits)
    show ?thesis using assms(1) by (simp add: l' live_inv_def)
  next
    case EvQuotaTick
    then have l': "l' = l\<lparr>lv_engine := syncQuotaFile (ee_badger G) (lv_engine l)\<rparr>" using assms(2) by (simp split: if_splits)
    show ?thesis unfolding l' by (rule on [OF syncQuotaFile_ok [OF e]])
  next
    case EvQuotaEnd
    then have l': "l' = (l\<lparr>lv_engine := syncQuotaFile (ee_badger G) (lv_engine l)\<rparr>)\<lparr>lv_quota := Ended\<rparr>" "lv_cancelled l"
      using assms(2) by (simp_all split: if_splits)
    show ?thesis unfolding l'(1) by (rule live_inv_quota [OF on [OF syncQuotaFile_ok [OF e]]]) (simp add: l'(2))
  next
    case (EvRound i c)
    then have i: "i < length (lv_rounds l)" "lv_rounds l ! i \<noteq> PhDone" "phase_ok (lv_rounds l ! i)"
      using assms live_invD(3) by (auto simp: list_all_length split: if_splits)
    obtain ph en w where p: "phase_step G (lv_clock l) c (lv_rounds l ! i) (lv_engine l, lv_world l) = Some (ph, en, w)"
      "engine_ok G (lv_clock l) en" "phase_ok ph" "same_rest (lv_engine l) en"
      by (rule phase_step_ok [OF e i(3,2)]) (rule that)
    have "list_all phase_ok ((lv_rounds l)[i := ph])" using live_invD(3) [OF assms(1)] p(3) i(1) by (auto simp: list_all_length nth_list_update)
    moreover have "l' = l\<lparr>lv_engine := en, lv_world := w, lv_rounds := (lv_rounds l)[i := ph]\<rparr>" using assms(2) p(1) EvRound by (simp split: if_splits)
    ultimately show ?thesis using assms(1) p(2,4) by (simp add: live_inv_def same_rest_def)
  next
    case (EvSyncStep c)
    then obtain ph where s: "lv_sync l = SlRound ph" "phase_ok ph" "ph \<noteq> PhDone"
      using assms live_invD(4) by (auto split: sync_loop.splits)
    obtain ph' en w where p: "phase_step G (lv_clock l) c ph (lv_engine l, lv_world l) = Some (ph', en, w)"
      "engine_ok G (lv_clock l) en" "phase_ok ph'" "same_rest (lv_engine l) en"
      by (rule phase_step_ok [OF e s(2,3)]) (rule that)
    have l': "l' = l\<lparr>lv_engine := en, lv_world := w, lv_sync := (if ph' = PhDone then SlWait else SlRound ph')\<rparr>"
      using assms(2) s(1) p(1) EvSyncStep by (cases "lv_storeClosed l") (simp_all split del: if_split)
    show ?thesis using assms(1) p(2-4) by (simp add: l' live_inv_def same_rest_def)
  next
    case EvSyncTick
    then have l': "l' = l\<lparr>lv_sync := SlRound PhPick\<rparr>" using assms(2) by (simp_all split: if_splits)
    show ?thesis using assms(1) by (simp add: l' live_inv_def)
  next
    case EvSyncEnd
    then have l': "l' = l\<lparr>lv_sync := SlEnded\<rparr>" "lv_cancelled l" using assms(2) by (simp_all split: if_splits)
    show ?thesis using assms(1) by (simp add: l' live_inv_def)
  next
    case (EvLanRequest ord req)
    then obtain en where r: "lan_request G (lv_clock l) ord req (lv_engine l) = Some en" "l' = l\<lparr>lv_engine := en\<rparr>"
      using assms(2) by (auto split: if_splits)
    show ?thesis unfolding r(2) by (rule on [OF lan_request_ok [OF e r(1)]])
  next
    case EvLanClosed
    then have l': "l' = l\<lparr>lv_lanServer := Ended\<rparr>" "lv_cancelled l" using assms(2) by (simp_all split: if_splits)
    show ?thesis using assms(1) by (simp add: l' live_inv_def)
  next
    case (EvLanAddr ord u)
    then show ?thesis using assms(2) on [OF peer_ops_ok(5) [OF e, of "ee_json G" ord "lv_clock l" u]] by (auto split: if_splits)
  next
    case EvLanEnd
    then have l': "l' = l\<lparr>lv_lan := Ended\<rparr>" "lv_cancelled l" using assms(2) by (simp_all split: if_splits)
    show ?thesis using assms(1) by (simp add: l' live_inv_def)
  next
    case (EvBT i ord k)
    obtain ph en where b: "bt_step G (lv_clock l) ord k (lv_bts l ! i) (lv_engine l) = (ph, en)" by fastforce
    have i: "i < length (lv_bts l)" "lv_bts l ! i \<noteq> BtClosed" and l': "l' = l\<lparr>lv_engine := en, lv_bts := (lv_bts l)[i := ph]\<rparr>"
      using assms(2) EvBT b by (auto split: if_splits)
    have "int (sessions ((lv_bts l)[i := ph])) = int (sessions (lv_bts l)) - (if ph = BtClosed then 1 else 0)"
      using sessions_update [OF i(1), of ph] i(2) by simp
    then have "(of_int (int (sessions ((lv_bts l)[i := ph]))) :: 32 word) = word_of_nat (sessions (lv_bts l)) - (if ph = BtClosed then 1 else 0)"
      by simp
    then have "(word_of_nat (sessions ((lv_bts l)[i := ph])) :: 32 word) = en_activeBTCount en"
      using bt_step_ok(2) [OF e b] i(2) live_invD(2) [OF assms(1)] by simp
    then show ?thesis using assms(1) bt_step_ok(1) [OF e b] by (simp add: l' live_inv_def)
  next
    case EvMedian
    then obtain err s where s: "RefreshMedian (ee_badger G) (lv_clock l) (en_store (lv_engine l)) = Some (err, s)"
      "l' = l\<lparr>lv_engine := lv_engine l\<lparr>en_store := s\<rparr>\<rparr>" using assms(2) by (auto split: if_splits)
    from s(1) have "bs_db s = bs_db (en_store (lv_engine l))" by (auto simp: RefreshMedian_def split: option.splits sum.splits)
    then have "engine_ok G (lv_clock l) (lv_engine l\<lparr>en_store := s\<rparr>)" using e badger_inv_db [of _ _ _ "en_store (lv_engine l)" s] by (simp add: engine_ok_def)
    then show ?thesis unfolding s(2) by (intro on) (simp add: same_rest_def)
  next
    case (EvCloseMessages err)
    then have l': "l' = l\<lparr>lv_closing := (case err of Some err \<Rightarrow> ClReturned (Some err) | None \<Rightarrow> ClMessages)\<rparr>" "lv_closing l = ClCancelled" using assms(2) by (simp_all split: if_splits)
    show ?thesis using assms(1) by (simp add: l' live_inv_def)
  next
    case (EvCloseStore err)
    then have l': "l' = l\<lparr>lv_closing := fst (Badger_Close err (lv_storeClosed l)), lv_storeClosed := snd (Badger_Close err (lv_storeClosed l))\<rparr>" "lv_closing l = ClMessages"
      using assms(2) by (simp_all add: case_prod_beta split: if_splits)
    show ?thesis using assms(1) by (simp add: l' live_inv_def)
  qed
qed

lemma live_run_inv: "live_inv G l \<Longrightarrow> engine_run G evs l = Some l' \<Longrightarrow> live_inv G l'"
  by (induction evs arbitrary: l) (auto split: option.splits intro: live_step_inv)

section \<open>Rounds\<close>

text \<open>The steps of the other goroutines leave a round where it is.\<close>

fun own_step :: "nat \<Rightarrow> ('w, 'c) engine_event \<Rightarrow> bool" where
  "own_step i (EvRound j c) = (i = j)"
| "own_step i _ = False"

lemma other_steps:
  assumes "engine_step G ev l = Some l'" "\<not> own_step i ev" "i < length (lv_rounds l)"
  shows "lv_rounds l' ! i = lv_rounds l ! i \<and> length (lv_rounds l) \<le> length (lv_rounds l')"
  using assms by (cases ev) (auto simp: Let_def nth_append Badger_Close_def split: if_splits sync_loop.splits prod.splits)

lemma own_steps:
  assumes "live_inv G l" "engine_step G ev l = Some l'" "own_step i ev"
  shows "phase_rank (lv_rounds l' ! i) < phase_rank (lv_rounds l ! i) \<and> length (lv_rounds l') = length (lv_rounds l)"
proof -
  obtain c where ev: "ev = EvRound i c" using assms(3) by (cases ev) auto
  then have i: "i < length (lv_rounds l)" "lv_rounds l ! i \<noteq> PhDone" "phase_ok (lv_rounds l ! i)"
    using assms live_invD(3) by (auto simp: list_all_length split: if_splits)
  obtain ph e w where p: "phase_step G (lv_clock l) c (lv_rounds l ! i) (lv_engine l, lv_world l) = Some (ph, e, w)"
    "phase_rank ph < phase_rank (lv_rounds l ! i)"
    by (rule phase_step_ok [OF live_invD(1) [OF assms(1)] i(3,2)]) (rule that)
  then show ?thesis using assms(2) ev i by (auto split: if_splits)
qed

lemma round_steps:
  assumes "live_inv G l" "engine_run G evs l = Some l'" "i < length (lv_rounds l)"
  shows "length (filter (own_step i) evs) + phase_rank (lv_rounds l' ! i) \<le> phase_rank (lv_rounds l ! i) \<and> i < length (lv_rounds l')"
  using assms
proof (induction evs arbitrary: l)
  case (Cons ev evs)
  obtain l1 where s: "engine_step G ev l = Some l1" "engine_run G evs l1 = Some l'" using Cons.prems(2) by (auto split: option.splits)
  show ?case
  proof (cases "own_step i ev")
    case True
    show ?thesis using Cons.IH [OF live_step_inv [OF Cons.prems(1) s(1)] s(2)] own_steps [OF Cons.prems(1) s(1) True] Cons.prems(3) True by auto
  next
    case False
    show ?thesis using Cons.IH [OF live_step_inv [OF Cons.prems(1) s(1)] s(2)] other_steps [OF s(1) False Cons.prems(3)] Cons.prems(3) False by auto
  qed
qed simp

lemma phase_rank_7: "phase_rank ph \<le> 7"
  by (cases ph) simp_all

section \<open>Blocked peers\<close>

definition blocked :: "string \<Rightarrow> peerTracker \<Rightarrow> bool" where
  "blocked u pm \<longleftrightarrow> (\<exists>e. map_of (pt_peers pm) u = Some e \<and> pe_Blocked e)"

fun phase_peer :: "phase \<Rightarrow> string option" where
  "phase_peer (PhSince u) = Some u"
| "phase_peer (PhPull u since) = Some u"
| "phase_peer (PhFail u err) = Some u"
| "phase_peer (PhHello u since ids) = Some u"
| "phase_peer (PhPush u since ids) = Some u"
| "phase_peer (PhRecord u pulled pushed err) = Some u"
| "phase_peer _ = None"

text \<open>The events that leave a block of \<open>u\<close> in force, with orders that are permutations.\<close>

fun keeps_block :: "net \<Rightarrow> string \<Rightarrow> ('w, 'c) engine_event \<Rightarrow> bool" where
  "keeps_block N u (EvRemovePeer ord v) = (normalizeURL N v \<noteq> u)"
| "keeps_block N u (EvUnblockPeer ord v) = (normalizeURL N v \<noteq> u)"
| "keeps_block N u (EvRound i c) = order_ok (ch_ord c)"
| "keeps_block N u (EvSyncStep c) = order_ok (ch_ord c)"
| "keeps_block N u _ = True"

lemma blocked_ops:
  assumes "blocked u pm"
  shows "blocked u (snd (pt_add N now v source pm))" "blocked u (pt_block N now v pm)"
    "normalizeURL N v \<noteq> u \<Longrightarrow> blocked u (pt_remove N v pm)" "normalizeURL N v \<noteq> u \<Longrightarrow> blocked u (pt_unblock N v pm)"
    "blocked u (recordSuccess now v pulled pushed err pm)" "blocked u (recordFailure v err pm)"
  using assms by (auto simp: blocked_def pt_add_def pt_block_def pt_remove_def pt_unblock_def recordSuccess_def recordFailure_def Let_def
      update_conv delete_conv' split: option.split)

lemma blocked_gossip: "blocked u pm \<Longrightarrow> blocked u (gossip N now source urls pm)"
  unfolding gossip_def by (induction urls arbitrary: pm) (simp_all add: blocked_ops)

lemma blocked_not_picked: "order_ok ord \<Longrightarrow> pt_inv N pm \<Longrightarrow> blocked u pm \<Longrightarrow> u \<noteq> [] \<Longrightarrow> pickPeer ord pm \<noteq> u"
  using pickPeer_spec [of ord N pm] by (auto simp: blocked_def)

lemma blocked_phase:
  assumes "blocked u (en_pm e)" "phase_step G t c ph (e, w) = Some (ph', e', w')" "order_ok (ch_ord c)" "pt_inv N (en_pm e)" "u \<noteq> []"
  shows "blocked u (en_pm e') \<and> (phase_peer ph' = Some u \<longrightarrow> phase_peer ph = Some u)"
  using assms(1,2) blocked_not_picked [OF assms(3,4,1,5)]
  by (cases ph) (auto simp: Let_def blocked_ops blocked_gossip split: if_splits option.splits prod.splits sum.splits)

text \<open>The rounds under way with a peer: of the goroutines of \<^verbatim>\<open>SyncNow\<close> by their number, and of the loop.\<close>

definition contacts :: "string \<Rightarrow> ('db, 'w) live \<Rightarrow> nat option set" where
  "contacts u l =
     {Some i |i. i < length (lv_rounds l) \<and> phase_peer (lv_rounds l ! i) = Some u} \<union>
     {None |ph. lv_sync l = SlRound ph \<and> phase_peer ph = Some u}"

lemma blocked_engine_ops:
  assumes "blocked u (en_pm e)"
  shows "blocked u (en_pm (syncQuotaFile B e))" "blocked u (en_pm (ConfigureStorage B x y z e))"
    "blocked u (en_pm (snd (Engine_AddPeer N J ord t v e)))" "blocked u (en_pm (Engine_BlockPeer N J ord t v e))"
    "normalizeURL N v \<noteq> u \<Longrightarrow> blocked u (en_pm (Engine_RemovePeer N J ord v e))"
    "normalizeURL N v \<noteq> u \<Longrightarrow> blocked u (en_pm (Engine_UnblockPeer N J ord v e))"
    "blocked u (en_pm (lan_discovered N J ord t v e))" "blocked u (en_pm (bt_discovered N J ord t v e))"
  using assms blocked_ops(1) [OF assms]
  by (simp_all add: syncQuotaFile_def ConfigureStorage_def Engine_AddPeer_def Engine_BlockPeer_def Engine_RemovePeer_def
      Engine_UnblockPeer_def lan_discovered_def bt_discovered_def Let_def case_prod_beta blocked_ops)

lemma blocked_lan_request: "blocked u (en_pm e) \<Longrightarrow> lan_request G t ord req e = Some e' \<Longrightarrow> blocked u (en_pm e')"
  using ServeHTTP_effect(2) [of "ee_env G" "ee_net G" t req "StartLANServer (ee_env G) (ee_net G) (ee_badger G) ord t e"]
  by (auto simp: lan_request_def StartLANServer_def NewServer_def SetPeerSource_def SetPeerAdder_def blocked_ops)

lemma blocked_bt_step: "blocked u (en_pm e) \<Longrightarrow> bt_step G t ord k ph e = (ph', e') \<Longrightarrow> blocked u (en_pm e')"
  by (cases "(G, t, ord, k, ph, e)" rule: bt_step.cases) (auto simp: blocked_engine_ops split: option.splits)

lemma blocked_step:
  assumes "live_inv G l" "engine_step G ev l = Some l'" "blocked u (en_pm (lv_engine l))" "keeps_block (ee_net G) u ev" "u \<noteq> []"
  shows "blocked u (en_pm (lv_engine l')) \<and> contacts u l' \<subseteq> contacts u l"
proof (cases "\<exists>i c. ev = EvRound i c \<or> ev = EvSyncStep c")
  case True
  have inv: "pt_inv (ee_net G) (en_pm (lv_engine l))" using live_invD(1) [OF assms(1)] by (simp add: engine_ok_def tracker_ok_def)
  from True consider i c where "ev = EvRound i c" | c where "ev = EvSyncStep c" by blast
  then show ?thesis
  proof cases
    case (1 i c)
    then obtain ph e w where p: "phase_step G (lv_clock l) c (lv_rounds l ! i) (lv_engine l, lv_world l) = Some (ph, e, w)"
      "l' = l\<lparr>lv_engine := e, lv_world := w, lv_rounds := (lv_rounds l)[i := ph]\<rparr>" "i < length (lv_rounds l)"
      using assms(2) by (auto split: if_splits)
    show ?thesis using blocked_phase [OF assms(3) p(1) _ inv assms(5)] assms(4) 1 p(2,3)
      by (auto simp: contacts_def nth_list_update split: if_splits)
  next
    case (2 c)
    then obtain ph ph' e w where p: "phase_step G (lv_clock l) c ph (lv_engine l, lv_world l) = Some (ph', e, w)" "lv_sync l = SlRound ph"
      "l' = l\<lparr>lv_engine := e, lv_world := w, lv_sync := (if ph' = PhDone then SlWait else SlRound ph')\<rparr>"
      using assms(2) by (auto split: if_splits sync_loop.splits)
    show ?thesis using blocked_phase [OF assms(3) p(1) _ inv assms(5)] assms(4) 2 p(2,3)
      by (auto simp: contacts_def)
  qed
next
  case False
  have "blocked u (en_pm (lv_engine l'))"
    using assms(2-4) False blocked_engine_ops [OF assms(3)]
    by (cases ev) (auto simp: Let_def Badger_Close_def split: if_splits prod.splits dest: blocked_lan_request [OF assms(3)] blocked_bt_step [OF assms(3)])
  moreover have "contacts u l' \<subseteq> contacts u l"
    using assms(2) False by (cases ev) (auto simp: contacts_def Let_def nth_append Badger_Close_def split: if_splits prod.splits)
  ultimately show ?thesis ..
qed

lemma blocked_run:
  "live_inv G l \<Longrightarrow> engine_run G evs l = Some l' \<Longrightarrow> blocked u (en_pm (lv_engine l)) \<Longrightarrow> list_all (keeps_block (ee_net G) u) evs \<Longrightarrow> u \<noteq> []
     \<Longrightarrow> blocked u (en_pm (lv_engine l')) \<and> contacts u l' \<subseteq> contacts u l"
proof (induction evs arbitrary: l)
  case (Cons ev evs)
  obtain l1 where s: "engine_step G ev l = Some l1" "engine_run G evs l1 = Some l'" using Cons.prems(2) by (auto split: option.splits)
  note b = blocked_step [OF Cons.prems(1) s(1) Cons.prems(3) _ Cons.prems(5)]
  show ?case using Cons.IH [OF live_step_inv [OF Cons.prems(1) s(1)] s(2)] b Cons.prems(4,5) by auto
qed simp

section \<open>Phases and the whole\<close>

lemma round_phases:
  "round_run G \<lparr>ch_ord = ord, ch_ctxErr = ctxErr\<rparr> [t, t, t, t, t, now, now] PhPick (e, w) =
     map_option (Pair PhDone)
       (doSyncRound (ee_env G) (ee_net G) (ee_badger G) (ee_jtext G) (ee_http G) ctxErr (ee_errText G) (ee_json G) ord t now e w)"
proof (cases "pickPeer ord (en_pm e) = []")
  case True
  then show ?thesis by (simp add: doSyncRound_def)
next
  case pick: False
  let ?u = "pickPeer ord (en_pm e)"
  let ?pull = "Pull (ee_jtext G) (ee_http G ?u) ctxErr (NewClient (ee_net G) ?u) (ee_store G) t 0 (lastSync ?u (en_pm e)) (en_store e) w"
  show ?thesis
  proof (cases ?pull)
    case None
    then show ?thesis using pick by (simp add: doSyncRound_def Let_def)
  next
    case (Some r)
    obtain ids err s w1 where r: "r = ((ids, err), s, w1)" by (metis prod_cases3 surj_pair)
    show ?thesis
    proof (cases err)
      case (Some er)
      then show ?thesis using pick \<open>?pull = Some r\<close> by (simp add: doSyncRound_def Let_def r)
    next
      case None
      obtain hello w2 where h: "Client_Hello (ee_http G ?u) [] w1 = (hello, w2)" by fastforce
      show ?thesis
        using pick \<open>?pull = Some r\<close> None h
        by (cases hello) (simp_all add: doSyncRound_def Let_def r split: option.split prod.split)
    qed
  qed
qed

lemma bt_gossip_steps:
  "((\<lambda>(ph, e). bt_step G t ord k ph e) ^^ length us) (BtGossip us, e) =
     (BtGossip [], fold (\<lambda>u e. let (added, pm) = pt_add (ee_net G) t u ''bluetooth'' (en_pm e); e' = e\<lparr>en_pm := pm\<rparr>
        in if added then save_peers (ee_json G) ord e' else e') us e)"
  by (induction us arbitrary: e) (simp_all add: funpow_swap1 bt_discovered_def)

lemma bt_phases:
  assumes "RunBluetoothSession (ee_env G) (ee_net G) (ee_badger G) (ee_marshal G) (ee_unmarshal G) (bp_Write k) (bp_ctxDone k)
     (ee_json G) ord t (bp_select k) (bp_incoming k) e (bp_state k) = Some (err, e', w')"
  shows "\<exists>n. ((\<lambda>(ph, e). bt_step G t ord k ph e) ^^ n) (BtOpened, e\<lparr>en_activeBTCount := en_activeBTCount e + 1\<rparr>) = (BtClosed, e')"
proof -
  let ?step = "\<lambda>(ph, e). bt_step G t ord k ph e" and ?e0 = "e\<lparr>en_activeBTCount := en_activeBTCount e + 1\<rparr>"
  obtain us s where r: "Run (ee_marshal G) (ee_unmarshal G) (bp_Write k) (bp_ctxDone k) (ee_store G) t (activeURLs ord (en_pm e))
      (bp_select k) (bp_incoming k) (en_store e) (bp_state k) = Some (err, us, s, w')"
    using assms by (auto simp: RunBluetoothSession_def Let_def split: option.splits prod.splits)
  define e1 where "e1 = fold (\<lambda>u e. let (added, pm) = pt_add (ee_net G) t u ''bluetooth'' (en_pm e); e' = e\<lparr>en_pm := pm\<rparr>
        in if added then save_peers (ee_json G) ord e' else e') us (?e0\<lparr>en_store := s\<rparr>)"
  have e': "e' = e1\<lparr>en_activeBTCount := en_activeBTCount e1 - 1\<rparr>"
    using assms r by (simp add: RunBluetoothSession_def Let_def e1_def)
  have "(?step ^^ (length us + 1)) (BtOpened, ?e0) = (?step ^^ length us) (?step (BtOpened, ?e0))" by (simp add: funpow_swap1)
  also have "\<dots> = (BtGossip [], e1)" using r bt_gossip_steps [where us = us and e = "?e0\<lparr>en_store := s\<rparr>" and G = G and t = t and ord = ord and k = k] by (simp add: e1_def)
  finally have "(?step ^^ (length us + 2)) (BtOpened, ?e0) = (BtClosed, e')" by (simp add: e')
  then show ?thesis by blast
qed

lemma sint_word32: "n < 2 ^ 31 \<Longrightarrow> sint (word_of_nat n :: 32 word) = int n"
  by (simp add: signed_of_nat signed_take_bit_int_eq_self)

lemma live_new_inv: "engine_ok G t e \<Longrightarrow> en_activeBTCount e = 0 \<Longrightarrow> live_inv G (live_new t e w)"
  by (simp add: live_inv_def live_new_def sessions_def)

section \<open>Properties\<close>

text \<open>C9: In every interleaving of the engine's goroutines and of calls from the app, from the engine that \<^verbatim>\<open>NewEngine\<close> opens on: the block
  store and the table of peers keep their invariants, the counter of Bluetooth sessions is the number of sessions in progress, and a
  loop has ended or the store is closed only after \<^verbatim>\<open>Close\<close> was called.\<close>

theorem engine_invariant:
  assumes "NewEngine J dataDir (Inr db) msgs fs = Inr e0" "badger_inv (ee_env G) (ee_badger G) t (OpenBadger db)" "tracker_ok (ee_net G) (en_pm e0)"
    and "engine_run G evs (live_new t e0 w) = Some l"
  shows "badger_inv (ee_env G) (ee_badger G) (lv_clock l) (en_store (lv_engine l)) \<and> pt_inv (ee_net G) (en_pm (lv_engine l)) \<and>
    (sessions (lv_bts l) < 2 ^ 31 \<longrightarrow> ActiveBTSessions (lv_engine l) = int (sessions (lv_bts l))) \<and>
    (lv_quota l = Ended \<or> lv_sync l = SlEnded \<or> lv_lan l = Ended \<or> lv_lanServer l = Ended \<or> lv_storeClosed l \<longrightarrow> lv_cancelled l)"
proof -
  have e0: "en_store e0 = OpenBadger db" "en_activeBTCount e0 = 0" using assms(1) by (auto simp: NewEngine_def split: sum.splits)
  have "live_inv G l" by (rule live_run_inv [OF live_new_inv assms(4)]) (simp_all add: e0 engine_ok_def assms(2,3))
  then show ?thesis by (simp add: live_inv_def engine_ok_def tracker_ok_def ActiveBTSessions_def sint_word32)
qed

text \<open>C21: A round of synchronisation ends: in every interleaving it takes at most seven steps of its own, and while it has not ended and the
  store is open its next step is possible, whatever the relay answers and whatever the other goroutines have done.\<close>

theorem round_terminates:
  assumes "live_inv G l" "engine_run G evs l = Some l'" "i < length (lv_rounds l)"
  shows "length (filter (own_step i) evs) \<le> 7 \<and>
    (lv_rounds l' ! i \<noteq> PhDone \<and> \<not> lv_storeClosed l' \<longrightarrow> (\<exists>l''. engine_step G (EvRound i c) l' = Some l''))"
proof
  show "length (filter (own_step i) evs) \<le> 7" using round_steps [OF assms] phase_rank_7 [of "lv_rounds l ! i"] by linarith
  have l': "live_inv G l'" "i < length (lv_rounds l')" using live_run_inv [OF assms(1,2)] round_steps [OF assms] by simp_all
  show "lv_rounds l' ! i \<noteq> PhDone \<and> \<not> lv_storeClosed l' \<longrightarrow> (\<exists>l''. engine_step G (EvRound i c) l' = Some l'')"
  proof
    assume a: "lv_rounds l' ! i \<noteq> PhDone \<and> \<not> lv_storeClosed l'"
    have ok: "phase_ok (lv_rounds l' ! i)" using live_invD(3) [OF l'(1)] l'(2) by (simp add: list_all_length)
    show "\<exists>l''. engine_step G (EvRound i c) l' = Some l''"
      by (rule phase_step_ok [OF live_invD(1) [OF l'(1)] ok, of c "lv_world l'"]) (use a l'(2) in auto)
  qed
qed

text \<open>C10: After \<^verbatim>\<open>BlockPeer\<close> no round picks the peer until it is unblocked or removed: in every interleaving the rounds
  that are under way with it are among those that were when it was blocked.\<close>

theorem block_effective:
  assumes "live_inv G l" "normalizeURL (ee_net G) url = u" "u \<noteq> []" "list_all (keeps_block (ee_net G) u) evs"
    and "engine_run G (EvBlockPeer ord url # evs) l = Some l'"
  shows "blocked u (en_pm (lv_engine l')) \<and> contacts u l' \<subseteq> contacts u l"
proof -
  let ?l = "l\<lparr>lv_engine := Engine_BlockPeer (ee_net G) (ee_json G) ord (lv_clock l) url (lv_engine l)\<rparr>"
  have r: "engine_run G evs ?l = Some l'" using assms(5) by simp
  have i: "live_inv G ?l" by (rule live_step_inv [OF assms(1), of "EvBlockPeer ord url"]) simp
  have "blocked u (en_pm (lv_engine ?l))"
    using assms(2,3) by (auto simp: Engine_BlockPeer_def blocked_def pt_block_def Let_def update_conv newEntry_def split: option.split)
  from blocked_run [OF i r this assms(4,3)] show ?thesis by (simp add: contacts_def)
qed


text \<open>\<^verbatim>\<open>Close\<close> returns the error of the message store with the block store still open, else what the database returns; called
  again after it has closed the store it panics.\<close>

theorem close_results:
  "lv_closing (Engine_Close (Some err) d l) = ClReturned (Some err) \<and> lv_storeClosed (Engine_Close (Some err) d l) = lv_storeClosed l \<and>
   (\<not> lv_storeClosed l \<longrightarrow> lv_closing (Engine_Close None d l) = ClReturned d \<and>
      lv_closing (Engine_Close None d' (Engine_Close None d l)) = ClPanicked) \<and>
   (lv_closing l = ClIdle \<longrightarrow> engine_run G [EvClose, EvCloseMessages None, EvCloseStore d] l = Some (Engine_Close None d l))"
  by (simp add: Engine_Close_def Badger_Close_def)

text \<open>A phone with an empty data directory and a network that is down.\<close>

definition engineEnv0 :: "(mem_db, unit) engineEnv" where
  "engineEnv0 = \<lparr>ee_env = env0, ee_net = net0, ee_badger = mem_badger, ee_jtext = (\<lambda>_. []),
     ee_http = (\<lambda>_ _ w. (Inl (DoErr ''down''), w)), ee_errText = (\<lambda>_. ''down''), ee_json = json_peers0,
     ee_marshal = (\<lambda>_. []), ee_unmarshal = (\<lambda>_. [])\<rparr>"

definition choice0 :: "unit choice" where
  "choice0 = \<lparr>ch_ord = rev, ch_ctxErr = (\<lambda>_. None)\<rparr>"

lemma engineEnv0_simps [simp]: "ee_env engineEnv0 = env0" "ee_net engineEnv0 = net0" "ee_badger engineEnv0 = mem_badger" "ch_ord choice0 = rev"
  by (simp_all add: engineEnv0_def choice0_def)

lemma engine0_live: "live_inv engineEnv0 (live_new 0 engine0 ())"
proof (rule live_new_inv)
  show "engine_ok engineEnv0 0 engine0"
    by (simp add: engine_ok_def tracker_ok_def engine0_def open_inv two_peers_inv times_ok_def two_peers(2) newEntry_def)
qed (simp add: engine0_def)

theorem engine_invariant_witness:
  "\<exists>e0 l. NewEngine json_peers0 [] (Inr []) (Inr fresh_db) fs_empty = Inr e0 \<and>
    engine_run engineEnv0 [EvAddPeer rev ''http://b'', EvOpenBT, EvSyncNow, EvStartLANDiscovery, EvClose, EvLanEnd :: (unit, unit) engine_event] (live_new 0 e0 ()) = Some l \<and>
    ActiveBTSessions (lv_engine l) = 1 \<and> badger_inv env0 mem_badger (lv_clock l) (en_store (lv_engine l))"
proof -
  let ?evs = "[EvAddPeer rev ''http://b'', EvOpenBT, EvSyncNow, EvStartLANDiscovery, EvClose, EvLanEnd] :: (unit, unit) engine_event list"
  obtain e0 :: "mem_db Engine" where e0: "NewEngine json_peers0 [] (Inr []) (Inr fresh_db) fs_empty = Inr e0" "en_pm e0 = newPeerTracker [''peers.json'']"
    by (simp add: NewEngine_def OpenMessageStore_def migrate_def fresh_db_def Let_def pt_load_def newPeerTracker_def fs_read_def fs_empty_def)
  obtain l where l: "engine_run engineEnv0 ?evs (live_new 0 e0 ()) = Some l" "sessions (lv_bts l) = 1" by (simp add: live_new_def sessions_def)
  have "tracker_ok (ee_net engineEnv0) (en_pm e0)" by (simp add: e0(2) tracker_ok_def times_ok_def newPeerTracker_def pt_inv_def)
  from engine_invariant [OF e0(1) _ this l(1)] open_inv l(2) have
    "ActiveBTSessions (lv_engine l) = 1 \<and> badger_inv env0 mem_badger (lv_clock l) (en_store (lv_engine l))" by simp
  then show ?thesis using e0(1) l(1) by blast
qed

theorem round_terminates_witness:
  "\<exists>l l'. engine_run engineEnv0 [EvSyncNow :: (unit, unit) engine_event] (live_new 0 engine0 ()) = Some l \<and>
    engine_step engineEnv0 (EvRound 0 choice0 :: (unit, unit) engine_event) l = Some l'"
proof -
  let ?l = "(live_new 0 engine0 ())\<lparr>lv_rounds := [PhPick]\<rparr>"
  have r: "engine_run engineEnv0 [EvSyncNow :: (unit, unit) engine_event] (live_new 0 engine0 ()) = Some ?l" by (simp add: live_new_def)
  have "live_inv engineEnv0 ?l" by (rule live_run_inv [OF engine0_live r])
  from round_terminates [OF this, of "[] :: (unit, unit) engine_event list" ?l 0 choice0] r show ?thesis
    by (auto simp: live_new_def simp del: engine_step.simps)
qed

theorem block_effective_witness:
  "\<exists>l. engine_run engineEnv0 [EvBlockPeer rev ''http://b'', EvSyncNow, EvRound 0 choice0 :: (unit, unit) engine_event] (live_new 0 engine0 ()) = Some l \<and>
    blocked ''http://b'' (en_pm (lv_engine l)) \<and> contacts ''http://b'' l = {}"
proof -
  let ?evs = "[EvSyncNow, EvRound 0 choice0] :: (unit, unit) engine_event list"
  have n: "normalizeURL (ee_net engineEnv0) ''http://b'' = ''http://b''"
    by (simp add: normalizeURL_def TrimSpace_visible visible_def TrimRightSlash_def net0_def)
  obtain l where l: "engine_run engineEnv0 (EvBlockPeer rev ''http://b'' # ?evs) (live_new 0 engine0 ()) = Some l"
    by (simp add: live_new_def Let_def)
  have "list_all (keeps_block (ee_net engineEnv0) ''http://b'') ?evs" by (simp add: order_rev)
  from block_effective [OF engine0_live n _ this l] l show ?thesis by (auto simp: contacts_def live_new_def)
qed

end
