(* ===== verification/Channels.thy ===== *)
theory Channels
  imports Lan
begin

text \<open>
  The goroutines and channels between the local network and the loop of a node: the pool of probes of \<^verbatim>\<open>probeAddrs\<close> and the
  goroutine of \<^verbatim>\<open>Discover\<close> in \<^verbatim>\<open>transport/lan/lan.go\<close>, and the fan-in \<^verbatim>\<open>mergePeers\<close> of \<^verbatim>\<open>cmd/snk/main.go\<close>.  One event is one step of one
  goroutine, of a producer or of the consumer; an event that is not possible in a state has no successor.  The
  context is done from some event on; a \<^verbatim>\<open>select\<close> may still take another case that is ready.  The fields \<open>mg_fed\<close> and \<open>mg_taken\<close>
  record what the producers sent and what the consumer received.
\<close>

section \<open>Channels\<close>

record 'a chan =
  ch_buf :: "'a list"
  ch_closed :: bool

definition chanCap :: nat where "chanCap = 16"

definition make_chan :: "'a chan" where
  "make_chan = \<lparr>ch_buf = [], ch_closed = False\<rparr>"

text \<open>A send to a closed channel panics; the programs here close a channel only after their last send.\<close>

definition chan_send :: "'a \<Rightarrow> 'a chan \<Rightarrow> 'a chan option" where
  "chan_send x c = (if length (ch_buf c) < chanCap \<and> \<not> ch_closed c then Some (c\<lparr>ch_buf := ch_buf c @ [x]\<rparr>) else None)"

section \<open>The pool of probes\<close>

text \<open>\<^verbatim>\<open>probeAddrs\<close> with its goroutines: the loop looks at the context, then waits for a slot of the semaphore; a
  probe that ends appends its address and gives the slot back.  \<open>dial\<close> is the outcome of the dial of each address, also when the
  timeout or the context cuts it short.\<close>

definition scanConcurrent :: nat where "scanConcurrent = 64"

record probes =
  pp_todo :: "string list"
  pp_waiting :: "string option"
  pp_flight :: "string list"
  pp_found :: "string list"
  pp_cancelled :: bool

definition probes_of :: "string list \<Rightarrow> probes" where
  "probes_of addrs = \<lparr>pp_todo = addrs, pp_waiting = None, pp_flight = [], pp_found = [], pp_cancelled = False\<rparr>"

datatype probe_event = PpNext | PpBreak | PpStart | PpEnd nat | PpCancel

fun probe_step :: "(string \<Rightarrow> bool) \<Rightarrow> probe_event \<Rightarrow> probes \<Rightarrow> probes option" where
  "probe_step dial PpNext p =
     (case pp_todo p of
        [] \<Rightarrow> None
      | addr # rest \<Rightarrow>
          if pp_cancelled p \<or> pp_waiting p \<noteq> None then None else Some (p\<lparr>pp_todo := rest, pp_waiting := Some addr\<rparr>))"
| "probe_step dial PpBreak p = (if pp_cancelled p \<and> pp_waiting p = None then Some (p\<lparr>pp_todo := []\<rparr>) else None)"
| "probe_step dial PpStart p =
     (case pp_waiting p of
        None \<Rightarrow> None
      | Some addr \<Rightarrow>
          if length (pp_flight p) < scanConcurrent then Some (p\<lparr>pp_waiting := None, pp_flight := pp_flight p @ [addr]\<rparr>) else None)"
| "probe_step dial (PpEnd i) p =
     (if i < length (pp_flight p) then
        let addr = pp_flight p ! i
        in Some (p\<lparr>pp_flight := take i (pp_flight p) @ drop (Suc i) (pp_flight p),
                   pp_found := (if dial addr then pp_found p @ [addr] else pp_found p)\<rparr>)
      else None)"
| "probe_step dial PpCancel p = Some (p\<lparr>pp_cancelled := True\<rparr>)"

fun probe_run :: "(string \<Rightarrow> bool) \<Rightarrow> probe_event list \<Rightarrow> probes \<Rightarrow> probes option" where
  "probe_run dial [] p = Some p"
| "probe_run dial (ev # evs) p = (case probe_step dial ev p of None \<Rightarrow> None | Some p' \<Rightarrow> probe_run dial evs p')"

text \<open>\<^verbatim>\<open>wg.Wait\<close> returns.\<close>

definition probes_done :: "probes \<Rightarrow> bool" where
  "probes_done p \<longleftrightarrow> pp_todo p = [] \<and> pp_waiting p = None \<and> pp_flight p = []"

section \<open>Discover\<close>

datatype dc_phase = DcScan | DcSend "string list" | DcWait | DcEnded

record discover =
  dc_phase :: dc_phase
  dc_out :: "string chan"
  dc_cancelled :: bool

definition Discover :: discover where
  "Discover = \<lparr>dc_phase = DcScan, dc_out = make_chan, dc_cancelled = False\<rparr>"

text \<open>\<open>DcScanned\<close> carries what \<^verbatim>\<open>Scan\<close> returned.\<close>

datatype dc_event = DcScanned "string list \<times> string option" | DcSent | DcAllSent | DcSendCancelled | DcTick | DcDone | DcCancel | DcTake

fun discover_step :: "dc_event \<Rightarrow> discover \<Rightarrow> discover option" where
  "discover_step (DcScanned (addrs, err)) d =
     (if dc_phase d = DcScan
      then Some (d\<lparr>dc_phase := (if err \<noteq> None \<or> dc_cancelled d then DcWait else DcSend addrs)\<rparr>) else None)"
| "discover_step DcSent d =
     (case dc_phase d of
        DcSend (a # as) \<Rightarrow> map_option (\<lambda>out. d\<lparr>dc_phase := DcSend as, dc_out := out\<rparr>) (chan_send a (dc_out d))
      | _ \<Rightarrow> None)"
| "discover_step DcAllSent d = (if dc_phase d = DcSend [] then Some (d\<lparr>dc_phase := DcWait\<rparr>) else None)"
| "discover_step DcSendCancelled d =
     (case dc_phase d of
        DcSend (a # as) \<Rightarrow> if dc_cancelled d then Some (d\<lparr>dc_phase := DcWait\<rparr>) else None
      | _ \<Rightarrow> None)"
| "discover_step DcTick d = (if dc_phase d = DcWait then Some (d\<lparr>dc_phase := DcScan\<rparr>) else None)"
| "discover_step DcDone d =
     (if dc_phase d = DcWait \<and> dc_cancelled d
      then Some (d\<lparr>dc_phase := DcEnded, dc_out := (dc_out d)\<lparr>ch_closed := True\<rparr>\<rparr>) else None)"
| "discover_step DcCancel d = Some (d\<lparr>dc_cancelled := True\<rparr>)"
| "discover_step DcTake d =
     (case ch_buf (dc_out d) of [] \<Rightarrow> None | a # as \<Rightarrow> Some (d\<lparr>dc_out := (dc_out d)\<lparr>ch_buf := as\<rparr>\<rparr>))"

text \<open>A run of the goroutine, with the addresses that it sent.\<close>

fun dc_sent :: "dc_event \<Rightarrow> discover \<Rightarrow> string list" where
  "dc_sent DcSent d = (case dc_phase d of DcSend (a # as) \<Rightarrow> [a] | _ \<Rightarrow> [])"
| "dc_sent _ d = []"

fun discover_run :: "dc_event list \<Rightarrow> discover \<Rightarrow> (string list \<times> discover) option" where
  "discover_run [] d = Some ([], d)"
| "discover_run (ev # evs) d =
     (case discover_step ev d of
        None \<Rightarrow> None
      | Some d' \<Rightarrow> map_option (\<lambda>(sent, d''). (dc_sent ev d @ sent, d'')) (discover_run evs d'))"

section \<open>The fan-in\<close>

datatype worker = WkRecv | WkSend string | WkDone

record merge =
  mg_sources :: "string chan list"
  mg_workers :: "worker list"
  mg_out :: "string chan"
  mg_cancelled :: bool
  mg_fed :: "string list list"
  mg_taken :: "string list"

definition mergePeers :: "string chan list \<Rightarrow> merge" where
  "mergePeers sources =
     \<lparr>mg_sources = sources, mg_workers = map (\<lambda>_. WkRecv) sources, mg_out = make_chan, mg_cancelled = False,
      mg_fed = map ch_buf sources, mg_taken = []\<rparr>"

datatype merge_event =
    MeRecv nat | MeSend nat | MeSourceClosed nat | MeWorkerCancelled nat | MeCloseOut
  | MeFeed nat string | MeSourceClose nat | MeTake | MeCancel

fun merge_step :: "merge_event \<Rightarrow> merge \<Rightarrow> merge option" where
  "merge_step (MeRecv i) g =
     (if i < length (mg_workers g) \<and> mg_workers g ! i = WkRecv then
        case ch_buf (mg_sources g ! i) of
          [] \<Rightarrow> None
        | addr # rest \<Rightarrow>
            Some (g\<lparr>mg_sources := (mg_sources g)[i := (mg_sources g ! i)\<lparr>ch_buf := rest\<rparr>], mg_workers := (mg_workers g)[i := WkSend addr]\<rparr>)
      else None)"
| "merge_step (MeSend i) g =
     (if i < length (mg_workers g) then
        case mg_workers g ! i of
          WkSend addr \<Rightarrow> map_option (\<lambda>out. g\<lparr>mg_out := out, mg_workers := (mg_workers g)[i := WkRecv]\<rparr>) (chan_send addr (mg_out g))
        | _ \<Rightarrow> None
      else None)"
| "merge_step (MeSourceClosed i) g =
     (if i < length (mg_workers g) \<and> mg_workers g ! i = WkRecv \<and> ch_buf (mg_sources g ! i) = [] \<and> ch_closed (mg_sources g ! i)
      then Some (g\<lparr>mg_workers := (mg_workers g)[i := WkDone]\<rparr>) else None)"
| "merge_step (MeWorkerCancelled i) g =
     (if i < length (mg_workers g) \<and> mg_workers g ! i \<noteq> WkDone \<and> mg_cancelled g
      then Some (g\<lparr>mg_workers := (mg_workers g)[i := WkDone]\<rparr>) else None)"
| "merge_step MeCloseOut g =
     (if list_all (\<lambda>w. w = WkDone) (mg_workers g) \<and> \<not> ch_closed (mg_out g) then Some (g\<lparr>mg_out := (mg_out g)\<lparr>ch_closed := True\<rparr>\<rparr>) else None)"
| "merge_step (MeFeed i addr) g =
     (if i < length (mg_sources g) then
        map_option (\<lambda>c. g\<lparr>mg_sources := (mg_sources g)[i := c], mg_fed := (mg_fed g)[i := mg_fed g ! i @ [addr]]\<rparr>)
          (chan_send addr (mg_sources g ! i))
      else None)"
| "merge_step (MeSourceClose i) g =
     (if i < length (mg_sources g) \<and> \<not> ch_closed (mg_sources g ! i)
      then Some (g\<lparr>mg_sources := (mg_sources g)[i := (mg_sources g ! i)\<lparr>ch_closed := True\<rparr>]\<rparr>) else None)"
| "merge_step MeTake g =
     (case ch_buf (mg_out g) of
        [] \<Rightarrow> None
      | addr # rest \<Rightarrow> Some (g\<lparr>mg_out := (mg_out g)\<lparr>ch_buf := rest\<rparr>, mg_taken := mg_taken g @ [addr]\<rparr>))"
| "merge_step MeCancel g = Some (g\<lparr>mg_cancelled := True\<rparr>)"

fun merge_run :: "merge_event list \<Rightarrow> merge \<Rightarrow> merge option" where
  "merge_run [] g = Some g"
| "merge_run (ev # evs) g = (case merge_step ev g of None \<Rightarrow> None | Some g' \<Rightarrow> merge_run evs g')"

section \<open>What the pool keeps\<close>

text \<open>\<open>started\<close> are the addresses that the loop has taken.\<close>

definition probes_inv :: "(string \<Rightarrow> bool) \<Rightarrow> string list \<Rightarrow> string list \<Rightarrow> probes \<Rightarrow> bool" where
  "probes_inv dial addrs started p \<longleftrightarrow>
     prefix (started @ pp_todo p) addrs \<and> (\<not> pp_cancelled p \<longrightarrow> started @ pp_todo p = addrs) \<and> length (pp_flight p) \<le> scanConcurrent \<and>
     mset (pp_found p) + filter_mset dial (mset (pp_flight p) + mset (case pp_waiting p of None \<Rightarrow> [] | Some a \<Rightarrow> [a])) =
       filter_mset dial (mset started)"

lemma mset_without: "i < length xs \<Longrightarrow> mset xs = add_mset (xs ! i) (mset (take i xs @ drop (Suc i) xs))"
  by (subst id_take_nth_drop [of i xs]) simp_all

lemma probe_step_inv:
  assumes "probes_inv dial addrs started p" "probe_step dial ev p = Some p'"
  shows "\<exists>started'. probes_inv dial addrs started' p'"
proof (cases ev)
  case PpNext
  then obtain addr rest where a: "pp_todo p = addr # rest" "\<not> pp_cancelled p" "pp_waiting p = None"
    "p' = p\<lparr>pp_todo := rest, pp_waiting := Some addr\<rparr>"
    using assms(2) by (auto split: list.splits if_splits)
  show ?thesis using assms(1) a by (intro exI [of _ "started @ [addr]"]) (auto simp: probes_inv_def)
next
  case PpBreak
  then show ?thesis using assms by (intro exI [of _ started]) (auto simp: probes_inv_def prefix_def split: if_splits)
next
  case PpStart
  then show ?thesis using assms by (intro exI [of _ started]) (auto simp: probes_inv_def split: option.splits if_splits)
next
  case (PpEnd i)
  then have i: "i < length (pp_flight p)" "p' = p\<lparr>pp_flight := take i (pp_flight p) @ drop (Suc i) (pp_flight p),
      pp_found := (if dial (pp_flight p ! i) then pp_found p @ [pp_flight p ! i] else pp_found p)\<rparr>"
    using assms(2) by (auto simp: Let_def split: if_splits)
  show ?thesis using assms(1) mset_without [OF i(1)] i by (intro exI [of _ started]) (auto simp: probes_inv_def)
next
  case PpCancel
  then show ?thesis using assms by (intro exI [of _ started]) (auto simp: probes_inv_def)
qed

lemma probe_run_inv: "probes_inv dial addrs started p \<Longrightarrow> probe_run dial evs p = Some p' \<Longrightarrow> \<exists>started'. probes_inv dial addrs started' p'"
proof (induction evs arbitrary: p started)
  case (Cons ev evs)
  then obtain p1 st1 where "probe_step dial ev p = Some p1" "probe_run dial evs p1 = Some p'" "probes_inv dial addrs st1 p1"
    using probe_step_inv [OF Cons.prems(1)] by (auto split: option.splits)
  then show ?case using Cons.IH by blast
qed auto

lemma probes_of_inv: "probes_inv dial addrs [] (probes_of addrs)"
  by (simp add: probes_inv_def probes_of_def)

section \<open>Interleavings\<close>

primrec interleave :: "'a list list \<Rightarrow> 'a list set" where
  "interleave [] = {[]}"
| "interleave (xs # xss) = (\<Union>ys \<in> interleave xss. shuffles xs ys)"

lemma shuffles_snoc: "zs \<in> shuffles xs ys \<Longrightarrow> zs @ [x] \<in> shuffles (xs @ [x]) ys"
proof (induction zs arbitrary: xs ys)
  case (Cons z zs)
  from Cons.prems consider xs' where "xs = z # xs'" "zs \<in> shuffles xs' ys" | ys' where "ys = z # ys'" "zs \<in> shuffles xs ys'"
    by (auto simp: Cons_in_shuffles_iff neq_Nil_conv)
  then show ?case using Cons.IH by cases (auto simp: Cons_in_shuffles_iff)
qed (simp add: Nil_in_shuffles)

lemma interleave_Nil: "[] \<in> interleave (map (\<lambda>_. []) xs)"
  by (induction xs) auto

lemma interleave_snoc: "zs \<in> interleave xss \<Longrightarrow> i < length xss \<Longrightarrow> zs @ [x] \<in> interleave (xss[i := xss ! i @ [x]])"
proof (induction xss arbitrary: i zs)
  case (Cons xs xss)
  obtain ys where ys: "ys \<in> interleave xss" "zs \<in> shuffles xs ys" using Cons.prems(1) by auto
  show ?case
  proof (cases i)
    case 0
    then show ?thesis using ys(1) shuffles_snoc [OF ys(2)] by auto
  next
    case (Suc j)
    then have "ys @ [x] \<in> interleave (xss[j := xss ! j @ [x]])" using Cons.IH [OF ys(1)] Cons.prems(2) by simp
    moreover have "zs @ [x] \<in> shuffles xs (ys @ [x])" using ys(2) shuffles_snoc [of zs ys xs x] by (simp add: shuffles_commutes)
    ultimately show ?thesis using Suc by auto
  qed
qed simp

section \<open>What the fan-in keeps\<close>

text \<open>\<open>ds ! i\<close> is what has been delivered of source \<open>i\<close>; a worker that has ended without a cancellation has delivered everything.\<close>

fun worker_ok :: "bool \<Rightarrow> worker \<Rightarrow> string chan \<Rightarrow> string list \<Rightarrow> string list \<Rightarrow> bool" where
  "worker_ok cancelled WkRecv c fed d = (fed = d @ ch_buf c)"
| "worker_ok cancelled (WkSend addr) c fed d = (fed = d @ addr # ch_buf c)"
| "worker_ok cancelled WkDone c fed d = (prefix d fed \<and> (\<not> cancelled \<longrightarrow> fed = d \<and> ch_buf c = [] \<and> ch_closed c))"

definition merge_inv :: "merge \<Rightarrow> string list list \<Rightarrow> bool" where
  "merge_inv g ds \<longleftrightarrow>
     length (mg_workers g) = length ds \<and> length (mg_sources g) = length ds \<and> length (mg_fed g) = length ds \<and>
     mg_taken g @ ch_buf (mg_out g) \<in> interleave ds \<and>
     (\<forall>i < length ds. worker_ok (mg_cancelled g) (mg_workers g ! i) (mg_sources g ! i) (mg_fed g ! i) (ds ! i)) \<and>
     (ch_closed (mg_out g) \<longrightarrow> list_all (\<lambda>w. w = WkDone) (mg_workers g))"

lemma worker_ok_prefix: "worker_ok cancelled w c fed d \<Longrightarrow> prefix d fed"
  by (cases w) auto

lemma merge_step_inv:
  assumes "merge_inv g ds" "merge_step ev g = Some g'"
  shows "\<exists>ds'. merge_inv g' ds'"
proof (cases ev)
  case (MeRecv i)
  then obtain addr rest where s: "i < length (mg_workers g)" "mg_workers g ! i = WkRecv" "ch_buf (mg_sources g ! i) = addr # rest"
    "g' = g\<lparr>mg_sources := (mg_sources g)[i := (mg_sources g ! i)\<lparr>ch_buf := rest\<rparr>], mg_workers := (mg_workers g)[i := WkSend addr]\<rparr>"
    using assms(2) by (auto split: if_splits list.splits)
  have "worker_ok (mg_cancelled g) (mg_workers g ! i) (mg_sources g ! i) (mg_fed g ! i) (ds ! i)" using assms(1) s(1) by (simp add: merge_inv_def)
  then have "mg_fed g ! i = ds ! i @ addr # rest" using s(2,3) by simp
  then show ?thesis using assms(1) s by (intro exI [of _ ds]) (auto simp: merge_inv_def nth_list_update list_all_length)
next
  case (MeSend i)
  then obtain addr where s: "i < length (mg_workers g)" "mg_workers g ! i = WkSend addr" "length (ch_buf (mg_out g)) < chanCap" "\<not> ch_closed (mg_out g)"
    "g' = g\<lparr>mg_out := (mg_out g)\<lparr>ch_buf := ch_buf (mg_out g) @ [addr]\<rparr>, mg_workers := (mg_workers g)[i := WkRecv]\<rparr>"
    using assms(2) by (auto simp: chan_send_def split: if_splits worker.splits)
  have "(mg_taken g @ ch_buf (mg_out g)) @ [addr] \<in> interleave (ds[i := ds ! i @ [addr]])"
    by (rule interleave_snoc) (use assms(1) s(1) in \<open>simp_all add: merge_inv_def\<close>)
  then show ?thesis using assms(1) s by (intro exI [of _ "ds[i := ds ! i @ [addr]]"]) (auto simp: merge_inv_def nth_list_update)
next
  case (MeSourceClosed i)
  then have s: "i < length (mg_workers g)" "mg_workers g ! i = WkRecv" "ch_buf (mg_sources g ! i) = []" "ch_closed (mg_sources g ! i)"
    "g' = g\<lparr>mg_workers := (mg_workers g)[i := WkDone]\<rparr>"
    using assms(2) by (auto split: if_splits)
  have "worker_ok (mg_cancelled g) (mg_workers g ! i) (mg_sources g ! i) (mg_fed g ! i) (ds ! i)" using assms(1) s(1) by (simp add: merge_inv_def)
  then have "mg_fed g ! i = ds ! i" using s(2,3) by simp
  then show ?thesis using assms(1) s by (intro exI [of _ ds]) (auto simp: merge_inv_def nth_list_update list_all_length)
next
  case (MeWorkerCancelled i)
  then have s: "i < length (mg_workers g)" "mg_cancelled g" "g' = g\<lparr>mg_workers := (mg_workers g)[i := WkDone]\<rparr>"
    using assms(2) by (auto split: if_splits)
  have "prefix (ds ! i) (mg_fed g ! i)" using assms(1) s(1) worker_ok_prefix by (auto simp: merge_inv_def)
  then show ?thesis using assms(1) s
    by (intro exI [of _ ds]) (auto simp: merge_inv_def nth_list_update list_all_length)
next
  case MeCloseOut
  then show ?thesis using assms by (intro exI [of _ ds]) (auto simp: merge_inv_def split: if_splits)
next
  case (MeFeed i addr)
  then have s: "i < length (mg_sources g)" "\<not> ch_closed (mg_sources g ! i)"
    "g' = g\<lparr>mg_sources := (mg_sources g)[i := (mg_sources g ! i)\<lparr>ch_buf := ch_buf (mg_sources g ! i) @ [addr]\<rparr>], mg_fed := (mg_fed g)[i := mg_fed g ! i @ [addr]]\<rparr>"
    using assms(2) by (auto simp: chan_send_def split: if_splits)
  have "worker_ok (mg_cancelled g) (mg_workers g ! i) (mg_sources g ! i) (mg_fed g ! i) (ds ! i)" using assms(1) s(1) by (auto simp: merge_inv_def)
  then have "worker_ok (mg_cancelled g) (mg_workers g ! i) ((mg_sources g ! i)\<lparr>ch_buf := ch_buf (mg_sources g ! i) @ [addr]\<rparr>) (mg_fed g ! i @ [addr]) (ds ! i)"
    using s(2) by (cases "mg_workers g ! i") auto
  then show ?thesis using assms(1) s(1,3) by (intro exI [of _ ds]) (auto simp: merge_inv_def nth_list_update)
next
  case (MeSourceClose i)
  then have s: "i < length (mg_sources g)" "g' = g\<lparr>mg_sources := (mg_sources g)[i := (mg_sources g ! i)\<lparr>ch_closed := True\<rparr>]\<rparr>"
    using assms(2) by (auto split: if_splits)
  have "worker_ok (mg_cancelled g) (mg_workers g ! i) (mg_sources g ! i) (mg_fed g ! i) (ds ! i)" using assms(1) s(1) by (auto simp: merge_inv_def)
  then have "worker_ok (mg_cancelled g) (mg_workers g ! i) ((mg_sources g ! i)\<lparr>ch_closed := True\<rparr>) (mg_fed g ! i) (ds ! i)"
    by (cases "mg_workers g ! i") auto
  then show ?thesis using assms(1) s by (intro exI [of _ ds]) (auto simp: merge_inv_def nth_list_update)
next
  case MeTake
  then show ?thesis using assms by (intro exI [of _ ds]) (auto simp: merge_inv_def split: list.splits)
next
  case MeCancel
  have "worker_ok c w s f d \<Longrightarrow> worker_ok True w s f d" for c w s f d by (cases w) auto
  then show ?thesis using assms MeCancel by (intro exI [of _ ds]) (auto simp: merge_inv_def)
qed

lemma merge_run_inv: "merge_inv g ds \<Longrightarrow> merge_run evs g = Some g' \<Longrightarrow> \<exists>ds'. merge_inv g' ds'"
proof (induction evs arbitrary: g ds)
  case (Cons ev evs)
  then obtain g1 ds1 where "merge_step ev g = Some g1" "merge_run evs g1 = Some g'" "merge_inv g1 ds1"
    using merge_step_inv [OF Cons.prems(1)] by (auto split: option.splits)
  then show ?case using Cons.IH by blast
qed auto

lemma mergePeers_inv: "merge_inv (mergePeers sources) (map (\<lambda>_. []) sources)"
  by (simp add: merge_inv_def mergePeers_def make_chan_def interleave_Nil)

section \<open>Progress\<close>

text \<open>The steps that move an address towards the consumer, and how many are left.\<close>

fun moves :: "merge_event \<Rightarrow> bool" where
  "moves (MeRecv i) = True"
| "moves (MeSend i) = True"
| "moves MeTake = True"
| "moves _ = False"

fun worker_work :: "worker \<Rightarrow> nat" where
  "worker_work (WkSend addr) = 2"
| "worker_work _ = 0"

definition merge_work :: "merge \<Rightarrow> nat" where
  "merge_work g =
     sum_list (map (\<lambda>c. 3 * length (ch_buf c)) (mg_sources g)) +
     sum_list (map worker_work (mg_workers g)) + length (ch_buf (mg_out g))"

lemma sum_list_map_update:
  "i < length xs \<Longrightarrow> sum_list (map f (xs[i := x])) + f (xs ! i) = sum_list (map f xs) + (f x :: nat)"
  by (induction xs arbitrary: i) (auto split: nat.split)

lemma moves_work:
  assumes "merge_inv g ds" "moves ev" "merge_step ev g = Some g'"
  shows "merge_work g' < merge_work g \<and> mg_fed g' = mg_fed g \<and> mg_cancelled g' = mg_cancelled g"
proof -
  have n: "length (mg_sources g) = length (mg_workers g)" using assms(1) by (simp add: merge_inv_def)
  let ?c = "\<lambda>c. 3 * length (ch_buf c)"
  consider i where "ev = MeRecv i" | i where "ev = MeSend i" | "ev = MeTake" using assms(2) by (cases ev) auto
  then show ?thesis
  proof cases
    case (1 i)
    then obtain addr rest where s: "i < length (mg_workers g)" "mg_workers g ! i = WkRecv" "ch_buf (mg_sources g ! i) = addr # rest"
      "g' = g\<lparr>mg_sources := (mg_sources g)[i := (mg_sources g ! i)\<lparr>ch_buf := rest\<rparr>], mg_workers := (mg_workers g)[i := WkSend addr]\<rparr>"
      using assms(3) by (auto split: if_splits list.splits)
    show ?thesis
      using sum_list_map_update [of i "mg_sources g" ?c "(mg_sources g ! i)\<lparr>ch_buf := rest\<rparr>"] sum_list_map_update [of i "mg_workers g" worker_work "WkSend addr"] s n
      by (simp add: merge_work_def)
  next
    case (2 i)
    then obtain addr where s: "i < length (mg_workers g)" "mg_workers g ! i = WkSend addr"
      "g' = g\<lparr>mg_out := (mg_out g)\<lparr>ch_buf := ch_buf (mg_out g) @ [addr]\<rparr>, mg_workers := (mg_workers g)[i := WkRecv]\<rparr>"
      using assms(3) by (auto simp: chan_send_def split: if_splits worker.splits)
    show ?thesis using sum_list_map_update [of i "mg_workers g" worker_work WkRecv] s by (simp add: merge_work_def)
  next
    case 3
    then show ?thesis using assms(3) by (auto simp: merge_work_def split: list.splits)
  qed
qed

text \<open>While an address is under way and the context is not done, one of these steps is possible.\<close>

lemma moves_possible:
  assumes "merge_inv g ds" "\<not> mg_cancelled g" "merge_work g \<noteq> 0"
  obtains ev g' where "moves ev" "merge_step ev g = Some g'"
proof (cases "ch_buf (mg_out g)")
  case (Cons addr rest)
  then show thesis using that [of MeTake] by simp
next
  case out: Nil
  show thesis
  proof (cases "\<exists>i < length (mg_workers g). \<exists>addr. mg_workers g ! i = WkSend addr")
    case True
    then obtain i addr where i: "i < length (mg_workers g)" "mg_workers g ! i = WkSend addr" by blast
    then have "\<not> ch_closed (mg_out g)" using assms(1) by (auto simp: merge_inv_def list_all_length)
    then show thesis using that [of "MeSend i"] i out by (simp add: chan_send_def chanCap_def)
  next
    case False
    then have "worker_work w = 0" if "w \<in> set (mg_workers g)" for w using that by (cases w) (auto simp: in_set_conv_nth)
    then have "sum_list (map worker_work (mg_workers g)) = 0" by simp
    then obtain i where i: "i < length (mg_sources g)" "ch_buf (mg_sources g ! i) \<noteq> []"
      using assms(3) out by (auto simp: merge_work_def sum_list_eq_0_iff in_set_conv_nth)
    then have i': "i < length (mg_workers g)" "i < length ds" using assms(1) by (simp_all add: merge_inv_def)
    then have "worker_ok False (mg_workers g ! i) (mg_sources g ! i) (mg_fed g ! i) (ds ! i)" using assms(1,2) by (auto simp: merge_inv_def)
    then have "mg_workers g ! i = WkRecv" using i(2) False i'(1) by (cases "mg_workers g ! i") auto
    then show thesis using that [of "MeRecv i"] i i'(1) by (cases "ch_buf (mg_sources g ! i)") simp_all
  qed
qed

lemma merge_drained:
  assumes "merge_inv g ds" "\<not> mg_cancelled g" "merge_work g = 0"
  shows "mg_taken g \<in> interleave (mg_fed g)"
proof -
  have w: "ch_buf (mg_out g) = []" "\<forall>c \<in> set (mg_sources g). ch_buf c = []" "\<forall>w \<in> set (mg_workers g). \<forall>addr. w \<noteq> WkSend addr"
    using assms(3) by (auto simp: merge_work_def)
  have "mg_fed g ! i = ds ! i" if "i < length ds" for i
  proof -
    have "worker_ok False (mg_workers g ! i) (mg_sources g ! i) (mg_fed g ! i) (ds ! i)" "ch_buf (mg_sources g ! i) = []"
      using assms(1,2) w(2) that by (auto simp: merge_inv_def)
    then show ?thesis using w(3) that assms(1) by (cases "mg_workers g ! i") (auto simp: merge_inv_def dest: nth_mem)
  qed
  then have "mg_fed g = ds" using assms(1) by (simp add: merge_inv_def nth_equalityI)
  then show ?thesis using assms(1) w(1) by (simp add: merge_inv_def)
qed

lemma merge_drains:
  "merge_inv g ds \<Longrightarrow> \<not> mg_cancelled g \<Longrightarrow>
     \<exists>evs g'. list_all moves evs \<and> length evs \<le> merge_work g \<and> merge_run evs g = Some g' \<and> mg_fed g' = mg_fed g \<and> mg_taken g' \<in> interleave (mg_fed g)"
proof (induction "merge_work g" arbitrary: g ds rule: less_induct)
  case less
  show ?case
  proof (cases "merge_work g = 0")
    case True
    then show ?thesis using merge_drained [OF less.prems True] by (intro exI [of _ "[]"]) simp
  next
    case False
    obtain ev g1 where ev: "moves ev" "merge_step ev g = Some g1" using moves_possible [OF less.prems False] by blast
    note m = moves_work [OF less.prems(1) ev]
    obtain ds1 where "merge_inv g1 ds1" using merge_step_inv [OF less.prems(1) ev(2)] by blast
    then obtain evs g' where r: "list_all moves evs" "length evs \<le> merge_work g1" "merge_run evs g1 = Some g'" "mg_fed g' = mg_fed g1" "mg_taken g' \<in> interleave (mg_fed g1)"
      using less.hyps [of g1 ds1] m less.prems(2) by auto
    then show ?thesis using ev m by (intro exI [of _ "ev # evs"] exI [of _ g']) auto
  qed
qed

lemma merge_closed:
  assumes "merge_inv g ds" "ch_closed (mg_out g)" "\<not> mg_cancelled g"
  shows "mg_fed g = ds"
proof (rule nth_equalityI)
  show "length (mg_fed g) = length ds" using assms(1) by (simp add: merge_inv_def)
  fix j assume j: "j < length (mg_fed g)"
  then have "mg_workers g ! j = WkDone" "worker_ok False (mg_workers g ! j) (mg_sources g ! j) (mg_fed g ! j) (ds ! j)"
    using assms by (auto simp: merge_inv_def list_all_length)
  then show "mg_fed g ! j = ds ! j" by simp
qed

section \<open>Properties\<close>

text \<open>C22: The fan-in, in every interleaving: nothing is made up, lost in the middle or reordered within a source; when it closes its channel
  without a cancellation it has delivered everything; and while the context is not done, at every moment a bounded number of
  steps of its goroutines and of the consumer brings every address to the consumer, each of these steps bringing that number down.\<close>

theorem mergePeers_delivers:
  assumes "merge_run evs (mergePeers sources) = Some g"
  shows "(\<exists>ds. mg_taken g @ ch_buf (mg_out g) \<in> interleave ds \<and> list_all2 prefix ds (mg_fed g)) \<and>
    (ch_closed (mg_out g) \<and> \<not> mg_cancelled g \<longrightarrow> mg_taken g @ ch_buf (mg_out g) \<in> interleave (mg_fed g)) \<and>
    (\<not> mg_cancelled g \<longrightarrow>
       (\<exists>evs' g'. list_all moves evs' \<and> length evs' \<le> merge_work g \<and> merge_run evs' g = Some g' \<and> mg_fed g' = mg_fed g \<and>
          mg_taken g' \<in> interleave (mg_fed g))) \<and>
    (\<forall>ev g'. moves ev \<and> merge_step ev g = Some g' \<longrightarrow> merge_work g' < merge_work g)"
proof -
  obtain ds where i: "merge_inv g ds" using merge_run_inv [OF mergePeers_inv assms] by blast
  have "list_all2 prefix ds (mg_fed g)"
    using i worker_ok_prefix by (fastforce simp: merge_inv_def list_all2_conv_all_nth)
  then have "\<exists>ds. mg_taken g @ ch_buf (mg_out g) \<in> interleave ds \<and> list_all2 prefix ds (mg_fed g)" using i by (auto simp: merge_inv_def)
  moreover have "mg_taken g @ ch_buf (mg_out g) \<in> interleave (mg_fed g)" if "ch_closed (mg_out g)" "\<not> mg_cancelled g"
    using merge_closed [OF i that] i by (simp add: merge_inv_def)
  ultimately show ?thesis using merge_drains [OF i] moves_work [OF i] by blast
qed

text \<open>What \<^verbatim>\<open>Discover\<close> sends, until it is cancelled: the results of its scans in order, each address once per scan, up to what it is about to send.\<close>

theorem discover_sends:
  assumes "discover_run evs d = Some (sent, d')" "\<not> dc_cancelled d'"
  shows "(case dc_phase d of DcSend as \<Rightarrow> as | _ \<Rightarrow> []) @
      concat (map (\<lambda>ev. case ev of DcScanned (addrs, None) \<Rightarrow> addrs | _ \<Rightarrow> []) evs) =
    sent @ (case dc_phase d' of DcSend as \<Rightarrow> as | _ \<Rightarrow> [])"
  using assms
proof (induction evs arbitrary: d sent)
  case (Cons ev evs)
  obtain d1 sent1 where s: "discover_step ev d = Some d1" "discover_run evs d1 = Some (sent1, d')" "sent = dc_sent ev d @ sent1"
    using Cons.prems(1) by (auto split: option.splits)
  have mono: "discover_run es x = Some (y, z) \<Longrightarrow> dc_cancelled x \<Longrightarrow> dc_cancelled z" for es x y z
  proof (induction es arbitrary: x y)
    case (Cons e es)
    have "discover_step e x = Some x' \<Longrightarrow> dc_cancelled x'" for x'
      using Cons.prems(2) by (cases "(e, x)" rule: discover_step.cases) (auto simp: chan_send_def split: if_splits dc_phase.splits list.splits)
    then show ?case using Cons by (auto split: option.splits)
  qed simp
  have "\<not> dc_cancelled d1" using mono [OF s(2)] Cons.prems(2) by blast
  moreover note Cons.IH [OF s(2) Cons.prems(2)]
  ultimately show ?case using s(1,3)
    by (cases "(ev, d)" rule: discover_step.cases) (auto simp: chan_send_def split: if_splits dc_phase.splits list.splits option.splits)
qed simp

text \<open>C29: The pool of probes implements \<open>probeAddrs\<close>: in every interleaving at most 64 probes run at a time, and when all have ended the
  result is that of \<open>probeAddrs\<close> with some order of arrival and some moment at which the loop noticed the cancellation, if there was one.\<close>

theorem probes_refine:
  assumes "probe_run dial evs (probes_of addrs) = Some p" "distinct addrs"
  shows "length (pp_flight p) \<le> scanConcurrent \<and>
    (probes_done p \<longrightarrow> (\<exists>ctxDone arrival. (\<forall>xs. mset (arrival xs) = mset xs) \<and> pp_found p = probeAddrs ctxDone dial arrival addrs \<and>
       (\<not> pp_cancelled p \<longrightarrow> ctxDone = (\<lambda>_. False))))"
proof -
  obtain started where i: "probes_inv dial addrs started p" using probe_run_inv [OF probes_of_inv assms(1)] by blast
  have "\<exists>ctxDone arrival. (\<forall>xs. mset (arrival xs) = mset xs) \<and> pp_found p = probeAddrs ctxDone dial arrival addrs \<and>
      (\<not> pp_cancelled p \<longrightarrow> ctxDone = (\<lambda>_. False))" if d: "probes_done p"
  proof -
    define ctxDone where "ctxDone = (\<lambda>a. pp_cancelled p \<and> a \<notin> set started)"
    define arrival where "arrival = (\<lambda>xs. if xs = filter dial started then pp_found p else xs)"
    have st: "prefix started addrs" "\<not> pp_cancelled p \<longrightarrow> started = addrs" "mset (pp_found p) = filter_mset dial (mset started)"
      using i d by (simp_all add: probes_inv_def probes_done_def)
    obtain rest where rest: "addrs = started @ rest" using st(1) by (auto simp: prefix_def)
    have "takeWhile (\<lambda>a. \<not> ctxDone a) addrs = started"
    proof (cases "pp_cancelled p")
      case True
      have "takeWhile (\<lambda>a. \<not> ctxDone a) rest = []" using assms(2) True rest by (cases rest) (auto simp: ctxDone_def)
      then show ?thesis unfolding rest by (subst takeWhile_append2) (auto simp: ctxDone_def)
    next
      case False
      then show ?thesis using st(2) by (simp add: ctxDone_def)
    qed
    then have "pp_found p = probeAddrs ctxDone dial arrival addrs" by (simp add: probeAddrs_def arrival_def)
    moreover have "mset (arrival xs) = mset xs" for xs using st(3) by (simp add: arrival_def)
    moreover have "\<not> pp_cancelled p \<longrightarrow> ctxDone = (\<lambda>_. False)" by (simp add: ctxDone_def)
    ultimately show ?thesis by blast
  qed
  then show ?thesis using i by (simp add: probes_inv_def)
qed

text \<open>Two sources; the first one is read to its end.\<close>

definition merge_events0 :: "merge_event list" where
  "merge_events0 = [MeFeed 0 ''a:1'', MeFeed 1 ''b:1'', MeRecv 0, MeFeed 0 ''c:1'', MeRecv 1, MeSend 1, MeSend 0, MeTake]"

lemma merge_run0:
  obtains g where "merge_run merge_events0 (mergePeers [make_chan, make_chan]) = Some g" "mg_taken g = [''b:1'']" "\<not> mg_cancelled g"
    "ch_buf (mg_out g) = [''a:1'']" "mg_fed g = [[''a:1'', ''c:1''], [''b:1'']]"
  by (simp add: merge_events0_def mergePeers_def make_chan_def chan_send_def chanCap_def)

theorem mergePeers_delivers_witness:
  "\<exists>g evs g'. merge_run merge_events0 (mergePeers [make_chan, make_chan]) = Some g \<and> merge_run evs g = Some g' \<and>
    mg_taken g' \<in> interleave [[''a:1'', ''c:1''], [''b:1'']]"
proof -
  obtain g where g: "merge_run merge_events0 (mergePeers [make_chan, make_chan]) = Some g" "\<not> mg_cancelled g"
    "mg_fed g = [[''a:1'', ''c:1''], [''b:1'']]"
    by (rule merge_run0) (rule that)
  from mergePeers_delivers [OF g(1)] g show ?thesis by auto
qed

theorem discover_sends_witness:
  "\<exists>d. discover_run [DcScanned ([''a:1'', ''b:1''], None), DcSent, DcSent, DcAllSent] Discover = Some ([''a:1'', ''b:1''], d)"
proof -
  obtain sent d where d: "discover_run [DcScanned ([''a:1'', ''b:1''], None), DcSent, DcSent, DcAllSent] Discover = Some (sent, d)"
    "\<not> dc_cancelled d" "dc_phase d = DcWait"
    by (simp add: Discover_def make_chan_def chan_send_def chanCap_def)
  from discover_sends [OF d(1,2)] d show ?thesis by (simp add: Discover_def)
qed

theorem probes_refine_witness:
  "\<exists>p arrival. probe_run (\<lambda>a. a = ''b:1'') [PpNext, PpStart, PpNext, PpStart, PpEnd 1, PpEnd 0] (probes_of [''a:1'', ''b:1'']) = Some p \<and>
    pp_found p = probeAddrs (\<lambda>_. False) (\<lambda>a. a = ''b:1'') arrival [''a:1'', ''b:1'']"
proof -
  let ?dial = "\<lambda>a. a = ''b:1''" and ?evs = "[PpNext, PpStart, PpNext, PpStart, PpEnd 1, PpEnd 0]"
  obtain p where p: "probe_run ?dial ?evs (probes_of [''a:1'', ''b:1'']) = Some p" "probes_done p" "\<not> pp_cancelled p"
    by (simp add: probes_of_def scanConcurrent_def Let_def probes_done_def)
  from probes_refine [OF p(1)] p(2,3) have "\<exists>arrival. pp_found p = probeAddrs (\<lambda>_. False) ?dial arrival [''a:1'', ''b:1'']" by auto
  then show ?thesis using p(1) by blast
qed

end
