(* ===== verification/Commands.thy ===== *)
theory Commands
  imports Node Channels Transfers ApiEngine
begin

text \<open>
  \<^verbatim>\<open>cmd/snk/main.go\<close>, the commands: the flags with their defaults, the choice of the subcommand, how \<^verbatim>\<open>cmdNode\<close> and
  \<^verbatim>\<open>cmdRelay\<close> put a node and a relay together, and the running node: the loop of \<^verbatim>\<open>run\<close>, the ticks of \<^verbatim>\<open>usbSyncLoop\<close>, the
  relay protocol on its port, the blocks that the API stores and the median of the work factors, in any order.
  The values of the flags, as the \<^verbatim>\<open>flag\<close> package parses them, are an argument.  \<^verbatim>\<open>log.Fatalf\<close> ends the
  process with a message: it is an error value, without the deferred calls.
\<close>

section \<open>Flags\<close>

record nodeFlags =
  nf_apiAddr :: string
  nf_blocks :: path
  nf_messages :: path
  nf_keystore :: path
  nf_powFloor :: int
  nf_syncInterval :: int
  nf_peers :: string
  nf_advertiseURL :: string
  nf_peerCache :: path
  nf_lan :: bool
  nf_usbDir :: path
  nf_usbInterval :: int
  nf_storageLimit :: string
  nf_reservePhysical :: string
  nf_reserveLan :: string

definition nodeFlags_default :: nodeFlags where
  "nodeFlags_default =
     \<lparr>nf_apiAddr = ''127.0.0.1:8080'', nf_blocks = [''blocks.db''], nf_messages = [''messages.db''], nf_keystore = [''keystore.json''],
      nf_powFloor = 0, nf_syncInterval = 5 * 60 * nsPerSec, nf_peers = [], nf_advertiseURL = [], nf_peerCache = [''peers.json''],
      nf_lan = False, nf_usbDir = [], nf_usbInterval = 30 * nsPerSec, nf_storageLimit = ''0'', nf_reservePhysical = ''0'',
      nf_reserveLan = ''0''\<rparr>"

record relayFlags =
  rf_addr :: string
  rf_blocks :: path
  rf_powFloor :: int
  rf_syncInterval :: int
  rf_peers :: string
  rf_advertiseURL :: string
  rf_peerCache :: path
  rf_lan :: bool
  rf_storageLimit :: string
  rf_reservePhysical :: string
  rf_reserveLan :: string
  rf_reserveRegional :: string
  rf_reserveGlobal :: string
  rf_region :: string
  rf_geoipDB :: path
  rf_geoipURL :: string
  rf_geoipRefresh :: int

definition relayFlags_default :: relayFlags where
  "relayFlags_default =
     \<lparr>rf_addr = ''0.0.0.0:8081'', rf_blocks = [''blocks.db''], rf_powFloor = 0, rf_syncInterval = 5 * 60 * nsPerSec, rf_peers = [],
      rf_advertiseURL = [], rf_peerCache = [''peers.json''], rf_lan = False, rf_storageLimit = ''0'', rf_reservePhysical = ''0'',
      rf_reserveLan = ''0'', rf_reserveRegional = ''0'', rf_reserveGlobal = ''0'', rf_region = [], rf_geoipDB = [],
      rf_geoipURL = ''https://github.com/P3TERX/GeoLite.mmdb/raw/download/GeoLite2-City.mmdb'',
      rf_geoipRefresh = 120 * 60 * 60 * nsPerSec\<rparr>"

section \<open>The subcommand\<close>

text \<open>\<open>ExitUsage\<close> is the usage text and the exit code 1, after the name of an unknown subcommand.\<close>

datatype snk_cmd = RunNode "string list" | RunRelay "string list" | RunMassStorage "string list" | ExitUsage "string option"

definition snk_main :: "string list \<Rightarrow> snk_cmd" where
  "snk_main args =
     (if length args < 2 then ExitUsage None
      else if args ! 1 = ''node'' then RunNode (drop 2 args)
      else if args ! 1 = ''relay'' then RunRelay (drop 2 args)
      else if args ! 1 = ''mass-storage'' then RunMassStorage (drop 2 args)
      else ExitUsage (Some (args ! 1)))"

section \<open>Putting a node and a relay together\<close>

datatype fatal = FatalBlocks string | FatalFlag flag_err | FatalMessages string

text \<open>\<open>rn_spawned\<close> are the peers with a synchronisation in a goroutine of its own; \<open>rn_lanRelay\<close> and \<open>rn_usb\<close> are there if enabled.\<close>

record 'db running =
  rn_store :: "'db BadgerStore"
  rn_peers :: nodePeers
  rn_spawned :: "string list"
  rn_fs :: fsys
  rn_sources :: merge
  rn_relay :: "('db BadgerStore, nodePeers) Server option"
  rn_api :: "('db BadgerStore, unit) ApiServer option"
  rn_usb :: "path option"
  rn_rotate :: bool

definition peer_sources :: "bool \<Rightarrow> merge" where
  "peer_sources lanScan = mergePeers (if lanScan then [dc_out Discover] else [])"

definition cmdNode ::
  "env \<Rightarrow> net \<Rightarrow> 'db badger \<Rightarrow> urls_json \<Rightarrow> known_order \<Rightarrow> nodeFlags \<Rightarrow> string + 'db \<Rightarrow> string + MessageStore \<Rightarrow> fsys
     \<Rightarrow> fatal + 'db running" where
  "cmdNode E N B J ord f db msgs fs =
     (case db of
        Inl e \<Rightarrow> Inl (FatalBlocks e)
      | Inr d \<Rightarrow>
          (case node_storage (nf_storageLimit f) (nf_reservePhysical f) (nf_reserveLan f) (OpenBadger d) of
             Inl e \<Rightarrow> Inl (FatalFlag e)
           | Inr bs \<Rightarrow>
               (case OpenMessageStore msgs of
                  Inl e \<Rightarrow> Inl (FatalMessages e)
                | Inr ms \<Rightarrow>
                    (let pt = node_peers N (nf_advertiseURL f) (nf_peerCache f);
                         (spawned, pt') = run_start N J (nf_powFloor f) (splitPeers (nf_peers f)) fs pt
                     in Inr \<lparr>rn_store = bs, rn_peers = pt', rn_spawned = spawned, rn_fs = fs, rn_sources = peer_sources (nf_lan f),
                             rn_relay = (if nf_lan f then Some (lan_relay E N B ord (nf_powFloor f) bs pt') else None),
                             rn_api = Some (node_api (nf_keystore f) bs ms fs),
                             rn_usb = (if nf_usbDir f \<noteq> [] then Some (nf_usbDir f) else None), rn_rotate = True\<rparr>))))"

definition cmdRelay ::
  "env \<Rightarrow> net \<Rightarrow> 'db badger \<Rightarrow> urls_json \<Rightarrow> known_order \<Rightarrow> geo_get \<Rightarrow> string option \<Rightarrow> (bytes \<Rightarrow> string + geo_reader) \<Rightarrow> time \<Rightarrow> time
     \<Rightarrow> relayFlags \<Rightarrow> string + 'db \<Rightarrow> fsys \<Rightarrow> fatal + 'db running" where
  "cmdRelay E N B J ord get createErr opener now modTime f db fs =
     (case db of
        Inl e \<Rightarrow> Inl (FatalBlocks e)
      | Inr d \<Rightarrow>
          (case relay_storage (rf_storageLimit f) (rf_reservePhysical f) (rf_reserveLan f) (rf_reserveRegional f) (rf_reserveGlobal f)
                  (OpenBadger d) of
             Inl e \<Rightarrow> Inl (FatalFlag e)
           | Inr bs \<Rightarrow>
               (let pt = node_peers N (rf_advertiseURL f) (rf_peerCache f);
                    (srv, fs') = relay_server E N B ord (rf_powFloor f) (rf_region f) (rf_geoipDB f) (rf_blocks f) get createErr opener
                                   (rf_geoipRefresh f) now modTime bs pt fs;
                    (spawned, pt') = run_start N J (rf_powFloor f) (splitPeers (rf_peers f)) fs' pt
                in Inr \<lparr>rn_store = bs, rn_peers = pt', rn_spawned = spawned, rn_fs = fs', rn_sources = peer_sources (rf_lan f),
                        rn_relay = Some (srv\<lparr>sv_peers := pt'\<rparr>), rn_api = None, rn_usb = None, rn_rotate = False\<rparr>)))"

text \<open>\<^verbatim>\<open>api.StatusProvider\<close> of a node: it has no Bluetooth.\<close>

definition node_ActiveBTSessions :: "nodePeers \<Rightarrow> int" where
  "node_ActiveBTSessions pt = 0"

section \<open>The running node\<close>

record ('db, 'w) snkEnv =
  sk_env :: env
  sk_net :: net
  sk_badger :: "'db badger"
  sk_jtext :: "resp_body \<Rightarrow> bytes"
  sk_http :: "string \<Rightarrow> 'w http"
  sk_ctxErr :: "'w \<Rightarrow> string option"
  sk_json :: urls_json
  sk_powFloor :: int
  sk_rotate :: bool
  sk_geoip :: "GeoIP option"
  sk_usbDir :: path

type_synonym ('db, 'w) node_state = "nodePeers \<times> fsys \<times> 'db BadgerStore \<times> 'w"

text \<open>One iteration of \<^verbatim>\<open>usbSyncLoop\<close>, a request to the server of the node, a block from the API, an update of the median.\<close>

datatype snk_event =
    SnkLoop node_event | SnkUsbTick time | SnkRequest time known_order request | SnkLocalPut time Stamp Payload | SnkMedian time

definition node_request ::
  "('db, 'w) snkEnv \<Rightarrow> time \<Rightarrow> known_order \<Rightarrow> request \<Rightarrow> nodePeers \<Rightarrow> 'db BadgerStore \<Rightarrow> (nodePeers \<times> 'db BadgerStore) option" where
  "node_request K t ord req pt s =
     map_option (\<lambda>(_, srv). (sv_peers srv, sv_store srv))
       (ServeHTTP (sk_env K) (sk_net K) t req
          ((lan_relay (sk_env K) (sk_net K) (sk_badger K) ord (sk_powFloor K) s pt)\<lparr>sv_geoip := sk_geoip K\<rparr>))"

fun snk_step :: "('db, 'w) snkEnv \<Rightarrow> snk_event \<Rightarrow> ('db, 'w) node_state \<Rightarrow> ('db, 'w) node_state option" where
  "snk_step K (SnkLoop ev) st =
     map_option snd
       (node_step (sk_env K) (sk_net K) (badger_store (sk_env K) (sk_badger K)) (sk_jtext K) (sk_http K) (sk_ctxErr K) (sk_json K)
          (sk_powFloor K) (sk_rotate K) ev st)"
| "snk_step K (SnkUsbTick t) (pt, fs, s, w) =
     map_option (\<lambda>(s', fs'). (pt, fs', s', w)) (usbSync_tick (sk_env K) (badger_store (sk_env K) (sk_badger K)) t (sk_usbDir K) s fs)"
| "snk_step K (SnkRequest t ord req) (pt, fs, s, w) =
     map_option (\<lambda>(pt', s'). (pt', fs, s', w)) (node_request K t ord req pt s)"
| "snk_step K (SnkLocalPut t stamp payload) (pt, fs, s, w) =
     (if wf_stamp stamp \<and> wf_payload payload
      then Some (pt, fs, snd (st_Put (badger_store (sk_env K) (sk_badger K)) t stamp payload TagPhysical s), w) else None)"
| "snk_step K (SnkMedian t) (pt, fs, s, w) = map_option (\<lambda>(_, s'). (pt, fs, s', w)) (RefreshMedian (sk_badger K) t s)"

fun snk_run :: "('db, 'w) snkEnv \<Rightarrow> snk_event list \<Rightarrow> ('db, 'w) node_state \<Rightarrow> ('db, 'w) node_state option" where
  "snk_run K [] st = Some st"
| "snk_run K (ev # evs) st = (case snk_step K ev st of None \<Rightarrow> None | Some st' \<Rightarrow> snk_run K evs st')"

section \<open>The block store of a running node\<close>

definition store_ok :: "env \<Rightarrow> 'db badger \<Rightarrow> 'db BadgerStore \<Rightarrow> bool" where
  "store_ok E B s \<longleftrightarrow> (\<forall>t. clock_ok t \<longrightarrow> badger_inv E B t s)"

lemma store_okI: "badger_inv E B t s \<Longrightarrow> store_ok E B s"
  by (simp add: store_ok_def badger_inv_def)

lemma store_okD: "store_ok E B s \<Longrightarrow> clock_ok t \<Longrightarrow> badger_inv E B t s"
  by (simp add: store_ok_def)

lemma store_Put_ok:
  "store_ok E B s \<Longrightarrow> clock_ok t \<Longrightarrow> wf_stamp stamp \<Longrightarrow> wf_payload payload \<Longrightarrow> store_ok E B (snd (Put E B t stamp payload tag s))"
  using badger.Put_inv [OF store_okD, of E B s t stamp payload tag] store_okI by fastforce

text \<open>The times of an event are times of the clock.\<close>

fun event_clock :: "snk_event \<Rightarrow> bool" where
  "event_clock (SnkLoop (Ticked ord clock)) = (\<forall>u. clock_ok (fst (clock u)))"
| "event_clock (SnkLoop (Spawned ord t1 t2 u)) = clock_ok t1"
| "event_clock (SnkLoop _) = True"
| "event_clock (SnkUsbTick t) = clock_ok t"
| "event_clock (SnkRequest t ord req) = clock_ok t"
| "event_clock (SnkLocalPut t stamp payload) = clock_ok t"
| "event_clock (SnkMedian t) = clock_ok t"

lemma syncOne_store:
  assumes "syncOne E N S jtext http ctxErr J ord pf t1 t2 u (pt, fs, s, w) = Some (sp, pt', fs', s', w')"
  obtains "s' = s" | since r w1 where "Pull jtext (http u) ctxErr (NewClient N u) S t1 pf since s w = Some (r, s', w1)"
proof (cases "map_of (np_known pt) u")
  case None
  then show thesis using that(1) assms by (simp add: syncOne_def)
next
  case (Some st)
  then obtain ids err s1 w1 where p: "Pull jtext (http u) ctxErr (NewClient N u) S t1 pf (ps_pullSince st) s w = Some ((ids, err), s1, w1)"
    using assms by (auto simp: syncOne_def split: option.splits)
  have "s' = s1" using assms Some p by (auto simp: syncOne_def Let_def split: option.splits prod.splits)
  then show thesis using that(2) p by blast
qed

lemma syncOne_ok:
  assumes "syncOne E N (badger_store E B) jtext http ctxErr J ord pf t1 t2 u (pt, fs, s, w) = Some (sp, pt', fs', s', w')"
    and "store_ok E B s" "clock_ok t1"
  shows "store_ok E B s'"
  using assms(1)
proof (rule syncOne_store)
  fix since r w1
  assume p: "Pull jtext (http u) ctxErr (NewClient N u) (badger_store E B) t1 pf since s w = Some (r, s', w1)"
  show ?thesis
    by (rule badger.Pull_inv [OF store_okD [OF assms(2,3)], of jtext "http u" ctxErr "NewClient N u" pf since w]) (use p store_okI in auto)
qed (use assms(2) in simp)

lemma sync_all_ok:
  "sync_all E N (badger_store E B) jtext http ctxErr J ord pf clock us (pt, fs, s, w) = Some (sp, pt', fs', s', w') \<Longrightarrow>
     store_ok E B s \<Longrightarrow> \<forall>u. clock_ok (fst (clock u)) \<Longrightarrow> store_ok E B s'"
proof (induction us arbitrary: pt fs s w sp)
  case (Cons u us)
  show ?case
  proof (cases "ctxErr w")
    case None
    then obtain sp1 pt1 fs1 s1 w1 sp2 where
      1: "syncOne E N (badger_store E B) jtext http ctxErr J ord pf (fst (clock u)) (snd (clock u)) u (pt, fs, s, w) = Some (sp1, pt1, fs1, s1, w1)"
      "sync_all E N (badger_store E B) jtext http ctxErr J ord pf clock us (pt1, fs1, s1, w1) = Some (sp2, pt', fs', s', w')"
      using Cons.prems(1) by (auto split: option.splits)
    show ?thesis using Cons.IH [OF 1(2) syncOne_ok [OF 1(1) Cons.prems(2)]] Cons.prems(3) by simp
  qed (use Cons.prems in simp)
qed simp

text \<open>What is read from a volume has the sizes of a stamp and a payload, whatever its files hold.\<close>

lemma FlatFile_Get_wf: "FlatFile_Get t usb i = Inr (stamp, payload) \<Longrightarrow> wf_stamp stamp \<and> wf_payload payload"
  by (auto simp: FlatFile_Get_def ReadFull_def wf_stamp_def wf_payload_def flatHeaderSize_def StampSize_def PayloadSize_def
      split: sum.splits io_err.splits if_splits)

lemma sync_ref_ok: "store_ok E B s \<Longrightarrow> clock_ok t \<Longrightarrow> store_ok E B (sync_ref (flat_store E) (badger_store E B) t usb i v s)"
proof -
  assume s: "store_ok E B s" "clock_ok t"
  have "store_ok E B (snd (st_Put (badger_store E B) t stamp payload TagPhysical s))" if "FlatFile_Get t usb i = Inr (stamp, payload)" for stamp payload
    using store_Put_ok [OF s] FlatFile_Get_wf [OF that] by simp
  then show ?thesis using s by (auto simp: sync_ref_def split: sum.split)
qed

lemma syncStores_ok:
  assumes "syncStores (flat_store E) (badger_store E B) t usb s = Some (err, s')" "store_ok E B s" "clock_ok t"
  shows "store_ok E B s'"
proof -
  obtain r where r: "page_loop (sync_body (flat_store E) (badger_store E B) t usb) [] s = Some r"
    "(case r of Inl (e, d) \<Rightarrow> (Some e, d) | Inr d \<Rightarrow> (None, d)) = (err, s')"
    using assms(1) unfolding syncStores_def by blast
  have fold: "store_ok E B d \<Longrightarrow> store_ok E B (fold (\<lambda>r. sync_ref (flat_store E) (badger_store E B) t usb (refID r) (refWF r)) refs d)" for refs d
    by (induction refs arbitrary: d) (simp_all add: sync_ref_ok assms(3))
  have "case r of Inl x \<Rightarrow> store_ok E B (snd x) | Inr d \<Rightarrow> store_ok E B d"
    by (rule page_loop_keeps [where P = "store_ok E B", OF r(1) assms(2)]) (auto simp: sync_body_def fold split: sum.split)
  then show ?thesis using r(2) by (auto split: sum.splits prod.splits)
qed

lemma usb_volumes_ok:
  "usb_volumes E (badger_store E B) t dir names (s, fs) = Some (s', fs') \<Longrightarrow> store_ok E B s \<Longrightarrow> clock_ok t \<Longrightarrow> store_ok E B s'"
proof (induction names arbitrary: s fs)
  case (Cons name names)
  obtain s1 fs1 where v: "usb_volume E (badger_store E B) t dir name (s, fs) = Some (s1, fs1)"
    "usb_volumes E (badger_store E B) t dir names (s1, fs1) = Some (s', fs')"
    using Cons.prems(1) by (auto split: option.splits)
  have "store_ok E B s1" using v(1) Cons.prems(2,3) by (auto simp: usb_volume_def Let_def split: if_splits sum.splits option.splits dest: syncStores_ok)
  then show ?case using Cons.IH [OF v(2)] Cons.prems(3) by simp
qed simp

lemma node_request_effect:
  assumes "node_request K t ord req pt s = Some (pt', s')" "store_ok (sk_env K) (sk_badger K) s" "clock_ok t"
  shows "store_ok (sk_env K) (sk_badger K) s'" "pt' = pt \<or> (\<exists>u. pt' = snd (addPeer (peerURL (sk_net K) u) pt))"
proof -
  let ?srv = "(lan_relay (sk_env K) (sk_net K) (sk_badger K) ord (sk_powFloor K) s pt)\<lparr>sv_geoip := sk_geoip K\<rparr>"
  have srv: "sv_store ?srv = s" "sv_ops ?srv = badger_store (sk_env K) (sk_badger K)" "sv_peers ?srv = pt"
    "sv_peerAdder ?srv = Some (\<lambda>u pt. snd (addPeer (peerURL (sk_net K) u) pt))"
    by (simp_all add: lan_relay_def NewServer_def SetPeerSource_def SetPeerAdder_def)
  obtain r srv' where q: "ServeHTTP (sk_env K) (sk_net K) t req ?srv = Some (r, srv')" "pt' = sv_peers srv'" "s' = sv_store srv'"
    using assms(1) by (auto simp: node_request_def)
  show "store_ok (sk_env K) (sk_badger K) s'"
    using ServeHTTP_effect(1) [OF q(1)] store_Put_ok [OF assms(2,3)] assms(2) unfolding q(3) by (auto simp: store_gate_def srv)
  show "pt' = pt \<or> (\<exists>u. pt' = snd (addPeer (peerURL (sk_net K) u) pt))"
    using ServeHTTP_effect(2) [OF q(1)] by (auto simp: q(2) srv)
qed

lemma snk_step_store:
  assumes "snk_step K ev (pt, fs, s, w) = Some (pt', fs', s', w')" "store_ok (sk_env K) (sk_badger K) s" "event_clock ev"
  shows "store_ok (sk_env K) (sk_badger K) s'"
proof (cases "(K, ev, (pt, fs, s, w))" rule: snk_step.cases)
  case (1 K' nev st)
  show ?thesis
  proof (cases nev)
    case (Discovered ord addr)
    then show ?thesis using assms 1 by (auto split: prod.splits)
  next
    case NoMorePeers
    then show ?thesis using assms 1 by auto
  next
    case (Ticked ord clock)
    then obtain sp where "doSync (sk_env K) (sk_net K) (badger_store (sk_env K) (sk_badger K)) (sk_jtext K) (sk_http K) (sk_ctxErr K) (sk_json K)
        ord (sk_powFloor K) clock (sk_rotate K) (pt, fs, s, w) = Some (sp, pt', fs', s', w')"
      using assms(1) 1 by auto
    then show ?thesis using assms(2,3) 1 Ticked by (auto simp: doSync_def split: prod.splits dest: sync_all_ok)
  next
    case (Spawned ord t1 t2 u)
    then show ?thesis using assms 1 by (auto dest: syncOne_ok)
  qed
next
  case (2 K' t pt0 fs0 s0 w0)
  then show ?thesis using assms by (auto simp: usbSync_tick_def split: sum.splits dest: usb_volumes_ok)
next
  case (3 K' t ord req pt0 fs0 s0 w0)
  then show ?thesis using assms by (auto dest: node_request_effect(1))
next
  case (4 K' t stamp payload pt0 fs0 s0 w0)
  then show ?thesis using assms store_Put_ok [OF assms(2), of t stamp payload TagPhysical] by (auto split: if_splits)
next
  case (5 K' t pt0 fs0 s0 w0)
  then have t: "clock_ok t" and "bs_db s' = bs_db s" using assms by (auto simp: RefreshMedian_def split: option.splits sum.splits)
  then show ?thesis using badger_inv_db [OF store_okD [OF assms(2) t], of s'] store_okI by blast
qed

section \<open>The table of peers of a running node\<close>

definition knows :: "string \<Rightarrow> nodePeers \<Rightarrow> bool" where
  "knows u pt \<longleftrightarrow> map_of (np_known pt) u \<noteq> None"

lemma addPeer_knows: "knows u pt \<Longrightarrow> knows u (snd (addPeer v pt))"
  using addPeer_lookup by (auto simp: knows_def)

lemma gossip_knows: "knows u pt \<Longrightarrow> knows u (snd (fold (gossip_peer N) urls (added, pt)))"
  using gossip_peers_lookup by (auto simp: knows_def)

lemma update_knows [simp]: "knows u (update_peer v f pt) = knows u pt"
  by (simp add: knows_def update_peer_lookup)

lemma syncOne_knows:
  assumes "knows v pt" "syncOne E N S jtext http ctxErr J ord pf t1 t2 u (pt, fs, s, w) = Some (sp, pt', fs', s', w')"
  shows "knows v pt'"
proof (cases "map_of (np_known pt) u")
  case None
  then show ?thesis using assms syncOne_unknown [OF None, of E N S jtext http ctxErr J ord pf t1 t2 fs s w] by simp
next
  case (Some st)
  from assms(2) Some show ?thesis by (rule syncOne_cases) (simp_all add: assms(1) gossip_knows)
qed

lemma sync_all_knows:
  "sync_all E N S jtext http ctxErr J ord pf clock us (pt, fs, s, w) = Some (sp, pt', fs', s', w') \<Longrightarrow> knows v pt \<Longrightarrow> knows v pt'"
proof (induction us arbitrary: pt fs s w sp)
  case (Cons u us)
  show ?case
  proof (cases "ctxErr w")
    case None
    then obtain sp1 pt1 fs1 s1 w1 sp2 where
      1: "syncOne E N S jtext http ctxErr J ord pf (fst (clock u)) (snd (clock u)) u (pt, fs, s, w) = Some (sp1, pt1, fs1, s1, w1)"
      "sync_all E N S jtext http ctxErr J ord pf clock us (pt1, fs1, s1, w1) = Some (sp2, pt', fs', s', w')"
      using Cons.prems(1) by (auto split: option.splits)
    show ?thesis by (rule Cons.IH [OF 1(2) syncOne_knows [OF Cons.prems(2) 1(1)]])
  qed (use Cons.prems in simp)
qed simp

lemma select_knows [simp]: "knows u (snd (doSync_select r ord pt)) = knows u pt"
  by (simp add: knows_def tick_lookup)

lemma node_step_knows:
  assumes "node_step E N S jtext http ctxErr J pf rot ev (pt, fs, s, w) = Some (sp, pt', fs', s', w')" "knows v pt"
  shows "knows v pt'"
proof (cases ev)
  case (Discovered ord addr)
  then show ?thesis using assms addPeer_knows [OF assms(2), of "peerURL N addr"] by (auto simp: run_discovered_def split: prod.splits bool.splits)
next
  case NoMorePeers
  then show ?thesis using assms by simp
next
  case (Ticked ord clock)
  obtain us pt1 where s: "doSync_select rot ord pt = (us, pt1)" by fastforce
  have "knows v pt1" using select_knows [of v rot ord pt] assms(2) by (simp add: s)
  then show ?thesis using assms(1) Ticked s sync_all_knows by (auto simp: doSync_def)
next
  case (Spawned ord t1 t2 u)
  then show ?thesis using assms syncOne_knows by auto
qed

text \<open>Every step keeps the table reachable and every peer in it.\<close>

lemma snk_step_peers:
  assumes "snk_step K ev (pt, fs, s, w) = Some (pt', fs', s', w')" "store_ok (sk_env K) (sk_badger K) s" "event_clock ev"
    and "np_reach (sk_env K) (sk_net K) (badger_store (sk_env K) (sk_badger K)) (sk_http K) adv peersFile pt"
  shows "np_reach (sk_env K) (sk_net K) (badger_store (sk_env K) (sk_badger K)) (sk_http K) adv peersFile pt'" "knows v pt \<Longrightarrow> knows v pt'"
proof -
  have "np_reach (sk_env K) (sk_net K) (badger_store (sk_env K) (sk_badger K)) (sk_http K) adv peersFile pt' \<and> (knows v pt \<longrightarrow> knows v pt')"
  proof (cases "(K, ev, (pt, fs, s, w))" rule: snk_step.cases)
    case (1 K' nev st)
    then obtain sp where n: "node_step (sk_env K) (sk_net K) (badger_store (sk_env K) (sk_badger K)) (sk_jtext K) (sk_http K) (sk_ctxErr K)
        (sk_json K) (sk_powFloor K) (sk_rotate K) nev (pt, fs, s, w) = Some (sp, pt', fs', s', w')"
      using assms(1) by auto
    show ?thesis using node_step_reach [OF assms(4) n] node_step_knows [OF n] by blast
  next
    case (3 K' t ord req pt0 fs0 s0 w0)
    then have "pt' = pt \<or> (\<exists>u. pt' = snd (addPeer (peerURL (sk_net K) u) pt))"
      using assms(1-3) node_request_effect(2) [of K t ord req pt s pt' s'] by auto
    then show ?thesis using assms(4) np_reach.Hello [OF assms(4)] addPeer_knows by auto
  qed (use assms in \<open>auto split: if_splits\<close>)
  then show "np_reach (sk_env K) (sk_net K) (badger_store (sk_env K) (sk_badger K)) (sk_http K) adv peersFile pt'" "knows v pt \<Longrightarrow> knows v pt'"
    by simp_all
qed

lemma snk_run_keeps:
  assumes "snk_run K evs (pt, fs, s, w) = Some (pt', fs', s', w')" "store_ok (sk_env K) (sk_badger K) s" "list_all event_clock evs"
    and "np_reach (sk_env K) (sk_net K) (badger_store (sk_env K) (sk_badger K)) (sk_http K) adv peersFile pt"
  shows "store_ok (sk_env K) (sk_badger K) s' \<and>
    np_reach (sk_env K) (sk_net K) (badger_store (sk_env K) (sk_badger K)) (sk_http K) adv peersFile pt' \<and> (knows v pt \<longrightarrow> knows v pt')"
  using assms
proof (induction evs arbitrary: pt fs s w)
  case (Cons ev evs)
  obtain pt1 fs1 s1 w1 where st: "snk_step K ev (pt, fs, s, w) = Some (pt1, fs1, s1, w1)" "snk_run K evs (pt1, fs1, s1, w1) = Some (pt', fs', s', w')"
    using Cons.prems(1) by (auto split: option.splits)
  have ev: "event_clock ev" "list_all event_clock evs" using Cons.prems(3) by simp_all
  note 1 = snk_step_store [OF st(1) Cons.prems(2) ev(1)] snk_step_peers [OF st(1) Cons.prems(2) ev(1) Cons.prems(4)]
  show ?case using Cons.IH [OF st(2) 1(1) ev(2) 1(2)] 1(3) by blast
qed simp

lemma known_full:
  assumes "np_inv adv pt" "np_inv adv pt'" "\<And>v. knows v pt \<Longrightarrow> knows v pt'"
  shows "length (np_known pt) \<le> length (np_known pt')"
proof -
  have keys: "fst ` set (np_known p) = {v. knows v p}" for p by (force simp: knows_def map_of_eq_None_iff)
  have card: "np_inv adv p \<Longrightarrow> card (fst ` set (np_known p)) = length (np_known p)" for p
    using distinct_card [of "map fst (np_known p)"] by (simp add: np_inv_def)
  have "fst ` set (np_known pt) \<subseteq> fst ` set (np_known pt')" unfolding keys using assms(3) by blast
  then have "card (fst ` set (np_known pt)) \<le> card (fst ` set (np_known pt'))" by (rule card_mono [rotated]) simp
  then show ?thesis using card assms(1,2) by metis
qed

lemma addPeer_result: "knows u (snd (addPeer u pt)) \<or> u = np_advertiseURL pt \<or> maxPeers \<le> length (np_known pt)"
  by (auto simp: addPeer_def knows_def update_conv')

lemma addPeers_knows: "knows v pt \<Longrightarrow> knows v (fold (\<lambda>u pt. snd (addPeer (f u) pt)) us pt)"
  by (induction us arbitrary: pt) (simp_all add: addPeer_knows)

lemma addPeers_result:
  "np_inv adv pt \<Longrightarrow> u \<in> set us \<Longrightarrow>
     knows (f u) (fold (\<lambda>u pt. snd (addPeer (f u) pt)) us pt) \<or> f u = adv \<or> maxPeers \<le> length (np_known (fold (\<lambda>u pt. snd (addPeer (f u) pt)) us pt))"
proof (induction us arbitrary: pt)
  case (Cons v us)
  let ?pt = "snd (addPeer (f v) pt)" and ?all = "fold (\<lambda>u pt. snd (addPeer (f u) pt)) us"
  have inv: "np_inv adv ?pt" "np_inv adv (?all ?pt)" by (simp_all add: addPeer_inv addPeers_inv Cons.prems(1))
  show ?case
  proof (cases "u = v")
    case True
    have "length (np_known pt) \<le> length (np_known (?all ?pt))"
      by (rule known_full [OF Cons.prems(1) inv(2)]) (simp add: addPeers_knows addPeer_knows)
    then show ?thesis using True addPeer_result [of "f v" pt] addPeers_knows [of "f v" ?pt f us] Cons.prems(1)
      by (auto simp: np_inv_def)
  next
    case False
    then show ?thesis using Cons.IH [OF inv(1)] Cons.prems(2) by simp
  qed
qed simp

lemma node_storage_db: "node_storage a b c bs = Inr bs' \<Longrightarrow> bs_db bs' = bs_db bs"
  by (auto simp: node_storage_def WithReservations_def WithStorageLimit_def split: option.splits if_splits)

lemma cmdNode_iff:
  "(\<exists>rn. cmdNode E N B J ord f db msgs fs = Inr rn) \<longleftrightarrow>
     (\<exists>d. db = Inr d) \<and>
     (\<exists>limit. parseBytes (nf_storageLimit f) = Some limit \<and>
        (limit \<le> 0 \<or> (\<exists>physical lan. parseBytes (nf_reservePhysical f) = Some physical \<and> parseBytes (nf_reserveLan f) = Some lan))) \<and>
     (\<exists>ms. OpenMessageStore msgs = Inr ms)"
  by (auto simp: cmdNode_def node_storage_def Let_def case_prod_beta not_le split: sum.splits option.splits if_splits)

definition own_url :: "net \<Rightarrow> nodeFlags \<Rightarrow> string" where
  "own_url N f = (if nf_advertiseURL f \<noteq> [] then peerURL N (nf_advertiseURL f) else [])"

lemma cmdNode_running:
  assumes "cmdNode E N B J ord f (Inr d) msgs fs = Inr rn" "badger_inv E B t (OpenBadger d)"
  shows "store_ok E B (rn_store rn)" "np_reach E N S http (own_url N f) (nf_peerCache f) (rn_peers rn)"
    "u \<in> set (splitPeers (nf_peers f)) \<Longrightarrow>
       knows (peerURL N u) (rn_peers rn) \<or> peerURL N u = own_url N f \<or> maxPeers \<le> length (np_known (rn_peers rn))"
proof -
  let ?pt = "node_peers N (nf_advertiseURL f) (nf_peerCache f)" and ?us = "splitPeers (nf_peers f)"
  obtain bs where bs: "node_storage (nf_storageLimit f) (nf_reservePhysical f) (nf_reserveLan f) (OpenBadger d) = Inr bs" "rn_store rn = bs"
    "rn_peers rn = snd (run_start N J (nf_powFloor f) ?us fs ?pt)"
    using assms(1) by (auto simp: cmdNode_def Let_def case_prod_beta split: sum.splits)
  have pt: "?pt = new_nodePeers (own_url N f) (nf_peerCache f)" by (simp add: node_peers_def own_url_def)
  show "store_ok E B (rn_store rn)" using badger_inv_db [OF assms(2) node_storage_db [OF bs(1)]] store_okI by (simp add: bs(2))
  show "np_reach E N S http (own_url N f) (nf_peerCache f) (rn_peers rn)" unfolding bs(3) pt by (rule np_reach.Start [OF np_reach.New])
  define pt1 where "pt1 = loadPeers J fs (?pt\<lparr>np_syncPowFloor := Some (nf_powFloor f)\<rparr>)"
  have "np_inv (own_url N f) (snd (run_start N J (nf_powFloor f) [] fs ?pt))"
    unfolding pt by (rule np_reach_inv [OF np_reach.Start [OF np_reach.New [where E = E and S = S and http = http]]])
  then have "np_inv (own_url N f) pt1" by (simp add: run_start_def Let_def pt1_def)
  from addPeers_result [OF this, of u ?us "peerURL N"]
  show "u \<in> set ?us \<Longrightarrow> knows (peerURL N u) (rn_peers rn) \<or> peerURL N u = own_url N f \<or> maxPeers \<le> length (np_known (rn_peers rn))"
    by (simp add: bs(3) run_start_def Let_def flip: pt1_def)
qed

section \<open>Properties\<close>

text \<open>A node starts exactly if its database opens, its sizes parse (the reservations only count when there is a limit) and its message
  store opens.\<close>

theorem cmdNode_starts:
  "(\<exists>rn. cmdNode E N B J ord f db msgs fs = Inr rn) \<longleftrightarrow>
     (\<exists>d. db = Inr d) \<and>
     (\<exists>limit. parseBytes (nf_storageLimit f) = Some limit \<and>
        (limit \<le> 0 \<or> (\<exists>physical lan. parseBytes (nf_reservePhysical f) = Some physical \<and> parseBytes (nf_reserveLan f) = Some lan))) \<and>
     (\<exists>ms. OpenMessageStore msgs = Inr ms)"
  by (rule cmdNode_iff)

text \<open>C20: A node that \<^verbatim>\<open>cmdNode\<close> starts, after any events of its loop, its USB volumes (whatever they hold), its servers and its API: the block store keeps
  its invariant; the table has at most 200 peers, all distinct, without the node itself; and a peer named on the command line is in it
  unless the table is full.\<close>

theorem node_invariant:
  assumes "cmdNode (sk_env K) (sk_net K) (sk_badger K) J ord f (Inr d) msgs fs = Inr rn"
    and "badger_inv (sk_env K) (sk_badger K) t (OpenBadger d)" "list_all event_clock evs"
    and "snk_run K evs (rn_peers rn, rn_fs rn, rn_store rn, w) = Some (pt, fs', s, w')"
  shows "(\<forall>t. clock_ok t \<longrightarrow> badger_inv (sk_env K) (sk_badger K) t s) \<and>
    distinct (map fst (np_known pt)) \<and> length (np_known pt) \<le> maxPeers \<and> (own_url (sk_net K) f \<noteq> [] \<longrightarrow> \<not> knows (own_url (sk_net K) f) pt) \<and>
    (\<forall>u \<in> set (splitPeers (nf_peers f)).
       knows (peerURL (sk_net K) u) pt \<or> peerURL (sk_net K) u = own_url (sk_net K) f \<or> length (np_known pt) = maxPeers)"
proof -
  note r = cmdNode_running(1) [OF assms(1,2)]
    cmdNode_running(2) [OF assms(1,2), where S = "badger_store (sk_env K) (sk_badger K)" and http = "sk_http K"]
    cmdNode_running(3) [OF assms(1,2)]
  note k = snk_run_keeps [OF assms(4) r(1) assms(3) r(2)]
  have inv: "np_inv (own_url (sk_net K) f) (rn_peers rn)" "np_inv (own_url (sk_net K) f) pt" using r(2) k np_reach_inv by blast+
  have len: "length (np_known (rn_peers rn)) \<le> length (np_known pt)" by (rule known_full [OF inv]) (use k in blast)
  have static: "knows (peerURL (sk_net K) u) pt \<or> peerURL (sk_net K) u = own_url (sk_net K) f \<or> length (np_known pt) = maxPeers"
    if "u \<in> set (splitPeers (nf_peers f))" for u
    using r(3) [OF that] k inv(2) len by (fastforce simp: np_inv_def)
  show ?thesis using inv(2) k static by (auto simp: np_inv_def store_ok_def knows_def map_of_eq_None_iff)
qed

text \<open>An address that the scan discovers is in the table from then on, unless it is the node's own or the table is full.\<close>

theorem discovered_known:
  assumes "np_reach (sk_env K) (sk_net K) (badger_store (sk_env K) (sk_badger K)) (sk_http K) adv peersFile pt"
    and "store_ok (sk_env K) (sk_badger K) s" "list_all event_clock evs"
    and "snk_run K (SnkLoop (Discovered ord addr) # evs) (pt, fs, s, w) = Some (pt', fs', s', w')"
  shows "knows (peerURL (sk_net K) addr) pt' \<or> peerURL (sk_net K) addr = adv \<or> length (np_known pt') = maxPeers"
proof -
  let ?u = "peerURL (sk_net K) addr"
  obtain pt1 fs1 s1 w1 where st: "snk_step K (SnkLoop (Discovered ord addr)) (pt, fs, s, w) = Some (pt1, fs1, s1, w1)"
    "snk_run K evs (pt1, fs1, s1, w1) = Some (pt', fs', s', w')"
    using assms(4) by (auto split: option.splits)
  have ev: "event_clock (SnkLoop (Discovered ord addr))" by simp
  have pt1: "pt1 = snd (addPeer ?u pt)" using st(1) by (auto simp: run_discovered_def split: prod.splits bool.splits)
  note 1 = snk_step_store [OF st(1) assms(2) ev] snk_step_peers [OF st(1) assms(2) ev assms(1)]
  note k = snk_run_keeps [OF st(2) 1(1) assms(3) 1(2)]
  have inv: "np_inv adv pt" "np_inv adv pt1" "np_inv adv pt'" using assms(1) 1(2) k np_reach_inv by blast+
  have len: "length (np_known pt) \<le> length (np_known pt')" by (rule known_full [OF inv(1,3)]) (use k 1(3) in blast)
  from addPeer_result [of ?u pt] consider "knows ?u pt1" | "?u = adv" | "maxPeers \<le> length (np_known pt)"
    using inv(1) by (auto simp: pt1 np_inv_def)
  then show ?thesis using k len inv(3) by cases (auto simp: np_inv_def)
qed

text \<open>A node with the default flags, with one relay on the command line and a network that is down.\<close>

definition snkEnv0 :: "(mem_db, unit) snkEnv" where
  "snkEnv0 = \<lparr>sk_env = env0, sk_net = net0, sk_badger = mem_badger, sk_jtext = (\<lambda>_. []), sk_http = (\<lambda>_ _ w. (Inl (DoErr ''down''), w)),
     sk_ctxErr = (\<lambda>_. None), sk_json = \<lparr>uj_Marshal = (\<lambda>_. []), uj_Unmarshal = (\<lambda>_. None)\<rparr>, sk_powFloor = 0, sk_rotate = True,
     sk_geoip = None, sk_usbDir = []\<rparr>"

definition flags0 :: nodeFlags where
  "flags0 = nodeFlags_default\<lparr>nf_peers := ''http://a''\<rparr>"

lemma snkEnv0_simps [simp]: "sk_env snkEnv0 = env0" "sk_net snkEnv0 = net0" "sk_badger snkEnv0 = mem_badger"
  by (simp_all add: snkEnv0_def)

lemma node0_starts:
  obtains rn where "cmdNode env0 net0 mem_badger (sk_json snkEnv0) rev flags0 (Inr []) (Inr fresh_db) fs_empty = Inr rn"
proof -
  have p: "parseBytes ''0'' = Some 0" by (simp add: parseBytes_def TrimSpace_visible visible_def)
  have m: "OpenMessageStore (Inr fresh_db) = Inr empty_ms" by (simp add: OpenMessageStore_def empty_ms_def migrate_def fresh_db_def Let_def)
  show thesis using that cmdNode_iff [of env0 net0 mem_badger "sk_json snkEnv0" rev flags0 "Inr []" "Inr fresh_db" fs_empty]
    by (auto simp: flags0_def nodeFlags_default_def p m)
qed

theorem node_invariant_witness:
  "\<exists>rn pt fs s w. cmdNode env0 net0 mem_badger (sk_json snkEnv0) rev flags0 (Inr []) (Inr fresh_db) fs_empty = Inr rn \<and>
    snk_run snkEnv0 [SnkLoop (Discovered rev ''b:1''), SnkLoop NoMorePeers] (rn_peers rn, rn_fs rn, rn_store rn, ()) = Some (pt, fs, s, w) \<and>
    badger_inv env0 mem_badger 0 s \<and> length (np_known pt) \<le> 200"
proof -
  obtain rn where rn: "cmdNode env0 net0 mem_badger (sk_json snkEnv0) rev flags0 (Inr []) (Inr fresh_db) fs_empty = Inr rn" by (rule node0_starts)
  let ?evs = "[SnkLoop (Discovered rev ''b:1''), SnkLoop NoMorePeers]"
  obtain pt fs s w where r: "snk_run snkEnv0 ?evs (rn_peers rn, rn_fs rn, rn_store rn, ()) = Some (pt, fs, s, w)"
  proof -
    obtain sp pt1 fs1 where "run_discovered net0 (sk_json snkEnv0) rev ''b:1'' (rn_peers rn, rn_fs rn) = (sp, pt1, fs1)" by (metis prod_cases3)
    then show thesis using that by simp
  qed
  have c: "clock_ok 0" using badger.clock [OF open_inv] .
  have "list_all event_clock ?evs" by simp
  from node_invariant [of snkEnv0, unfolded snkEnv0_simps, OF rn open_inv this r] c show ?thesis using rn r by (auto simp: maxPeers_def)
qed

theorem discovered_known_witness:
  "\<exists>pt fs s w. snk_run snkEnv0 [SnkLoop (Discovered rev ''b:1''), SnkLoop NoMorePeers] (new_nodePeers [] [], fs_empty, OpenBadger [], ()) =
      Some (pt, fs, s, w) \<and> knows (peerURL net0 ''b:1'') pt"
proof -
  let ?evs = "[SnkLoop NoMorePeers]"
  obtain pt fs s w where r: "snk_run snkEnv0 (SnkLoop (Discovered rev ''b:1'') # ?evs) (new_nodePeers [] [], fs_empty, OpenBadger [], ()) =
      Some (pt, fs, s, w)" "length (np_known pt) \<le> 1"
    by (simp add: run_discovered_def addPeer_def new_nodePeers_def maxPeers_def)
  have u: "peerURL net0 ''b:1'' \<noteq> []" by (simp add: peerURL_def Let_def)
  have c: "list_all event_clock ?evs" by simp
  have reach: "np_reach (sk_env snkEnv0) (sk_net snkEnv0) (badger_store (sk_env snkEnv0) (sk_badger snkEnv0)) (sk_http snkEnv0) [] [] (new_nodePeers [] [])"
    by (rule np_reach.New)
  have ok: "store_ok (sk_env snkEnv0) (sk_badger snkEnv0) (OpenBadger [])" using store_okI [OF open_inv] by simp
  from discovered_known [OF reach ok c r(1)] r u show ?thesis by (auto simp: maxPeers_def)
qed

end
