(* ===== verification/Spec2Isabelle.thy ===== *)
theory Spec2Isabelle
  imports BadgerProps BlockIndex NetTags Scraper MassStorage Lan Node ApiList ApiEngine EngineProps Commands
begin

text \<open>
  Verification of sneakernet, a store-and-forward network for encrypted messages.

  \<^bold>\<open>The program.\<close>  Messages are encrypted into blocks of 4096 bytes, stamped with a proof
  of work and kept in a block store (\<^verbatim>\<open>blockstore/\<close>).  Stores synchronise over
  HTTP relays (\<^verbatim>\<open>transport/relay/\<close>), over the LAN and over Bluetooth.  A client
  (\<^verbatim>\<open>client/\<close>) keeps identities and channels in a password-protected keystore, scrapes
  its block store for blocks that one of its keys opens and saves the messages.  The more work
  a stamp shows, the longer its block lives; a full store evicts what expires soonest.

  \<^bold>\<open>Theories and sources.\<close>
  \<^item> \<open>Prelude\<close>, \<open>GoLib\<close>, \<open>Codecs\<close>, \<open>GoStrings\<close>, \<open>Runtime\<close>: bytes, words, times, early-returning
    loops (\<open>efold\<close>), hexadecimal and base64, UTF-8, trimming, and the parameters for hashes
    (\<open>env\<close>): what the sources use of the language and its library.
  \<^item> \<open>Pow\<close>: \<^verbatim>\<open>blockstore/pow.go\<close>.  \<open>Blockstore\<close>: \<^verbatim>\<open>blockstore/blockstore.go\<close>, the
    interface \<^verbatim>\<open>Store\<close> as a record of operations and its contract as the locales
    \<open>block_store\<close> and \<open>keeping_store\<close>; the loop over pages is \<open>page_loop\<close>.
  \<^item> \<open>BadgerDB\<close>, \<open>BadgerStore\<close>, \<open>BadgerProofs\<close>, \<open>BadgerList\<close>, \<open>BadgerEvict\<close>, \<open>BadgerProps\<close>:
    \<^verbatim>\<open>blockstore/badger.go\<close> over a parameter for the database, and that it implements the contract.
  \<^item> \<open>FileSystem\<close>, \<open>FlatFile\<close>, \<open>FlatProofs\<close>: \<^verbatim>\<open>blockstore/flatfile.go\<close> over a file
    system with faults, and that it implements the contract.  \<open>BlockIndex\<close>:
    \<^verbatim>\<open>blockstore/index.go\<close>.
  \<^item> \<open>Bloom\<close>, \<open>NetTags\<close>, \<open>GeoRefresh\<close>, \<open>RelayServer\<close>, \<open>RelayClient\<close>, \<open>RelaySync\<close>: \<^verbatim>\<open>transport/relay/\<close>: the filter of
    known blocks, the tags of addresses and the database behind them, every handler, every request of the client, the two halves of a
    synchronisation, for every pair of stores that meet the contract, and what both together give.
  \<^item> \<open>MessageFormat\<close>, \<open>Crypto\<close>, \<open>IdPow\<close>, \<open>MessageStore\<close>, \<open>Keystore\<close>, \<open>KeystoreProps\<close>, \<open>Scraper\<close>:
    the package \<^verbatim>\<open>client/\<close>.
  \<^item> \<open>Api\<close>, \<open>ApiMessages\<close>: \<^verbatim>\<open>client/api/\<close>: the server as a record, one definition per handler, the routes
    and the check of the token.  \<open>ApiSession\<close>: sessions and tokens.  \<open>ApiProps\<close>, \<open>ApiList\<close>: sending,
    boosting, failed saves, the list of messages.
  \<^item> \<open>PeerTracker\<close>, \<open>Engine\<close>: \<^verbatim>\<open>mobile/\<close>: the table of peers with its file, the engine with its storage
    quota, a round of synchronisation and a Bluetooth session.  \<open>ApiEngine\<close>: the HTTP interface over the engine,
    with the contract of a peer manager as the locale \<open>peer_manager\<close> and the tracker as its instance.
  \<^item> \<open>Transfers\<close>: what a transfer keeps whatever the other side answers, for every store that meets the contract.
    \<open>EngineLoops\<close>: \<^verbatim>\<open>mobile/engine.go\<close> as a running program, its goroutines as steps that interleave in any order
    (\<open>engine_step\<close>, \<open>engine_run\<close>), up to \<^verbatim>\<open>Close\<close>.  \<open>EngineProps\<close>: what holds in every run.
  \<^item> \<open>Bluetooth\<close>: \<^verbatim>\<open>transport/bluetooth/\<close>.  \<open>Decimal\<close>, \<open>Lan\<close>: \<^verbatim>\<open>transport/lan/\<close>.
    \<open>Channels\<close>: its pool of probes and its goroutine \<^verbatim>\<open>Discover\<close>, and the fan-in \<^verbatim>\<open>mergePeers\<close>, as steps of goroutines over channels.
  \<^item> \<open>MassStorage\<close>, \<open>Node\<close>: \<^verbatim>\<open>cmd/snk/main.go\<close>: copying between stores, USB volumes, the mass-storage command;
    the peers of a node, their backoff, its loop as a run of events, the options for storage and the relay's configuration.
    \<open>Commands\<close>: the subcommands, their flags, \<^verbatim>\<open>cmdNode\<close> and \<^verbatim>\<open>cmdRelay\<close>, and the node that they start as a run of events.

  \<^bold>\<open>Parameters.\<close>  SHA-256, Argon2id and the sorting algorithm are fields of \<open>env\<close>, the
  curve and cipher operations fields of \<open>crypto\<close>, the Badger database a record \<open>badger\<close>
  with the laws \<open>badger_laws\<close>, the JSON package a record \<open>ks_json\<close>, the GeoIP reader and the URL parser
  fields of \<open>net\<close>.  The hypotheses on them are lengths of results and documented behaviour:
  that opening inverts sealing, that a committed transaction is seen by the next one.
  Each theorem that has such a hypothesis is applied to a concrete instance.

  \<^bold>\<open>Conventions.\<close>  The clock is an argument and stands still during one operation.  A value of type
  \<open>err + 'a\<close> is Go's pair of result and error; \<open>None\<close> for the result of an operation that may
  panic is a panic.  Loops over pages and the mining loops are
  partial functions: \<open>None\<close> is a loop that does not end, and the theorems about them show
  that they do end.

  A goroutine is a list of phases or the state of a loop; one event is one step of one goroutine, and a run is a list of events in any
  order, so that a statement about every run is one about every interleaving.  One transfer with a relay and one handler are single
  steps.  What an environment decides (the answer of a relay, the moment of a tick, whether a cancelled context is noticed) belongs to
  the event.  Lists of events are finite and have no bound; the only bounds are those of the code (64 probes, 16 places in a channel,
  200 peers).

  A handler of the HTTP interface is one step; a request is its decoded parameters, and
  what it draws at random and its deadlines are the record \<open>draws\<close>.  The order of a Go map is an argument (\<open>order_ok\<close>).

  \<^bold>\<open>What the lemmas show.\<close>  Both backends implement one contract, so that
  the results on relays and on scraping hold for both; insertion, eviction,
  tombstones and paging of the Badger store; what a synchronisation transfers in either
  direction, over a relay, a USB volume or Bluetooth, for a phone and for a node; that messages survive encryption, storage and the
  keystore's file; that a message put into the store reaches the recipient's message table; that a sent message is in the store,
  opens with the recipient's key and is listed; that there is a keystore behind every session, that tokens come from the password
  only and that a locked server stays locked; that peers rotate, back off and stay blocked.  For the running programs: in every
  interleaving the store, the peers and the counter of sessions keep their invariant, a round of synchronisation ends after at most
  seven steps of its own, a peer that is blocked is not picked, the phases of a round compose to the round; the fan-in of channels
  neither loses nor reorders addresses and delivers them; a discovered peer stays known.  Where the code does not do what it is
  meant to, the theorem states what it does: out-of-range lifetimes, lost channels in a migration, a stuck Bluetooth sender,
  byte counts that are misread, identities that a failed save leaves in memory.

  \<^bold>\<open>Not modelled.\<close>  Sockets and listeners themselves and the real time between ticks (what a request, an accepted
  connection or a tick does is an event); the embedded web pages; how the \<^verbatim>\<open>flag\<close> package parses a command line, and the usage
  texts; what a database answers after it has been closed; the interleaving of steps within one transfer and within one
  HTTP handler, but for the goroutine that sends a gift.  These are outside of the sources or have no state that the code keeps.
\<close>

end
